(* ===== verification/Udirt_Prelude.thy ===== *)
theory Udirt_Prelude
  imports Main "HOL-Library.Word"
begin

unbundle bit_operations_syntax

text \<open>
  The base of the development: machine integer types, the outcome type of a C function,
  the outside world as an oracle of system-call results, and the generic lemmas that the
  component theories share.
\<close>

section \<open>Machine types and constants\<close>

type_synonym u8 = "8 word"
type_synonym u16 = "16 word"
type_synonym u32 = "32 word"
type_synonym u64 = "64 word"
type_synonym ptr = nat

abbreviation (input) NULL :: ptr where
  "NULL \<equiv> 0"

text \<open>The result codes of \<^verbatim>\<open>udirt.c\<close> lines 29 to 31.\<close>

definition RESULT_SUCCESS :: int where
  "RESULT_SUCCESS = 0"

definition RESULT_ERROR :: int where
  "RESULT_ERROR = - 1"

definition RESULT_FAILURE :: int where
  "RESULT_FAILURE = - 2"

lemmas result_defs = RESULT_SUCCESS_def RESULT_ERROR_def RESULT_FAILURE_def

section \<open>Outcomes of C functions\<close>

text \<open>
  \<open>Ret x\<close> is a normal return. \<open>Abort\<close> is a call of \<^verbatim>\<open>udi_abort\<close> or \<^verbatim>\<open>abort\<close>, which ends
  the process. \<open>Stuck\<close> says that the C program has no defined continuation: a null or
  dangling pointer is followed, an array is indexed out of range, or a loop never ends.
\<close>

datatype 'a run = Ret 'a | Abort | Stuck

primrec run_bind :: "'a run \<Rightarrow> ('a \<Rightarrow> 'b run) \<Rightarrow> 'b run" where
  "run_bind (Ret x) f = f x"
| "run_bind Abort f = Abort"
| "run_bind Stuck f = Stuck"

definition of_option :: "'a option \<Rightarrow> 'a run" where
  "of_option m = (case m of None \<Rightarrow> Stuck | Some x \<Rightarrow> Ret x)"

text \<open>Following a pointer into a heap of live objects.\<close>

definition deref :: "(ptr \<rightharpoonup> 'a) \<Rightarrow> ptr \<Rightarrow> 'a run" where
  "deref h p = (if p = NULL then Stuck else of_option (h p))"

named_theorems run_simps \<open>rewriting of outcomes\<close>

lemma of_option_simps [simp, run_simps]:
  "of_option None = Stuck"
  "of_option (Some x) = Ret x"
  by (simp_all add: of_option_def)

lemma of_option_eq_Ret [simp]: "of_option m = Ret x \<longleftrightarrow> m = Some x"
  by (cases m) simp_all

lemma of_option_not_Abort [simp]: "of_option m \<noteq> Abort"
  by (cases m) simp_all

lemma deref_eq_Ret [simp]: "deref h p = Ret x \<longleftrightarrow> p \<noteq> NULL \<and> h p = Some x"
  by (simp add: deref_def)

lemma deref_not_Abort [simp]: "deref h p \<noteq> Abort"
  by (simp add: deref_def)

lemma derefI [run_simps]: "p \<noteq> NULL \<Longrightarrow> h p = Some x \<Longrightarrow> deref h p = Ret x"
  by simp

lemma deref_NULL [simp, run_simps]: "deref h NULL = Stuck"
  by (simp add: deref_def)

lemma run_bind_eq_Ret:
  "run_bind m f = Ret y \<longleftrightarrow> (\<exists>x. m = Ret x \<and> f x = Ret y)"
  by (cases m) simp_all

lemma run_bind_Ret_E [elim]:
  assumes "run_bind m f = Ret y"
  obtains x where "m = Ret x" and "f x = Ret y"
  using assms by (auto simp: run_bind_eq_Ret)

lemma run_bind_eq_Abort:
  "run_bind m f = Abort \<longleftrightarrow> m = Abort \<or> (\<exists>x. m = Ret x \<and> f x = Abort)"
  by (cases m) simp_all

lemma run_bind_assoc: "run_bind (run_bind m f) g = run_bind m (\<lambda>x. run_bind (f x) g)"
  by (cases m) simp_all

lemma run_bind_Ret_right [simp]: "run_bind m Ret = m"
  by (cases m) simp_all

section \<open>The outside world\<close>

text \<open>
  The operating system and the allocator answer each request in an order the library does
  not control. The \<open>n\<close>-th answer is \<open>sys_oracle n\<close>: success with a value, or an error
  number. A theorem for every state is a theorem for every behaviour of the outside world.
\<close>

datatype sysret = SysOk nat | SysErr nat

record sys_state =
  sys_oracle :: "nat \<Rightarrow> sysret"
  sys_count :: nat

definition sys_call :: "'z sys_state_scheme \<Rightarrow> sysret \<times> 'z sys_state_scheme" where
  "sys_call s = (sys_oracle s (sys_count s), s\<lparr>sys_count := Suc (sys_count s)\<rparr>)"

text \<open>Errno of an answer: 0 on success, and never 0 after a failure.\<close>

primrec sys_errno :: "sysret \<Rightarrow> nat" where
  "sys_errno (SysOk v) = 0"
| "sys_errno (SysErr e) = max 1 e"

primrec sys_failed :: "sysret \<Rightarrow> bool" where
  "sys_failed (SysOk v) = False"
| "sys_failed (SysErr e) = True"

text \<open>
  An allocation of an object of a typed heap. The answer is any pointer that is not null
  and not live, so every behaviour that the contract of \<^verbatim>\<open>malloc\<close> allows is covered;
  every other answer is an allocation failure.
\<close>

definition alloc_ptr :: "(ptr \<rightharpoonup> 'a) \<Rightarrow> 'z sys_state_scheme \<Rightarrow> ptr \<times> 'z sys_state_scheme" where
  "alloc_ptr h s = (case sys_call s of (r, s') \<Rightarrow>
     (case r of SysOk p \<Rightarrow> (if h p = None then p else NULL) | SysErr e \<Rightarrow> NULL, s'))"

lemma alloc_ptr_fresh: "alloc_ptr h s = (p, s') \<Longrightarrow> p \<noteq> NULL \<Longrightarrow> h p = None"
  by (auto simp: alloc_ptr_def sys_call_def split: sysret.splits if_splits)

lemma alloc_ptr_state: "snd (alloc_ptr h s) = s\<lparr>sys_count := Suc (sys_count s)\<rparr>"
  by (auto simp: alloc_ptr_def sys_call_def split: sysret.splits)

section \<open>Shared lemmas on lists and words\<close>

lemma list_update_prefix:
  "length xs \<le> length ys \<Longrightarrow> length (xs @ drop (length xs) ys) = length ys"
  by simp

lemma nth_take_drop_append:
  "i < n \<Longrightarrow> n \<le> length xs \<Longrightarrow> (take n xs @ ys) ! i = xs ! i"
  by (simp add: nth_append)

lemma of_nat_word_inj:
  "i < 2 ^ LENGTH('a) \<Longrightarrow> j < 2 ^ LENGTH('a) \<Longrightarrow> (of_nat i :: 'a::len word) = of_nat j \<Longrightarrow> i = j"
  by (simp add: word_of_nat_eq_iff take_bit_nat_eq_self)

lemma add_of_nat_eq_iff:
  fixes a :: "'a::len word"
  assumes "i < 2 ^ LENGTH('a)" and "j < 2 ^ LENGTH('a)"
  shows "a + of_nat i = a + of_nat j \<longleftrightarrow> i = j"
  using assms by (auto dest: of_nat_word_inj)

lemma unat_drop_bit: "unat (drop_bit n (w :: 'a::len word)) = unat w div 2 ^ n"
proof -
  have "take_bit LENGTH('a) (unat w) = unat w"
    by (rule take_bit_nat_eq_self) (rule unsigned_less)
  then show ?thesis
    by (simp add: unsigned_drop_bit_eq drop_bit_eq_div [where ?'a = nat])
qed

end
