(* ===== verification/Environment.thy ===== *)
theory Environment
  imports Udirt_Prelude
begin

text \<open>
  The interfaces of the code outside the repository that libudirt calls: the CBOR library
  (streaming decoder, item builders, serializer), the udis86 disassembler, and the few
  constants and services of the C library. Only their data types are declared here. Their
  functions are fields of the record \<open>env\<close>, which the definitions that call them take as
  an argument, and the documented behaviour the code relies on is stated as predicates on
  that record.
\<close>

section \<open>CBOR\<close>

text \<open>The callback that one successful step of \<^verbatim>\<open>cbor_stream_decode\<close> makes.\<close>

datatype (plugins only: code size) cbor_event =
    Ev_uint8 u8 | Ev_uint16 u16 | Ev_uint32 u32 | Ev_uint64 u64
  | Ev_negint8 u8 | Ev_negint16 u16 | Ev_negint32 u32 | Ev_negint64 u64
  | Ev_byte_string_start | Ev_byte_string "u8 list"
  | Ev_string_start | Ev_string "u8 list"
  | Ev_indef_array_start | Ev_array_start u64
  | Ev_indef_map_start | Ev_map_start u64
  | Ev_tag u64 | Ev_float2 u32 | Ev_float4 u32 | Ev_float8 u64
  | Ev_undefined | Ev_null | Ev_boolean bool | Ev_indef_break

text \<open>
  \<^verbatim>\<open>struct cbor_decoder_result\<close>: an error, the total number of bytes required, or the
  callback made.
\<close>

datatype decoder_result =
    CBOR_DECODER_ERROR
  | CBOR_DECODER_NEDATA nat
  | CBOR_DECODER_FINISHED cbor_event

text \<open>
  The items the library builds. A definite map or array keeps the capacity it was created
  with beside its contents. A negative integer keeps the raw 32-bit payload stored by
  \<^verbatim>\<open>cbor_set_uint32\<close>.
\<close>

datatype cbor_item =
    CUint16 u16 | CUint32 u32 | CUint64 u64 | CNegint32 u32
  | CBool bool | CString string | CBytes "u8 list"
  | CMap nat "(cbor_item \<times> cbor_item) list"
  | CArray nat "cbor_item list"

section \<open>The disassembler\<close>

datatype (plugins only: code size) ud_type_t =
    UD_NONE
  | UD_R_AL | UD_R_AH | UD_R_AX | UD_R_EAX | UD_R_RAX
  | UD_R_CL | UD_R_CH | UD_R_CX | UD_R_ECX | UD_R_RCX
  | UD_R_DL | UD_R_DH | UD_R_DX | UD_R_EDX | UD_R_RDX
  | UD_R_BL | UD_R_BH | UD_R_BX | UD_R_EBX | UD_R_RBX
  | UD_R_RIP
  | UD_R_SPL | UD_R_SP | UD_R_ESP | UD_R_RSP
  | UD_R_BPL | UD_R_BP | UD_R_EBP | UD_R_RBP
  | UD_R_SIL | UD_R_SI | UD_R_ESI | UD_R_RSI
  | UD_R_DIL | UD_R_DI | UD_R_EDI | UD_R_RDI
  | UD_R_R8B | UD_R_R8W | UD_R_R8D | UD_R_R8
  | UD_R_R9B | UD_R_R9W | UD_R_R9D | UD_R_R9
  | UD_R_R10B | UD_R_R10W | UD_R_R10D | UD_R_R10
  | UD_R_R11B | UD_R_R11W | UD_R_R11D | UD_R_R11
  | UD_R_R12B | UD_R_R12W | UD_R_R12D | UD_R_R12
  | UD_R_R13B | UD_R_R13W | UD_R_R13D | UD_R_R13
  | UD_R_R14B | UD_R_R14W | UD_R_R14D | UD_R_R14
  | UD_R_R15B | UD_R_R15W | UD_R_R15D | UD_R_R15
  | UD_R_other

text \<open>
  The mnemonics that the code tells apart. \<open>UD_Ifar\<close> stands for all those that leave the program by other means than a near
  transfer (far returns, interrupts, returns from them, system calls), \<open>UD_Iother\<close> for those that go on with the next instruction.
\<close>

datatype (plugins only: code size) ud_mnemonic =
    UD_Icall | UD_Ijmp
  | UD_Ijo | UD_Ijno | UD_Ijb | UD_Ijae | UD_Ijz | UD_Ijnz | UD_Ijbe | UD_Ija
  | UD_Ijs | UD_Ijns | UD_Ijp | UD_Ijnp | UD_Ijl | UD_Ijge | UD_Ijle | UD_Ijg
  | UD_Ijcxz | UD_Ijecxz | UD_Ijrcxz
  | UD_Iloopne | UD_Iloope | UD_Iloop
  | UD_Iret | UD_Ifar | UD_Iother

datatype ud_op_type = UD_OP_REG | UD_OP_MEM | UD_OP_JIMM | UD_OP_other

text \<open>An operand; the union \<^verbatim>\<open>lval\<close> is kept as its 64 raw bits.\<close>

record ud_operand =
  op_type :: ud_op_type
  op_size :: nat
  op_base :: ud_type_t
  op_index :: ud_type_t
  op_scale :: u8
  op_offset :: nat
  op_lval :: u64

record ud_insn =
  ud_mnemonic :: ud_mnemonic
  ud_operand0 :: ud_operand
  ud_insn_len :: nat
  ud_pc :: u64

section \<open>The environment record\<close>

text \<open>
  \<open>env_strerror\<close> is \<^verbatim>\<open>strerror_r\<close>; \<open>env_pagesize\<close> is \<^verbatim>\<open>sysconf(_SC_PAGESIZE)\<close>; \<open>env_garbage\<close>
  is the indeterminate content of a message buffer that was never written;
  \<open>env_cbor_decode\<close> and \<open>env_cbor_serialize\<close> are \<^verbatim>\<open>cbor_stream_decode\<close> and
  \<^verbatim>\<open>cbor_serialize_alloc\<close> (the empty list is the returned length 0);
  \<open>env_cbor_add\<close> is the result of \<^verbatim>\<open>cbor_map_add\<close> or \<^verbatim>\<open>cbor_array_push\<close> on a container;
  \<open>env_disassemble\<close> is \<^verbatim>\<open>ud_disassemble\<close> on the 15 bytes at an address;
  \<open>env_exit_addr\<close> is the address of the C library's \<^verbatim>\<open>exit\<close>.
\<close>

record env =
  env_strerror :: "nat \<Rightarrow> string"
  env_pagesize :: u64
  env_garbage :: string
  env_cbor_decode :: "u8 list \<Rightarrow> decoder_result"
  env_cbor_serialize :: "cbor_item \<Rightarrow> u8 list"
  env_cbor_add :: "cbor_item \<Rightarrow> bool"
  env_disassemble :: "(u64 \<Rightarrow> u8) \<Rightarrow> u64 \<Rightarrow> ud_insn option"
  env_exit_addr :: u64

text \<open>
  Documented behaviour of the CBOR library: a decoder that needs data asks for more bytes
  than it was given.
\<close>

definition decoder_progress :: "env \<Rightarrow> bool" where
  "decoder_progress E \<longleftrightarrow> (\<forall>bs n. env_cbor_decode E bs = CBOR_DECODER_NEDATA n \<longrightarrow> length bs < n)"

text \<open>Adding to a definite map or array succeeds while there is room.\<close>

definition builders_ok :: "env \<Rightarrow> bool" where
  "builders_ok E \<longleftrightarrow>
     (\<forall>n ps. length ps < n \<longrightarrow> env_cbor_add E (CMap n ps)) \<and>
     (\<forall>n xs. length xs < n \<longrightarrow> env_cbor_add E (CArray n xs))"

text \<open>Every item has a nonempty serialization (allocation failure apart).\<close>

definition serializer_ok :: "env \<Rightarrow> bool" where
  "serializer_ok E \<longleftrightarrow> (\<forall>it. env_cbor_serialize E it \<noteq> [])"

text \<open>The disassembler leaves its program counter behind the instruction it decoded.\<close>

definition disassembler_ok :: "env \<Rightarrow> bool" where
  "disassembler_ok E \<longleftrightarrow>
     (\<forall>m pc insn. env_disassemble E m pc = Some insn \<longrightarrow> ud_pc insn = pc + of_nat (ud_insn_len insn))"

section \<open>Building items\<close>

text \<open>
  \<^verbatim>\<open>cbor_map_add\<close> followed by \<^verbatim>\<open>assert(add_result)\<close>, and the sequences of them the
  handlers make; a failed assertion aborts the process.
\<close>

fun cbor_map_adds :: "env \<Rightarrow> nat \<Rightarrow> (cbor_item \<times> cbor_item) list \<Rightarrow> (cbor_item \<times> cbor_item) list \<Rightarrow> cbor_item run" where
  "cbor_map_adds E n acc [] = Ret (CMap n acc)"
| "cbor_map_adds E n acc (p # ps) =
     (if env_cbor_add E (CMap n acc) then cbor_map_adds E n (acc @ [p]) ps else Abort)"

definition cbor_build_map :: "env \<Rightarrow> nat \<Rightarrow> (string \<times> cbor_item) list \<Rightarrow> cbor_item run" where
  "cbor_build_map E n ps = cbor_map_adds E n [] (map (\<lambda>(k, v). (CString k, v)) ps)"

definition cbor_map_of :: "nat \<Rightarrow> (string \<times> cbor_item) list \<Rightarrow> cbor_item" where
  "cbor_map_of n ps = CMap n (map (\<lambda>(k, v). (CString k, v)) ps)"

lemma cbor_map_adds_ok:
  "builders_ok E \<Longrightarrow> length acc + length ps \<le> n \<Longrightarrow>
     cbor_map_adds E n acc ps = Ret (CMap n (acc @ ps))"
  by (induction ps arbitrary: acc) (auto simp: builders_ok_def)

lemma cbor_build_map_ok:
  "builders_ok E \<Longrightarrow> length ps \<le> n \<Longrightarrow> cbor_build_map E n ps = Ret (cbor_map_of n ps)"
  by (simp add: cbor_build_map_def cbor_map_of_def cbor_map_adds_ok)

lemma cbor_map_adds_not_Stuck: "cbor_map_adds E n acc ps \<noteq> Stuck"
  by (induction ps arbitrary: acc) auto

lemma cbor_build_map_not_Stuck [simp]: "cbor_build_map E n ps \<noteq> Stuck"
  by (simp add: cbor_build_map_def cbor_map_adds_not_Stuck)

section \<open>A concrete environment\<close>

text \<open>
  An instance for the concrete examples: pages of 4 kB, a decoder that knows single-byte
  unsigned integers, a serializer that writes one break byte, containers that refuse to grow
  past their capacity, and no instruction that can be decoded.
\<close>

definition sample_env :: env where
  "sample_env =
     \<lparr>env_strerror = (\<lambda>_. ''error''),
      env_pagesize = 4096,
      env_garbage = '''',
      env_cbor_decode = (\<lambda>bs. case bs of [] \<Rightarrow> CBOR_DECODER_NEDATA 1
        | b # _ \<Rightarrow> if b < 24 then CBOR_DECODER_FINISHED (Ev_uint8 b) else CBOR_DECODER_ERROR),
      env_cbor_serialize = (\<lambda>_. [0xff]),
      env_cbor_add = (\<lambda>it. case it of CMap n ps \<Rightarrow> length ps < n | CArray n xs \<Rightarrow> length xs < n | _ \<Rightarrow> False),
      env_disassemble = (\<lambda>_ _. None),
      env_exit_addr = 0x7f0000001000\<rparr>"

lemma sample_env_ok:
  "decoder_progress sample_env" "builders_ok sample_env" "serializer_ok sample_env"
  "env_pagesize sample_env = 4096" "env_exit_addr sample_env = 0x7f0000001000"
  by (auto simp: sample_env_def decoder_progress_def builders_ok_def serializer_ok_def split: list.splits if_splits)

end
