(* ===== verification/Formatting.thy ===== *)
theory Formatting
  imports Environment "HOL-Library.Signed_Division"
begin

text \<open>
  The signal-safe formatted output of \<^verbatim>\<open>udirt.c\<close> (lines 500 to 697): the conversion
  functions over an output callback, the interpreter of format strings, and
  \<^verbatim>\<open>udi_formatted_str\<close>, which formats into a bounded buffer. The main results are that
  the callback interpreter factors through the list of chunks it emits, that the decimal
  and hexadecimal conversions can be read back, and that formatting into a buffer writes
  the truncated text and its terminator inside the buffer.
\<close>

section \<open>Definitions\<close>

subsection \<open>Conversions\<close>

type_synonym 'c format_cb = "'c \<Rightarrow> string \<Rightarrow> 'c"

abbreviation NUL :: char where
  "NUL \<equiv> CHR 0x00"

text \<open>A C string ends at its first NUL.\<close>

definition c_str :: "string \<Rightarrow> string" where
  "c_str s = takeWhile (\<lambda>c. c \<noteq> NUL) s"

text \<open>The value of an expression of type \<^verbatim>\<open>int\<close>: 32-bit two's complement.\<close>

definition c_int :: "int \<Rightarrow> int" where
  "c_int x = signed_take_bit 31 x"

definition digit_char :: "int \<Rightarrow> char" where
  "digit_char d = char_of (nat (d + 48))"

text \<open>The \<^verbatim>\<open>do\<close> loop of \<^verbatim>\<open>udi_log_integer\<close>, which fills \<^verbatim>\<open>buf\<close> from the last digit on.\<close>

function log_digits :: "nat \<Rightarrow> int \<Rightarrow> string \<Rightarrow> string" where
  "log_digits i value buf =
     (let buf' = buf @ [digit_char (value smod 10)]; value' = value sdiv 10
      in if Suc i < 10 \<and> value' > 0 then log_digits (Suc i) value' buf' else buf')"
  by pat_completeness auto
termination
  by (relation "measure (\<lambda>(i, value, buf). 10 - i)") auto

declare log_digits.simps [simp del]

definition udi_log_integer :: "'c format_cb \<Rightarrow> 'c \<Rightarrow> int \<Rightarrow> 'c" where
  "udi_log_integer cb ctx value =
     (let sign = (value < 0);
          value = (if sign then c_int (- value) else value);
          buf = log_digits 0 value [];
          ctx = (if sign then cb ctx ''-'' else ctx)
      in fold (\<lambda>c x. cb x [c]) (rev buf) ctx)"

definition udi_log_nibble :: "'c format_cb \<Rightarrow> 'c \<Rightarrow> u8 \<Rightarrow> 'c" where
  "udi_log_nibble cb ctx nibble =
     cb ctx [if nibble < 10 then char_of (unat (nibble + 48))
             else char_of (unat ((nibble - 10) + 97))]"

definition udi_log_byte :: "'c format_cb \<Rightarrow> 'c \<Rightarrow> u8 \<Rightarrow> 'c" where
  "udi_log_byte cb ctx byte =
     udi_log_nibble cb (udi_log_nibble cb ctx (drop_bit 4 (byte AND 0xf0))) (byte AND 0x0f)"

function log_64bit_loop :: "'c format_cb \<Rightarrow> 'c \<Rightarrow> u64 \<Rightarrow> nat \<Rightarrow> 'c" where
  "log_64bit_loop cb ctx address shift =
     (if shift > 0
      then log_64bit_loop cb (udi_log_byte cb ctx (ucast (drop_bit shift address) AND 0xff))
             address (shift - 8)
      else udi_log_byte cb ctx (ucast address AND 0xff))"
  by pat_completeness auto
termination
  by (relation "measure (\<lambda>(cb, ctx, address, shift). shift)") auto

declare log_64bit_loop.simps [simp del]

definition udi_log_64bit :: "'c format_cb \<Rightarrow> 'c \<Rightarrow> u64 \<Rightarrow> 'c" where
  "udi_log_64bit cb ctx address = log_64bit_loop cb ctx address 56"

definition udi_log_address :: "'c format_cb \<Rightarrow> 'c \<Rightarrow> u64 \<Rightarrow> 'c" where
  "udi_log_address cb ctx address = udi_log_64bit cb (cb ctx ''0x'') address"

definition udi_log_string :: "'c format_cb \<Rightarrow> 'c \<Rightarrow> string \<Rightarrow> 'c" where
  "udi_log_string cb ctx str = cb ctx (c_str str)"

definition udi_log_size_t :: "'c format_cb \<Rightarrow> 'c \<Rightarrow> u64 \<Rightarrow> 'c" where
  "udi_log_size_t cb ctx value = udi_log_integer cb ctx (sint (ucast value :: u32))"

definition udi_log_error :: "env \<Rightarrow> 'c format_cb \<Rightarrow> 'c \<Rightarrow> int \<Rightarrow> 'c" where
  "udi_log_error E cb ctx error = udi_log_string cb ctx (env_strerror E (nat error))"

subsection \<open>Format strings\<close>

text \<open>
  The variable arguments. A 64-bit slot read as \<^verbatim>\<open>int\<close> gives its low 32 bits, as the
  calling convention does; every other mismatch has no defined value.
\<close>

datatype log_arg = ArgU64 u64 | ArgInt int | ArgStr string

fun va_u64 :: "log_arg \<Rightarrow> u64 option" where
  "va_u64 (ArgU64 w) = Some w"
| "va_u64 _ = None"

fun va_int :: "log_arg \<Rightarrow> int option" where
  "va_int (ArgInt i) = Some i"
| "va_int (ArgU64 w) = Some (sint (ucast w :: u32))"
| "va_int (ArgStr _) = None"

fun va_str :: "log_arg \<Rightarrow> string option" where
  "va_str (ArgStr s) = Some s"
| "va_str _ = None"

text \<open>
  One placeholder: the callback state after it and the arguments left. \<open>None\<close> is
  undefined behaviour: an argument is missing or has the wrong type.
\<close>

fun log_placeholder :: "env \<Rightarrow> 'c format_cb \<Rightarrow> 'c \<Rightarrow> char \<Rightarrow> log_arg list \<Rightarrow> ('c \<times> log_arg list) option" where
  "log_placeholder E cb ctx f args =
     (if f = CHR ''a'' then
        (case args of [] \<Rightarrow> None | x # xs \<Rightarrow> map_option (\<lambda>v. (udi_log_address cb ctx v, xs)) (va_u64 x))
      else if f = CHR ''e'' then
        (case args of [] \<Rightarrow> None | x # xs \<Rightarrow> map_option (\<lambda>v. (udi_log_error E cb ctx v, xs)) (va_int x))
      else if f = CHR ''s'' then
        (case args of [] \<Rightarrow> None | x # xs \<Rightarrow> map_option (\<lambda>v. (udi_log_string cb ctx v, xs)) (va_str x))
      else if f = CHR ''d'' then
        (case args of [] \<Rightarrow> None | x # xs \<Rightarrow> map_option (\<lambda>v. (udi_log_integer cb ctx v, xs)) (va_int x))
      else if f = CHR ''b'' then
        (case args of [] \<Rightarrow> None | x # xs \<Rightarrow> map_option (\<lambda>v. (udi_log_byte cb ctx (word_of_int v), xs)) (va_int x))
      else if f = CHR ''l'' then
        (case args of [] \<Rightarrow> None | x # xs \<Rightarrow> map_option (\<lambda>v. (udi_log_size_t cb ctx v, xs)) (va_u64 x))
      else if f = CHR ''x'' then
        (case args of [] \<Rightarrow> None | x # xs \<Rightarrow> map_option (\<lambda>v. (udi_log_64bit cb ctx v, xs)) (va_u64 x))
      else Some (cb ctx [f], args))"

declare log_placeholder.simps [simp del]

text \<open>A format that ends in a lone percent sign is read past its terminator.\<close>

fun udi_log_varargs :: "env \<Rightarrow> 'c format_cb \<Rightarrow> 'c \<Rightarrow> string \<Rightarrow> log_arg list \<Rightarrow> 'c option" where
  "udi_log_varargs E cb ctx [] args = Some ctx"
| "udi_log_varargs E cb ctx (c # fs) args =
     (if c \<noteq> CHR ''%'' then udi_log_varargs E cb (cb ctx [c]) fs args
      else (case fs of
              [] \<Rightarrow> None
            | f # fs' \<Rightarrow>
                (case log_placeholder E cb ctx f args of
                   None \<Rightarrow> None
                 | Some (ctx', args') \<Rightarrow> udi_log_varargs E cb ctx' fs' args')))"

subsection \<open>Output to the log and to a buffer\<close>

text \<open>
  \<^verbatim>\<open>write_log\<close> appends to the log file; here the log is the text written so far.
\<close>

definition write_log :: "string \<Rightarrow> string \<Rightarrow> string" where
  "write_log out data = out @ data"

definition udi_log_formatted :: "env \<Rightarrow> string \<Rightarrow> string \<Rightarrow> string \<Rightarrow> int \<Rightarrow> log_arg list \<Rightarrow> string option" where
  "udi_log_formatted E out format file line args =
     (let out = udi_log_string write_log out file;
          out = write_log out ''['';
          out = udi_log_integer write_log out line;
          out = write_log out '']'';
          out = write_log out '':'';
          out = write_log out '' ''
      in map_option (\<lambda>out. write_log out [CHR 0x0A]) (udi_log_varargs E write_log out format args))"

definition udi_log_formatted_noprefix :: "env \<Rightarrow> string \<Rightarrow> string \<Rightarrow> log_arg list \<Rightarrow> string option" where
  "udi_log_formatted_noprefix E out format args = udi_log_varargs E write_log out format args"

text \<open>
  The macro \<^verbatim>\<open>udi_log\<close>, with the switch of the log and the place of the call as arguments, and a
  sequence of its calls: file, line, format and arguments of each.
\<close>

definition udi_log :: "env \<Rightarrow> bool \<Rightarrow> string \<Rightarrow> int \<Rightarrow> string \<Rightarrow> log_arg list \<Rightarrow> string \<Rightarrow> string option" where
  "udi_log E udi_debug_on file line format args out =
     (if udi_debug_on then udi_log_formatted E out format file line args else Some out)"

fun udi_logs :: "env \<Rightarrow> bool \<Rightarrow> (string \<times> int \<times> string \<times> log_arg list) list \<Rightarrow> string \<Rightarrow> string option" where
  "udi_logs E udi_debug_on [] out = Some out"
| "udi_logs E udi_debug_on ((file, line, format, args) # calls) out =
     Option.bind (udi_log E udi_debug_on file line format args out) (udi_logs E udi_debug_on calls)"

record str_ctx =
  sc_str :: string
  sc_size :: nat
  sc_idx :: nat

definition write_string :: "str_ctx \<Rightarrow> string \<Rightarrow> str_ctx" where
  "write_string ctx data =
     (let copy_len = (if sc_idx ctx + length data > sc_size ctx
                      then sc_size ctx - sc_idx ctx else length data)
      in if copy_len > 0
         then ctx\<lparr>sc_str := take (sc_idx ctx) (sc_str ctx) @ take copy_len data
                              @ drop (sc_idx ctx + copy_len) (sc_str ctx),
                  sc_idx := sc_idx ctx + copy_len\<rparr>
         else ctx)"

text \<open>The size less one is computed in an unsigned type: it wraps for the size 0.\<close>

definition udi_formatted_str :: "env \<Rightarrow> string \<Rightarrow> nat \<Rightarrow> string \<Rightarrow> log_arg list \<Rightarrow> string option" where
  "udi_formatted_str E str sz format args =
     map_option (\<lambda>ctx. (sc_str ctx)[sc_idx ctx := NUL])
       (udi_log_varargs E write_string
          \<lparr>sc_str = str, sc_size = (if sz = 0 then 2 ^ 64 - 1 else sz - 1), sc_idx = 0\<rparr> format args)"

subsection \<open>Error messages\<close>

definition ERRMSG_SIZE :: nat where
  "ERRMSG_SIZE = 4096"

text \<open>
  \<^verbatim>\<open>udi_errmsg\<close>: the text of the message, \<open>None\<close> while it is indeterminate (never
  written, or written by a call with undefined behaviour).
\<close>

record msg_state = sys_state +
  errmsg :: "string option"

definition udi_set_errmsg :: "env \<Rightarrow> string \<Rightarrow> log_arg list \<Rightarrow> 'z msg_state_scheme \<Rightarrow> 'z msg_state_scheme" where
  "udi_set_errmsg E format args s =
     s\<lparr>errmsg := map_option c_str
         (udi_formatted_str E (replicate ERRMSG_SIZE NUL) ERRMSG_SIZE format args)\<rparr>"

definition errmsg_text :: "env \<Rightarrow> 'z msg_state_scheme \<Rightarrow> string" where
  "errmsg_text E s = (case errmsg s of None \<Rightarrow> env_garbage E | Some m \<Rightarrow> m)"

section \<open>Independence of the output callback\<close>

text \<open>
  The conversions only touch their context through the callback, so a map that commutes
  with two callbacks commutes with the whole formatter. The locale states that contract of
  \<^verbatim>\<open>format_cb\<close>.
\<close>

locale cb_morphism =
  fixes cb1 :: "'a format_cb" and cb2 :: "'b format_cb" and h :: "'a \<Rightarrow> 'b"
  assumes cb_commute: "h (cb1 x c) = cb2 (h x) c"
begin

lemma fold_chars: "h (fold (\<lambda>c x. cb1 x [c]) cs x) = fold (\<lambda>c x. cb2 x [c]) cs (h x)"
  by (induction cs arbitrary: x) (simp_all add: cb_commute)

lemma integer: "h (udi_log_integer cb1 x v) = udi_log_integer cb2 (h x) v"
  by (simp add: udi_log_integer_def Let_def fold_chars cb_commute)

lemma nibble: "h (udi_log_nibble cb1 x v) = udi_log_nibble cb2 (h x) v"
  by (simp add: udi_log_nibble_def cb_commute)

lemma byte: "h (udi_log_byte cb1 x v) = udi_log_byte cb2 (h x) v"
  by (simp add: udi_log_byte_def nibble)

lemma loop_64bit: "h (log_64bit_loop cb1 x a n) = log_64bit_loop cb2 (h x) a n"
proof (induction n arbitrary: x rule: less_induct)
  case (less n)
  then show ?case
    by (simp add: log_64bit_loop.simps [of _ _ _ n] byte)
qed

lemma address: "h (udi_log_address cb1 x v) = udi_log_address cb2 (h x) v"
  by (simp add: udi_log_address_def udi_log_64bit_def loop_64bit cb_commute)

lemma str: "h (udi_log_string cb1 x v) = udi_log_string cb2 (h x) v"
  by (simp add: udi_log_string_def cb_commute)

lemma placeholder:
  "log_placeholder E cb2 (h x) f args =
     map_option (\<lambda>(y, xs). (h y, xs)) (log_placeholder E cb1 x f args)"
  by (auto simp: log_placeholder.simps integer byte address str cb_commute loop_64bit
      udi_log_error_def udi_log_size_t_def udi_log_64bit_def option.map_comp o_def split: list.splits)

lemma varargs:
  "udi_log_varargs E cb2 (h x) fmt args = map_option h (udi_log_varargs E cb1 x fmt args)"
proof (induction fmt arbitrary: x args rule: length_induct)
  case (1 fmt)
  show ?case
  proof (cases fmt)
    case Nil
    then show ?thesis by simp
  next
    case (Cons c fs)
    then have IH: "udi_log_varargs E cb2 (h x) gs args = map_option h (udi_log_varargs E cb1 x gs args)"
      if "length gs \<le> length fs" for x gs args
      using 1 that by simp
    show ?thesis
    proof (cases "c = CHR ''%''")
      case False
      with IH [of fs "cb1 x [c]"] Cons show ?thesis by (simp add: cb_commute)
    next
      case True
      with Cons show ?thesis
        by (auto simp: placeholder IH split: list.splits option.splits)
    qed
  qed
qed

end

section \<open>Formatting into a buffer\<close>

text \<open>
  The buffer context after the text \<open>out\<close> was written: it holds as much of the text as
  fits before the old contents. Filling commutes with writing, so the buffer formatter is
  the log formatter followed by a truncation.
\<close>

definition fill :: "string \<Rightarrow> nat \<Rightarrow> string \<Rightarrow> str_ctx" where
  "fill str sz out =
     (let m = min sz (length out)
      in \<lparr>sc_str = take m out @ drop m str, sc_size = sz, sc_idx = m\<rparr>)"

interpretation buf: cb_morphism write_log write_string "fill str sz" for str sz
proof
  fix out data
  show "fill str sz (write_log out data) = write_string (fill str sz out) data"
    by (auto simp: fill_def write_log_def write_string_def Let_def min_def)
qed

interpretation log: cb_morphism write_log write_log "\<lambda>out. pre @ out" for pre
  by unfold_locales (simp add: write_log_def)

text \<open>The unbounded text of a format.\<close>

definition format_text :: "env \<Rightarrow> string \<Rightarrow> log_arg list \<Rightarrow> string option" where
  "format_text E format args = udi_log_varargs E write_log [] format args"

lemma fill_Nil: "fill str sz [] = \<lparr>sc_str = str, sc_size = sz, sc_idx = 0\<rparr>"
  by (simp add: fill_def)

lemma udi_formatted_str_text:
  assumes "0 < sz"
  shows "udi_formatted_str E str sz format args =
     map_option (\<lambda>text. let m = min (sz - 1) (length text)
                        in (take m text @ drop m str)[m := NUL])
       (format_text E format args)"
proof -
  have "udi_log_varargs E write_string \<lparr>sc_str = str, sc_size = sz - 1, sc_idx = 0\<rparr> format args
      = map_option (fill str (sz - 1)) (format_text E format args)"
    using buf.varargs [of E str "sz - 1" "[]" format args] by (simp add: fill_Nil format_text_def)
  then show ?thesis
    using assms by (simp add: udi_formatted_str_def option.map_comp o_def fill_def Let_def)
qed

lemma log_noprefix_text:
  "udi_log_formatted_noprefix E out format args = map_option (\<lambda>text. out @ text) (format_text E format args)"
  using log.varargs [of E out "[]" format args]
  by (simp add: udi_log_formatted_noprefix_def format_text_def)

lemma c_str_append_NUL: "NUL \<notin> set xs \<Longrightarrow> c_str (xs @ NUL # ys) = xs"
  by (induction xs) (auto simp: c_str_def)

lemma c_str_id: "NUL \<notin> set xs \<Longrightarrow> c_str xs = xs"
  by (auto simp: c_str_def takeWhile_eq_all_conv)

lemma drop_update_append:
  "m = length xs \<Longrightarrow> m < length ys \<Longrightarrow> (xs @ drop m ys)[m := z] = xs @ z # drop (Suc m) ys"
  by (simp add: list_update_append Cons_nth_drop_Suc [symmetric])

lemma formatted_buffer:
  assumes "0 < sz" and "sz \<le> length str" and "NUL \<notin> set text"
    and "m = min (sz - 1) (length text)"
  shows "length ((take m text @ drop m str)[m := NUL]) = length str"
    and "c_str ((take m text @ drop m str)[m := NUL]) = take (sz - 1) text"
    and "drop sz ((take m text @ drop m str)[m := NUL]) = drop sz str"
proof -
  have m: "m < length str" "m \<le> length text" "m < sz"
    using assms by auto
  have eq: "(take m text @ drop m str)[m := NUL] = take m text @ NUL # drop (Suc m) str"
    using m by (intro drop_update_append) auto
  show "length ((take m text @ drop m str)[m := NUL]) = length str"
    using m by simp
  have "NUL \<notin> set (take m text)"
    using assms(3) by (meson in_set_takeD)
  then have "c_str ((take m text @ drop m str)[m := NUL]) = take m text"
    unfolding eq by (rule c_str_append_NUL)
  also have "\<dots> = take (sz - 1) text"
    using assms(4) by (simp add: min_def)
  finally show "c_str ((take m text @ drop m str)[m := NUL]) = take (sz - 1) text" .
  have "drop sz (take m text @ NUL # drop (Suc m) str) = drop (sz - m) (NUL # drop (Suc m) str)"
    using m by simp
  also have "sz - m = Suc (sz - Suc m)"
    using m by simp
  also have "drop (Suc (sz - Suc m)) (NUL # drop (Suc m) str) = drop sz str"
    using m by simp
  finally show "drop sz ((take m text @ drop m str)[m := NUL]) = drop sz str"
    by (simp add: eq)
qed

section \<open>Reading the conversions back\<close>

subsection \<open>Decimal\<close>

text \<open>The value of a decimal numeral, and of one with an optional sign.\<close>

definition dec_value :: "string \<Rightarrow> int" where
  "dec_value cs = foldl (\<lambda>n c. 10 * n + (int (of_char c) - 48)) 0 cs"

fun read_dec :: "string \<Rightarrow> int" where
  "read_dec [] = 0"
| "read_dec (c # cs) = (if c = CHR ''-'' then - dec_value cs else dec_value (c # cs))"

lemma dec_value_snoc: "dec_value (cs @ [c]) = 10 * dec_value cs + (int (of_char c) - 48)"
  by (simp add: dec_value_def)

lemma of_char_digit: "0 \<le> d \<Longrightarrow> d < 10 \<Longrightarrow> int (of_char (digit_char d)) = d + 48"
  by (simp add: digit_char_def of_char_of)

lemma sdiv_smod_nonneg:
  "(0::int) \<le> v \<Longrightarrow> v sdiv 10 = v div 10"
  "(0::int) \<le> v \<Longrightarrow> v smod 10 = v mod 10"
  by (auto simp: signed_divide_int_def signed_modulo_int_def sgn_if minus_div_mult_eq_mod)

text \<open>The digit loop is complete below \<open>10 ^ (10 - i)\<close> and never yields a sign.\<close>

lemma log_digits_value:
  assumes "0 \<le> v" and "v < 10 ^ (10 - i)" and "i < 10"
  shows "\<exists>ds. log_digits i v buf = buf @ ds \<and> dec_value (rev ds) = v \<and> ds \<noteq> [] \<and>
           set ds \<subseteq> digit_char ` {0..9}"
  using assms
proof (induction i v buf rule: log_digits.induct)
  case (1 i v buf)
  let ?d = "digit_char (v mod 10)"
  have d: "int (of_char ?d) - 48 = v mod 10" and dset: "?d \<in> digit_char ` {0..9}"
    by (simp_all add: of_char_digit)
  show ?case
  proof (cases "Suc i < 10 \<and> v div 10 > 0")
    case True
    have "(10::int) ^ (10 - i) = 10 * 10 ^ (10 - Suc i)"
      using "1.prems"(3) by (simp flip: power_Suc add: Suc_diff_Suc)
    then have "v div 10 < 10 ^ (10 - Suc i)"
      using "1.prems"(2) by auto
    then have "\<exists>ds. log_digits (Suc i) (v div 10) (buf @ [?d]) = (buf @ [?d]) @ ds \<and>
        dec_value (rev ds) = v div 10 \<and> ds \<noteq> [] \<and> set ds \<subseteq> digit_char ` {0..9}"
      using "1.IH" [OF refl refl] True "1.prems" by (simp add: sdiv_smod_nonneg)
    then obtain ds where ds: "log_digits (Suc i) (v div 10) (buf @ [?d]) = (buf @ [?d]) @ ds"
        "dec_value (rev ds) = v div 10" "set ds \<subseteq> digit_char ` {0..9}"
      by blast
    have "dec_value (rev (?d # ds)) = v"
      using ds(2) d by (simp add: dec_value_snoc)
    moreover have "log_digits i v buf = buf @ (?d # ds)"
      using True ds(1) "1.prems"(1) by (simp add: log_digits.simps [of i v] sdiv_smod_nonneg)
    ultimately show ?thesis
      using ds(3) dset by (intro exI [of _ "?d # ds"]) auto
  next
    case False
    have "v < 10"
    proof (cases "Suc i < 10")
      case True
      with False have "v div 10 \<le> 0" by simp
      then show ?thesis by simp
    next
      case False
      with "1.prems"(3) have "10 - i = 1" by simp
      with "1.prems"(2) show ?thesis by simp
    qed
    then have "v div 10 = 0" "v mod 10 = v"
      using "1.prems"(1) by simp_all
    then have "log_digits i v buf = buf @ [?d]"
      using "1.prems"(1) by (simp add: log_digits.simps [of i v] sdiv_smod_nonneg)
    moreover have "dec_value (rev [?d]) = v"
      using d \<open>v mod 10 = v\<close> by (simp add: dec_value_def)
    ultimately show ?thesis
      using dset by (intro exI [of _ "[?d]"]) auto
  qed
qed

lemma fold_write_log: "fold (\<lambda>c x. write_log x [c]) cs out = out @ cs"
  by (induction cs arbitrary: out) (simp_all add: write_log_def)

lemma c_int_id: "- (2 ^ 31) \<le> x \<Longrightarrow> x < 2 ^ 31 \<Longrightarrow> c_int x = x"
  by (simp add: c_int_def signed_take_bit_int_eq_self)

lemma digit_char_not_special:
  "c \<in> digit_char ` {0..9} \<Longrightarrow> c \<noteq> CHR ''-'' \<and> c \<noteq> NUL"
proof -
  assume "c \<in> digit_char ` {0..9}"
  then obtain d where d: "c = digit_char d" "0 \<le> d" "d < 10" by auto
  then have "int (of_char c) = d + 48" by (simp add: of_char_digit)
  then show ?thesis using d(2) by auto
qed

text \<open>The text of an integer: an optional sign and the digits of its absolute value.\<close>

lemma log_integer_text:
  assumes "- (2 ^ 31) < v" and "v < 2 ^ 31"
  obtains ds where "udi_log_integer write_log [] v = (if v < 0 then ''-'' else []) @ rev ds"
    and "dec_value (rev ds) = \<bar>v\<bar>" and "ds \<noteq> []" and "set ds \<subseteq> digit_char ` {0..9}"
proof -
  have "\<bar>v\<bar> < 10 ^ (10 - 0)" "c_int (- v) = - v"
    using assms by (auto intro: c_int_id)
  then obtain ds where ds: "log_digits 0 \<bar>v\<bar> [] = ds" "dec_value (rev ds) = \<bar>v\<bar>" "ds \<noteq> []"
      "set ds \<subseteq> digit_char ` {0..9}"
    using log_digits_value [of "\<bar>v\<bar>" 0 "[]"] by auto
  have "udi_log_integer write_log [] v = (if v < 0 then ''-'' else []) @ rev ds"
    using ds(1) \<open>c_int (- v) = - v\<close>
    by (auto simp: udi_log_integer_def Let_def fold_write_log write_log_def [of "[]"] abs_if)
  with ds that show thesis by blast
qed

lemma read_dec_log_integer:
  assumes "- (2 ^ 31) < v" and "v < 2 ^ 31"
  shows "read_dec (udi_log_integer write_log [] v) = v"
proof -
  obtain ds where ds: "udi_log_integer write_log [] v = (if v < 0 then ''-'' else []) @ rev ds"
    "dec_value (rev ds) = \<bar>v\<bar>" "ds \<noteq> []" "set ds \<subseteq> digit_char ` {0..9}"
    using log_integer_text [OF assms] .
  then obtain c cs where c: "rev ds = c # cs" "c \<in> set ds"
    by (metis list.set_intros(1) neq_Nil_conv rev_is_Nil_conv set_rev)
  then have "c \<in> digit_char ` {0..9}" using ds(4) by blast
  then have "c \<noteq> CHR ''-''" by (simp add: digit_char_not_special)
  with ds(1,2) c(1) show ?thesis by auto
qed

subsection \<open>Hexadecimal\<close>

definition hex_digit :: "char \<Rightarrow> nat" where
  "hex_digit c = (if of_char c < (97::nat) then of_char c - 48 else of_char c - 87)"

definition read_hex :: "string \<Rightarrow> nat" where
  "read_hex cs = foldl (\<lambda>n c. 16 * n + hex_digit c) 0 cs"

lemma foldl_hex: "foldl (\<lambda>n c. 16 * n + hex_digit c) k cs = k * 16 ^ length cs + read_hex cs"
proof (induction cs arbitrary: k)
  case Nil
  then show ?case by (simp add: read_hex_def)
next
  case (Cons c cs)
  have "read_hex (c # cs) = hex_digit c * 16 ^ length cs + read_hex cs"
    using Cons [of "hex_digit c"] by (simp add: read_hex_def)
  then show ?case
    using Cons [of "16 * k + hex_digit c"] by (simp add: algebra_simps)
qed

lemma read_hex_append: "read_hex (xs @ ys) = read_hex xs * 16 ^ length ys + read_hex ys"
proof -
  have "read_hex (xs @ ys) = foldl (\<lambda>n c. 16 * n + hex_digit c) (read_hex xs) ys"
    by (simp add: read_hex_def)
  then show ?thesis by (simp only: foldl_hex)
qed

text \<open>The two digits of a byte.\<close>

definition nibble_char :: "u8 \<Rightarrow> char" where
  "nibble_char nibble = (if nibble < 10 then char_of (unat (nibble + 48))
                         else char_of (unat ((nibble - 10) + 97)))"

lemma hex_digit_nibble:
  assumes "unat w < 16"
  shows "hex_digit (nibble_char w) = unat w" and "nibble_char w \<noteq> NUL"
proof -
  have lt: "w < 10 \<longleftrightarrow> unat w < 10"
    by (simp add: word_less_nat_alt)
  have p: "unat (w + 48) = unat w + 48"
    using assms by (simp add: unat_word_ariths)
  have q: "unat (w - 10 + 97) = unat w + 87"
    if "\<not> w < 10"
  proof -
    have "w - 10 + 97 = w + 87" by simp
    then show ?thesis using assms by (simp add: unat_word_ariths)
  qed
  have c: "of_char (nibble_char w) = (if unat w < 10 then unat w + 48 else unat w + 87)"
    using assms p q by (auto simp: nibble_char_def lt of_char_of)
  then show "hex_digit (nibble_char w) = unat w"
    by (auto simp: hex_digit_def)
  show "nibble_char w \<noteq> NUL"
  proof
    assume "nibble_char w = NUL"
    then have "of_char (nibble_char w) = (0::nat)" by simp
    with c show False by (simp split: if_splits)
  qed
qed

lemma byte_text:
  "udi_log_byte write_log out b =
     out @ [nibble_char (drop_bit 4 (b AND 0xf0)), nibble_char (b AND 0x0f)]"
  by (simp add: udi_log_byte_def udi_log_nibble_def nibble_char_def write_log_def)

lemma byte_nibbles:
  fixes b :: u8
  shows "unat (drop_bit 4 (b AND 0xf0)) = unat b div 16" and "unat (b AND 0x0f) = unat b mod 16"
proof -
  have lo: "b AND 0x0f = take_bit 4 b"
    by (simp add: take_bit_eq_mask mask_eq_exp_minus_1)
  show "unat (b AND 0x0f) = unat b mod 16"
    unfolding lo by (simp only: unsigned_take_bit_eq take_bit_eq_mod [where ?'a = nat]) simp
  have "drop_bit 4 (b AND 0xf0) = drop_bit 4 b AND drop_bit 4 0xf0"
    by simp
  also have "(drop_bit 4 0xf0 :: u8) = mask 4"
    by (simp add: mask_eq_exp_minus_1 drop_bit_eq_div)
  also have "drop_bit 4 b AND mask 4 = take_bit 4 (drop_bit 4 b)"
    by (simp add: take_bit_eq_mask)
  also have "unat \<dots> = unat b div 2 ^ 4 mod 2 ^ 4"
    by (simp only: unsigned_take_bit_eq take_bit_eq_mod [where ?'a = nat] unat_drop_bit)
  also have "\<dots> = unat b div 16"
    using unsigned_less [of b, where ?'a = nat] by simp
  finally show "unat (drop_bit 4 (b AND 0xf0)) = unat b div 16" .
qed

lemma read_hex_byte:
  "read_hex (udi_log_byte write_log [] b) = unat b"
  "length (udi_log_byte write_log [] b) = 2"
  "NUL \<notin> set (udi_log_byte write_log [] b)"
proof -
  define hi lo where "hi = drop_bit 4 (b AND 0xf0)" and "lo = b AND 0x0f"
  have "unat hi = unat b div 16" "unat lo = unat b mod 16"
    unfolding hi_def lo_def by (rule byte_nibbles)+
  moreover have "unat b div 16 < 16"
    using unsigned_less [of b, where ?'a = nat] by simp
  ultimately have "hex_digit (nibble_char hi) = unat b div 16" "hex_digit (nibble_char lo) = unat b mod 16"
      "nibble_char hi \<noteq> NUL" "nibble_char lo \<noteq> NUL"
    by (simp_all add: hex_digit_nibble)
  then show "read_hex (udi_log_byte write_log [] b) = unat b"
    "NUL \<notin> set (udi_log_byte write_log [] b)"
    unfolding byte_text hi_def [symmetric] lo_def [symmetric] by (auto simp: read_hex_def)
  show "length (udi_log_byte write_log [] b) = 2"
    by (simp add: byte_text)
qed

text \<open>Eight bytes, most significant first.\<close>

lemma byte_text_append: "udi_log_byte write_log out b = out @ udi_log_byte write_log [] b"
  by (simp add: byte_text)

lemma word_bytes:
  fixes a :: u64
  defines "B \<equiv> \<lambda>k. unat (ucast (drop_bit (8 * k) a) :: u8)"
  shows "unat a = ((((((B 7 * 256 + B 6) * 256 + B 5) * 256 + B 4) * 256 + B 3) * 256 + B 2) * 256
    + B 1) * 256 + B 0"
proof -
  let ?n = "unat a"
  have B: "B k = ?n div 256 ^ k mod 256" for k
  proof -
    have "unat (drop_bit (8 * k) a) = ?n div 256 ^ k"
      by (simp add: unat_drop_bit power_mult)
    then show ?thesis
      by (simp add: B_def unsigned_ucast_eq take_bit_eq_mod)
  qed
  have step: "?n div 256 ^ k = ?n div 256 ^ Suc k * 256 + B k" for k
  proof -
    have "?n div 256 ^ Suc k = ?n div 256 ^ k div 256"
      by (simp only: power_Suc mult.commute [of 256] div_mult2_eq)
    then show ?thesis unfolding B by simp
  qed
  have "?n < 256 ^ 8" using unsigned_less [of a, where ?'a = nat] by simp
  then have "?n div 256 ^ 7 < 256" by (simp add: less_mult_imp_div_less)
  then have top: "?n div 256 ^ 7 = B 7" by (simp add: B)
  define D where "D k = ?n div 256 ^ k" for k :: nat
  have D: "D k = D (Suc k) * 256 + B k" for k
    unfolding D_def by (rule step)
  have "D 0 = D 1 * 256 + B 0" "D 1 = D 2 * 256 + B 1" "D 2 = D 3 * 256 + B 2" "D 3 = D 4 * 256 + B 3"
    "D 4 = D 5 * 256 + B 4" "D 5 = D 6 * 256 + B 5" "D 6 = D 7 * 256 + B 6"
    using D [of 0] D [of 1] D [of 2] D [of 3] D [of 4] D [of 5] D [of 6]
    by (simp_all add: numeral_2_eq_2 [symmetric])
  moreover have "D 0 = ?n" "D 7 = B 7"
    using top by (simp_all add: D_def)
  ultimately show ?thesis by simp
qed

definition byte_hex :: "u64 \<Rightarrow> nat \<Rightarrow> string" where
  "byte_hex a k = udi_log_byte write_log [] (ucast (drop_bit (8 * k) a) :: u8)"

lemma byte_hex_props:
  "read_hex (byte_hex a k) = unat (ucast (drop_bit (8 * k) a) :: u8)"
  "length (byte_hex a k) = 2"
  "NUL \<notin> set (byte_hex a k)"
  by (simp_all add: byte_hex_def read_hex_byte)

lemma log_64bit_text:
  "udi_log_64bit write_log out a =
     out @ byte_hex a 7 @ byte_hex a 6 @ byte_hex a 5 @ byte_hex a 4
         @ byte_hex a 3 @ byte_hex a 2 @ byte_hex a 1 @ byte_hex a 0"
proof -
  have m: "(w :: u8) AND 0xff = w" for w
  proof -
    have "(0xff :: u8) = - 1" by simp
    then show ?thesis by (simp only: and.right_neutral)
  qed
  show ?thesis
    by (simp add: udi_log_64bit_def log_64bit_loop.simps byte_hex_def m
        byte_text_append [of "_ @ _"] byte_text_append [of out])
qed

lemma read_hex_log_64bit:
  "read_hex (udi_log_64bit write_log [] a) = unat a"
  "length (udi_log_64bit write_log [] a) = 16"
  "NUL \<notin> set (udi_log_64bit write_log [] a)"
proof -
  show "read_hex (udi_log_64bit write_log [] a) = unat a"
    by (subst word_bytes) (simp add: log_64bit_text read_hex_append byte_hex_props)
qed (simp_all add: log_64bit_text byte_hex_props)

section \<open>Error messages\<close>

lemma udi_set_errmsg_text:
  assumes "format_text E fmt args = Some text" and "NUL \<notin> set text"
  shows "udi_set_errmsg E fmt args s = s\<lparr>errmsg := Some (take (ERRMSG_SIZE - 1) text)\<rparr>"
proof -
  have "0 < ERRMSG_SIZE" "ERRMSG_SIZE \<le> length (replicate ERRMSG_SIZE NUL)"
    by (simp_all add: ERRMSG_SIZE_def)
  from formatted_buffer(2) [OF this assms(2) refl] assms(1) show ?thesis
    by (simp add: udi_set_errmsg_def udi_formatted_str_text [OF \<open>0 < ERRMSG_SIZE\<close>] Let_def)
qed

lemma udi_set_errmsg_simps [simp]:
  "sys_oracle (udi_set_errmsg E fmt args s) = sys_oracle s"
  "sys_count (udi_set_errmsg E fmt args s) = sys_count s"
  "msg_state.more (udi_set_errmsg E fmt args s) = msg_state.more s"
  by (simp_all add: udi_set_errmsg_def)

section \<open>Properties\<close>

text \<open>
  C39. Formatting into a buffer. Whenever a format and its arguments have a text, \<^verbatim>\<open>udi_formatted_str\<close>
  leaves in the buffer exactly that text, cut to the size less one and terminated, and
  writes nothing beyond the size it was given.
\<close>

theorem formatted_str_in_bounds:
  assumes "format_text E fmt args = Some text" and "0 < sz" and "sz \<le> length str" and "NUL \<notin> set text"
  shows "\<exists>buf. udi_formatted_str E str sz fmt args = Some buf \<and> length buf = length str \<and>
    c_str buf = take (sz - 1) text \<and> drop sz buf = drop sz str"
  using formatted_buffer [OF assms(2-4) refl] assms(1) by (simp add: udi_formatted_str_text [OF assms(2)] Let_def)

theorem formatted_str_in_bounds_witness:
  "\<exists>buf. udi_formatted_str sample_env ''........'' 4 ''at %s!'' [ArgStr ''x''] = Some buf \<and> length buf = 8 \<and> c_str buf = ''at ''"
proof -
  have "format_text sample_env ''at %s!'' [ArgStr ''x''] = Some ''at x!''"
    by (simp add: format_text_def log_placeholder.simps udi_log_string_def c_str_def write_log_def)
  from formatted_str_in_bounds [OF this, of 4 "''........''"] show ?thesis by auto
qed

text \<open>
  Numbers in messages can be read back: the decimal text of every \<^verbatim>\<open>int\<close> above the smallest
  one denotes it, the hexadecimal text of an address is sixteen digits that denote it, and the
  smallest \<^verbatim>\<open>int\<close>, whose negation wraps to itself, is printed as a sign and a character that
  is no digit.
\<close>

theorem number_text_roundtrip:
  "(\<forall>v. - (2 ^ 31) < v \<and> v < 2 ^ 31 \<longrightarrow> read_dec (udi_log_integer write_log [] v) = v) \<and>
   (\<forall>a. read_hex (udi_log_64bit write_log [] a) = unat a \<and> length (udi_log_64bit write_log [] a) = 16) \<and>
   udi_log_integer write_log [] (- (2 ^ 31)) = ''-(''"
proof (intro conjI allI impI)
  fix v :: int
  assume "- (2 ^ 31) < v \<and> v < 2 ^ 31"
  then show "read_dec (udi_log_integer write_log [] v) = v" by (intro read_dec_log_integer) simp_all
next
  fix a
  show "read_hex (udi_log_64bit write_log [] a) = unat a" "length (udi_log_64bit write_log [] a) = 16"
    by (rule read_hex_log_64bit)+
next
  have "(40 :: nat) = of_char (CHR ''('')" by simp
  then have "char_of (40 :: nat) = CHR ''(''" by (simp only: char_of_char)
  then show "udi_log_integer write_log [] (- (2 ^ 31)) = ''-(''"
    by (simp add: udi_log_integer_def c_int_def log_digits.simps digit_char_def signed_take_bit_int_eq_self
        write_log_def fold_write_log signed_modulo_int_def signed_divide_int_def signed_take_bit_eq_take_bit_shift)
qed

theorem number_text_roundtrip_witness:
  "read_dec (udi_log_integer write_log [] (- 42)) = - 42"
  using number_text_roundtrip by simp

end
