(* ===== verification/Protocol.thy ===== *)
theory Protocol
  imports Formatting
begin

text \<open>
  The protocol types of \<^verbatim>\<open>udi.h\<close>, the names of their values and the validation of
  registers (\<^verbatim>\<open>udirt.c\<close> lines 341 to 498). An enumeration is a datatype of the values
  that the header names, with the list of them in the order of the header: the value of a
  name is its position. A field that comes off the wire may hold any number, so it is kept
  as a number and decoded where the code switches on it.
\<close>

section \<open>Definitions\<close>

subsection \<open>Enumerations\<close>

text \<open>Numbers of enumeration values and back.\<close>

fun enum_index :: "'a list \<Rightarrow> 'a \<Rightarrow> nat" where
  "enum_index [] x = 0"
| "enum_index (y # ys) x = (if x = y then 0 else Suc (enum_index ys x))"

definition enum_nth :: "'a list \<Rightarrow> nat \<Rightarrow> 'a option" where
  "enum_nth xs n = (if n < length xs then Some (xs ! n) else None)"

datatype udi_arch_e = UDI_ARCH_X86 | UDI_ARCH_X86_64

definition arch_values :: "udi_arch_e list" where
  "arch_values = [UDI_ARCH_X86, UDI_ARCH_X86_64]"

definition UDI_PROTOCOL_VERSION_1 :: u32 where
  "UDI_PROTOCOL_VERSION_1 = 1"

datatype udi_thread_state_e = UDI_TS_RUNNING | UDI_TS_SUSPENDED

definition thread_state_values :: "udi_thread_state_e list" where
  "thread_state_values = [UDI_TS_RUNNING, UDI_TS_SUSPENDED]"

datatype (plugins only: code size) udi_register_e =
    UDI_X86_MIN | UDI_X86_GS | UDI_X86_FS | UDI_X86_ES | UDI_X86_DS | UDI_X86_EDI |
    UDI_X86_ESI | UDI_X86_EBP | UDI_X86_ESP | UDI_X86_EBX | UDI_X86_EDX | UDI_X86_ECX |
    UDI_X86_EAX | UDI_X86_CS | UDI_X86_SS | UDI_X86_EIP | UDI_X86_FLAGS | UDI_X86_ST0 |
    UDI_X86_ST1 | UDI_X86_ST2 | UDI_X86_ST3 | UDI_X86_ST4 | UDI_X86_ST5 | UDI_X86_ST6 |
    UDI_X86_ST7 | UDI_X86_MAX | UDI_X86_64_MIN | UDI_X86_64_R8 | UDI_X86_64_R9 |
    UDI_X86_64_R10 | UDI_X86_64_R11 | UDI_X86_64_R12 | UDI_X86_64_R13 | UDI_X86_64_R14 |
    UDI_X86_64_R15 | UDI_X86_64_RDI | UDI_X86_64_RSI | UDI_X86_64_RBP | UDI_X86_64_RBX |
    UDI_X86_64_RDX | UDI_X86_64_RAX | UDI_X86_64_RCX | UDI_X86_64_RSP | UDI_X86_64_RIP |
    UDI_X86_64_CSGSFS | UDI_X86_64_FLAGS | UDI_X86_64_ST0 | UDI_X86_64_ST1 | UDI_X86_64_ST2 |
    UDI_X86_64_ST3 | UDI_X86_64_ST4 | UDI_X86_64_ST5 | UDI_X86_64_ST6 | UDI_X86_64_ST7 |
    UDI_X86_64_XMM0 | UDI_X86_64_XMM1 | UDI_X86_64_XMM2 | UDI_X86_64_XMM3 | UDI_X86_64_XMM4 |
    UDI_X86_64_XMM5 | UDI_X86_64_XMM6 | UDI_X86_64_XMM7 | UDI_X86_64_XMM8 | UDI_X86_64_XMM9 |
    UDI_X86_64_XMM10 | UDI_X86_64_XMM11 | UDI_X86_64_XMM12 | UDI_X86_64_XMM13 |
    UDI_X86_64_XMM14 | UDI_X86_64_XMM15 | UDI_X86_64_MAX

definition register_values :: "udi_register_e list" where
  "register_values =
    [UDI_X86_MIN, UDI_X86_GS, UDI_X86_FS, UDI_X86_ES, UDI_X86_DS, UDI_X86_EDI, UDI_X86_ESI,
    UDI_X86_EBP, UDI_X86_ESP, UDI_X86_EBX, UDI_X86_EDX, UDI_X86_ECX, UDI_X86_EAX, UDI_X86_CS,
    UDI_X86_SS, UDI_X86_EIP, UDI_X86_FLAGS, UDI_X86_ST0, UDI_X86_ST1, UDI_X86_ST2,
    UDI_X86_ST3, UDI_X86_ST4, UDI_X86_ST5, UDI_X86_ST6, UDI_X86_ST7, UDI_X86_MAX,
    UDI_X86_64_MIN, UDI_X86_64_R8, UDI_X86_64_R9, UDI_X86_64_R10, UDI_X86_64_R11,
    UDI_X86_64_R12, UDI_X86_64_R13, UDI_X86_64_R14, UDI_X86_64_R15, UDI_X86_64_RDI,
    UDI_X86_64_RSI, UDI_X86_64_RBP, UDI_X86_64_RBX, UDI_X86_64_RDX, UDI_X86_64_RAX,
    UDI_X86_64_RCX, UDI_X86_64_RSP, UDI_X86_64_RIP, UDI_X86_64_CSGSFS, UDI_X86_64_FLAGS,
    UDI_X86_64_ST0, UDI_X86_64_ST1, UDI_X86_64_ST2, UDI_X86_64_ST3, UDI_X86_64_ST4,
    UDI_X86_64_ST5, UDI_X86_64_ST6, UDI_X86_64_ST7, UDI_X86_64_XMM0, UDI_X86_64_XMM1,
    UDI_X86_64_XMM2, UDI_X86_64_XMM3, UDI_X86_64_XMM4, UDI_X86_64_XMM5, UDI_X86_64_XMM6,
    UDI_X86_64_XMM7, UDI_X86_64_XMM8, UDI_X86_64_XMM9, UDI_X86_64_XMM10, UDI_X86_64_XMM11,
    UDI_X86_64_XMM12, UDI_X86_64_XMM13, UDI_X86_64_XMM14, UDI_X86_64_XMM15, UDI_X86_64_MAX]"

datatype (plugins only: code size) udi_request_type_e =
    UDI_REQ_INVALID | UDI_REQ_CONTINUE | UDI_REQ_READ_MEM | UDI_REQ_WRITE_MEM |
    UDI_REQ_READ_REGISTER | UDI_REQ_WRITE_REGISTER | UDI_REQ_STATE | UDI_REQ_INIT |
    UDI_REQ_CREATE_BREAKPOINT | UDI_REQ_INSTALL_BREAKPOINT | UDI_REQ_REMOVE_BREAKPOINT |
    UDI_REQ_DELETE_BREAKPOINT | UDI_REQ_THREAD_SUSPEND | UDI_REQ_THREAD_RESUME |
    UDI_REQ_NEXT_INSTRUCTION | UDI_REQ_SINGLE_STEP

definition request_values :: "udi_request_type_e list" where
  "request_values =
    [UDI_REQ_INVALID, UDI_REQ_CONTINUE, UDI_REQ_READ_MEM, UDI_REQ_WRITE_MEM,
    UDI_REQ_READ_REGISTER, UDI_REQ_WRITE_REGISTER, UDI_REQ_STATE, UDI_REQ_INIT,
    UDI_REQ_CREATE_BREAKPOINT, UDI_REQ_INSTALL_BREAKPOINT, UDI_REQ_REMOVE_BREAKPOINT,
    UDI_REQ_DELETE_BREAKPOINT, UDI_REQ_THREAD_SUSPEND, UDI_REQ_THREAD_RESUME,
    UDI_REQ_NEXT_INSTRUCTION, UDI_REQ_SINGLE_STEP]"

datatype udi_response_type_e = UDI_RESP_VALID | UDI_RESP_ERROR

definition response_values :: "udi_response_type_e list" where
  "response_values = [UDI_RESP_VALID, UDI_RESP_ERROR]"

datatype (plugins only: code size) udi_event_type_e =
    UDI_EVENT_UNKNOWN | UDI_EVENT_ERROR | UDI_EVENT_SIGNAL | UDI_EVENT_BREAKPOINT |
    UDI_EVENT_THREAD_CREATE | UDI_EVENT_THREAD_DEATH | UDI_EVENT_PROCESS_EXIT |
    UDI_EVENT_PROCESS_FORK | UDI_EVENT_PROCESS_EXEC | UDI_EVENT_SINGLE_STEP |
    UDI_EVENT_PROCESS_CLEANUP

definition event_values :: "udi_event_type_e list" where
  "event_values =
    [UDI_EVENT_UNKNOWN, UDI_EVENT_ERROR, UDI_EVENT_SIGNAL, UDI_EVENT_BREAKPOINT,
    UDI_EVENT_THREAD_CREATE, UDI_EVENT_THREAD_DEATH, UDI_EVENT_PROCESS_EXIT,
    UDI_EVENT_PROCESS_FORK, UDI_EVENT_PROCESS_EXEC, UDI_EVENT_SINGLE_STEP,
    UDI_EVENT_PROCESS_CLEANUP]"

definition arch_val :: "udi_arch_e \<Rightarrow> nat" where
  "arch_val x = enum_index arch_values x"

definition thread_state_val :: "udi_thread_state_e \<Rightarrow> nat" where
  "thread_state_val x = enum_index thread_state_values x"

definition register_val :: "udi_register_e \<Rightarrow> nat" where
  "register_val x = enum_index register_values x"

definition request_val :: "udi_request_type_e \<Rightarrow> nat" where
  "request_val x = enum_index request_values x"

definition response_val :: "udi_response_type_e \<Rightarrow> nat" where
  "response_val x = enum_index response_values x"

definition event_val :: "udi_event_type_e \<Rightarrow> nat" where
  "event_val x = enum_index event_values x"

subsection \<open>Request payloads\<close>

record continue_req =
  sig :: u32

record read_mem_req =
  rm_addr :: u64
  rm_len :: u32

text \<open>The data pointer is null until the data callback has copied a byte string.\<close>

record write_mem_req =
  wm_addr :: u64
  wm_data :: "u8 list option"
  wm_len :: u32

record read_reg_req =
  rr_reg :: nat

record write_reg_req =
  wr_reg :: nat
  wr_value :: u64

record brkpt_req =
  br_addr :: u64

record single_step_req =
  ss_setting :: bool

subsection \<open>Names\<close>

text \<open>The macro \<^verbatim>\<open>CASE_TO_STR\<close>: the name of a case label, spelled as in the source.\<close>

primrec request_name :: "udi_request_type_e \<Rightarrow> string" where
  "request_name UDI_REQ_INVALID = ''UDI_REQ_INVALID''"
| "request_name UDI_REQ_CONTINUE = ''UDI_REQ_CONTINUE''"
| "request_name UDI_REQ_READ_MEM = ''UDI_REQ_READ_MEM''"
| "request_name UDI_REQ_WRITE_MEM = ''UDI_REQ_WRITE_MEM''"
| "request_name UDI_REQ_READ_REGISTER = ''UDI_REQ_READ_REGISTER''"
| "request_name UDI_REQ_WRITE_REGISTER = ''UDI_REQ_WRITE_REGISTER''"
| "request_name UDI_REQ_STATE = ''UDI_REQ_STATE''"
| "request_name UDI_REQ_INIT = ''UDI_REQ_INIT''"
| "request_name UDI_REQ_CREATE_BREAKPOINT = ''UDI_REQ_CREATE_BREAKPOINT''"
| "request_name UDI_REQ_INSTALL_BREAKPOINT = ''UDI_REQ_INSTALL_BREAKPOINT''"
| "request_name UDI_REQ_REMOVE_BREAKPOINT = ''UDI_REQ_REMOVE_BREAKPOINT''"
| "request_name UDI_REQ_DELETE_BREAKPOINT = ''UDI_REQ_DELETE_BREAKPOINT''"
| "request_name UDI_REQ_THREAD_SUSPEND = ''UDI_REQ_THREAD_SUSPEND''"
| "request_name UDI_REQ_THREAD_RESUME = ''UDI_REQ_THREAD_RESUME''"
| "request_name UDI_REQ_NEXT_INSTRUCTION = ''UDI_REQ_NEXT_INSTRUCTION''"
| "request_name UDI_REQ_SINGLE_STEP = ''UDI_REQ_SINGLE_STEP''"

definition request_type_str :: "nat \<Rightarrow> string" where
  "request_type_str n =
     (case enum_nth request_values n of Some r \<Rightarrow> request_name r | None \<Rightarrow> ''UNKNOWN'')"

text \<open>The switch of \<^verbatim>\<open>event_type_str\<close> has no case for the process cleanup event.\<close>

primrec event_name :: "udi_event_type_e \<Rightarrow> string" where
  "event_name UDI_EVENT_UNKNOWN = ''UDI_EVENT_UNKNOWN''"
| "event_name UDI_EVENT_ERROR = ''UDI_EVENT_ERROR''"
| "event_name UDI_EVENT_SIGNAL = ''UDI_EVENT_SIGNAL''"
| "event_name UDI_EVENT_BREAKPOINT = ''UDI_EVENT_BREAKPOINT''"
| "event_name UDI_EVENT_THREAD_CREATE = ''UDI_EVENT_THREAD_CREATE''"
| "event_name UDI_EVENT_THREAD_DEATH = ''UDI_EVENT_THREAD_DEATH''"
| "event_name UDI_EVENT_PROCESS_EXIT = ''UDI_EVENT_PROCESS_EXIT''"
| "event_name UDI_EVENT_PROCESS_FORK = ''UDI_EVENT_PROCESS_FORK''"
| "event_name UDI_EVENT_PROCESS_EXEC = ''UDI_EVENT_PROCESS_EXEC''"
| "event_name UDI_EVENT_SINGLE_STEP = ''UDI_EVENT_SINGLE_STEP''"
| "event_name UDI_EVENT_PROCESS_CLEANUP = ''UNSPECIFIED''"

definition event_type_str :: "nat \<Rightarrow> string" where
  "event_type_str n =
     (case enum_nth event_values n of Some r \<Rightarrow> event_name r | None \<Rightarrow> ''UNSPECIFIED'')"

primrec arch_name :: "udi_arch_e \<Rightarrow> string" where
  "arch_name UDI_ARCH_X86 = ''UDI_ARCH_X86''"
| "arch_name UDI_ARCH_X86_64 = ''UDI_ARCH_X86_64''"

definition arch_str :: "nat \<Rightarrow> string" where
  "arch_str n = (case enum_nth arch_values n of Some r \<Rightarrow> arch_name r | None \<Rightarrow> ''UNSPECIFIED'')"

primrec register_name :: "udi_register_e \<Rightarrow> string" where
  "register_name UDI_X86_MIN = ''UDI_X86_MIN''"
| "register_name UDI_X86_GS = ''UDI_X86_GS''"
| "register_name UDI_X86_FS = ''UDI_X86_FS''"
| "register_name UDI_X86_ES = ''UDI_X86_ES''"
| "register_name UDI_X86_DS = ''UDI_X86_DS''"
| "register_name UDI_X86_EDI = ''UDI_X86_EDI''"
| "register_name UDI_X86_ESI = ''UDI_X86_ESI''"
| "register_name UDI_X86_EBP = ''UDI_X86_EBP''"
| "register_name UDI_X86_ESP = ''UDI_X86_ESP''"
| "register_name UDI_X86_EBX = ''UDI_X86_EBX''"
| "register_name UDI_X86_EDX = ''UDI_X86_EDX''"
| "register_name UDI_X86_ECX = ''UDI_X86_ECX''"
| "register_name UDI_X86_EAX = ''UDI_X86_EAX''"
| "register_name UDI_X86_CS = ''UDI_X86_CS''"
| "register_name UDI_X86_SS = ''UDI_X86_SS''"
| "register_name UDI_X86_EIP = ''UDI_X86_EIP''"
| "register_name UDI_X86_FLAGS = ''UDI_X86_FLAGS''"
| "register_name UDI_X86_ST0 = ''UDI_X86_ST0''"
| "register_name UDI_X86_ST1 = ''UDI_X86_ST1''"
| "register_name UDI_X86_ST2 = ''UDI_X86_ST2''"
| "register_name UDI_X86_ST3 = ''UDI_X86_ST3''"
| "register_name UDI_X86_ST4 = ''UDI_X86_ST4''"
| "register_name UDI_X86_ST5 = ''UDI_X86_ST5''"
| "register_name UDI_X86_ST6 = ''UDI_X86_ST6''"
| "register_name UDI_X86_ST7 = ''UDI_X86_ST7''"
| "register_name UDI_X86_MAX = ''UDI_X86_MAX''"
| "register_name UDI_X86_64_MIN = ''UDI_X86_64_MIN''"
| "register_name UDI_X86_64_R8 = ''UDI_X86_64_R8''"
| "register_name UDI_X86_64_R9 = ''UDI_X86_64_R9''"
| "register_name UDI_X86_64_R10 = ''UDI_X86_64_R10''"
| "register_name UDI_X86_64_R11 = ''UDI_X86_64_R11''"
| "register_name UDI_X86_64_R12 = ''UDI_X86_64_R12''"
| "register_name UDI_X86_64_R13 = ''UDI_X86_64_R13''"
| "register_name UDI_X86_64_R14 = ''UDI_X86_64_R14''"
| "register_name UDI_X86_64_R15 = ''UDI_X86_64_R15''"
| "register_name UDI_X86_64_RDI = ''UDI_X86_64_RDI''"
| "register_name UDI_X86_64_RSI = ''UDI_X86_64_RSI''"
| "register_name UDI_X86_64_RBP = ''UDI_X86_64_RBP''"
| "register_name UDI_X86_64_RBX = ''UDI_X86_64_RBX''"
| "register_name UDI_X86_64_RDX = ''UDI_X86_64_RDX''"
| "register_name UDI_X86_64_RAX = ''UDI_X86_64_RAX''"
| "register_name UDI_X86_64_RCX = ''UDI_X86_64_RCX''"
| "register_name UDI_X86_64_RSP = ''UDI_X86_64_RSP''"
| "register_name UDI_X86_64_RIP = ''UDI_X86_64_RIP''"
| "register_name UDI_X86_64_CSGSFS = ''UDI_X86_64_CSGSFS''"
| "register_name UDI_X86_64_FLAGS = ''UDI_X86_64_FLAGS''"
| "register_name UDI_X86_64_ST0 = ''UDI_X86_64_ST0''"
| "register_name UDI_X86_64_ST1 = ''UDI_X86_64_ST1''"
| "register_name UDI_X86_64_ST2 = ''UDI_X86_64_ST2''"
| "register_name UDI_X86_64_ST3 = ''UDI_X86_64_ST3''"
| "register_name UDI_X86_64_ST4 = ''UDI_X86_64_ST4''"
| "register_name UDI_X86_64_ST5 = ''UDI_X86_64_ST5''"
| "register_name UDI_X86_64_ST6 = ''UDI_X86_64_ST6''"
| "register_name UDI_X86_64_ST7 = ''UDI_X86_64_ST7''"
| "register_name UDI_X86_64_XMM0 = ''UDI_X86_64_XMM0''"
| "register_name UDI_X86_64_XMM1 = ''UDI_X86_64_XMM1''"
| "register_name UDI_X86_64_XMM2 = ''UDI_X86_64_XMM2''"
| "register_name UDI_X86_64_XMM3 = ''UDI_X86_64_XMM3''"
| "register_name UDI_X86_64_XMM4 = ''UDI_X86_64_XMM4''"
| "register_name UDI_X86_64_XMM5 = ''UDI_X86_64_XMM5''"
| "register_name UDI_X86_64_XMM6 = ''UDI_X86_64_XMM6''"
| "register_name UDI_X86_64_XMM7 = ''UDI_X86_64_XMM7''"
| "register_name UDI_X86_64_XMM8 = ''UDI_X86_64_XMM8''"
| "register_name UDI_X86_64_XMM9 = ''UDI_X86_64_XMM9''"
| "register_name UDI_X86_64_XMM10 = ''UDI_X86_64_XMM10''"
| "register_name UDI_X86_64_XMM11 = ''UDI_X86_64_XMM11''"
| "register_name UDI_X86_64_XMM12 = ''UDI_X86_64_XMM12''"
| "register_name UDI_X86_64_XMM13 = ''UDI_X86_64_XMM13''"
| "register_name UDI_X86_64_XMM14 = ''UDI_X86_64_XMM14''"
| "register_name UDI_X86_64_XMM15 = ''UDI_X86_64_XMM15''"
| "register_name UDI_X86_64_MAX = ''UDI_X86_64_MAX''"

definition register_str :: "nat \<Rightarrow> string" where
  "register_str n =
     (case enum_nth register_values n of Some r \<Rightarrow> register_name r | None \<Rightarrow> ''UNSPECIFIED'')"

subsection \<open>Validation of registers\<close>

text \<open>The word size of the modelled build, and the architecture it selects.\<close>

definition WORDSIZE :: nat where
  "WORDSIZE = 64"

definition get_architecture :: udi_arch_e where
  "get_architecture = (if WORDSIZE = 64 then UDI_ARCH_X86_64 else UDI_ARCH_X86)"

definition get_protocol_version :: u32 where
  "get_protocol_version = UDI_PROTOCOL_VERSION_1"

definition validate_register_for :: "env \<Rightarrow> udi_arch_e \<Rightarrow> nat \<Rightarrow> 'z msg_state_scheme \<Rightarrow> int \<times> 'z msg_state_scheme" where
  "validate_register_for E arch reg s =
     (let result = (case arch of
            UDI_ARCH_X86 \<Rightarrow>
              (if reg \<le> register_val UDI_X86_MIN \<or> reg \<ge> register_val UDI_X86_MAX then - 1 else 0)
          | UDI_ARCH_X86_64 \<Rightarrow>
              (if reg \<le> register_val UDI_X86_64_MIN \<or> reg \<ge> register_val UDI_X86_64_MAX then - 1 else 0))
      in (result,
          if result \<noteq> 0
          then udi_set_errmsg E ''invalid register %s for architecture %s''
                 [ArgStr (register_str reg), ArgStr (arch_str (arch_val arch))] s
          else s))"

definition validate_register :: "env \<Rightarrow> nat \<Rightarrow> 'z msg_state_scheme \<Rightarrow> int \<times> 'z msg_state_scheme" where
  "validate_register E reg s = validate_register_for E get_architecture reg s"

section \<open>Properties\<close>

subsection \<open>Numbers of enumerations\<close>

lemma enum_nth_index: "x \<in> set vs \<Longrightarrow> enum_nth vs (enum_index vs x) = Some x"
  by (induction vs) (auto simp: enum_nth_def split: if_splits)

lemma enum_index_nth: "distinct vs \<Longrightarrow> n < length vs \<Longrightarrow> enum_index vs (vs ! n) = n"
  by (induction vs arbitrary: n) (auto simp: nth_Cons split: nat.splits)

lemma values_complete:
  "set request_values = UNIV" "set event_values = UNIV" "set register_values = UNIV" "set arch_values = UNIV"
  "set response_values = UNIV" "set thread_state_values = UNIV"
  by (auto simp: request_values_def event_values_def register_values_def arch_values_def response_values_def
      thread_state_values_def intro: udi_request_type_e.exhaust udi_event_type_e.exhaust udi_register_e.exhaust
      udi_arch_e.exhaust udi_response_type_e.exhaust udi_thread_state_e.exhaust)

lemma values_distinct:
  "distinct request_values" "distinct event_values" "distinct register_values" "distinct arch_values"
  by (simp_all add: request_values_def event_values_def register_values_def arch_values_def)

lemma register_val_nth: "n < length register_values \<Longrightarrow> register_val (register_values ! n) = n"
  by (simp add: register_val_def enum_index_nth values_distinct)

lemma register_marks:
  "register_val UDI_X86_64_MIN = 26" "register_val UDI_X86_64_MAX = 70" "length register_values = 71"
  by (simp_all add: register_val_def register_values_def)

text \<open>
  Names and numbers of the protocol. The name printed for a number sent on the wire is the
  name of the header's constant with that number, for every request type, architecture and
  register, and for every event type but the last, which like every number that the header does
  not name is printed as a fallback.
\<close>

theorem protocol_names:
  "request_type_str (request_val r) = request_name r \<and>
   register_str (register_val g) = register_name g \<and>
   arch_str (arch_val a) = arch_name a \<and>
   event_type_str (event_val e) = (if e = UDI_EVENT_PROCESS_CLEANUP then ''UNSPECIFIED'' else event_name e) \<and>
   request_type_str (length request_values + k) = ''UNKNOWN''"
proof -
  have "request_type_str (length request_values + k) = ''UNKNOWN''" by (simp add: request_type_str_def enum_nth_def)
  then show ?thesis
    by (simp add: request_type_str_def request_val_def register_str_def register_val_def arch_str_def arch_val_def
        event_type_str_def event_val_def enum_nth_index values_complete)
qed

text \<open>
  Validation of registers. A register number is accepted exactly when it is the number of a
  register of the 64-bit architecture, not one of the two markers around them; a refused
  number leaves a message and nothing else in the state.
\<close>

theorem validate_register_correct:
  "(fst (validate_register E reg s) = 0 \<longleftrightarrow>
      (\<exists>r. reg = register_val r \<and> register_val UDI_X86_64_MIN < register_val r \<and> register_val r < register_val UDI_X86_64_MAX)) \<and>
   fst (validate_register E reg s) \<in> {0, - 1} \<and>
   (fst (validate_register E reg s) = 0 \<longrightarrow> snd (validate_register E reg s) = s) \<and>
   (snd (validate_register E reg s))\<lparr>errmsg := errmsg s\<rparr> = s"
proof -
  have "\<exists>r. reg = register_val r" if "reg < register_val UDI_X86_64_MAX"
    using that register_val_nth [of reg, symmetric] unfolding register_marks by auto
  then have accepted: "fst (validate_register E reg s) = 0 \<longleftrightarrow>
      (\<exists>r. reg = register_val r \<and> register_val UDI_X86_64_MIN < register_val r \<and> register_val r < register_val UDI_X86_64_MAX)"
    by (auto simp: validate_register_def validate_register_for_def get_architecture_def WORDSIZE_def Let_def not_le)
  show ?thesis
    by (rule conjI [OF accepted]) (simp_all add: validate_register_def validate_register_for_def get_architecture_def WORDSIZE_def
        Let_def udi_set_errmsg_def split: if_split)
qed

theorem validate_register_correct_witness:
  "fst (validate_register sample_env 27 \<lparr>sys_oracle = SysOk, sys_count = 0, errmsg = None\<rparr>) = 0"
proof -
  have "27 = register_val UDI_X86_64_R8" by (simp add: register_val_def register_values_def)
  then have "\<exists>r. 27 = register_val r \<and> register_val UDI_X86_64_MIN < register_val r \<and> register_val r < register_val UDI_X86_64_MAX"
    unfolding register_marks by (intro exI [of _ UDI_X86_64_R8]) simp
  then show ?thesis
    using validate_register_correct [of sample_env 27 "\<lparr>sys_oracle = SysOk, sys_count = 0, errmsg = None\<rparr>"] by blast
qed

end
