(* ===== verification/Memory_Access.thy ===== *)
theory Memory_Access
  imports Protocol
begin

text \<open>
  Access to the memory of the debuggee: the copy that a fault handler can abort, its hooks,
  and the part of the signal handler that answers a fault during the copy (\<^verbatim>\<open>udirt.c\<close>
  lines 37 to 165, \<^verbatim>\<open>udirt-posix.c\<close> lines 110 to 203 and 311 to 383). A fault is answered
  where it happens: the faulting byte is copied again when the handler changed the page
  protection, and the copy ends at its abort label when the handler gave up.
\<close>

section \<open>Definitions\<close>

subsection \<open>Pages and faults\<close>

text \<open>
  A mapped page: whether it can be read and written, and whether an access within its
  protection reaches storage (it does not beyond the end of a mapped file).
\<close>

datatype page = Page (can_read: bool) (can_write: bool) (backed: bool)

text \<open>The fault codes of Linux; the code of a bus error and of a protection fault are equal.\<close>

definition SEGV_MAPERR :: nat where
  "SEGV_MAPERR = 1"

definition SEGV_ACCERR :: nat where
  "SEGV_ACCERR = 2"

definition BUS_ADRERR :: nat where
  "BUS_ADRERR = 2"

definition SIGBUS :: nat where
  "SIGBUS = 7"

definition SIGSEGV :: nat where
  "SIGSEGV = 11"

record mem_state = msg_state +
  mem :: "u64 \<Rightarrow> u8"
  pages :: "u64 \<Rightarrow> page option"
  mem_access_addr :: u64
  mem_access_size :: nat
  aborting_mem_access :: bool
  performing_mem_access :: bool
  failed_si_code :: nat
  sig_mask :: "nat set"

definition page_align :: "env \<Rightarrow> u64 \<Rightarrow> u64" where
  "page_align E a = a AND NOT (env_pagesize E - 1)"

text \<open>The direction of a copy: from the debuggee, or the given bytes to the debuggee.\<close>

datatype copy_dir = FromDebuggee | ToDebuggee "u8 list"

definition access_fault :: "env \<Rightarrow> copy_dir \<Rightarrow> u64 \<Rightarrow> 'z mem_state_scheme \<Rightarrow> nat option" where
  "access_fault E dir a s =
     (case pages s (page_align E a) of
        None \<Rightarrow> Some SEGV_MAPERR
      | Some pg \<Rightarrow>
          (if \<not> (case dir of FromDebuggee \<Rightarrow> can_read pg | ToDebuggee _ \<Rightarrow> can_write pg)
           then Some SEGV_ACCERR
           else if \<not> backed pg then Some BUS_ADRERR else None))"

text \<open>The pages that \<^verbatim>\<open>mprotect\<close> changes: those that hold a byte of the range.\<close>

definition range_pages :: "env \<Rightarrow> u64 \<Rightarrow> nat \<Rightarrow> u64 list" where
  "range_pages E a n =
     (let ps = unat (env_pagesize E) in
      map (\<lambda>i. a + of_nat i * env_pagesize E) [0..<(n + (ps - 1)) div ps])"

definition ENOMEM :: nat where
  "ENOMEM = 12"

text \<open>
  \<^verbatim>\<open>mprotect\<close> to all permissions: \<open>None\<close> on success, otherwise the error number.
\<close>

definition mprotect_all :: "env \<Rightarrow> u64 \<Rightarrow> nat \<Rightarrow> 'z mem_state_scheme \<Rightarrow> nat option \<times> 'z mem_state_scheme" where
  "mprotect_all E a n s =
     (case sys_call s of (r, s) \<Rightarrow>
        if sys_failed r then (Some (sys_errno r), s)
        else if list_all (\<lambda>p. pages s p \<noteq> None) (range_pages E a n)
        then (None, s\<lparr>pages := (\<lambda>p. if p \<in> set (range_pages E a n)
                                    then map_option (\<lambda>pg. Page True True (backed pg)) (pages s p)
                                    else pages s p)\<rparr>)
        else (Some ENOMEM, s))"

subsection \<open>The fault handler\<close>

definition abort_mem_access :: "'z mem_state_scheme \<Rightarrow> 'z mem_state_scheme" where
  "abort_mem_access s = s\<lparr>aborting_mem_access := True\<rparr>"

definition get_mem_errstr :: "'z mem_state_scheme \<Rightarrow> string" where
  "get_mem_errstr s =
     (if failed_si_code s = SEGV_MAPERR then ''address not mapped in process''
      else ''unknown memory error'')"

text \<open>
  The result, whether \<^verbatim>\<open>*wait_for_request\<close> was cleared, and whether the program counter
  was set to the abort label.
\<close>

definition decode_memory_access_event ::
    "env \<Rightarrow> nat \<Rightarrow> 'z mem_state_scheme \<Rightarrow> (int \<times> bool \<times> bool) \<times> 'z mem_state_scheme" where
  "decode_memory_access_event E si_code s =
     (if performing_mem_access s then
        (case (if si_code = SEGV_ACCERR then
                 (case mprotect_all E (page_align E (mem_access_addr s)) (mem_access_size s) s of
                    (Some errno, s) \<Rightarrow>
                      (RESULT_ERROR,
                       udi_set_errmsg E ''failed to modify permissions for memory access: %e''
                         [ArgInt (int errno)] s)
                  | (None, s) \<Rightarrow> (RESULT_SUCCESS, s))
               else (RESULT_ERROR, s)) of
           (result, s) \<Rightarrow>
             (if result \<noteq> RESULT_SUCCESS
              then ((RESULT_SUCCESS, True, True), (abort_mem_access s)\<lparr>failed_si_code := si_code\<rparr>)
              else ((RESULT_SUCCESS, True, False), s)))
      else ((RESULT_SUCCESS, False, False), s))"

subsection \<open>The copy\<close>

definition copied_byte :: "copy_dir \<Rightarrow> u64 \<Rightarrow> nat \<Rightarrow> 'z mem_state_scheme \<Rightarrow> u8" where
  "copied_byte dir a i s = (case dir of FromDebuggee \<Rightarrow> mem s a | ToDebuggee src \<Rightarrow> src ! i)"

definition store_byte :: "copy_dir \<Rightarrow> u64 \<Rightarrow> nat \<Rightarrow> 'z mem_state_scheme \<Rightarrow> 'z mem_state_scheme" where
  "store_byte dir a i s =
     (case dir of FromDebuggee \<Rightarrow> s | ToDebuggee src \<Rightarrow> s\<lparr>mem := (mem s)(a := src ! i)\<rparr>)"

text \<open>
  The loop of \<^verbatim>\<open>abortable_memcpy\<close> with the faults it meets; \<open>out\<close> is what was copied.
  \<open>None\<close> is a copy that faults on the same byte for ever. Of the signal handler that a fault enters, the part that decodes the
  fault is executed here. The rest of it (\<open>signal_entry_impl\<close> of \<open>Signal_Entry\<close>) is taken to do nothing: no signal is waiting to be
  passed on, and no single step is armed; and the message that the handler has of its own is the one of the caller.
\<close>

partial_function (option) memcpy_loop ::
    "env \<Rightarrow> copy_dir \<Rightarrow> u64 \<Rightarrow> nat \<Rightarrow> nat \<Rightarrow> u8 list \<Rightarrow> 'z mem_state_scheme
       \<Rightarrow> (u8 list \<times> 'z mem_state_scheme) option" where
  "memcpy_loop E dir a n i out s =
     (if i < n then
        (case access_fault E dir (a + of_nat i) s of
           None \<Rightarrow>
             memcpy_loop E dir a n (Suc i) (out @ [copied_byte dir (a + of_nat i) i s])
               (store_byte dir (a + of_nat i) i s)
         | Some si_code \<Rightarrow>
             (case decode_memory_access_event E si_code s of
                ((result, waits, aborted), s') \<Rightarrow>
                  if aborted then Some (out, s') else memcpy_loop E dir a n i out s'))
      else Some (out, s))"

definition abortable_memcpy ::
    "env \<Rightarrow> copy_dir \<Rightarrow> u64 \<Rightarrow> nat \<Rightarrow> 'z mem_state_scheme \<Rightarrow> (int \<times> u8 list \<times> 'z mem_state_scheme) run" where
  "abortable_memcpy E dir a n s =
     run_bind (of_option (memcpy_loop E dir a n 0 [] s)) (\<lambda>(out, s).
       if aborting_mem_access s then Ret (- 1, out, s\<lparr>aborting_mem_access := False\<rparr>)
       else Ret (0, out, s))"

text \<open>\<^verbatim>\<open>setsigmask\<close> to a new mask: whether it succeeded.\<close>

definition setsigmask :: "nat set \<Rightarrow> 'z mem_state_scheme \<Rightarrow> bool \<times> 'z mem_state_scheme" where
  "setsigmask new_set s =
     (case sys_call s of (r, s) \<Rightarrow> if sys_failed r then (False, s) else (True, s\<lparr>sig_mask := new_set\<rparr>))"

text \<open>The hook returns the original mask, \<open>None\<close> for the null pointer.\<close>

definition pre_mem_access_hook :: "'z mem_state_scheme \<Rightarrow> nat set option \<times> 'z mem_state_scheme" where
  "pre_mem_access_hook s =
     (case sys_call s of (r, s) \<Rightarrow>
        if sys_failed r then (None, s)
        else (case setsigmask (sig_mask s) s of (ok, s) \<Rightarrow>
          if \<not> ok then (None, s)
          else let original_set = sig_mask s in
            (case setsigmask (original_set - {SIGSEGV, SIGBUS}) s of (ok, s) \<Rightarrow>
               if \<not> ok then (None, s) else (Some original_set, s))))"

definition post_mem_access_hook :: "nat set \<Rightarrow> 'z mem_state_scheme \<Rightarrow> int \<times> 'z mem_state_scheme" where
  "post_mem_access_hook original_set s =
     (case setsigmask original_set s of (ok, s) \<Rightarrow> (if ok then 0 else - 1, s))"

definition udi_memcpy ::
    "env \<Rightarrow> copy_dir \<Rightarrow> u64 \<Rightarrow> nat \<Rightarrow> 'z mem_state_scheme \<Rightarrow> (int \<times> u8 list \<times> 'z mem_state_scheme) run" where
  "udi_memcpy E dir a n s =
     (case pre_mem_access_hook s of
        (None, s) \<Rightarrow> Ret (- 1, [], udi_set_errmsg E ''pre memory access hook failed'' [] s)
      | (Some original_set, s) \<Rightarrow>
          run_bind (abortable_memcpy E dir a n (s\<lparr>performing_mem_access := True\<rparr>)) (\<lambda>(mem_result, out, s).
            (case post_mem_access_hook original_set (s\<lparr>performing_mem_access := False\<rparr>) of (r, s) \<Rightarrow>
               if r \<noteq> 0
               then Ret (- 1, out, udi_set_errmsg E ''post memory access hook failed'' [] s)
               else Ret (mem_result, out, s))))"

text \<open>A read returns the bytes that reached the destination buffer.\<close>

definition read_memory ::
    "env \<Rightarrow> u64 \<Rightarrow> nat \<Rightarrow> 'z mem_state_scheme \<Rightarrow> (int \<times> u8 list \<times> 'z mem_state_scheme) run" where
  "read_memory E src n s =
     udi_memcpy E FromDebuggee src n (s\<lparr>mem_access_addr := src, mem_access_size := n\<rparr>)"

definition write_memory ::
    "env \<Rightarrow> u64 \<Rightarrow> u8 list \<Rightarrow> 'z mem_state_scheme \<Rightarrow> (int \<times> 'z mem_state_scheme) run" where
  "write_memory E dest src s =
     run_bind (udi_memcpy E (ToDebuggee src) dest (length src)
                 (s\<lparr>mem_access_addr := dest, mem_access_size := length src\<rparr>))
       (\<lambda>(r, out, s). Ret (r, s))"

section \<open>Lemmas\<close>

subsection \<open>Byte ranges\<close>

definition read_bytes :: "(u64 \<Rightarrow> u8) \<Rightarrow> u64 \<Rightarrow> nat \<Rightarrow> u8 list" where
  "read_bytes m a n = map (\<lambda>i. m (a + of_nat i)) [0..<n]"

definition write_bytes :: "(u64 \<Rightarrow> u8) \<Rightarrow> u64 \<Rightarrow> u8 list \<Rightarrow> u64 \<Rightarrow> u8" where
  "write_bytes m a bs x = (if unat (x - a) < length bs then bs ! unat (x - a) else m x)"

lemma length_read_bytes [simp]: "length (read_bytes m a n) = n"
  by (simp add: read_bytes_def)

lemma read_bytes_Suc: "read_bytes m a (Suc n) = read_bytes m a n @ [m (a + of_nat n)]"
  by (simp add: read_bytes_def)

lemma write_bytes_Nil [simp]: "write_bytes m a [] = m"
  by (simp add: write_bytes_def fun_eq_iff)

lemma unat_of_nat_lt: "i < 2 ^ 64 \<Longrightarrow> unat (of_nat i :: u64) = i"
  by (simp add: unat_of_nat take_bit_nat_eq_self)

lemma write_bytes_nth:
  "i < length bs \<Longrightarrow> length bs \<le> 2 ^ 64 \<Longrightarrow> write_bytes m a bs (a + of_nat i) = bs ! i"
  by (simp add: write_bytes_def unat_of_nat_lt)

lemma read_write_bytes: "length bs \<le> 2 ^ 64 \<Longrightarrow> read_bytes (write_bytes m a bs) a (length bs) = bs"
  by (rule nth_equalityI) (simp_all add: read_bytes_def write_bytes_nth)

lemma write_bytes_step:
  assumes "i < length bs" and "length bs \<le> 2 ^ 64"
  shows "(write_bytes m a (take i bs))(a + of_nat i := bs ! i) = write_bytes m a (take (Suc i) bs)"
proof
  fix x
  have i: "unat (of_nat i :: u64) = i"
    using assms by (simp add: unat_of_nat_lt)
  have x: "x = a + of_nat i \<longleftrightarrow> unat (x - a) = i"
  proof
    assume "unat (x - a) = i"
    then have "x - a = of_nat i" by (metis of_nat_unat ucast_id)
    then show "x = a + of_nat i" by (simp add: algebra_simps)
  qed (simp add: i)
  consider "unat (x - a) < i" | "unat (x - a) = i" | "unat (x - a) > i" by linarith
  then show "((write_bytes m a (take i bs))(a + of_nat i := bs ! i)) x = write_bytes m a (take (Suc i) bs) x"
    using assms(1) by cases (simp_all add: write_bytes_def x)
qed

subsection \<open>Copies without faults\<close>

lemma access_fault_cong [simp]:
  "access_fault E dir a (s\<lparr>mem := m\<rparr>) = access_fault E dir a s"
  "access_fault E dir a (s\<lparr>performing_mem_access := b\<rparr>) = access_fault E dir a s"
  "access_fault E dir a (s\<lparr>sig_mask := sm\<rparr>) = access_fault E dir a s"
  "access_fault E dir a (s\<lparr>sys_count := c\<rparr>) = access_fault E dir a s"
  "access_fault E dir a (s\<lparr>mem_access_addr := u\<rparr>) = access_fault E dir a s"
  "access_fault E dir a (s\<lparr>mem_access_size := n\<rparr>) = access_fault E dir a s"
  by (simp_all add: access_fault_def)

lemma memcpy_read_prefix:
  assumes "\<And>j. i \<le> j \<Longrightarrow> j < k \<Longrightarrow> access_fault E FromDebuggee (a + of_nat j) s = None"
    and "i \<le> k" and "k \<le> n"
  shows "memcpy_loop E FromDebuggee a n i (read_bytes (mem s) a i) s
       = memcpy_loop E FromDebuggee a n k (read_bytes (mem s) a k) s"
  using assms(2,1)
proof (induction rule: inc_induct)
  case base
  show ?case ..
next
  case (step i)
  have "access_fault E FromDebuggee (a + of_nat i) s = None"
    using step.hyps step.prems by simp
  moreover have "i < n"
    using step.hyps assms(3) by simp
  ultimately have "memcpy_loop E FromDebuggee a n i (read_bytes (mem s) a i) s
      = memcpy_loop E FromDebuggee a n (Suc i) (read_bytes (mem s) a (Suc i)) s"
    by (subst memcpy_loop.simps) (simp add: copied_byte_def store_byte_def read_bytes_Suc)
  also have "\<dots> = memcpy_loop E FromDebuggee a n k (read_bytes (mem s) a k) s"
    using step.prems by (intro step.IH) simp
  finally show ?case .
qed

lemma memcpy_write_prefix:
  assumes "\<And>j. i \<le> j \<Longrightarrow> j < k \<Longrightarrow> access_fault E (ToDebuggee bs) (a + of_nat j) s = None"
    and "i \<le> k" and "k \<le> length bs" and "length bs \<le> 2 ^ 64"
  shows "memcpy_loop E (ToDebuggee bs) a (length bs) i (take i bs) (s\<lparr>mem := write_bytes m a (take i bs)\<rparr>)
       = memcpy_loop E (ToDebuggee bs) a (length bs) k (take k bs) (s\<lparr>mem := write_bytes m a (take k bs)\<rparr>)"
  using assms(2,1)
proof (induction rule: inc_induct)
  case base
  show ?case ..
next
  case (step i)
  have "access_fault E (ToDebuggee bs) (a + of_nat i) s = None"
    using step.hyps step.prems by simp
  moreover have "i < length bs"
    using step.hyps assms(3) by simp
  ultimately have "memcpy_loop E (ToDebuggee bs) a (length bs) i (take i bs) (s\<lparr>mem := write_bytes m a (take i bs)\<rparr>)
      = memcpy_loop E (ToDebuggee bs) a (length bs) (Suc i) (take (Suc i) bs) (s\<lparr>mem := write_bytes m a (take (Suc i) bs)\<rparr>)"
    using write_bytes_step [of i bs m a] assms(4)
    by (subst memcpy_loop.simps) (simp add: copied_byte_def store_byte_def take_Suc_conv_app_nth)
  also have "\<dots> = memcpy_loop E (ToDebuggee bs) a (length bs) k (take k bs) (s\<lparr>mem := write_bytes m a (take k bs)\<rparr>)"
    using step.prems by (intro step.IH) simp
  finally show ?case .
qed

text \<open>A range that the copy can go through without a fault.\<close>

definition accessible :: "env \<Rightarrow> copy_dir \<Rightarrow> u64 \<Rightarrow> nat \<Rightarrow> 'z mem_state_scheme \<Rightarrow> bool" where
  "accessible E dir a n s \<longleftrightarrow> (\<forall>i<n. access_fault E dir (a + of_nat i) s = None)"

lemma memcpy_read_ok:
  assumes "accessible E FromDebuggee a n s"
  shows "memcpy_loop E FromDebuggee a n 0 [] s = Some (read_bytes (mem s) a n, s)"
proof -
  have "memcpy_loop E FromDebuggee a n 0 [] s
      = memcpy_loop E FromDebuggee a n n (read_bytes (mem s) a n) s"
    using memcpy_read_prefix [of 0 n E a s n] assms by (simp add: accessible_def read_bytes_def)
  then show ?thesis by (simp add: memcpy_loop.simps)
qed

lemma memcpy_write_ok:
  assumes "accessible E (ToDebuggee bs) a (length bs) s" and "length bs \<le> 2 ^ 64"
  shows "memcpy_loop E (ToDebuggee bs) a (length bs) 0 [] s = Some (bs, s\<lparr>mem := write_bytes (mem s) a bs\<rparr>)"
proof -
  have "memcpy_loop E (ToDebuggee bs) a (length bs) 0 [] s
      = memcpy_loop E (ToDebuggee bs) a (length bs) (length bs) bs (s\<lparr>mem := write_bytes (mem s) a bs\<rparr>)"
    using memcpy_write_prefix [of 0 "length bs" E bs a s "mem s"] assms by (simp add: accessible_def)
  then show ?thesis by (simp add: memcpy_loop.simps)
qed

subsection \<open>The hooks\<close>

text \<open>The \<open>k\<close>-th system call from now on succeeds.\<close>

definition sys_ok :: "'z sys_state_scheme \<Rightarrow> nat \<Rightarrow> bool" where
  "sys_ok s k \<longleftrightarrow> \<not> sys_failed (sys_oracle s (sys_count s + k))"

lemma pre_hook_ok:
  assumes "sys_ok s 0" and "sys_ok s 1" and "sys_ok s 2"
  shows "pre_mem_access_hook s =
    (Some (sig_mask s), s\<lparr>sys_count := sys_count s + 3, sig_mask := sig_mask s - {SIGSEGV, SIGBUS}\<rparr>)"
  using assms
  by (simp add: pre_mem_access_hook_def setsigmask_def sys_call_def sys_ok_def Let_def eval_nat_numeral)

lemma post_hook_ok:
  "sys_ok s 0 \<Longrightarrow>
     post_mem_access_hook m s = (0, s\<lparr>sys_count := Suc (sys_count s), sig_mask := m\<rparr>)"
  by (simp add: post_mem_access_hook_def setsigmask_def sys_call_def sys_ok_def)

text \<open>The four calls of a copy without faults: the two hooks around it succeed.\<close>

definition hooks_ok :: "'z sys_state_scheme \<Rightarrow> bool" where
  "hooks_ok s \<longleftrightarrow> sys_ok s 0 \<and> sys_ok s 1 \<and> sys_ok s 2 \<and> sys_ok s 3"

lemma udi_memcpy_loop:
  assumes hooks: "hooks_ok s"
    and loop: "memcpy_loop E dir a n 0 [] (s\<lparr>sys_count := sys_count s + 3,
        sig_mask := sig_mask s - {SIGSEGV, SIGBUS}, performing_mem_access := True\<rparr>) =
      Some (out, s\<lparr>sys_count := sys_count s + 3, sig_mask := sig_mask s - {SIGSEGV, SIGBUS},
        performing_mem_access := True, mem := m, aborting_mem_access := ab, failed_si_code := f\<rparr>)"
  shows "udi_memcpy E dir a n s =
    Ret (if ab then - 1 else 0, out,
         s\<lparr>sys_count := sys_count s + 4, mem := m, aborting_mem_access := False,
           performing_mem_access := False, failed_si_code := f\<rparr>)"
  using hooks loop
  by (cases s, cases ab)
    (simp_all add: udi_memcpy_def pre_hook_ok post_hook_ok hooks_ok_def sys_ok_def abortable_memcpy_def)

text \<open>Reads and writes of an accessible range.\<close>

lemma read_memory_ok:
  assumes "hooks_ok s" and "accessible E FromDebuggee a n s" and "\<not> aborting_mem_access s"
  shows "read_memory E a n s = Ret (0, read_bytes (mem s) a n,
    s\<lparr>sys_count := sys_count s + 4, mem_access_addr := a, mem_access_size := n,
      performing_mem_access := False\<rparr>)"
proof -
  let ?s = "s\<lparr>mem_access_addr := a, mem_access_size := n\<rparr>"
  have "hooks_ok ?s"
    using assms(1) by (simp add: hooks_ok_def sys_ok_def)
  moreover have "memcpy_loop E FromDebuggee a n 0 [] (?s\<lparr>sys_count := sys_count ?s + 3,
        sig_mask := sig_mask ?s - {SIGSEGV, SIGBUS}, performing_mem_access := True\<rparr>) =
      Some (read_bytes (mem s) a n, ?s\<lparr>sys_count := sys_count ?s + 3,
        sig_mask := sig_mask ?s - {SIGSEGV, SIGBUS}, performing_mem_access := True,
        mem := mem s, aborting_mem_access := False, failed_si_code := failed_si_code s\<rparr>)"
    using assms(2,3) by (cases s) (subst memcpy_read_ok, simp_all add: accessible_def access_fault_def)
  ultimately show ?thesis
    using assms(3) by (cases s) (simp add: read_memory_def udi_memcpy_loop)
qed

lemma write_memory_ok:
  assumes "hooks_ok s" and "accessible E (ToDebuggee bs) a (length bs) s"
    and "\<not> aborting_mem_access s" and "length bs \<le> 2 ^ 64"
  shows "write_memory E a bs s = Ret (0,
    s\<lparr>sys_count := sys_count s + 4, mem := write_bytes (mem s) a bs, mem_access_addr := a,
      mem_access_size := length bs, performing_mem_access := False\<rparr>)"
proof -
  let ?s = "s\<lparr>mem_access_addr := a, mem_access_size := length bs\<rparr>"
  have hooks: "hooks_ok ?s"
    using assms(1) by (simp add: hooks_ok_def sys_ok_def)
  have loop: "memcpy_loop E (ToDebuggee bs) a (length bs) 0 [] (?s\<lparr>sys_count := sys_count ?s + 3,
        sig_mask := sig_mask ?s - {SIGSEGV, SIGBUS}, performing_mem_access := True\<rparr>) =
      Some (bs, ?s\<lparr>sys_count := sys_count ?s + 3,
        sig_mask := sig_mask ?s - {SIGSEGV, SIGBUS}, performing_mem_access := True,
        mem := write_bytes (mem s) a bs, aborting_mem_access := False,
        failed_si_code := failed_si_code s\<rparr>)"
    using assms(2,3,4) by (cases s) (subst memcpy_write_ok, simp_all add: accessible_def access_fault_def)
  have "udi_memcpy E (ToDebuggee bs) a (length bs) ?s = Ret (0, bs,
      ?s\<lparr>sys_count := sys_count ?s + 4, mem := write_bytes (mem s) a bs, aborting_mem_access := False,
        performing_mem_access := False, failed_si_code := failed_si_code s\<rparr>)"
    using udi_memcpy_loop [OF hooks loop] by simp
  then show ?thesis
    using assms(3) by (cases s) (simp add: write_memory_def)
qed

subsection \<open>Faults\<close>

lemma decode_unmapped:
  "performing_mem_access s \<Longrightarrow>
     decode_memory_access_event E SEGV_MAPERR s =
       ((RESULT_SUCCESS, True, True), s\<lparr>aborting_mem_access := True, failed_si_code := SEGV_MAPERR\<rparr>)"
  by (simp add: decode_memory_access_event_def SEGV_MAPERR_def SEGV_ACCERR_def result_defs abort_mem_access_def)

lemma memcpy_unmapped:
  assumes "i < n" and "performing_mem_access s" and "access_fault E dir (a + of_nat i) s = Some SEGV_MAPERR"
  shows "memcpy_loop E dir a n i out s =
    Some (out, s\<lparr>aborting_mem_access := True, failed_si_code := SEGV_MAPERR\<rparr>)"
  using assms by (subst memcpy_loop.simps) (simp add: decode_unmapped)

lemma access_fault_unmapped: "pages s (page_align E a) = None \<Longrightarrow> access_fault E dir a s = Some SEGV_MAPERR"
  by (simp add: access_fault_def)

lemma write_memory_unmapped:
  assumes "hooks_ok s" and "k < length bs" and "length bs \<le> 2 ^ 64"
    and "accessible E (ToDebuggee bs) a k s" and "pages s (page_align E (a + of_nat k)) = None"
  shows "write_memory E a bs s = Ret (- 1,
    s\<lparr>sys_count := sys_count s + 4, mem := write_bytes (mem s) a (take k bs), mem_access_addr := a,
      mem_access_size := length bs, aborting_mem_access := False, performing_mem_access := False,
      failed_si_code := SEGV_MAPERR\<rparr>)"
proof -
  let ?s = "s\<lparr>mem_access_addr := a, mem_access_size := length bs\<rparr>"
  let ?t = "?s\<lparr>sys_count := sys_count ?s + 3,
        sig_mask := sig_mask ?s - {SIGSEGV, SIGBUS}, performing_mem_access := True\<rparr>"
  have "hooks_ok ?s"
    using assms(1) by (simp add: hooks_ok_def sys_ok_def)
  have "memcpy_loop E (ToDebuggee bs) a (length bs) 0 [] ?t =
      memcpy_loop E (ToDebuggee bs) a (length bs) k (take k bs) (?t\<lparr>mem := write_bytes (mem s) a (take k bs)\<rparr>)"
    using memcpy_write_prefix [of 0 k E bs a ?t "mem s"] assms(2,3,4)
    by (simp add: accessible_def)
  also have "\<dots> = Some (take k bs, ?t\<lparr>mem := write_bytes (mem s) a (take k bs),
      aborting_mem_access := True, failed_si_code := SEGV_MAPERR\<rparr>)"
    using assms(2,5) by (subst memcpy_unmapped) (simp_all add: access_fault_unmapped)
  finally show ?thesis
    using \<open>hooks_ok ?s\<close>
    by (simp add: write_memory_def udi_memcpy_loop [where ab = True and f = SEGV_MAPERR
        and m = "write_bytes (mem s) a (take k bs)" and out = "take k bs"])
qed

lemma read_memory_unmapped:
  assumes "hooks_ok s" and "k < n"
    and "accessible E FromDebuggee a k s" and "pages s (page_align E (a + of_nat k)) = None"
  shows "read_memory E a n s = Ret (- 1, read_bytes (mem s) a k,
    s\<lparr>sys_count := sys_count s + 4, mem_access_addr := a,
      mem_access_size := n, aborting_mem_access := False, performing_mem_access := False,
      failed_si_code := SEGV_MAPERR\<rparr>)"
proof -
  let ?s = "s\<lparr>mem_access_addr := a, mem_access_size := n\<rparr>"
  let ?t = "?s\<lparr>sys_count := sys_count ?s + 3,
        sig_mask := sig_mask ?s - {SIGSEGV, SIGBUS}, performing_mem_access := True\<rparr>"
  have hooks: "hooks_ok ?s"
    using assms(1) by (simp add: hooks_ok_def sys_ok_def)
  have "memcpy_loop E FromDebuggee a n 0 [] ?t =
      memcpy_loop E FromDebuggee a n k (read_bytes (mem s) a k) ?t"
    using memcpy_read_prefix [of 0 k E a ?t n] assms(2,3)
    by (simp add: accessible_def read_bytes_def)
  also have "\<dots> = Some (read_bytes (mem s) a k, ?t\<lparr>mem := mem s,
      aborting_mem_access := True, failed_si_code := SEGV_MAPERR\<rparr>)"
    using assms(2,4) by (subst memcpy_unmapped) (simp_all add: access_fault_unmapped)
  finally have loop: "memcpy_loop E FromDebuggee a n 0 [] ?t = Some (read_bytes (mem s) a k, ?t\<lparr>mem := mem s,
      aborting_mem_access := True, failed_si_code := SEGV_MAPERR\<rparr>)" .
  show ?thesis
    using udi_memcpy_loop [OF hooks loop] by (cases s) (simp add: read_memory_def)
qed

subsection \<open>Protected pages\<close>

lemma fault_code_cases:
  "access_fault E dir a s = Some c \<Longrightarrow> c = SEGV_MAPERR \<or> c = SEGV_ACCERR"
  by (auto simp: access_fault_def SEGV_MAPERR_def SEGV_ACCERR_def BUS_ADRERR_def split: option.splits if_splits)

text \<open>A system in which no call fails.\<close>

definition sys_always_ok :: "'z sys_state_scheme \<Rightarrow> bool" where
  "sys_always_ok s \<longleftrightarrow> (\<forall>k. \<not> sys_failed (sys_oracle s k))"

text \<open>The state after the handler opened the pages of the access.\<close>

definition open_pages :: "env \<Rightarrow> 'z mem_state_scheme \<Rightarrow> 'z mem_state_scheme" where
  "open_pages E s = s\<lparr>sys_count := Suc (sys_count s),
     pages := (\<lambda>p. if p \<in> set (range_pages E (page_align E (mem_access_addr s)) (mem_access_size s))
                   then map_option (\<lambda>pg. Page True True (backed pg)) (pages s p) else pages s p)\<rparr>"

lemma decode_accerr:
  assumes "performing_mem_access s" and "\<not> sys_failed (sys_oracle s (sys_count s))"
    and "list_all (\<lambda>p. pages s p \<noteq> None)
           (range_pages E (page_align E (mem_access_addr s)) (mem_access_size s))"
  shows "decode_memory_access_event E SEGV_ACCERR s = ((RESULT_SUCCESS, True, False), open_pages E s)"
  using assms
  by (cases s) (simp add: decode_memory_access_event_def mprotect_all_def sys_call_def open_pages_def result_defs cong: if_cong)

text \<open>A fault that the handler answers by opening pages, but that this does not repair.\<close>

definition stubborn :: "env \<Rightarrow> copy_dir \<Rightarrow> u64 \<Rightarrow> nat \<Rightarrow> nat \<Rightarrow> 'z mem_state_scheme \<Rightarrow> bool" where
  "stubborn E dir a n i s \<longleftrightarrow>
     performing_mem_access s \<and> sys_always_ok s \<and> mem_access_addr s = a \<and> mem_access_size s = n \<and>
     list_all (\<lambda>p. pages s p \<noteq> None) (range_pages E (page_align E a) n) \<and>
     access_fault E dir (a + of_nat i) s = Some SEGV_ACCERR \<and>
     (page_align E (a + of_nat i) \<in> set (range_pages E (page_align E a) n) \<longrightarrow>
        (\<forall>pg. pages s (page_align E (a + of_nat i)) = Some pg \<longrightarrow> \<not> backed pg))"

lemma stubborn_open_pages:
  assumes "stubborn E dir a n i s"
  shows "stubborn E dir a n i (open_pages E s)"
proof -
  have "access_fault E dir (a + of_nat i) (open_pages E s) = Some SEGV_ACCERR"
    using assms
    by (auto simp: stubborn_def open_pages_def access_fault_def SEGV_ACCERR_def BUS_ADRERR_def
        SEGV_MAPERR_def split: option.splits if_splits copy_dir.splits)
  then show ?thesis
    using assms by (auto simp: stubborn_def open_pages_def sys_always_ok_def list_all_iff)
qed

lemma memcpy_stubborn_step:
  assumes "i < n" and "stubborn E dir a n i s"
  shows "memcpy_loop E dir a n i out s = memcpy_loop E dir a n i out (open_pages E s)"
  using assms decode_accerr [of s E]
  by (subst memcpy_loop.simps) (simp add: stubborn_def sys_always_ok_def)

text \<open>Such a copy never returns.\<close>

lemma memcpy_stubborn:
  assumes "i < n" and "stubborn E dir a n i s"
  shows "memcpy_loop E dir a n i out s = None"
proof (rule ccontr)
  assume "memcpy_loop E dir a n i out s \<noteq> None"
  then obtain r where returns: "memcpy_loop E dir a n i out s = Some r" by blast
  have "\<not> (i < n \<and> stubborn E dir a n i s)"
  proof (induction rule: memcpy_loop.raw_induct)
    case (1 loop E dir a n i out s r)
    show ?case
    proof
      assume st: "i < n \<and> stubborn E dir a n i s"
      then have "decode_memory_access_event E SEGV_ACCERR s = ((RESULT_SUCCESS, True, False), open_pages E s)"
        using decode_accerr [of s E] by (simp add: stubborn_def sys_always_ok_def)
      then have "loop E dir a n i out (open_pages E s) = Some r"
        using 1(2) st by (simp add: stubborn_def)
      then show False
        using 1(1) st stubborn_open_pages by blast
    qed
  qed (fact returns)
  then show False
    using assms by blast
qed

subsection \<open>The contract of a copy, for every behaviour of the system\<close>

lemma udi_set_errmsg_mem [simp]:
  "mem (udi_set_errmsg E fmt args s) = mem s"
  "pages (udi_set_errmsg E fmt args s) = pages s"
  "aborting_mem_access (udi_set_errmsg E fmt args s) = aborting_mem_access s"
  "performing_mem_access (udi_set_errmsg E fmt args s) = performing_mem_access s"
  "sig_mask (udi_set_errmsg E fmt args s) = sig_mask s"
  "mem_state.more (udi_set_errmsg E fmt args s) = mem_state.more s"
  by (simp_all add: udi_set_errmsg_def)

text \<open>What the hooks and the handler leave alone: the memory and the state of the clients.\<close>

definition same_mem :: "'z mem_state_scheme \<Rightarrow> 'z mem_state_scheme \<Rightarrow> bool" where
  "same_mem s s' \<longleftrightarrow> mem s' = mem s \<and> mem_state.more s' = mem_state.more s"

lemma decode_event_frame:
  assumes "decode_memory_access_event E c s = ((r, w, aborted), s')"
  shows "same_mem s s'" and "aborting_mem_access s' = (aborted \<or> aborting_mem_access s)"
  using assms
  by (auto simp: decode_memory_access_event_def mprotect_all_def sys_call_def abort_mem_access_def
      same_mem_def result_defs Let_def split: if_splits option.splits prod.splits)

lemma decode_gave_up:
  "decode_memory_access_event E c s = ((r, w, True), s') \<Longrightarrow> same_mem s s' \<and> aborting_mem_access s'"
  using decode_event_frame by blast

lemma store_byte_write:
  "i < length bs \<Longrightarrow> length bs \<le> 2 ^ 64 \<Longrightarrow> mem s = write_bytes m a (take i bs) \<Longrightarrow>
     mem (store_byte (ToDebuggee bs) (a + of_nat i) i s) = write_bytes m a (take (Suc i) bs)"
  by (simp add: store_byte_def write_bytes_step)

lemma store_byte_simps [simp]:
  "aborting_mem_access (store_byte dir a i s) = aborting_mem_access s"
  "mem_state.more (store_byte dir a i s) = mem_state.more s"
  "store_byte FromDebuggee a i s = s"
  by (simp_all add: store_byte_def split: copy_dir.splits)

text \<open>
  The proof rule of the copy: what the copied byte and an answered fault keep holds at the
  end, or at the fault that made the handler give up.
\<close>

lemma memcpy_loop_rule:
  assumes returns: "memcpy_loop E dir a n i out s = Some r" and "i \<le> n" and "Inv i out s"
    and copy: "\<And>i out s. i < n \<Longrightarrow> Inv i out s \<Longrightarrow>
      Inv (Suc i) (out @ [copied_byte dir (a + of_nat i) i s]) (store_byte dir (a + of_nat i) i s)"
    and fault: "\<And>i out s c x w s'. i < n \<Longrightarrow> Inv i out s \<Longrightarrow>
      decode_memory_access_event E c s = ((x, w, False), s') \<Longrightarrow> Inv i out s'"
  shows "Inv n (fst r) (snd r) \<or>
    (\<exists>k s0 c x w. k < n \<and> Inv k (fst r) s0 \<and> decode_memory_access_event E c s0 = ((x, w, True), snd r))"
    (is "?Q r")
proof -
  define P where "P = (\<lambda>E' dir' a' n' i out s r.
    E' = E \<and> dir' = dir \<and> a' = a \<and> n' = n \<and> i \<le> n \<and> Inv i out s \<longrightarrow> ?Q r)"
  have "P E dir a n i out s r"
  proof (rule memcpy_loop.raw_induct [where P = P, OF _ returns])
    fix loop E' dir' a' n' i out s r
    assume IH: "\<And>E dir a n i out s r. loop E dir a n i out s = Some r \<Longrightarrow> P E dir a n i out s r"
      and body: "(if i < n' then case access_fault E' dir' (a' + of_nat i) s of
           None \<Rightarrow> loop E' dir' a' n' (Suc i) (out @ [copied_byte dir' (a' + of_nat i) i s])
               (store_byte dir' (a' + of_nat i) i s)
         | Some si_code \<Rightarrow> (case decode_memory_access_event E' si_code s of
                ((result, waits, aborted), s') \<Rightarrow>
                  if aborted then Some (out, s') else loop E' dir' a' n' i out s')
      else Some (out, s)) = Some r"
    show "P E' dir' a' n' i out s r"
      unfolding P_def
    proof clarify
      assume i: "i \<le> n" and inv: "Inv i out s"
        and "E' = E" "dir' = dir" "a' = a" "n' = n"
        and give_up: "\<nexists>k s0 c x w. k < n \<and> Inv k (fst r) s0 \<and> decode_memory_access_event E c s0 = ((x, w, True), snd r)"
      note body = body [unfolded \<open>E' = E\<close> \<open>dir' = dir\<close> \<open>a' = a\<close> \<open>n' = n\<close>]
      show "Inv n (fst r) (snd r)"
      proof (cases "i < n")
        case False
        then show ?thesis using body i inv by auto
      next
        case True
        show ?thesis
        proof (cases "access_fault E dir (a + of_nat i) s")
          case None
          with True body IH have "P E dir a n (Suc i) (out @ [copied_byte dir (a + of_nat i) i s])
              (store_byte dir (a + of_nat i) i s) r" by simp
          then show ?thesis
            using copy [OF True inv] True give_up by (auto simp: P_def)
        next
          case (Some c)
          obtain x w ab s1 where d: "decode_memory_access_event E c s = ((x, w, ab), s1)"
            by (metis prod_cases3 surj_pair)
          then have "\<not> ab"
            using give_up True Some body inv by auto
          then have "P E dir a n i out s1 r" "Inv i out s1"
            using body True Some d IH fault [OF True inv] by auto
          then show ?thesis
            using i give_up by (auto simp: P_def)
        qed
      qed
    qed
  qed
  then show ?thesis
    using assms(2,3) by (simp add: P_def)
qed

lemma memcpy_write_contract:
  assumes returns: "memcpy_loop E (ToDebuggee bs) a (length bs) 0 [] s = Some (out, s')"
    and len: "length bs \<le> 2 ^ 64"
  shows "mem_state.more s' = mem_state.more s \<and>
    (\<exists>k\<le>length bs. mem s' = write_bytes (mem s) a (take k bs) \<and> (k = length bs \<or> aborting_mem_access s'))"
proof -
  let ?Inv = "\<lambda>i (out :: u8 list) t. mem t = write_bytes (mem s) a (take i bs) \<and> mem_state.more t = mem_state.more s"
  have "?Inv (length bs) (fst (out, s')) (snd (out, s')) \<or> (\<exists>k s0 c x w. k < length bs \<and> ?Inv k (fst (out, s')) s0 \<and>
      decode_memory_access_event E c s0 = ((x, w, True), snd (out, s')))"
    by (rule memcpy_loop_rule [OF returns])
      (auto simp: store_byte_write [OF _ len] dest: decode_event_frame(1) simp: same_mem_def)
  then show ?thesis
    by (auto dest!: decode_gave_up simp: same_mem_def intro: less_imp_le)
qed

lemma memcpy_read_contract:
  assumes returns: "memcpy_loop E FromDebuggee a n 0 [] s = Some (out, s')"
  shows "same_mem s s' \<and>
    (\<exists>k\<le>n. out = read_bytes (mem s) a k \<and> (k = n \<or> aborting_mem_access s'))"
proof -
  let ?Inv = "\<lambda>i (out :: u8 list) t. out = read_bytes (mem s) a i \<and> same_mem s t"
  have "?Inv n (fst (out, s')) (snd (out, s')) \<or> (\<exists>k s0 c x w. k < n \<and> ?Inv k (fst (out, s')) s0 \<and>
      decode_memory_access_event E c s0 = ((x, w, True), snd (out, s')))"
    by (rule memcpy_loop_rule [OF returns])
      (auto simp: read_bytes_Suc copied_byte_def same_mem_def read_bytes_def dest: decode_event_frame(1))
  then show ?thesis
    by (auto dest!: decode_gave_up simp: same_mem_def intro: less_imp_le)
qed

lemma pre_hook_frame: "pre_mem_access_hook s = (r, s') \<Longrightarrow> same_mem s s'"
  by (auto simp: pre_mem_access_hook_def setsigmask_def sys_call_def same_mem_def Let_def
      split: if_splits prod.splits)

lemma post_hook_frame: "post_mem_access_hook m s = (r, s') \<Longrightarrow> same_mem s s'"
  by (auto simp: post_mem_access_hook_def setsigmask_def sys_call_def same_mem_def
      split: if_splits prod.splits)

lemma udi_memcpy_cases:
  assumes "udi_memcpy E dir a n s = Ret (r, out, s')"
  obtains (hook) "r = - 1" "out = []" "same_mem s s'"
  | (copy) s1 s2 where "same_mem s s1" "memcpy_loop E dir a n 0 [] s1 = Some (out, s2)"
      "same_mem s2 s'" "r = 0 \<longrightarrow> \<not> aborting_mem_access s2"
proof (cases "pre_mem_access_hook s")
  case (Pair m s0)
  show thesis
  proof (cases m)
    case None
    then show thesis
      using Pair assms pre_hook_frame [OF Pair]
      by (intro hook) (auto simp: udi_memcpy_def same_mem_def)
  next
    case (Some m0)
    let ?s1 = "s0\<lparr>performing_mem_access := True\<rparr>"
    obtain r1 out1 s2 where ab: "abortable_memcpy E dir a n ?s1 = Ret (r1, out1, s2)"
      and post: "(case post_mem_access_hook m0 (s2\<lparr>performing_mem_access := False\<rparr>) of (x, s) \<Rightarrow>
               if x \<noteq> 0 then Ret (- 1, out1, udi_set_errmsg E ''post memory access hook failed'' [] s)
               else Ret (r1, out1, s)) = Ret (r, out, s')"
      using assms Pair Some by (auto simp: udi_memcpy_def)
    obtain s3 where loop: "memcpy_loop E dir a n 0 [] ?s1 = Some (out1, s3)"
      and s2: "same_mem s3 s2" "r1 = 0 \<longrightarrow> \<not> aborting_mem_access s3"
      using ab by (auto simp: abortable_memcpy_def same_mem_def run_bind_eq_Ret split: if_splits)
    have "same_mem s2 s' \<and> out = out1 \<and> (r = 0 \<longrightarrow> r1 = 0)"
      using post by (auto simp: same_mem_def split: prod.splits if_splits dest!: post_hook_frame)
    moreover have "same_mem s ?s1"
      using pre_hook_frame [OF Pair] by (simp add: same_mem_def)
    ultimately show thesis
      using copy [of ?s1 s3] loop s2 by (auto simp: same_mem_def)
  qed
qed

lemma read_memory_contract:
  assumes "read_memory E a n s = Ret (r, out, s')"
  shows "same_mem s s'" and "\<exists>k\<le>n. out = read_bytes (mem s) a k" and "r = 0 \<Longrightarrow> out = read_bytes (mem s) a n"
  using assms unfolding read_memory_def
  by (auto elim!: udi_memcpy_cases dest!: memcpy_read_contract simp: same_mem_def read_bytes_def)

lemma write_memory_contract:
  assumes "write_memory E a bs s = Ret (r, s')" and "length bs \<le> 2 ^ 64"
  shows "mem_state.more s' = mem_state.more s"
    and "\<exists>k\<le>length bs. mem s' = write_bytes (mem s) a (take k bs)"
    and "r = 0 \<Longrightarrow> mem s' = write_bytes (mem s) a bs"
proof -
  obtain out where u: "udi_memcpy E (ToDebuggee bs) a (length bs)
      (s\<lparr>mem_access_addr := a, mem_access_size := length bs\<rparr>) = Ret (r, out, s')"
    using assms(1) by (auto simp: write_memory_def)
  have "mem_state.more s' = mem_state.more s \<and> (\<exists>k\<le>length bs. mem s' = write_bytes (mem s) a (take k bs)) \<and>
      (r = 0 \<longrightarrow> mem s' = write_bytes (mem s) a bs)"
    using u
  proof (cases rule: udi_memcpy_cases)
    case hook
    then show ?thesis by (auto simp: same_mem_def intro: exI [of _ 0])
  next
    case (copy s1 s2)
    then show ?thesis using memcpy_write_contract [OF copy(2) assms(2)] by (auto simp: same_mem_def)
  qed
  then show "mem_state.more s' = mem_state.more s"
    and "\<exists>k\<le>length bs. mem s' = write_bytes (mem s) a (take k bs)"
    and "r = 0 \<Longrightarrow> mem s' = write_bytes (mem s) a bs"
    by auto
qed

subsection \<open>The memory port\<close>

lemma write_read_bytes_restore:
  assumes "length xs \<le> n" and "n \<le> 2 ^ 64"
  shows "write_bytes (write_bytes m a xs) a (read_bytes m a n) = m"
proof
  fix x
  have "a + of_nat (unat (x - a)) = x"
    by (simp add: ucast_id)
  then show "write_bytes (write_bytes m a xs) a (read_bytes m a n) x = m x"
    using assms by (auto simp: write_bytes_def read_bytes_def)
qed

lemma write_bytes_outside: "length bs \<le> unat (x - a) \<Longrightarrow> write_bytes m a bs x = m x"
  by (simp add: write_bytes_def)

text \<open>
  What the clients of the debuggee's memory (breakpoints, the register context of a single
  step, the request handlers) rely on: a read that succeeds returns the content, no read
  changes it, a write that succeeds stores all its bytes, one that fails stores a prefix of
  them, and neither touches the client's own state.
\<close>

locale memory_port =
  fixes fetch :: "env \<Rightarrow> u64 \<Rightarrow> nat \<Rightarrow> 's \<Rightarrow> (int \<times> u8 list \<times> 's) run"
    and store :: "env \<Rightarrow> u64 \<Rightarrow> u8 list \<Rightarrow> 's \<Rightarrow> (int \<times> 's) run"
    and content :: "'s \<Rightarrow> u64 \<Rightarrow> u8"
    and client :: "'s \<Rightarrow> 'c"
  assumes read_ok: "fetch E a n s = Ret (0, out, s') \<Longrightarrow> out = read_bytes (content s) a n"
    and read_content: "fetch E a n s = Ret (r, out, s') \<Longrightarrow> content s' = content s"
    and read_client: "fetch E a n s = Ret (r, out, s') \<Longrightarrow> client s' = client s"
    and write_ok: "store E a bs s = Ret (0, s') \<Longrightarrow> length bs \<le> 2 ^ 64 \<Longrightarrow>
      content s' = write_bytes (content s) a bs"
    and write_prefix: "store E a bs s = Ret (r, s') \<Longrightarrow> length bs \<le> 2 ^ 64 \<Longrightarrow>
      \<exists>k\<le>length bs. content s' = write_bytes (content s) a (take k bs)"
    and write_client: "store E a bs s = Ret (r, s') \<Longrightarrow> length bs \<le> 2 ^ 64 \<Longrightarrow> client s' = client s"
begin

lemma write_outside:
  assumes "store E a bs s = Ret (r, s')" and "length bs \<le> 2 ^ 64" and "length bs \<le> unat (x - a)"
  shows "content s' x = content s x"
  using write_prefix [OF assms(1,2)] assms(3) by (auto simp: write_bytes_def)

lemma write_then_read:
  assumes "store E a bs s = Ret (0, s1)" and "length bs \<le> 2 ^ 64"
    and "fetch E a (length bs) s1 = Ret (0, out, s2)"
  shows "out = bs"
  using read_ok [OF assms(3)] write_ok [OF assms(1,2)] assms(2) by (simp add: read_write_bytes)

text \<open>Saved bytes put back restore the memory, whatever part of the range was overwritten.\<close>

lemma save_restore:
  assumes "fetch E a n s = Ret (0, saved, s1)" and "n \<le> 2 ^ 64"
    and "content t = write_bytes (content s) a xs" and "length xs \<le> n"
    and "store E a saved t = Ret (0, t')"
  shows "content t' = content s"
proof -
  have saved: "saved = read_bytes (content s) a n"
    using assms(1) by (rule read_ok)
  have "content t' = write_bytes (content t) a saved"
    using assms(5,2) by (intro write_ok) (simp_all add: saved)
  then show ?thesis
    using assms(2-4) by (simp add: saved write_read_bytes_restore)
qed

end

interpretation memory: memory_port read_memory write_memory mem mem_state.more
  by unfold_locales
    (auto dest: read_memory_contract write_memory_contract simp: same_mem_def)

subsection \<open>Writing through protected pages\<close>

text \<open>
  The protection of every page of the access can be changed: the pages from the aligned
  address over the size of the access are mapped and cover it, and have storage.
\<close>

definition openable :: "env \<Rightarrow> u64 \<Rightarrow> nat \<Rightarrow> 'z mem_state_scheme \<Rightarrow> bool" where
  "openable E a n s \<longleftrightarrow>
     (\<forall>i<n. page_align E (a + of_nat i) \<in> set (range_pages E (page_align E a) n)) \<and>
     (\<forall>p \<in> set (range_pages E (page_align E a) n). \<exists>pg. pages s p = Some pg \<and> backed pg)"

lemma openable_accessible:
  assumes "openable E a n s" and "mem_access_addr s = a" and "mem_access_size s = n"
  shows "accessible E dir a n (open_pages E s)"
  using assms
  by (fastforce simp: openable_def accessible_def open_pages_def access_fault_def split: copy_dir.splits option.splits)

lemma openable_fault:
  assumes "openable E a n s" and "i < n" and "access_fault E dir (a + of_nat i) s = Some c"
  shows "c = SEGV_ACCERR"
  using assms by (fastforce simp: openable_def access_fault_def split: option.splits if_splits)

lemma memcpy_write_opens:
  assumes op: "openable E a (length bs) s" and "\<not> accessible E (ToDebuggee bs) a (length bs) s"
    and "performing_mem_access s" and "mem_access_addr s = a" and "mem_access_size s = length bs"
    and "\<not> sys_failed (sys_oracle s (sys_count s))" and len: "length bs \<le> 2 ^ 64"
  shows "memcpy_loop E (ToDebuggee bs) a (length bs) 0 [] s =
    Some (bs, (open_pages E s)\<lparr>mem := write_bytes (mem s) a bs\<rparr>)"
proof -
  let ?f = "\<lambda>i. access_fault E (ToDebuggee bs) (a + of_nat i) s"
  let ?loop = "memcpy_loop E (ToDebuggee bs) a (length bs)"
  define k where "k = (LEAST i. ?f i \<noteq> None)"
  obtain i where i: "i < length bs" "?f i \<noteq> None"
    using assms(2) by (auto simp: accessible_def)
  have k: "k < length bs" "?f k \<noteq> None" "\<And>j. j < k \<Longrightarrow> ?f j = None"
    using i Least_le [of "\<lambda>i. ?f i \<noteq> None" i] LeastI [of "\<lambda>i. ?f i \<noteq> None" i]
      not_less_Least [of _ "\<lambda>i. ?f i \<noteq> None"] by (auto simp: k_def)
  have fk: "?f k = Some SEGV_ACCERR"
    using k(2) openable_fault [OF op k(1)] by fastforce
  let ?sk = "s\<lparr>mem := write_bytes (mem s) a (take k bs)\<rparr>"
  have "?loop 0 [] s = ?loop k (take k bs) ?sk"
    using memcpy_write_prefix [of 0 k E bs a s "mem s"] k len by simp
  also have "decode_memory_access_event E SEGV_ACCERR ?sk = ((RESULT_SUCCESS, True, False), open_pages E ?sk)"
    using assms(1,3-6) by (intro decode_accerr) (auto simp: openable_def list_all_iff)
  then have "?loop k (take k bs) ?sk = ?loop k (take k bs) (open_pages E ?sk)"
    using k(1) fk by (subst memcpy_loop.simps) simp
  also have "open_pages E ?sk = (open_pages E s)\<lparr>mem := write_bytes (mem s) a (take k bs)\<rparr>"
    by (cases s) (simp add: open_pages_def cong: if_cong)
  also have "?loop k (take k bs) \<dots> = ?loop (length bs) bs ((open_pages E s)\<lparr>mem := write_bytes (mem s) a bs\<rparr>)"
    using memcpy_write_prefix [of k "length bs" E bs a "open_pages E s" "mem s"]
      openable_accessible [OF op assms(4,5)] k len by (simp add: accessible_def)
  finally show ?thesis by (simp add: memcpy_loop.simps)
qed

lemma udi_memcpy_run:
  assumes "sys_ok s 0" and "sys_ok s 1" and "sys_ok s 2"
    and "memcpy_loop E dir a n 0 [] (s\<lparr>sys_count := sys_count s + 3,
        sig_mask := sig_mask s - {SIGSEGV, SIGBUS}, performing_mem_access := True\<rparr>) = Some (out, t)"
    and "\<not> sys_failed (sys_oracle t (sys_count t))"
  shows "udi_memcpy E dir a n s = Ret (if aborting_mem_access t then - 1 else 0, out,
    t\<lparr>aborting_mem_access := False, performing_mem_access := False,
      sys_count := Suc (sys_count t), sig_mask := sig_mask s\<rparr>)"
  using assms
  by (cases t) (simp add: udi_memcpy_def pre_hook_ok post_hook_ok sys_ok_def abortable_memcpy_def)

lemma write_memory_opens:
  assumes sys: "sys_ok s 0" "sys_ok s 1" "sys_ok s 2" "sys_ok s 3" "sys_ok s 4"
    and "openable E a (length bs) s" and "\<not> accessible E (ToDebuggee bs) a (length bs) s"
    and "\<not> aborting_mem_access s" and "length bs \<le> 2 ^ 64"
  shows "\<exists>s'. write_memory E a bs s = Ret (0, s') \<and> mem s' = write_bytes (mem s) a bs \<and>
    sig_mask s' = sig_mask s \<and> \<not> performing_mem_access s' \<and> \<not> aborting_mem_access s' \<and>
    sys_oracle s' = sys_oracle s \<and>
    (\<forall>p pg. pages s p = Some pg \<longrightarrow>
       (\<exists>pg'. pages s' p = Some pg' \<and> (can_read pg \<longrightarrow> can_read pg') \<and> backed pg' = backed pg))"
proof -
  let ?s = "s\<lparr>mem_access_addr := a, mem_access_size := length bs\<rparr>"
  let ?t = "?s\<lparr>sys_count := sys_count ?s + 3,
        sig_mask := sig_mask ?s - {SIGSEGV, SIGBUS}, performing_mem_access := True\<rparr>"
  let ?u = "(open_pages E ?t)\<lparr>mem := write_bytes (mem s) a bs\<rparr>"
  have "memcpy_loop E (ToDebuggee bs) a (length bs) 0 [] ?t =
      Some (bs, (open_pages E ?t)\<lparr>mem := write_bytes (mem ?t) a bs\<rparr>)"
    using assms by (intro memcpy_write_opens) (simp_all add: openable_def accessible_def sys_ok_def)
  then have loop: "memcpy_loop E (ToDebuggee bs) a (length bs) 0 [] ?t = Some (bs, ?u)"
    by simp
  have "write_memory E a bs s = Ret (0, ?u\<lparr>aborting_mem_access := False, performing_mem_access := False,
      sys_count := Suc (sys_count ?u), sig_mask := sig_mask s\<rparr>)"
    using udi_memcpy_run [OF _ _ _ loop] sys assms(8)
    by (simp add: write_memory_def sys_ok_def open_pages_def eval_nat_numeral)
  then show ?thesis
    by (simp add: open_pages_def)
qed

text \<open>A debuggee with one page of code that can be read and not written.\<close>

definition sample_mem_state :: mem_state where
  "sample_mem_state =
     \<lparr>sys_oracle = (\<lambda>n. SysOk (n + 100)), sys_count = 0, errmsg = None, mem = (\<lambda>_. 0),
      pages = [0x400000 \<mapsto> Page True False True], mem_access_addr = 0, mem_access_size = 0,
      aborting_mem_access = False, performing_mem_access = False, failed_si_code = 0, sig_mask = {10}\<rparr>"

lemma all_less_two: "(\<forall>i<Suc (Suc 0). P i) \<longleftrightarrow> P 0 \<and> P (Suc 0)"
  by (auto simp: less_Suc_eq)

section \<open>Properties\<close>

text \<open>
  C4. A write of the debuggee's memory that reaches no unmapped page stores every byte, even
  in pages that cannot be written, provided that the pages that the handler opens cover the access:
  the handler answers the fault, the copy goes on, and the signal mask is put back. An access that reaches a protected page outside the range that the handler opens is not covered: it never returns.
\<close>

theorem write_memory_stores:
  assumes "\<forall>k\<le>4. sys_ok s k" and "openable E a (length bs) s"
    and "\<not> aborting_mem_access s" and "length bs \<le> 2 ^ 64"
  shows "\<exists>s'. write_memory E a bs s = Ret (0, s') \<and> mem s' = write_bytes (mem s) a bs \<and>
    sig_mask s' = sig_mask s \<and> \<not> performing_mem_access s' \<and> \<not> aborting_mem_access s'"
proof (cases "accessible E (ToDebuggee bs) a (length bs) s")
  case True
  then show ?thesis
    using assms write_memory_ok [of s E bs a] by (simp add: hooks_ok_def)
next
  case False
  have "sys_ok s 0" "sys_ok s 1" "sys_ok s 2" "sys_ok s 3" "sys_ok s 4"
    using assms(1) by simp_all
  from write_memory_opens [OF this assms(2) False assms(3,4)] show ?thesis by blast
qed

theorem write_memory_stores_witness:
  "\<exists>s'. write_memory sample_env 0x400ffe [0xcc, 0x90] sample_mem_state = Ret (0, s') \<and> mem s' 0x400ffe = 0xcc"
proof -
  have "\<exists>s'. write_memory sample_env 0x400ffe [0xcc, 0x90] sample_mem_state = Ret (0, s') \<and>
      mem s' = write_bytes (mem sample_mem_state) 0x400ffe [0xcc, 0x90] \<and>
      sig_mask s' = sig_mask sample_mem_state \<and> \<not> performing_mem_access s' \<and> \<not> aborting_mem_access s'"
    by (rule write_memory_stores)
      (simp_all add: sample_mem_state_def sample_env_ok sys_ok_def openable_def range_pages_def
        page_align_def all_less_two Let_def)
  then show ?thesis
    by (auto simp: write_bytes_def)
qed

text \<open>
  C35. A copy that runs into an unmapped page fails with -1 after the bytes before that page,
  clears the flags that the fault handler uses, and leaves the message of the fault to report.
\<close>

theorem read_memory_unmapped_page:
  assumes "\<forall>k\<le>3. sys_ok s k" and "k < n" and "accessible E FromDebuggee a k s"
    and "pages s (page_align E (a + of_nat k)) = None"
  shows "\<exists>s'. read_memory E a n s = Ret (- 1, read_bytes (mem s) a k, s') \<and>
    get_mem_errstr s' = ''address not mapped in process'' \<and> mem s' = mem s \<and> sig_mask s' = sig_mask s \<and>
    \<not> performing_mem_access s' \<and> \<not> aborting_mem_access s'"
  using assms read_memory_unmapped [of s k n E a]
  by (simp add: hooks_ok_def get_mem_errstr_def)

theorem read_memory_unmapped_page_witness:
  "\<exists>s'. read_memory sample_env 0x400fff 2 sample_mem_state = Ret (- 1, [0], s') \<and>
     get_mem_errstr s' = ''address not mapped in process''"
proof -
  have "\<exists>s'. read_memory sample_env 0x400fff 2 sample_mem_state =
        Ret (- 1, read_bytes (mem sample_mem_state) 0x400fff 1, s') \<and>
      get_mem_errstr s' = ''address not mapped in process'' \<and> mem s' = mem sample_mem_state \<and>
      sig_mask s' = sig_mask sample_mem_state \<and> \<not> performing_mem_access s' \<and> \<not> aborting_mem_access s'"
    by (rule read_memory_unmapped_page)
      (simp_all add: sample_mem_state_def sample_env_ok sys_ok_def accessible_def access_fault_def page_align_def)
  then show ?thesis
    by (auto simp: read_bytes_def sample_mem_state_def)
qed

text \<open>
  C36. An access that begins in one page and reaches a protected page outside the range that
  the handler opens never returns: the handler opens the range from the aligned address over
  the unaligned size, reports success, and the same byte faults again, for ever.
\<close>

theorem write_memory_livelock:
  assumes "sys_always_ok s" and "i < length bs" and "length bs \<le> 2 ^ 64"
    and "accessible E (ToDebuggee bs) a i s"
    and "list_all (\<lambda>p. pages s p \<noteq> None) (range_pages E (page_align E a) (length bs))"
    and "page_align E (a + of_nat i) \<notin> set (range_pages E (page_align E a) (length bs))"
    and "access_fault E (ToDebuggee bs) (a + of_nat i) s = Some SEGV_ACCERR"
  shows "write_memory E a bs s = Stuck"
proof -
  let ?s = "s\<lparr>mem_access_addr := a, mem_access_size := length bs\<rparr>"
  let ?t = "?s\<lparr>sys_count := sys_count ?s + 3,
        sig_mask := sig_mask ?s - {SIGSEGV, SIGBUS}, performing_mem_access := True\<rparr>"
  have "memcpy_loop E (ToDebuggee bs) a (length bs) 0 [] ?t =
      memcpy_loop E (ToDebuggee bs) a (length bs) i (take i bs) (?t\<lparr>mem := write_bytes (mem s) a (take i bs)\<rparr>)"
    using memcpy_write_prefix [of 0 i E bs a ?t "mem s"] assms(2-4)
    by (simp add: accessible_def)
  also have "\<dots> = None"
    using assms by (intro memcpy_stubborn) (auto simp: stubborn_def sys_always_ok_def)
  finally show ?thesis
    using assms(1)
    by (simp add: write_memory_def udi_memcpy_def pre_hook_ok sys_ok_def sys_always_ok_def abortable_memcpy_def)
qed

theorem write_memory_livelock_witness:
  "write_memory sample_env 0x400fff [1, 2]
     (sample_mem_state\<lparr>pages := [0x400000 \<mapsto> Page True True True, 0x401000 \<mapsto> Page True False True]\<rparr>) = Stuck"
  by (rule write_memory_livelock [where i = 1])
    (simp_all add: sample_mem_state_def sample_env_ok sys_always_ok_def accessible_def access_fault_def
      page_align_def range_pages_def Let_def SEGV_ACCERR_def)

end
