(* ===== verification/Breakpoint.thy ===== *)
theory Breakpoint
  imports Memory_Access
begin

text \<open>
  The breakpoint table (\<^verbatim>\<open>udirt.c\<close> lines 167 to 339) and the instructions it puts into
  memory (\<^verbatim>\<open>udirt-x86.c\<close> lines 19 to 71). The table is kept at pointer level: 256 buckets,
  each a chain of allocated objects linked through \<open>next_breakpoint\<close>. The lemmas relate it
  to a finite map from addresses to pointers, and the memory to the memory that the
  debuggee would have without breakpoints.
\<close>

section \<open>Definitions\<close>

record breakpoint =
  saved_bytes :: "u8 list"
  address :: u64
  in_memory :: bool
  bp_thread :: ptr
  next_breakpoint :: ptr

record bp_state = mem_state +
  bp_heap :: "ptr \<rightharpoonup> breakpoint"
  breakpoints :: "nat \<Rightarrow> ptr"

definition BREAKPOINT_HASH_SIZE :: nat where
  "BREAKPOINT_HASH_SIZE = 256"

definition BREAKPOINT_INSN :: u8 where
  "BREAKPOINT_INSN = 0xcc"

definition breakpoint_hash :: "u64 \<Rightarrow> nat" where
  "breakpoint_hash a = unat a mod BREAKPOINT_HASH_SIZE"

subsection \<open>The table\<close>

text \<open>
  The loop of \<^verbatim>\<open>create_breakpoint\<close>: an object with the address, or the last object of the
  chain. \<open>None\<close> is a dangling link or a chain without an end.
\<close>

datatype bp_place = Existing ptr | Last ptr

partial_function (option) create_loop :: "(ptr \<rightharpoonup> breakpoint) \<Rightarrow> u64 \<Rightarrow> ptr \<Rightarrow> bp_place option" where
  "create_loop h a p =
     (case h p of
        None \<Rightarrow> None
      | Some b \<Rightarrow>
          if address b = a then Some (Existing p)
          else if next_breakpoint b = NULL then Some (Last p)
          else create_loop h a (next_breakpoint b))"

definition new_breakpoint :: "u64 \<Rightarrow> breakpoint" where
  "new_breakpoint a =
     \<lparr>saved_bytes = replicate 8 0, address = a, in_memory = False, bp_thread = NULL, next_breakpoint = NULL\<rparr>"

definition create_breakpoint :: "u64 \<Rightarrow> 'z bp_state_scheme \<Rightarrow> (ptr \<times> 'z bp_state_scheme) run" where
  "create_breakpoint a s =
     (case alloc_ptr (bp_heap s) s of (p, s) \<Rightarrow>
        if p = NULL then Ret (NULL, s)
        else
          let s = s\<lparr>bp_heap := (bp_heap s)(p \<mapsto> new_breakpoint a)\<rparr>;
              hash = breakpoint_hash a;
              current_bp = breakpoints s hash
          in if current_bp = NULL
             then Ret (p, s\<lparr>breakpoints := (breakpoints s)(hash := p)\<rparr>)
             else run_bind (of_option (create_loop (bp_heap s) a current_bp)) (\<lambda>place.
               case place of
                 Existing q \<Rightarrow> Ret (q, s\<lparr>bp_heap := (bp_heap s)(p := None)\<rparr>)
               | Last q \<Rightarrow> run_bind (deref (bp_heap s) q) (\<lambda>b.
                   Ret (p, s\<lparr>bp_heap := (bp_heap s)(q \<mapsto> b\<lparr>next_breakpoint := p\<rparr>)\<rparr>))))"

partial_function (option) find_loop :: "(ptr \<rightharpoonup> breakpoint) \<Rightarrow> u64 \<Rightarrow> ptr \<Rightarrow> ptr option" where
  "find_loop h a p =
     (if p = NULL then Some NULL
      else (case h p of
        None \<Rightarrow> None
      | Some b \<Rightarrow> if address b = a then Some p else find_loop h a (next_breakpoint b)))"

definition find_breakpoint :: "u64 \<Rightarrow> 'z bp_state_scheme \<Rightarrow> ptr run" where
  "find_breakpoint a s = of_option (find_loop (bp_heap s) a (breakpoints s (breakpoint_hash a)))"

text \<open>The loop of \<^verbatim>\<open>delete_breakpoint\<close>: the pointers \<^verbatim>\<open>tmp_breakpoint\<close> and \<^verbatim>\<open>prev_breakpoint\<close> at its end.\<close>

partial_function (option) delete_loop :: "(ptr \<rightharpoonup> breakpoint) \<Rightarrow> u64 \<Rightarrow> ptr \<Rightarrow> ptr \<Rightarrow> (ptr \<times> ptr) option" where
  "delete_loop h a tmp prev =
     (if tmp = NULL then Some (tmp, prev)
      else (case h tmp of
        None \<Rightarrow> None
      | Some b \<Rightarrow>
          if address b = a then Some (tmp, prev)
          else delete_loop h a (next_breakpoint b) tmp))"

subsection \<open>Memory\<close>

definition write_breakpoint_instruction :: "env \<Rightarrow> ptr \<Rightarrow> 'z bp_state_scheme \<Rightarrow> (int \<times> 'z bp_state_scheme) run" where
  "write_breakpoint_instruction E bp s =
     run_bind (deref (bp_heap s) bp) (\<lambda>b.
       if in_memory b then Ret (0, s)
       else run_bind (read_memory E (address b) 1 s) (\<lambda>(result, out, s).
         let s = s\<lparr>bp_heap := (bp_heap s)(bp \<mapsto>
               b\<lparr>saved_bytes := out @ drop (length out) (saved_bytes b)\<rparr>)\<rparr>
         in if result \<noteq> 0 then Ret (result, s)
            else write_memory E (address b) [BREAKPOINT_INSN] s))"

definition write_saved_bytes :: "env \<Rightarrow> ptr \<Rightarrow> 'z bp_state_scheme \<Rightarrow> (int \<times> 'z bp_state_scheme) run" where
  "write_saved_bytes E bp s =
     run_bind (deref (bp_heap s) bp) (\<lambda>b.
       if \<not> in_memory b then Ret (0, s)
       else write_memory E (address b) (take 1 (saved_bytes b)) s)"

definition set_in_memory :: "ptr \<Rightarrow> bool \<Rightarrow> 'z bp_state_scheme \<Rightarrow> 'z bp_state_scheme run" where
  "set_in_memory bp v s =
     run_bind (deref (bp_heap s) bp) (\<lambda>b. Ret (s\<lparr>bp_heap := (bp_heap s)(bp \<mapsto> b\<lparr>in_memory := v\<rparr>)\<rparr>))"

definition install_breakpoint :: "env \<Rightarrow> ptr \<Rightarrow> 'z bp_state_scheme \<Rightarrow> (int \<times> 'z bp_state_scheme) run" where
  "install_breakpoint E bp s =
     run_bind (deref (bp_heap s) bp) (\<lambda>b.
       if in_memory b then Ret (0, s)
       else run_bind (write_breakpoint_instruction E bp s) (\<lambda>(result, s).
         if result = 0 then run_bind (set_in_memory bp True s) (\<lambda>s. Ret (result, s))
         else Ret (result, s)))"

definition remove_breakpoint :: "env \<Rightarrow> ptr \<Rightarrow> 'z bp_state_scheme \<Rightarrow> (int \<times> 'z bp_state_scheme) run" where
  "remove_breakpoint E bp s =
     run_bind (deref (bp_heap s) bp) (\<lambda>b.
       if \<not> in_memory b then Ret (0, s)
       else run_bind (write_saved_bytes E bp s) (\<lambda>(result, s).
         if result = 0 then run_bind (set_in_memory bp False s) (\<lambda>s. Ret (result, s))
         else Ret (result, s)))"

definition remove_breakpoint_for_continue ::
    "env \<Rightarrow> ptr \<Rightarrow> 'z bp_state_scheme \<Rightarrow> (int \<times> 'z bp_state_scheme) run" where
  "remove_breakpoint_for_continue E bp s =
     run_bind (deref (bp_heap s) bp) (\<lambda>b.
       if \<not> in_memory b then Ret (0, s) else write_saved_bytes E bp s)"

definition delete_breakpoint :: "env \<Rightarrow> ptr \<Rightarrow> 'z bp_state_scheme \<Rightarrow> (int \<times> 'z bp_state_scheme) run" where
  "delete_breakpoint E bp s =
     run_bind (remove_breakpoint E bp s) (\<lambda>(remove_result, s).
       if remove_result \<noteq> 0 then Ret (remove_result, s)
       else run_bind (deref (bp_heap s) bp) (\<lambda>b.
         let hash = breakpoint_hash (address b) in
         run_bind (of_option (delete_loop (bp_heap s) (address b) (breakpoints s hash) (breakpoints s hash)))
           (\<lambda>(tmp, prev).
             if tmp = NULL \<or> prev = NULL
             then Ret (- 1, udi_set_errmsg E ''failed to delete breakpoint at %a'' [ArgU64 (address b)] s)
             else if prev = tmp
             then Ret (0, s\<lparr>breakpoints := (breakpoints s)(hash := NULL), bp_heap := (bp_heap s)(tmp := None)\<rparr>)
             else run_bind (deref (bp_heap s) tmp) (\<lambda>t.
               run_bind (deref (bp_heap s) prev) (\<lambda>v.
                 Ret (0, s\<lparr>bp_heap := ((bp_heap s)(prev \<mapsto> v\<lparr>next_breakpoint := next_breakpoint t\<rparr>))(tmp := None)\<rparr>))))))"

section \<open>Chains\<close>

fun bp_chain :: "(ptr \<rightharpoonup> breakpoint) \<Rightarrow> ptr \<Rightarrow> ptr list \<Rightarrow> bool" where
  "bp_chain h p [] \<longleftrightarrow> p = NULL"
| "bp_chain h p (q # qs) \<longleftrightarrow> p = q \<and> q \<noteq> NULL \<and>
     (case h q of None \<Rightarrow> False | Some b \<Rightarrow> bp_chain h (next_breakpoint b) qs)"

definition bp_addr :: "(ptr \<rightharpoonup> breakpoint) \<Rightarrow> ptr \<Rightarrow> u64" where
  "bp_addr h p = (case h p of None \<Rightarrow> 0 | Some b \<Rightarrow> address b)"

abbreviation bp_at :: "(ptr \<rightharpoonup> breakpoint) \<Rightarrow> u64 \<Rightarrow> ptr list \<Rightarrow> ptr option" where
  "bp_at h a qs \<equiv> find (\<lambda>q. bp_addr h q = a) qs"

lemma bp_chain_unique: "bp_chain h p qs \<Longrightarrow> bp_chain h p rs \<Longrightarrow> qs = rs"
proof (induction qs arbitrary: p rs)
  case Nil
  then show ?case by (cases rs) auto
next
  case (Cons q qs)
  then show ?case by (cases rs) (auto split: option.splits)
qed

lemma bp_chain_NULL [simp]: "bp_chain h 0 qs \<longleftrightarrow> qs = []"
  by (cases qs) auto

lemma bp_chain_live: "bp_chain h p qs \<Longrightarrow> q \<in> set qs \<Longrightarrow> q \<noteq> NULL \<and> (\<exists>b. h q = Some b)"
  by (induction qs arbitrary: p) (auto split: option.splits)

lemma bp_chain_cong:
  assumes "bp_chain h p qs"
    and "\<And>q b. q \<in> set qs \<Longrightarrow> h q = Some b \<Longrightarrow> \<exists>b'. h' q = Some b' \<and> next_breakpoint b' = next_breakpoint b"
  shows "bp_chain h' p qs"
  using assms by (induction qs arbitrary: p) (force split: option.splits)+

lemma bp_addr_Some [simp]: "h p = Some b \<Longrightarrow> bp_addr h p = address b"
  by (simp add: bp_addr_def)

lemma find_loop_chain:
  "bp_chain h p qs \<Longrightarrow>
     find_loop h a p = Some (case bp_at h a qs of None \<Rightarrow> NULL | Some q \<Rightarrow> q)"
proof (induction qs arbitrary: p)
  case Nil
  then show ?case by (simp add: find_loop.simps)
next
  case (Cons q qs)
  then show ?case by (subst find_loop.simps) (auto split: option.splits)
qed

lemma create_loop_chain:
  "bp_chain h p qs \<Longrightarrow> qs \<noteq> [] \<Longrightarrow>
     create_loop h a p = Some (case bp_at h a qs of None \<Rightarrow> Last (last qs) | Some q \<Rightarrow> Existing q)"
proof (induction qs arbitrary: p)
  case (Cons q qs)
  show ?case
  proof (cases qs)
    case Nil
    then show ?thesis using Cons.prems by (subst create_loop.simps) (auto split: option.splits)
  next
    case (Cons r rs)
    then show ?thesis
      using Cons.prems Cons.IH by (subst create_loop.simps) (auto split: option.splits)
  qed
qed simp

lemma delete_loop_chain:
  "bp_chain h p (ys @ q # zs) \<Longrightarrow> bp_addr h q = a \<Longrightarrow> a \<notin> bp_addr h ` set ys \<Longrightarrow>
     delete_loop h a p prev = Some (q, if ys = [] then prev else last ys)"
proof (induction ys arbitrary: p prev)
  case Nil
  then show ?case by (subst delete_loop.simps) (auto split: option.splits)
next
  case (Cons y ys)
  then show ?case by (subst delete_loop.simps) (auto split: option.splits)
qed

lemma bp_chain_append:
  assumes "bp_chain h p qs" and "qs \<noteq> []" and "distinct qs" and "n \<notin> set qs" and "n \<noteq> NULL"
    and "h (last qs) = Some b" and "next_breakpoint c = NULL"
  shows "bp_chain (h(n \<mapsto> c, last qs \<mapsto> b\<lparr>next_breakpoint := n\<rparr>)) p (qs @ [n])"
  using assms
proof (induction qs arbitrary: p)
  case (Cons q qs)
  show ?case
  proof (cases qs)
    case Nil
    then show ?thesis using Cons.prems by auto
  next
    case (Cons r rs)
    then have "q \<noteq> last qs" using Cons.prems(3) by auto
    then show ?thesis
      using Cons Cons.prems Cons.IH [of "next_breakpoint (the (h q))"] by (auto split: option.splits)
  qed
qed simp

lemma bp_chain_unlink:
  assumes "bp_chain h p (ys @ q # zs)" and "ys \<noteq> []" and "distinct (ys @ q # zs)"
    and "h (last ys) = Some v" and "h q = Some t"
  shows "bp_chain (h(last ys \<mapsto> v\<lparr>next_breakpoint := next_breakpoint t\<rparr>, q := None)) p (ys @ zs)"
  using assms
proof (induction ys arbitrary: p)
  case (Cons y ys)
  let ?h = "h(last (y # ys) \<mapsto> v\<lparr>next_breakpoint := next_breakpoint t\<rparr>, q := None)"
  show ?case
  proof (cases ys)
    case Nil
    moreover have "bp_chain h (next_breakpoint t) zs"
      using Cons.prems Nil by (auto split: option.splits)
    then have "bp_chain ?h (next_breakpoint t) zs"
      using Cons.prems Nil by (elim bp_chain_cong) auto
    ultimately show ?thesis using Cons.prems by (auto simp: fun_upd_def)
  next
    case (Cons r rs)
    obtain b where b: "h y = Some b" "bp_chain h (next_breakpoint b) (ys @ q # zs)"
      using Cons.prems(1) by (auto split: option.splits)
    have "last (y # ys) = last ys" "y \<noteq> last ys" "y \<noteq> q"
      using Cons Cons.prems(3) by auto
    moreover have "bp_chain (h(last ys \<mapsto> v\<lparr>next_breakpoint := next_breakpoint t\<rparr>, q := None))
        (next_breakpoint b) (ys @ zs)"
      using Cons Cons.prems b(2) by (intro Cons.IH) auto
    ultimately show ?thesis
      using b(1) Cons.prems(1) by (simp add: fun_upd_def)
  qed
qed simp

lemma distinct_bp_ptrs: "distinct (map (bp_addr h) qs) \<Longrightarrow> distinct qs"
  by (simp add: distinct_map)

lemma bp_at_Some: "bp_at h a qs = Some q \<Longrightarrow> q \<in> set qs \<and> bp_addr h q = a"
  by (induction qs) (auto split: if_splits)

lemma bp_at_None: "bp_at h a qs = None \<longleftrightarrow> a \<notin> bp_addr h ` set qs"
  by (induction qs) auto

lemma bp_at_distinct:
  "distinct (map (bp_addr h) qs) \<Longrightarrow> q \<in> set qs \<Longrightarrow> bp_at h (bp_addr h q) qs = Some q"
  by (induction qs) (auto simp: image_iff)

lemma bp_at_cong: "(\<And>q. q \<in> set qs \<Longrightarrow> bp_addr h' q = bp_addr h q) \<Longrightarrow> bp_at h' a qs = bp_at h a qs"
  by (induction qs) auto

lemma bp_at_append: "bp_at h a (xs @ ys) = (case bp_at h a xs of None \<Rightarrow> bp_at h a ys | Some q \<Rightarrow> Some q)"
  by (induction xs) auto

lemma bp_at_upd: "p \<notin> set qs \<Longrightarrow> bp_at (h(p \<mapsto> x)) a qs = bp_at h a qs"
  by (rule bp_at_cong) (auto simp: bp_addr_def)

section \<open>The table as a map\<close>

text \<open>
  The invariant of the table: every bucket is a chain of live objects with distinct
  addresses that hash to it, and every object has its eight saved bytes.
\<close>

definition bp_bucket :: "(ptr \<rightharpoonup> breakpoint) \<Rightarrow> nat \<Rightarrow> ptr \<Rightarrow> ptr list \<Rightarrow> bool" where
  "bp_bucket h k p qs \<longleftrightarrow> bp_chain h p qs \<and> distinct (map (bp_addr h) qs) \<and>
     (\<forall>q \<in> set qs. breakpoint_hash (bp_addr h q) = k)"

definition bp_table :: "'z bp_state_scheme \<Rightarrow> bool" where
  "bp_table s \<longleftrightarrow>
     (\<forall>k<BREAKPOINT_HASH_SIZE. \<exists>qs. bp_bucket (bp_heap s) k (breakpoints s k) qs) \<and>
     (\<forall>p b. bp_heap s p = Some b \<longrightarrow> length (saved_bytes b) = 8)"

text \<open>The abstract table: the object registered for an address.\<close>

definition bp_lookup :: "'z bp_state_scheme \<Rightarrow> u64 \<Rightarrow> ptr option" where
  "bp_lookup s a =
     (case find_loop (bp_heap s) a (breakpoints s (breakpoint_hash a)) of
        None \<Rightarrow> None
      | Some p \<Rightarrow> if p = NULL then None else Some p)"

lemma breakpoint_hash_less [simp]: "breakpoint_hash a < BREAKPOINT_HASH_SIZE"
  by (simp add: breakpoint_hash_def BREAKPOINT_HASH_SIZE_def)

lemma bp_tableE:
  assumes "bp_table s"
  obtains qs where "bp_bucket (bp_heap s) (breakpoint_hash a) (breakpoints s (breakpoint_hash a)) qs"
    and "bp_lookup s a = bp_at (bp_heap s) a qs"
    and "find_breakpoint a s = Ret (case bp_lookup s a of None \<Rightarrow> NULL | Some p \<Rightarrow> p)"
proof -
  obtain qs where qs: "bp_bucket (bp_heap s) (breakpoint_hash a) (breakpoints s (breakpoint_hash a)) qs"
    using assms breakpoint_hash_less unfolding bp_table_def by blast
  then have chain: "bp_chain (bp_heap s) (breakpoints s (breakpoint_hash a)) qs"
    by (simp add: bp_bucket_def)
  have "bp_lookup s a = bp_at (bp_heap s) a qs"
    using bp_chain_live [OF chain] bp_at_Some [of "bp_heap s" a qs]
    by (auto simp: bp_lookup_def find_loop_chain [OF chain] split: option.splits)
  moreover from this have "find_breakpoint a s = Ret (case bp_lookup s a of None \<Rightarrow> NULL | Some p \<Rightarrow> p)"
    by (simp add: find_breakpoint_def find_loop_chain [OF chain])
  ultimately show thesis using that qs by blast
qed

lemma find_breakpoint_lookup:
  assumes "bp_table s"
  shows "find_breakpoint a s = Ret (case bp_lookup s a of None \<Rightarrow> NULL | Some p \<Rightarrow> p)"
  using assms by (rule bp_tableE)

lemma bp_lookup_bucket:
  assumes "bp_bucket (bp_heap s) (breakpoint_hash a) (breakpoints s (breakpoint_hash a)) qs"
  shows "bp_lookup s a = bp_at (bp_heap s) a qs"
  using assms bp_chain_live bp_at_Some [of "bp_heap s" a qs]
  by (fastforce simp: bp_bucket_def bp_lookup_def find_loop_chain split: option.splits)

lemma bp_lookup_live:
  assumes "bp_table s" and "bp_lookup s a = Some p"
  shows "p \<noteq> NULL \<and> (\<exists>b. bp_heap s p = Some b \<and> address b = a \<and> length (saved_bytes b) = 8)"
proof -
  obtain qs where "bp_bucket (bp_heap s) (breakpoint_hash a) (breakpoints s (breakpoint_hash a)) qs"
    and "bp_lookup s a = bp_at (bp_heap s) a qs"
    using assms(1) by (rule bp_tableE)
  then have "bp_addr (bp_heap s) p = a" "p \<noteq> NULL" "\<exists>b. bp_heap s p = Some b"
    using assms(2) bp_at_Some bp_chain_live unfolding bp_bucket_def by metis+
  then show ?thesis using assms(1) by (auto simp: bp_table_def)
qed

text \<open>
  Objects that keep their address and link keep the table: the way the memory operations
  change the heap.
\<close>

definition bp_same_links :: "(ptr \<rightharpoonup> breakpoint) \<Rightarrow> (ptr \<rightharpoonup> breakpoint) \<Rightarrow> bool" where
  "bp_same_links h h' \<longleftrightarrow>
     (\<forall>p. map_option (\<lambda>b. (address b, next_breakpoint b, bp_thread b, length (saved_bytes b))) (h' p)
        = map_option (\<lambda>b. (address b, next_breakpoint b, bp_thread b, length (saved_bytes b))) (h p))"

lemma bp_same_links_refl [simp]: "bp_same_links h h"
  by (simp add: bp_same_links_def)

lemma bp_same_links_trans: "bp_same_links h h' \<Longrightarrow> bp_same_links h' h'' \<Longrightarrow> bp_same_links h h''"
  by (simp add: bp_same_links_def)

lemma bp_same_links_upd:
  assumes "h p = Some b" and "address b' = address b" and "next_breakpoint b' = next_breakpoint b"
    and "bp_thread b' = bp_thread b" and "length (saved_bytes b') = length (saved_bytes b)"
  shows "bp_same_links h (h(p \<mapsto> b'))"
  using assms by (simp add: bp_same_links_def)

lemma bp_same_links_addr: "bp_same_links h h' \<Longrightarrow> bp_addr h' p = bp_addr h p"
  by (cases "h p"; cases "h' p") (auto simp: bp_same_links_def bp_addr_def dest!: spec [of _ p])

lemma bp_same_linksD:
  assumes "bp_same_links h h'" and "h q = Some b"
  shows "\<exists>b'. h' q = Some b' \<and> address b' = address b \<and> next_breakpoint b' = next_breakpoint b \<and>
    bp_thread b' = bp_thread b \<and> length (saved_bytes b') = length (saved_bytes b)"
  using assms by (cases "h' q") (auto simp: bp_same_links_def dest!: spec [of _ q])

lemma bp_same_links_chain: "bp_same_links h h' \<Longrightarrow> bp_chain h p qs \<Longrightarrow> bp_chain h' p qs"
  by (elim bp_chain_cong) (blast dest: bp_same_linksD)

lemma bp_same_links_bucket: "bp_same_links h h' \<Longrightarrow> bp_bucket h k p qs \<Longrightarrow> bp_bucket h' k p qs"
  using bp_same_links_addr [of h h']
  by (auto simp: bp_bucket_def bp_same_links_chain cong: map_cong)

lemma bp_same_links_table:
  assumes links: "bp_same_links (bp_heap s) (bp_heap s')" and "breakpoints s' = breakpoints s" and "bp_table s"
  shows "bp_table s'" and "bp_lookup s' = bp_lookup s"
proof -
  have "\<forall>k<BREAKPOINT_HASH_SIZE. \<exists>qs. bp_bucket (bp_heap s') k (breakpoints s' k) qs"
    using assms bp_same_links_bucket [OF links] unfolding bp_table_def by metis
  moreover have "length (saved_bytes b) = 8" if "bp_heap s' p = Some b" for p b
    using that links assms(3)
    by (cases "bp_heap s p") (auto simp: bp_same_links_def bp_table_def dest!: spec [of _ p])
  ultimately show "bp_table s'" by (simp add: bp_table_def)
  show "bp_lookup s' = bp_lookup s"
  proof
    fix a
    obtain qs where qs: "bp_bucket (bp_heap s) (breakpoint_hash a) (breakpoints s (breakpoint_hash a)) qs"
      and l: "bp_lookup s a = bp_at (bp_heap s) a qs"
      using assms(3) by (rule bp_tableE)
    have "bp_lookup s' a = bp_at (bp_heap s') a qs"
      using bp_same_links_bucket [OF links qs] by (intro bp_lookup_bucket) (simp add: assms(2))
    then show "bp_lookup s' a = bp_lookup s a"
      using l bp_at_cong [of qs "bp_heap s'" "bp_heap s"] bp_same_links_addr [OF links] by simp
  qed
qed

lemma bp_bucketD:
  assumes "bp_bucket h k p qs" and "q \<in> set qs"
  shows "\<exists>b. q \<noteq> NULL \<and> h q = Some b \<and> breakpoint_hash (address b) = k"
proof -
  obtain b where "q \<noteq> NULL" "h q = Some b"
    using assms bp_chain_live [of h p qs q] by (auto simp: bp_bucket_def)
  moreover from this have "breakpoint_hash (address b) = k"
    using assms bp_addr_Some [of h q b] by (auto simp: bp_bucket_def)
  ultimately show ?thesis by simp
qed

lemma bp_bucket_frame:
  assumes "bp_bucket h k p qs" and "\<And>q b. q \<in> set qs \<Longrightarrow> h q = Some b \<Longrightarrow> h' q = Some b"
  shows "bp_bucket h' k p qs"
proof -
  have "bp_chain h p qs" using assms(1) by (simp add: bp_bucket_def)
  then have "bp_addr h' q = bp_addr h q" if "q \<in> set qs" for q
    using that assms(2) bp_chain_live by (metis bp_addr_Some)
  moreover have "bp_chain h' p qs"
    using \<open>bp_chain h p qs\<close> by (rule bp_chain_cong) (simp add: assms(2))
  ultimately show ?thesis using assms(1) by (simp add: bp_bucket_def cong: map_cong)
qed

text \<open>A change of one bucket.\<close>

lemma bp_table_bucket_change:
  assumes t: "bp_table s" and new: "bp_bucket (bp_heap s') k (breakpoints s' k) qs'"
    and others: "\<And>j. j \<noteq> k \<Longrightarrow> breakpoints s' j = breakpoints s j"
    and frame: "\<And>q b. bp_heap s q = Some b \<Longrightarrow> breakpoint_hash (address b) \<noteq> k \<Longrightarrow> bp_heap s' q = Some b"
    and saved: "\<And>q b. bp_heap s' q = Some b \<Longrightarrow> length (saved_bytes b) = 8"
  shows "bp_table s'"
    and "bp_lookup s' a = (if breakpoint_hash a = k then bp_at (bp_heap s') a qs' else bp_lookup s a)"
proof -
  have other: "bp_bucket (bp_heap s') j (breakpoints s' j) qs"
    if "j \<noteq> k" "bp_bucket (bp_heap s) j (breakpoints s j) qs" for j qs
    unfolding others [OF that(1)] using that(2)
  proof (rule bp_bucket_frame)
    fix q b
    assume "q \<in> set qs" "bp_heap s q = Some b"
    then show "bp_heap s' q = Some b" using that frame by (auto simp: bp_bucket_def)
  qed
  then have "\<exists>qs. bp_bucket (bp_heap s') j (breakpoints s' j) qs" if "j < BREAKPOINT_HASH_SIZE" for j
    using t new that unfolding bp_table_def by metis
  then show "bp_table s'" using saved by (simp add: bp_table_def)
  show "bp_lookup s' a = (if breakpoint_hash a = k then bp_at (bp_heap s') a qs' else bp_lookup s a)"
  proof (cases "breakpoint_hash a = k")
    case True
    then show ?thesis using new bp_lookup_bucket [of s' a qs'] by simp
  next
    case False
    obtain qs where qs: "bp_bucket (bp_heap s) (breakpoint_hash a) (breakpoints s (breakpoint_hash a)) qs"
      and l: "bp_lookup s a = bp_at (bp_heap s) a qs"
      using t by (rule bp_tableE)
    have "bp_addr (bp_heap s') q = bp_addr (bp_heap s) q" if q: "q \<in> set qs" for q
    proof -
      obtain b where b: "bp_heap s q = Some b" "breakpoint_hash (address b) = breakpoint_hash a"
        using bp_bucketD [OF qs q] by blast
      then show ?thesis using frame [OF b(1)] False by simp
    qed
    then show ?thesis
      using False l bp_lookup_bucket [OF other [OF False qs]] bp_at_cong [of qs "bp_heap s'" "bp_heap s" a] by simp
  qed
qed

lemma bp_at_split:
  "bp_at h a qs = Some q \<Longrightarrow> \<exists>ys zs. qs = ys @ q # zs \<and> bp_addr h q = a \<and> a \<notin> bp_addr h ` set ys"
proof (induction qs)
  case (Cons r rs)
  show ?case
  proof (cases "bp_addr h r = a")
    case True
    then show ?thesis using Cons.prems by (intro exI [of _ "[]"] exI [of _ rs]) auto
  next
    case False
    then obtain ys zs where "rs = ys @ q # zs \<and> bp_addr h q = a \<and> a \<notin> bp_addr h ` set ys"
      using Cons by auto
    then show ?thesis using False by (intro exI [of _ "r # ys"] exI [of _ zs]) auto
  qed
qed simp

subsection \<open>Creation\<close>

text \<open>Objects that exist keep everything but their link.\<close>

definition bp_only_links :: "(ptr \<rightharpoonup> breakpoint) \<Rightarrow> (ptr \<rightharpoonup> breakpoint) \<Rightarrow> bool" where
  "bp_only_links h h' \<longleftrightarrow> (\<forall>q b. h q = Some b \<longrightarrow> (\<exists>n. h' q = Some (b\<lparr>next_breakpoint := n\<rparr>)))"

lemma bp_same_link [simp]: "\<exists>n. b = b\<lparr>next_breakpoint := n\<rparr>"
  by (rule exI [of _ "next_breakpoint b"]) simp

lemma bp_only_links_refl [simp]: "bp_only_links h h"
  by (simp add: bp_only_links_def)

lemma create_breakpoint_existing:
  assumes t: "bp_table s" and "bp_lookup s a = Some q"
  shows "\<exists>p. create_breakpoint a s = Ret (p, s\<lparr>sys_count := Suc (sys_count s)\<rparr>) \<and> (p = NULL \<or> p = q)"
proof -
  let ?s = "s\<lparr>sys_count := Suc (sys_count s)\<rparr>"
  obtain p where a: "alloc_ptr (bp_heap s) s = (p, ?s)"
    using alloc_ptr_state by (metis surj_pair snd_conv)
  show ?thesis
  proof (cases "p = NULL")
    case True
    then show ?thesis using a by (simp add: create_breakpoint_def)
  next
    case False
    have fresh: "bp_heap s p = None" using a False by (rule alloc_ptr_fresh)
    let ?h = "(bp_heap s)(p \<mapsto> new_breakpoint a)"
    obtain qs where qs: "bp_bucket (bp_heap s) (breakpoint_hash a) (breakpoints s (breakpoint_hash a)) qs"
      and l: "bp_lookup s a = bp_at (bp_heap s) a qs"
      using t by (rule bp_tableE)
    have "bp_chain (bp_heap s) (breakpoints s (breakpoint_hash a)) qs"
      using qs by (simp add: bp_bucket_def)
    then have q: "bp_chain ?h (breakpoints s (breakpoint_hash a)) qs"
      by (rule bp_chain_cong) (auto simp: fresh)
    have "p \<notin> set qs" using bp_bucketD [OF qs] fresh by force
    then have "bp_at ?h a qs = Some q" using l assms(2) by (simp add: bp_at_upd)
    have "qs \<noteq> []" using l assms(2) by auto
    moreover have "breakpoints s (breakpoint_hash a) \<noteq> NULL"
      using qs \<open>qs \<noteq> []\<close> by (cases qs) (auto simp: bp_bucket_def)
    moreover have "?h(p := None) = bp_heap s" using fresh by auto
    ultimately show ?thesis
      using a False \<open>bp_at ?h a qs = Some q\<close> create_loop_chain [OF q, of a]
      by (cases s) (simp add: create_breakpoint_def Let_def)
  qed
qed

text \<open>A new object becomes the last of its bucket; the objects before it keep their places.\<close>

lemma create_breakpoint_new:
  assumes t: "bp_table s" and none: "bp_lookup s a = None"
    and p: "fst (alloc_ptr (bp_heap s) s) = p" "p \<noteq> NULL"
    and qs: "bp_bucket (bp_heap s) (breakpoint_hash a) (breakpoints s (breakpoint_hash a)) qs"
  obtains s' where "create_breakpoint a s = Ret (p, s')"
    and "bp_bucket (bp_heap s') (breakpoint_hash a) (breakpoints s' (breakpoint_hash a)) (qs @ [p])"
    and "bp_heap s' p = Some (new_breakpoint a)" and "bp_only_links (bp_heap s) (bp_heap s')"
    and "\<And>j. j \<noteq> breakpoint_hash a \<Longrightarrow> breakpoints s' j = breakpoints s j"
    and "\<And>q b. bp_heap s q = Some b \<Longrightarrow> breakpoint_hash (address b) \<noteq> breakpoint_hash a \<Longrightarrow> bp_heap s' q = Some b"
    and "\<And>q b. bp_heap s' q = Some b \<Longrightarrow> length (saved_bytes b) = 8"
    and "\<exists>h bs. s' = s\<lparr>sys_count := Suc (sys_count s), bp_heap := h, breakpoints := bs\<rparr>"
proof -
  let ?k = "breakpoint_hash a"
  let ?s = "s\<lparr>sys_count := Suc (sys_count s)\<rparr>"
  let ?h = "(bp_heap s)(p \<mapsto> new_breakpoint a)"
  have al: "alloc_ptr (bp_heap s) s = (p, ?s)"
    using p(1) alloc_ptr_state [of "bp_heap s" s] by (metis prod.collapse)
  then have fresh: "bp_heap s p = None" using p(2) by (rule alloc_ptr_fresh)
  have chain: "bp_chain (bp_heap s) (breakpoints s ?k) qs" using qs by (simp add: bp_bucket_def)
  have saved: "length (saved_bytes b) = 8" if "?h q = Some b" for q b
    using that t by (auto simp: bp_table_def new_breakpoint_def split: if_splits)
  have pq: "p \<notin> set qs" using fresh bp_chain_live [OF chain] by force
  have bh: "bp_bucket ?h ?k (breakpoints s ?k) qs"
    using qs by (rule bp_bucket_frame) (auto simp: fresh)
  have at: "bp_at ?h a qs = None"
    using none bp_lookup_bucket [OF qs] pq by (simp add: bp_at_upd)
  show thesis
  proof (cases "qs = []")
    case True
    let ?s' = "s\<lparr>sys_count := Suc (sys_count s), bp_heap := ?h, breakpoints := (breakpoints s)(?k := p)\<rparr>"
    have "create_breakpoint a s = Ret (p, ?s')"
      using al p(2) chain True by (cases s) (simp add: create_breakpoint_def)
    moreover have "bp_bucket (bp_heap ?s') ?k (breakpoints ?s' ?k) (qs @ [p])"
      using True p(2) by (simp add: bp_bucket_def new_breakpoint_def bp_addr_def)
    moreover have "bp_only_links (bp_heap s) ?h"
      using fresh by (auto simp: bp_only_links_def)
    moreover have "\<exists>h bs. ?s' = s\<lparr>sys_count := Suc (sys_count s), bp_heap := h, breakpoints := bs\<rparr>"
      by blast
    ultimately show thesis
      using saved fresh by (intro that [of ?s']) (auto split: if_splits)
  next
    case False
    define l where "l = last qs"
    have l: "l \<in> set qs" "l \<noteq> p" using False pq by (auto simp: l_def)
    obtain b where b: "?h l = Some b" "breakpoint_hash (address b) = ?k" "l \<noteq> NULL"
      using bp_bucketD [OF bh l(1)] by blast
    let ?h2 = "?h(l \<mapsto> b\<lparr>next_breakpoint := p\<rparr>)"
    let ?s' = "s\<lparr>sys_count := Suc (sys_count s), bp_heap := ?h2\<rparr>"
    have head: "breakpoints s ?k \<noteq> NULL" using chain False by (cases qs) auto
    have ch: "bp_chain ?h (breakpoints s ?k) qs" using bh by (simp add: bp_bucket_def)
    have create: "create_breakpoint a s = Ret (p, ?s')"
      using al p(2) head create_loop_chain [OF ch False, of a] at b l
      by (cases s) (simp add: create_breakpoint_def deref_def l_def [symmetric])
    have addr: "bp_addr ?h2 = bp_addr ?h"
      using b by (auto simp: bp_addr_def fun_eq_iff)
    have dist: "distinct (map (bp_addr ?h) qs)" "distinct qs"
      using bh distinct_bp_ptrs by (auto simp: bp_bucket_def)
    have "bp_chain (((bp_heap s)(p \<mapsto> new_breakpoint a))(last qs \<mapsto> b\<lparr>next_breakpoint := p\<rparr>))
        (breakpoints s ?k) (qs @ [p])"
      by (rule bp_chain_append [OF chain False])
        (use dist pq p(2) b l in \<open>auto simp: l_def new_breakpoint_def\<close>)
    moreover have "bp_addr ?h p = a" "a \<notin> bp_addr ?h ` set qs"
      using at by (simp_all add: new_breakpoint_def bp_at_None)
    ultimately have "bp_bucket ?h2 ?k (breakpoints s ?k) (qs @ [p])"
      unfolding bp_bucket_def addr using bh dist by (auto simp: bp_bucket_def l_def)
    moreover have "bp_only_links (bp_heap s) ?h2"
      using fresh b l by (auto simp: bp_only_links_def intro: exI [of _ p])
    moreover have "\<exists>h bs. ?s' = s\<lparr>sys_count := Suc (sys_count s), bp_heap := h, breakpoints := bs\<rparr>"
      by (intro exI [of _ ?h2] exI [of _ "breakpoints s"]) simp
    moreover have "\<And>q c. bp_heap ?s' q = Some c \<Longrightarrow> length (saved_bytes c) = 8"
      using saved saved [OF b(1)] by (auto split: if_splits)
    moreover have "\<And>q c. bp_heap s q = Some c \<Longrightarrow> breakpoint_hash (address c) \<noteq> ?k \<Longrightarrow> bp_heap ?s' q = Some c"
      using b l fresh by auto
    ultimately show thesis
      using l by (intro that [OF create]) simp_all
  qed
qed

text \<open>An entry that can be removed without losing another one: not the head of a longer chain.\<close>

definition bp_removable :: "'z bp_state_scheme \<Rightarrow> u64 \<Rightarrow> bool" where
  "bp_removable s a \<longleftrightarrow>
     (\<forall>p b. bp_lookup s a = Some p \<longrightarrow> breakpoints s (breakpoint_hash a) = p \<longrightarrow> bp_heap s p = Some b
        \<longrightarrow> next_breakpoint b = NULL)"

lemma create_breakpoint_table:
  assumes t: "bp_table s"
  obtains p s' where "create_breakpoint a s = Ret (p, s')" and "bp_table s'"
    and "bp_lookup s' = (if p = NULL then bp_lookup s else (bp_lookup s)(a \<mapsto> p))"
    and "bp_only_links (bp_heap s) (bp_heap s')"
    and "\<exists>h bs. s' = s\<lparr>sys_count := Suc (sys_count s), bp_heap := h, breakpoints := bs\<rparr>"
    and "bp_lookup s a = None \<longrightarrow> p \<noteq> NULL \<longrightarrow> bp_heap s' p = Some (new_breakpoint a) \<and> bp_removable s' a"
    and "\<forall>q. bp_lookup s a = Some q \<longrightarrow> p = NULL \<or> p = q"
proof (cases "bp_lookup s a")
  case (Some q)
  let ?s' = "s\<lparr>sys_count := Suc (sys_count s)\<rparr>"
  obtain p where p: "create_breakpoint a s = Ret (p, ?s')" "p = NULL \<or> p = q"
    using create_breakpoint_existing [OF t Some] by blast
  have same: "bp_table ?s'" "bp_lookup ?s' = bp_lookup s"
    using bp_same_links_table [of s ?s'] t by simp_all
  have "\<exists>h bs. ?s' = s\<lparr>sys_count := Suc (sys_count s), bp_heap := h, breakpoints := bs\<rparr>"
    by (intro exI [of _ "bp_heap s"] exI [of _ "breakpoints s"]) simp
  then show thesis
    using p same Some by (intro that [of p ?s']) auto
next
  case None
  define p where "p = fst (alloc_ptr (bp_heap s) s)"
  obtain qs where qs: "bp_bucket (bp_heap s) (breakpoint_hash a) (breakpoints s (breakpoint_hash a)) qs"
    using bp_tableE [OF t] by blast
  show thesis
  proof (cases "p = NULL")
    case True
    let ?s' = "s\<lparr>sys_count := Suc (sys_count s)\<rparr>"
    have c: "create_breakpoint a s = Ret (p, ?s')"
      using True alloc_ptr_state [of "bp_heap s" s]
      by (cases "alloc_ptr (bp_heap s) s") (simp add: create_breakpoint_def p_def)
    have "\<exists>h bs. ?s' = s\<lparr>sys_count := Suc (sys_count s), bp_heap := h, breakpoints := bs\<rparr>"
      by (intro exI [of _ "bp_heap s"] exI [of _ "breakpoints s"]) simp
    then show thesis
      using c True None bp_same_links_table [of s ?s'] t by (intro that [of p ?s']) auto
  next
    case False
    obtain s' where s': "create_breakpoint a s = Ret (p, s')"
      "bp_bucket (bp_heap s') (breakpoint_hash a) (breakpoints s' (breakpoint_hash a)) (qs @ [p])"
      "bp_heap s' p = Some (new_breakpoint a)" "bp_only_links (bp_heap s) (bp_heap s')"
      and frame: "\<And>j. j \<noteq> breakpoint_hash a \<Longrightarrow> breakpoints s' j = breakpoints s j"
        "\<And>q b. bp_heap s q = Some b \<Longrightarrow> breakpoint_hash (address b) \<noteq> breakpoint_hash a \<Longrightarrow> bp_heap s' q = Some b"
        "\<And>q b. bp_heap s' q = Some b \<Longrightarrow> length (saved_bytes b) = 8"
      and ex: "\<exists>h bs. s' = s\<lparr>sys_count := Suc (sys_count s), bp_heap := h, breakpoints := bs\<rparr>"
      using create_breakpoint_new [OF t None p_def [symmetric] False qs] by blast
    note change = bp_table_bucket_change [OF t s'(2) frame]
    have addr: "bp_addr (bp_heap s') q = bp_addr (bp_heap s) q" if "q \<in> set qs" for q
      using bp_bucketD [OF qs that] s'(4) by (fastforce simp: bp_only_links_def)
    have pa: "bp_addr (bp_heap s') p = a" using s'(3) by (simp add: new_breakpoint_def)
    have lookup: "bp_lookup s' = (bp_lookup s)(a \<mapsto> p)"
    proof
      fix c
      have "bp_at (bp_heap s') c (qs @ [p]) = (if c = a then Some p else bp_at (bp_heap s) c qs)"
        using None bp_lookup_bucket [OF qs] pa bp_at_cong [of qs "bp_heap s'" "bp_heap s" c, OF addr]
        by (auto simp: bp_at_append split: option.splits)
      then show "bp_lookup s' c = ((bp_lookup s)(a \<mapsto> p)) c"
        using change(2) [where a = c] bp_lookup_bucket [of s c qs] qs by auto
    qed
    moreover have "bp_removable s' a"
      using s'(3) lookup by (simp add: bp_removable_def new_breakpoint_def)
    ultimately show thesis
      using s' ex change(1) False None by (intro that [of p s']) auto
  qed
qed

subsection \<open>Memory\<close>

lemma write_bytes_one [simp]: "write_bytes m a [x] = m(a := x)"
  by (auto simp: write_bytes_def fun_eq_iff unat_eq_0)

lemma read_bytes_one [simp]: "read_bytes m a (Suc 0) = [m a]"
  by (simp add: read_bytes_def)

lemma bp_more:
  assumes "mem_state.more s' = mem_state.more s"
  shows "bp_heap s' = bp_heap s" and "breakpoints s' = breakpoints s" and "bp_state.more s' = bp_state.more s"
  using assms by (cases s; cases s'; simp)+

text \<open>What the two writes into memory keep: the table, and every other object.\<close>

definition bp_frame :: "ptr \<Rightarrow> 'z bp_state_scheme \<Rightarrow> 'z bp_state_scheme \<Rightarrow> bool" where
  "bp_frame p s s' \<longleftrightarrow> bp_same_links (bp_heap s) (bp_heap s') \<and> breakpoints s' = breakpoints s \<and>
     bp_state.more s' = bp_state.more s \<and> (\<forall>q. q \<noteq> p \<longrightarrow> bp_heap s' q = bp_heap s q) \<and>
     (\<forall>x. x \<noteq> bp_addr (bp_heap s) p \<longrightarrow> mem s' x = mem s x)"

lemma bp_frame_refl [simp]: "bp_frame p s s"
  by (simp add: bp_frame_def)

lemma bp_frame_trans: "bp_frame p s s' \<Longrightarrow> bp_frame p s' s'' \<Longrightarrow> bp_frame p s s''"
  using bp_same_links_addr [of "bp_heap s" "bp_heap s'" p]
  by (auto simp: bp_frame_def intro: bp_same_links_trans)

lemma bp_frame_table:
  "bp_frame p s s' \<Longrightarrow> bp_table s \<Longrightarrow> bp_table s'"
  "bp_frame p s s' \<Longrightarrow> bp_table s \<Longrightarrow> bp_lookup s' = bp_lookup s"
  using bp_same_links_table [of s s'] by (auto simp: bp_frame_def)

lemma write_memory_frame:
  assumes "write_memory E a [x] s = Ret (r, s')" and "a = bp_addr (bp_heap s) p"
  shows "bp_frame p s s' \<and> bp_heap s' = bp_heap s \<and> (r = 0 \<longrightarrow> mem s' = (mem s)(a := x))"
proof -
  have more: "mem_state.more s' = mem_state.more s"
    using assms(1) by (rule memory.write_client) simp
  have "mem s' y = mem s y" if "y \<noteq> a" for y
  proof -
    have "1 \<le> unat (y - a)" using that by (simp add: Suc_le_eq unat_gt_0)
    then show ?thesis using memory.write_outside [OF assms(1), of y] by simp
  qed
  moreover have "mem s' = (mem s)(a := x)" if "r = 0"
    using assms(1) that memory.write_ok [of E a "[x]" s s'] by simp
  ultimately show ?thesis using bp_more [OF more] assms(2) by (simp add: bp_frame_def)
qed

lemma write_breakpoint_instruction_step:
  assumes p: "p \<noteq> NULL" "bp_heap s p = Some b" "length (saved_bytes b) = 8" "\<not> in_memory b"
    and run: "write_breakpoint_instruction E p s = Ret (r, s')"
  shows "bp_frame p s s'"
    and "\<exists>b'. bp_heap s' p = Some b' \<and> \<not> in_memory b'"
    and "r = 0 \<Longrightarrow> mem s' = (mem s)(address b := BREAKPOINT_INSN) \<and>
       bp_heap s' p = Some (b\<lparr>saved_bytes := mem s (address b) # tl (saved_bytes b)\<rparr>)"
proof -
  obtain r1 out s1 where rd: "read_memory E (address b) 1 s = Ret (r1, out, s1)"
    and cont: "(let s = s1\<lparr>bp_heap := (bp_heap s1)(p \<mapsto> b\<lparr>saved_bytes := out @ drop (length out) (saved_bytes b)\<rparr>)\<rparr>
         in if r1 \<noteq> 0 then Ret (r1, s) else write_memory E (address b) [BREAKPOINT_INSN] s) = Ret (r, s')"
    using run p by (auto simp: write_breakpoint_instruction_def deref_def elim!: run_bind_Ret_E)
  let ?b = "b\<lparr>saved_bytes := out @ drop (length out) (saved_bytes b)\<rparr>"
  let ?s = "s1\<lparr>bp_heap := (bp_heap s1)(p \<mapsto> ?b)\<rparr>"
  have len: "length out \<le> 1"
    using read_memory_contract(2) [OF rd] by auto
  have heap: "bp_heap s1 = bp_heap s" "breakpoints s1 = breakpoints s" "bp_state.more s1 = bp_state.more s"
    "mem s1 = mem s"
    using memory.read_client [OF rd] memory.read_content [OF rd] bp_more by auto
  have links: "bp_same_links (bp_heap s) ((bp_heap s)(p \<mapsto> ?b))"
    using p len by (intro bp_same_links_upd) auto
  then have fr: "bp_frame p s ?s"
    using heap by (simp add: bp_frame_def)
  have "bp_frame p s s' \<and> bp_heap s' p = Some ?b \<and> (r = 0 \<longrightarrow> r1 = 0 \<and> mem s' = (mem s)(address b := BREAKPOINT_INSN))"
  proof (cases "r1 = 0")
    case True
    then have "write_memory E (address b) [BREAKPOINT_INSN] ?s = Ret (r, s')" using cont by simp
    then have "bp_frame p ?s s' \<and> bp_heap s' = bp_heap ?s \<and> (r = 0 \<longrightarrow> mem s' = (mem ?s)(address b := BREAKPOINT_INSN))"
      by (rule write_memory_frame) simp
    then show ?thesis using bp_frame_trans [OF fr] True heap by simp
  next
    case False
    then show ?thesis using cont fr by auto
  qed
  moreover have "r1 = 0 \<Longrightarrow> out = [mem s (address b)]"
    using memory.read_ok [of E "address b" 1 s out s1] rd by simp
  ultimately show "bp_frame p s s'" "\<exists>b'. bp_heap s' p = Some b' \<and> \<not> in_memory b'"
    and "r = 0 \<Longrightarrow> mem s' = (mem s)(address b := BREAKPOINT_INSN) \<and>
       bp_heap s' p = Some (b\<lparr>saved_bytes := mem s (address b) # tl (saved_bytes b)\<rparr>)"
    using p by (auto simp: drop_Suc)
qed

lemma set_in_memory_step:
  assumes "p \<noteq> NULL" and "bp_heap s p = Some b"
  shows "set_in_memory p v s = Ret (s\<lparr>bp_heap := (bp_heap s)(p \<mapsto> b\<lparr>in_memory := v\<rparr>)\<rparr>)"
    and "bp_frame p s (s\<lparr>bp_heap := (bp_heap s)(p \<mapsto> b\<lparr>in_memory := v\<rparr>)\<rparr>)"
  using assms by (auto simp: set_in_memory_def deref_def bp_frame_def intro: bp_same_links_upd)

lemma install_breakpoint_step:
  assumes p: "p \<noteq> NULL" "bp_heap s p = Some b" "length (saved_bytes b) = 8" "\<not> in_memory b"
    and run: "install_breakpoint E p s = Ret (r, s')"
  shows "bp_frame p s s'"
    and "r \<noteq> 0 \<Longrightarrow> \<exists>b'. bp_heap s' p = Some b' \<and> \<not> in_memory b'"
    and "r = 0 \<Longrightarrow> mem s' = (mem s)(address b := BREAKPOINT_INSN) \<and>
       bp_heap s' p = Some (b\<lparr>saved_bytes := mem s (address b) # tl (saved_bytes b), in_memory := True\<rparr>)"
proof -
  obtain r1 s1 where w: "write_breakpoint_instruction E p s = Ret (r1, s1)"
    and cont: "(if r1 = 0 then run_bind (set_in_memory p True s1) (\<lambda>s. Ret (r1, s)) else Ret (r1, s1)) = Ret (r, s')"
    using run p by (auto simp: install_breakpoint_def deref_def elim!: run_bind_Ret_E)
  note step = write_breakpoint_instruction_step [OF p w]
  obtain b1 where b1: "bp_heap s1 p = Some b1" "\<not> in_memory b1" using step(2) by blast
  note set = set_in_memory_step [OF p(1) b1(1), of True]
  show "bp_frame p s s'"
    using cont step(1) set bp_frame_trans [OF step(1) set(2)] by (auto split: if_splits)
  show "r \<noteq> 0 \<Longrightarrow> \<exists>b'. bp_heap s' p = Some b' \<and> \<not> in_memory b'"
    using cont b1 set(1) by (auto split: if_splits)
  show "r = 0 \<Longrightarrow> mem s' = (mem s)(address b := BREAKPOINT_INSN) \<and>
       bp_heap s' p = Some (b\<lparr>saved_bytes := mem s (address b) # tl (saved_bytes b), in_memory := True\<rparr>)"
    using cont step(3) set(1) b1 by (auto split: if_splits)
qed

lemma write_saved_bytes_step:
  assumes p: "p \<noteq> NULL" "bp_heap s p = Some b" "length (saved_bytes b) = 8" "in_memory b"
    and run: "write_saved_bytes E p s = Ret (r, s')"
  shows "bp_frame p s s' \<and> bp_heap s' = bp_heap s \<and> (r = 0 \<longrightarrow> mem s' = (mem s)(address b := hd (saved_bytes b)))"
proof (rule write_memory_frame)
  have "take 1 (saved_bytes b) = [hd (saved_bytes b)]"
    using p(3) by (cases "saved_bytes b") auto
  then show "write_memory E (address b) [hd (saved_bytes b)] s = Ret (r, s')"
    using run p by (simp add: write_saved_bytes_def deref_def)
qed (use p in simp)

lemma remove_breakpoint_step:
  assumes p: "p \<noteq> NULL" "bp_heap s p = Some b" "length (saved_bytes b) = 8"
    and run: "remove_breakpoint E p s = Ret (r, s')"
  shows "bp_frame p s s'"
    and "r = 0 \<Longrightarrow> bp_heap s' p = Some (b\<lparr>in_memory := False\<rparr>) \<and>
       mem s' = (if in_memory b then (mem s)(address b := hd (saved_bytes b)) else mem s)"
    and "r \<noteq> 0 \<Longrightarrow> bp_heap s' = bp_heap s"
proof -
  have "bp_frame p s s' \<and> (r = 0 \<longrightarrow> bp_heap s' p = Some (b\<lparr>in_memory := False\<rparr>) \<and>
       mem s' = (if in_memory b then (mem s)(address b := hd (saved_bytes b)) else mem s)) \<and>
    (r \<noteq> 0 \<longrightarrow> bp_heap s' = bp_heap s)"
  proof (cases "in_memory b")
    case False
    then have "s' = s" "r = 0"
      using run p by (simp_all add: remove_breakpoint_def deref_def)
    then show ?thesis using False p by simp
  next
    case True
    obtain r1 s1 where w: "write_saved_bytes E p s = Ret (r1, s1)"
      and cont: "(if r1 = 0 then run_bind (set_in_memory p False s1) (\<lambda>s. Ret (r1, s)) else Ret (r1, s1)) = Ret (r, s')"
      using run p True by (auto simp: remove_breakpoint_def deref_def elim!: run_bind_Ret_E)
    note step = write_saved_bytes_step [OF p True w]
    have b1: "bp_heap s1 p = Some b" using step p(2) by simp
    note set = set_in_memory_step [OF p(1) b1, of False]
    show ?thesis
      using cont step set(1) True bp_frame_trans [of p s s1, OF _ set(2)] by (auto split: if_splits)
  qed
  then show "bp_frame p s s'" and "r = 0 \<Longrightarrow> bp_heap s' p = Some (b\<lparr>in_memory := False\<rparr>) \<and>
       mem s' = (if in_memory b then (mem s)(address b := hd (saved_bytes b)) else mem s)"
    and "r \<noteq> 0 \<Longrightarrow> bp_heap s' = bp_heap s"
    by blast+
qed

lemma remove_for_continue_step:
  assumes p: "p \<noteq> NULL" "bp_heap s p = Some b" "length (saved_bytes b) = 8"
    and run: "remove_breakpoint_for_continue E p s = Ret (r, s')"
  shows "bp_frame p s s' \<and> bp_heap s' = bp_heap s \<and>
    (r = 0 \<longrightarrow> mem s' = (if in_memory b then (mem s)(address b := hd (saved_bytes b)) else mem s))"
  using run p write_saved_bytes_step [OF p, of E r s']
  by (cases "in_memory b") (auto simp: remove_breakpoint_for_continue_def deref_def)

subsection \<open>Deletion\<close>

lemma bp_table_drop_bucket:
  assumes t: "bp_table s" and p: "bp_heap s p = Some b" "breakpoint_hash (address b) = k"
    and s': "s' = s\<lparr>bp_heap := (bp_heap s)(p := None), breakpoints := (breakpoints s)(k := NULL)\<rparr>"
  shows "bp_table s'" and "bp_lookup s' c = (if breakpoint_hash c = k then None else bp_lookup s c)"
proof -
  have bucket: "bp_bucket (bp_heap s') k (breakpoints s' k) []"
    by (simp add: bp_bucket_def s')
  have frame: "bp_heap s' q = Some c" if "bp_heap s q = Some c" "breakpoint_hash (address c) \<noteq> k" for q c
    using that p by (auto simp: s')
  have saved: "length (saved_bytes c) = 8" if "bp_heap s' q = Some c" for q c
    using t that by (auto simp: bp_table_def s' split: if_splits)
  show "bp_table s'" and "bp_lookup s' c = (if breakpoint_hash c = k then None else bp_lookup s c)"
    using bp_table_bucket_change [OF t bucket _ frame saved] by (auto simp: s')
qed

lemma bp_table_unlink:
  assumes t: "bp_table s" and qs: "bp_bucket (bp_heap s) k (breakpoints s k) (ys @ p # zs)" and ys: "ys \<noteq> []"
    and p: "bp_heap s p = Some b" and v: "bp_heap s (last ys) = Some vb"
    and s': "s' = s\<lparr>bp_heap := (bp_heap s)(last ys \<mapsto> vb\<lparr>next_breakpoint := next_breakpoint b\<rparr>, p := None)\<rparr>"
  shows "bp_table s'" and "bp_lookup s' c = (if c = address b then None else bp_lookup s c)"
proof -
  let ?h = "(bp_heap s)(last ys \<mapsto> vb\<lparr>next_breakpoint := next_breakpoint b\<rparr>, p := None)"
  have chain: "bp_chain (bp_heap s) (breakpoints s k) (ys @ p # zs)"
    and dist: "distinct (map (bp_addr (bp_heap s)) (ys @ p # zs))"
    using qs by (simp_all add: bp_bucket_def)
  note dp = distinct_bp_ptrs [OF dist]
  have vk: "last ys \<noteq> p" "breakpoint_hash (address vb) = k" "breakpoint_hash (address b) = k"
    using ys dp bp_bucketD [OF qs, of "last ys"] bp_bucketD [OF qs, of p] v p by auto
  have addr: "bp_addr ?h q = bp_addr (bp_heap s) q" if "q \<in> set (ys @ zs)" for q
    using that dp v by (auto simp: bp_addr_def)
  have "bp_chain ?h (breakpoints s k) (ys @ zs)"
    using chain ys dp v p by (rule bp_chain_unlink)
  moreover have "map (bp_addr ?h) (ys @ zs) = map (bp_addr (bp_heap s)) (ys @ zs)"
    using addr by (intro map_cong refl)
  then have "distinct (map (bp_addr ?h) (ys @ zs))"
    using dist by (simp only:) auto
  moreover have "\<forall>q \<in> set (ys @ zs). breakpoint_hash (bp_addr ?h q) = k"
    using qs addr by (simp add: bp_bucket_def)
  ultimately have bucket: "bp_bucket (bp_heap s') k (breakpoints s' k) (ys @ zs)"
    by (simp add: bp_bucket_def s')
  have frame: "bp_heap s' q = Some c" if "bp_heap s q = Some c" "breakpoint_hash (address c) \<noteq> k" for q c
    using that p v vk by (auto simp: s')
  have saved: "length (saved_bytes c) = 8" if "bp_heap s' q = Some c" for q c
    using t that v by (auto simp: bp_table_def s' split: if_splits)
  note change = bp_table_bucket_change [OF t bucket _ frame saved]
  show "bp_table s'" using change(1) by (auto simp: s')
  have "bp_at ?h c (ys @ zs) = bp_at (bp_heap s) c (ys @ zs)"
    by (rule bp_at_cong) (rule addr)
  also have "\<dots> = (if c = address b then None else bp_at (bp_heap s) c (ys @ p # zs))"
  proof (cases "c = address b")
    case True
    have "bp_at (bp_heap s) (address b) (ys @ zs) = None"
      unfolding bp_at_None using dist p by auto
    then show ?thesis using True by simp
  qed (auto simp: bp_at_append p split: option.splits)
  finally show "bp_lookup s' c = (if c = address b then None else bp_lookup s c)"
    using change(2) [where a = c] bp_lookup_bucket [of s c "ys @ p # zs"] qs vk(3) by (auto simp: s')
qed

text \<open>
  The exact effect of a deletion on the table: the entry goes away, and with it, when it was
  the first of its bucket, every other entry of that bucket.
\<close>

lemma delete_breakpoint_table:
  assumes t: "bp_table s" and look: "bp_lookup s a = Some p"
    and removed: "remove_breakpoint E p s = Ret (0, s1)"
  obtains s' where "delete_breakpoint E p s = Ret (0, s')" and "bp_table s'" and "bp_heap s' p = None"
    and "bp_lookup s' = (\<lambda>c. if c = a \<or> (breakpoints s (breakpoint_hash a) = p \<and> breakpoint_hash c = breakpoint_hash a)
                            then None else bp_lookup s c)"
    and "\<exists>h bs. s' = s1\<lparr>bp_heap := h, breakpoints := bs\<rparr>"
    and "\<And>q b. q \<noteq> p \<Longrightarrow> bp_heap s1 q = Some b \<Longrightarrow> \<exists>n. bp_heap s' q = Some (b\<lparr>next_breakpoint := n\<rparr>)"
proof -
  obtain b where b: "p \<noteq> NULL" "bp_heap s p = Some b" "address b = a" "length (saved_bytes b) = 8"
    using bp_lookup_live [OF t look] by blast
  note rem = remove_breakpoint_step [OF b(1,2,4) removed]
  let ?k = "breakpoint_hash a"
  let ?b1 = "b\<lparr>in_memory := False\<rparr>"
  have t1: "bp_table s1" "bp_lookup s1 = bp_lookup s" "breakpoints s1 = breakpoints s"
    using bp_frame_table [OF rem(1) t] rem(1) by (simp_all add: bp_frame_def)
  have b1: "bp_heap s1 p = Some ?b1" "address ?b1 = a" using rem(2) b by simp_all
  obtain rs where rs: "bp_bucket (bp_heap s1) ?k (breakpoints s1 ?k) rs"
    and "bp_lookup s1 a = bp_at (bp_heap s1) a rs"
    using t1(1) by (rule bp_tableE)
  then obtain ys zs where sp: "rs = ys @ p # zs" and na: "a \<notin> bp_addr (bp_heap s1) ` set ys"
    using bp_at_split [of "bp_heap s1" a rs p] look t1(2) by auto
  note qs = rs [unfolded sp]
  have chain: "bp_chain (bp_heap s1) (breakpoints s1 ?k) (ys @ p # zs)" "distinct (ys @ p # zs)"
    using qs distinct_bp_ptrs by (auto simp: bp_bucket_def)
  have head: "breakpoints s1 ?k = p \<longleftrightarrow> ys = []"
    using chain by (cases ys) auto
  have loop: "delete_loop (bp_heap s1) a (breakpoints s1 ?k) (breakpoints s1 ?k) =
      Some (p, if ys = [] then breakpoints s1 ?k else last ys)"
    using delete_loop_chain [OF chain(1) _ na] b1 by simp
  show thesis
  proof (cases "ys = []")
    case True
    let ?s' = "s1\<lparr>bp_heap := (bp_heap s1)(p := None), breakpoints := (breakpoints s1)(?k := NULL)\<rparr>"
    have del: "delete_breakpoint E p s = Ret (0, ?s')"
      using removed b b1 loop True head
      by (cases s1) (simp add: delete_breakpoint_def deref_def Let_def)
    have "bp_table ?s'" and "\<And>c. bp_lookup ?s' c = (if breakpoint_hash c = ?k then None else bp_lookup s1 c)"
      using bp_table_drop_bucket [OF t1(1) b1(1)] b1(2) by auto
    then show thesis
      using del True head t1(2,3) by (intro that [of ?s']) auto
  next
    case False
    then have "last ys \<in> set ys" by simp
    then obtain vb where v: "last ys \<noteq> p" "last ys \<noteq> NULL" "bp_heap s1 (last ys) = Some vb"
      using bp_bucketD [OF qs, of "last ys"] chain(2) by fastforce
    let ?h = "(bp_heap s1)(last ys \<mapsto> vb\<lparr>next_breakpoint := next_breakpoint ?b1\<rparr>, p := None)"
    let ?s' = "s1\<lparr>bp_heap := ?h\<rparr>"
    have del: "delete_breakpoint E p s = Ret (0, ?s')"
      using removed b b1 loop False v by (simp add: delete_breakpoint_def deref_def Let_def)
    have "bp_table ?s'" and "\<And>c. bp_lookup ?s' c = (if c = a then None else bp_lookup s1 c)"
      using bp_table_unlink [OF t1(1) qs False b1(1) v(3) refl] b1(2) by auto
    moreover have "\<exists>h bs. ?s' = s1\<lparr>bp_heap := h, breakpoints := bs\<rparr>"
      by (intro exI [of _ ?h] exI [of _ "breakpoints s1"]) simp
    moreover have "\<exists>n. bp_heap ?s' q = Some (c\<lparr>next_breakpoint := n\<rparr>)" if "q \<noteq> p" "bp_heap s1 q = Some c" for q c
      using that v by (cases "q = last ys") auto
    ultimately show thesis
      using head False t1(2,3) by (intro that [OF del]) (simp_all add: fun_eq_iff)
  qed
qed

section \<open>The interface of the table\<close>

text \<open>
  What the request handlers and the event decoder rely on: insertion always returns, keeps
  the entries that exist and is only refused when memory runs out; removal of an entry that
  is not the head of a longer chain forgets that entry and no other; and an entry that was
  just added is of that kind. The last two laws are what a temporary breakpoint needs.
\<close>

locale address_table =
  fixes invar :: "'s \<Rightarrow> bool"
    and lookup :: "'s \<Rightarrow> u64 \<Rightarrow> ptr option"
    and insert_at :: "u64 \<Rightarrow> 's \<Rightarrow> (ptr \<times> 's) run"
    and remove_at :: "ptr \<Rightarrow> 's \<Rightarrow> (int \<times> 's) run"
    and removable :: "'s \<Rightarrow> u64 \<Rightarrow> bool"
  assumes insert_total: "invar s \<Longrightarrow> \<exists>p s'. insert_at a s = Ret (p, s')"
    and insert_invar: "insert_at a s = Ret (p, s') \<Longrightarrow> invar s \<Longrightarrow> invar s'"
    and insert_lookup: "insert_at a s = Ret (p, s') \<Longrightarrow> invar s \<Longrightarrow>
      lookup s' = (if p = NULL then lookup s else (lookup s)(a \<mapsto> p))"
    and insert_present: "insert_at a s = Ret (p, s') \<Longrightarrow> invar s \<Longrightarrow> lookup s a = Some q \<Longrightarrow> p = NULL \<or> p = q"
    and insert_removable: "insert_at a s = Ret (p, s') \<Longrightarrow> invar s \<Longrightarrow> lookup s a = None \<Longrightarrow>
      p \<noteq> NULL \<Longrightarrow> removable s' a"
    and remove_lookup: "remove_at p s = Ret (0, s') \<Longrightarrow> invar s \<Longrightarrow> lookup s a = Some p \<Longrightarrow>
      removable s a \<Longrightarrow> invar s' \<and> lookup s' = (lookup s)(a := None)"
begin

lemma insert_keeps:
  assumes "insert_at a s = Ret (p, s')" and "invar s" and "lookup s c = Some q"
  shows "lookup s' c = Some q"
  using insert_lookup [OF assms(1,2)] insert_present [OF assms(1,2)] assms(3) by auto

text \<open>An entry that is added and deleted again leaves the table as it was.\<close>

lemma temporary:
  assumes "insert_at a s = Ret (p, s1)" and "invar s" and "lookup s a = None" and "p \<noteq> NULL"
    and "invar t" and "lookup t = lookup s1" and "removable t a" and "remove_at p t = Ret (0, t')"
  shows "invar t' \<and> lookup t' = lookup s"
proof -
  have l: "lookup t = (lookup s)(a \<mapsto> p)"
    using insert_lookup [OF assms(1,2)] assms(4,6) by simp
  have "invar t' \<and> lookup t' = (lookup t)(a := None)"
    using assms(8,5) _ assms(7) by (rule remove_lookup) (simp add: l)
  then show ?thesis using l assms(3) by (auto simp: fun_eq_iff)
qed

text \<open>A run of insertions registers every address.\<close>

fun insert_all :: "u64 list \<Rightarrow> 's \<Rightarrow> (ptr list \<times> 's) run" where
  "insert_all [] s = Ret ([], s)"
| "insert_all (a # as) s = run_bind (insert_at a s) (\<lambda>(p, s).
     run_bind (insert_all as s) (\<lambda>(ps, s). Ret (p # ps, s)))"

lemma insert_all_keeps:
  assumes "insert_all as s = Ret (ps, s')" and "invar s" and "lookup s c = Some q"
  shows "lookup s' c = Some q"
  using assms
proof (induction as arbitrary: s ps)
  case (Cons a as)
  then show ?case
    by (auto elim!: run_bind_Ret_E dest: insert_invar insert_keeps)
qed simp

lemma insert_all_lookup:
  assumes "invar s" and "insert_all as s = Ret (ps, s')" and "NULL \<notin> set ps"
  shows "invar s' \<and> dom (lookup s') = dom (lookup s) \<union> set as \<and> list_all2 (\<lambda>a p. lookup s' a = Some p) as ps"
  using assms
proof (induction as arbitrary: s ps)
  case (Cons a as)
  obtain p s1 ps1 where i: "insert_at a s = Ret (p, s1)" and r: "insert_all as s1 = Ret (ps1, s')" "ps = p # ps1"
    using Cons.prems(2) by (auto elim!: run_bind_Ret_E)
  have p: "p \<noteq> NULL" "NULL \<notin> set ps1" using Cons.prems(3) r(2) by auto
  have s1: "invar s1" "lookup s1 = (lookup s)(a \<mapsto> p)"
    using insert_invar [OF i Cons.prems(1)] insert_lookup [OF i Cons.prems(1)] p by auto
  note IH = Cons.IH [OF s1(1) r(1) p(2)]
  have "lookup s' a = Some p"
    using r(1) s1 by (elim insert_all_keeps) auto
  then show ?case using IH s1(2) r(2) by auto
qed simp

end

lemma delete_removed:
  assumes "delete_breakpoint E p s = Ret (0, s')"
  obtains s1 where "remove_breakpoint E p s = Ret (0, s1)"
  using assms by (auto simp: delete_breakpoint_def elim!: run_bind_Ret_E split: if_splits)

lemma delete_breakpoint_run:
  assumes t: "bp_table s" and l: "bp_lookup s a = Some p" and run: "delete_breakpoint E p s = Ret (0, s')"
  shows "bp_table s'"
    and "bp_lookup s' = (\<lambda>c. if c = a \<or> (breakpoints s (breakpoint_hash a) = p \<and> breakpoint_hash c = breakpoint_hash a)
                            then None else bp_lookup s c)"
proof -
  obtain s1 where "remove_breakpoint E p s = Ret (0, s1)"
    using run by (rule delete_removed)
  with t l obtain s2 where "delete_breakpoint E p s = Ret (0, s2)" "bp_table s2"
    "bp_lookup s2 = (\<lambda>c. if c = a \<or> (breakpoints s (breakpoint_hash a) = p \<and> breakpoint_hash c = breakpoint_hash a)
                            then None else bp_lookup s c)"
    by (rule delete_breakpoint_table)
  then show "bp_table s'"
    and "bp_lookup s' = (\<lambda>c. if c = a \<or> (breakpoints s (breakpoint_hash a) = p \<and> breakpoint_hash c = breakpoint_hash a)
                            then None else bp_lookup s c)"
    using run by simp_all
qed

lemma bp_removable_frame:
  assumes "bp_frame p s s'" and "bp_table s" and "bp_removable s a"
  shows "bp_removable s' a"
proof -
  have "bp_same_links (bp_heap s') (bp_heap s)" "breakpoints s' = breakpoints s"
    using assms(1) by (simp_all add: bp_frame_def bp_same_links_def)
  then show ?thesis
    using assms(3) bp_frame_table(2) [OF assms(1,2)] by (fastforce simp: bp_removable_def dest: bp_same_linksD)
qed

lemma bp_removable_head:
  assumes t: "bp_table s" and r: "bp_removable s a" and l: "bp_lookup s a = Some p" "bp_lookup s c = Some q"
    and "breakpoints s (breakpoint_hash a) = p" and h: "breakpoint_hash c = breakpoint_hash a"
  shows "c = a"
proof -
  obtain b where b: "bp_heap s p = Some b" "p \<noteq> NULL" using bp_lookup_live [OF t l(1)] by blast
  then have "next_breakpoint b = NULL" using assms by (auto simp: bp_removable_def)
  moreover obtain qs where qs: "bp_bucket (bp_heap s) (breakpoint_hash a) p qs"
    "bp_lookup s a = bp_at (bp_heap s) a qs"
    using bp_tableE [OF t, of a] assms(5) by metis
  ultimately have "qs = [p]" using b by (cases qs) (auto simp: bp_bucket_def)
  moreover have "bp_lookup s c = bp_at (bp_heap s) c qs"
    using bp_lookup_bucket [of s c qs] h qs(1) assms(5) by simp
  ultimately show ?thesis using l qs(2) by (auto split: if_splits)
qed

interpretation table: address_table bp_table bp_lookup create_breakpoint "delete_breakpoint E" bp_removable for E
proof unfold_locales
  fix s :: "'z bp_state_scheme" and a p s'
  show "bp_table s \<Longrightarrow> \<exists>p s'. create_breakpoint a s = Ret (p, s')"
    by (erule create_breakpoint_table [of s a]) blast
  show "create_breakpoint a s = Ret (p, s') \<Longrightarrow> bp_table s \<Longrightarrow> bp_table s'"
    by (erule create_breakpoint_table [of s a]) simp
  show "create_breakpoint a s = Ret (p, s') \<Longrightarrow> bp_table s \<Longrightarrow>
      bp_lookup s' = (if p = NULL then bp_lookup s else (bp_lookup s)(a \<mapsto> p))"
    by (erule create_breakpoint_table [of s a]) simp
  show "create_breakpoint a s = Ret (p, s') \<Longrightarrow> bp_table s \<Longrightarrow> bp_lookup s a = Some q \<Longrightarrow> p = NULL \<or> p = q" for q
    by (erule create_breakpoint_table [of s a]) auto
  show "create_breakpoint a s = Ret (p, s') \<Longrightarrow> bp_table s \<Longrightarrow> bp_lookup s a = None \<Longrightarrow> p \<noteq> NULL \<Longrightarrow> bp_removable s' a"
    by (erule create_breakpoint_table [of s a]) simp
  assume d: "delete_breakpoint E p s = Ret (0, s')" and t: "bp_table s" and l: "bp_lookup s a = Some p"
    and r: "bp_removable s a"
  note run = delete_breakpoint_run [OF t l d]
  moreover have "bp_lookup s' c = ((bp_lookup s)(a := None)) c" for c
    using run(2) bp_removable_head [OF t r l, of c] by (cases "bp_lookup s c") auto
  ultimately show "bp_table s' \<and> bp_lookup s' = (bp_lookup s)(a := None)" by (simp add: fun_eq_iff)
qed

section \<open>The memory without breakpoints\<close>

definition plain_mem :: "'z bp_state_scheme \<Rightarrow> u64 \<Rightarrow> u8" where
  "plain_mem s a =
     (case bp_lookup s a of
        None \<Rightarrow> mem s a
      | Some p \<Rightarrow> (case bp_heap s p of
            None \<Rightarrow> mem s a
          | Some b \<Rightarrow> if in_memory b then hd (saved_bytes b) else mem s a))"

lemma plain_mem_entry:
  "bp_lookup s a = Some p \<Longrightarrow> bp_heap s p = Some b \<Longrightarrow>
     plain_mem s a = (if in_memory b then hd (saved_bytes b) else mem s a)"
  by (simp add: plain_mem_def)

lemma bp_lookup_inj:
  assumes "bp_table s" and "bp_lookup s a = Some p" and "bp_lookup s c = Some p"
  shows "c = a"
  using bp_lookup_live [OF assms(1,2)] bp_lookup_live [OF assms(1,3)] by auto

lemma plain_mem_frame:
  assumes t: "bp_table s" and f: "bp_frame p s s'" and l: "bp_lookup s a = Some p"
    and at: "plain_mem s' a = plain_mem s a"
  shows "plain_mem s' = plain_mem s"
proof
  fix c
  have look: "bp_lookup s' = bp_lookup s" by (rule bp_frame_table(2) [OF f t])
  have a: "bp_addr (bp_heap s) p = a" using bp_lookup_live [OF t l] by auto
  show "plain_mem s' c = plain_mem s c"
  proof (cases "c = a")
    case False
    then have "mem s' c = mem s c" using f a by (auto simp: bp_frame_def)
    moreover have "bp_heap s' q = bp_heap s q" if "bp_lookup s c = Some q" for q
      using f that bp_lookup_inj [OF t l, of c] False by (auto simp: bp_frame_def)
    ultimately show ?thesis by (auto simp: plain_mem_def look split: option.splits)
  qed (use at in simp)
qed

lemma install_plain:
  assumes t: "bp_table s" and l: "bp_lookup s a = Some p" and run: "install_breakpoint E p s = Ret (r, s')"
  shows "bp_frame p s s'" and "r = 0 \<Longrightarrow> plain_mem s' = plain_mem s"
    and "r = 0 \<Longrightarrow> \<exists>b. bp_heap s' p = Some b \<and> in_memory b"
    and "r = 0 \<Longrightarrow> bp_heap s p = Some b \<Longrightarrow> \<not> in_memory b \<Longrightarrow> mem s' = (mem s)(a := BREAKPOINT_INSN)"
proof -
  obtain b where b: "p \<noteq> NULL" "bp_heap s p = Some b" "address b = a" "length (saved_bytes b) = 8"
    using bp_lookup_live [OF t l] by blast
  have im: "s' = s" "r = 0" if "in_memory b"
    using run b that by (simp_all add: install_breakpoint_def deref_def)
  note step = install_breakpoint_step [OF b(1,2,4) _ run]
  show f: "bp_frame p s s'" using im step(1) by (cases "in_memory b") auto
  show "r = 0 \<Longrightarrow> plain_mem s' = plain_mem s"
  proof (cases "in_memory b")
    case False
    assume "r = 0"
    then have "bp_heap s' p = Some (b\<lparr>saved_bytes := mem s (address b) # tl (saved_bytes b), in_memory := True\<rparr>)"
      using step(3) False by simp
    then show ?thesis
      using plain_mem_frame [OF t f l] b l bp_frame_table(2) [OF f t] False by (simp add: plain_mem_entry)
  qed (use im in simp)
  show "r = 0 \<Longrightarrow> \<exists>b. bp_heap s' p = Some b \<and> in_memory b"
    using im b step(3) by (cases "in_memory b") auto
  show "r = 0 \<Longrightarrow> bp_heap s p = Some b' \<Longrightarrow> \<not> in_memory b' \<Longrightarrow> mem s' = (mem s)(a := BREAKPOINT_INSN)" for b'
    using step(3) b by simp
qed

lemma remove_plain:
  assumes t: "bp_table s" and l: "bp_lookup s a = Some p" and run: "remove_breakpoint E p s = Ret (0, s')"
  shows "bp_frame p s s'" and "plain_mem s' = plain_mem s" and "mem s' = (mem s)(a := plain_mem s a)"
    and "\<exists>b. bp_heap s' p = Some b \<and> \<not> in_memory b"
proof -
  obtain b where b: "p \<noteq> NULL" "bp_heap s p = Some b" "address b = a" "length (saved_bytes b) = 8"
    using bp_lookup_live [OF t l] by blast
  note step = remove_breakpoint_step [OF b(1,2,4) run]
  show f: "bp_frame p s s'" by (rule step(1))
  have p': "plain_mem s a = (if in_memory b then hd (saved_bytes b) else mem s a)"
    by (rule plain_mem_entry [OF l b(2)])
  show m: "mem s' = (mem s)(a := plain_mem s a)" using step(2) p' b(3) by simp
  show "plain_mem s' = plain_mem s"
    using plain_mem_frame [OF t f l] bp_frame_table(2) [OF f t] step(2) l m by (simp add: plain_mem_entry)
  show "\<exists>b. bp_heap s' p = Some b \<and> \<not> in_memory b" using step(2) by simp
qed

lemma remove_for_continue_plain:
  assumes t: "bp_table s" and l: "bp_lookup s a = Some p"
    and run: "remove_breakpoint_for_continue E p s = Ret (r, s')"
  shows "bp_frame p s s'" and "bp_heap s' = bp_heap s"
    and "r = 0 \<Longrightarrow> plain_mem s' = plain_mem s" and "r = 0 \<Longrightarrow> mem s' = (mem s)(a := plain_mem s a)"
proof -
  obtain b where b: "p \<noteq> NULL" "bp_heap s p = Some b" "address b = a" "length (saved_bytes b) = 8"
    using bp_lookup_live [OF t l] by blast
  note step = remove_for_continue_step [OF b(1,2,4) run]
  show f: "bp_frame p s s'" and h: "bp_heap s' = bp_heap s" using step by blast+
  have p': "plain_mem s a = (if in_memory b then hd (saved_bytes b) else mem s a)"
    by (rule plain_mem_entry [OF l b(2)])
  show m: "r = 0 \<Longrightarrow> mem s' = (mem s)(a := plain_mem s a)" using step p' b(3) by auto
  show "r = 0 \<Longrightarrow> plain_mem s' = plain_mem s"
    using plain_mem_frame [OF t f l] bp_frame_table(2) [OF f t] l m b h by (simp add: plain_mem_entry)
qed

lemma bp_only_links_plain:
  assumes "bp_only_links (bp_heap s) (bp_heap s')" and "mem s' = mem s" and "bp_lookup s' a = bp_lookup s a"
    and "\<And>p. bp_lookup s a = Some p \<Longrightarrow> bp_heap s p \<noteq> None"
  shows "plain_mem s' a = plain_mem s a"
  using assms by (fastforce simp: plain_mem_def bp_only_links_def split: option.splits)

lemma create_plain:
  assumes t: "bp_table s" and run: "create_breakpoint a s = Ret (p, s')"
  shows "plain_mem s' = plain_mem s" and "mem s' = mem s"
proof -
  obtain p0 s0 where c: "create_breakpoint a s = Ret (p0, s0)"
    and links: "bp_only_links (bp_heap s) (bp_heap s0)"
    and ex: "\<exists>h bs. s0 = s\<lparr>sys_count := Suc (sys_count s), bp_heap := h, breakpoints := bs\<rparr>"
    and new: "bp_lookup s a = None \<longrightarrow> p0 \<noteq> NULL \<longrightarrow> bp_heap s0 p0 = Some (new_breakpoint a) \<and> bp_removable s0 a"
    by (rule create_breakpoint_table [OF t, of a])
  have eq [simp]: "p0 = p" "s0 = s'" using c run by simp_all
  show m: "mem s' = mem s" using ex by auto
  show "plain_mem s' = plain_mem s"
  proof
    fix c
    show "plain_mem s' c = plain_mem s c"
    proof (cases "bp_lookup s' c = bp_lookup s c")
      case True
      then show ?thesis
        using links [unfolded eq] m bp_lookup_live [OF t, of c] by (intro bp_only_links_plain) auto
    next
      case False
      then have "c = a" "p \<noteq> NULL" "bp_lookup s a = None" "bp_lookup s' a = Some p"
        using table.insert_lookup [OF run t] table.insert_present [OF run t]
        by (auto split: if_splits) (metis option.exhaust)+
      then show ?thesis using new m by (simp add: plain_mem_def new_breakpoint_def)
    qed
  qed
qed

lemma delete_plain:
  assumes t: "bp_table s" and l: "bp_lookup s a = Some p" and run: "delete_breakpoint E p s = Ret (0, s')"
  shows "mem s' = (mem s)(a := plain_mem s a)"
    and "bp_removable s a \<Longrightarrow> plain_mem s' = plain_mem s"
proof -
  obtain s1 where rem: "remove_breakpoint E p s = Ret (0, s1)"
    using run by (rule delete_removed)
  note r = remove_plain [OF t l rem]
  obtain s2 where d: "delete_breakpoint E p s = Ret (0, s2)"
    and ex: "\<exists>h bs. s2 = s1\<lparr>bp_heap := h, breakpoints := bs\<rparr>"
    and keep: "\<And>q b. q \<noteq> p \<Longrightarrow> bp_heap s1 q = Some b \<Longrightarrow> \<exists>n. bp_heap s2 q = Some (b\<lparr>next_breakpoint := n\<rparr>)"
    by (rule delete_breakpoint_table [OF t l rem]) blast
  have [simp]: "s2 = s'" using d run by simp
  have m: "mem s' = mem s1" using ex by auto
  then show "mem s' = (mem s)(a := plain_mem s a)" using r(3) by simp
  assume "bp_removable s a"
  then have look: "bp_lookup s' = (bp_lookup s)(a := None)"
    using table.remove_lookup [OF run t l] by blast
  have t1: "bp_table s1" "bp_lookup s1 = bp_lookup s" using bp_frame_table [OF r(1) t] by auto
  have "plain_mem s' c = plain_mem s1 c" for c
  proof (cases "bp_lookup s c")
    case None
    then show ?thesis using look t1(2) m by (simp add: plain_mem_def)
  next
    case (Some q)
    obtain b where b: "bp_heap s1 q = Some b" using bp_lookup_live [OF t1(1)] Some t1(2) by metis
    show ?thesis
    proof (cases "c = a")
      case True
      then show ?thesis using look r(4) l Some m t1(2) by (auto simp: plain_mem_def)
    next
      case False
      then have "q \<noteq> p" using bp_lookup_inj [OF t l] Some by blast
      then show ?thesis using keep b Some look t1(2) m False by (fastforce simp: plain_mem_def)
    qed
  qed
  then show "plain_mem s' = plain_mem s" using r(2) by (simp add: fun_eq_iff)
qed

section \<open>Success\<close>

text \<open>A page that the handlers of the copy can always get through for one byte.\<close>

definition byte_reachable :: "env \<Rightarrow> u64 \<Rightarrow> 'z mem_state_scheme \<Rightarrow> bool" where
  "byte_reachable E a s \<longleftrightarrow> env_pagesize E \<noteq> 0 \<and> \<not> aborting_mem_access s \<and> sys_always_ok s \<and>
     (\<exists>pg. pages s (page_align E a) = Some pg \<and> can_read pg \<and> backed pg)"

lemma range_pages_one: "env_pagesize E \<noteq> 0 \<Longrightarrow> range_pages E a (Suc 0) = [a]"
proof -
  assume "env_pagesize E \<noteq> 0"
  then have "0 < unat (env_pagesize E)" by (simp add: unat_gt_0)
  then show ?thesis by (simp add: range_pages_def Let_def)
qed

lemma read_memory_one:
  assumes "byte_reachable E a s"
  shows "\<exists>s'. read_memory E a 1 s = Ret (0, [mem s a], s') \<and> byte_reachable E a s'"
proof -
  have "hooks_ok s" "accessible E FromDebuggee a 1 s" "\<not> aborting_mem_access s"
    using assms by (auto simp: byte_reachable_def hooks_ok_def sys_ok_def sys_always_ok_def accessible_def access_fault_def)
  from read_memory_ok [OF this] show ?thesis
    using assms by (simp add: byte_reachable_def sys_always_ok_def)
qed

lemma write_memory_one:
  assumes "byte_reachable E a s"
  shows "\<exists>s'. write_memory E a [x] s = Ret (0, s') \<and> byte_reachable E a s'"
proof -
  have w: "openable E a (length [x]) s" "\<not> aborting_mem_access s" "length [x] \<le> 2 ^ 64"
    using assms by (auto simp: byte_reachable_def openable_def range_pages_one)
  have ok: "sys_ok s k" for k
    using assms by (simp add: byte_reachable_def sys_ok_def sys_always_ok_def)
  show ?thesis
  proof (cases "accessible E (ToDebuggee [x]) a (length [x]) s")
    case True
    with write_memory_ok [OF _ True w(2,3)] ok assms show ?thesis
      by (simp add: hooks_ok_def byte_reachable_def sys_always_ok_def)
  next
    case False
    with write_memory_opens [OF ok ok ok ok ok w(1) False w(2,3)] assms show ?thesis
      by (fastforce simp: byte_reachable_def sys_always_ok_def)
  qed
qed

lemma install_breakpoint_ok:
  assumes t: "bp_table s" and l: "bp_lookup s a = Some p" and r: "byte_reachable E a s"
  shows "\<exists>s'. install_breakpoint E p s = Ret (0, s') \<and> byte_reachable E a s'"
proof -
  obtain b where b: "p \<noteq> NULL" "bp_heap s p = Some b" "address b = a"
    using bp_lookup_live [OF t l] by blast
  obtain s1 where s1: "read_memory E a 1 s = Ret (0, [mem s a], s1)" "byte_reachable E a s1"
    using read_memory_one [OF r] by blast
  let ?s = "s1\<lparr>bp_heap := (bp_heap s1)(p \<mapsto> b\<lparr>saved_bytes := [mem s a] @ drop 1 (saved_bytes b)\<rparr>)\<rparr>"
  have "byte_reachable E a ?s"
    using s1(2) by (simp add: byte_reachable_def sys_always_ok_def)
  then obtain s2 where s2: "write_memory E a [BREAKPOINT_INSN] ?s = Ret (0, s2)" "byte_reachable E a s2"
    using write_memory_one by blast
  have "bp_heap s2 p \<noteq> None"
    using memory.write_client [OF s2(1)] bp_more(1) [of s2 ?s] by simp
  then show ?thesis
    using b s1(1) s2 r
    by (auto simp: install_breakpoint_def write_breakpoint_instruction_def set_in_memory_def deref_def Let_def
        byte_reachable_def sys_always_ok_def)
qed

lemma remove_breakpoint_ok:
  assumes t: "bp_table s" and l: "bp_lookup s a = Some p" and r: "byte_reachable E a s"
  shows "\<exists>s'. remove_breakpoint E p s = Ret (0, s')"
proof -
  obtain b where b: "p \<noteq> NULL" "bp_heap s p = Some b" "address b = a" "length (saved_bytes b) = 8"
    using bp_lookup_live [OF t l] by blast
  obtain s2 where s2: "write_memory E a [hd (saved_bytes b)] s = Ret (0, s2)"
    using write_memory_one [OF r] by blast
  have "take 1 (saved_bytes b) = [hd (saved_bytes b)]"
    using b(4) by (cases "saved_bytes b") auto
  moreover have "bp_heap s2 = bp_heap s"
    using memory.write_client [OF s2] bp_more(1) [of s2 s] by simp
  ultimately show ?thesis
    using b s2 by (auto simp: remove_breakpoint_def write_saved_bytes_def set_in_memory_def deref_def)
qed

lemma delete_breakpoint_ok:
  assumes "bp_table s" and "bp_lookup s a = Some p" and "byte_reachable E a s"
  shows "\<exists>s'. delete_breakpoint E p s = Ret (0, s')"
proof -
  obtain s1 where "remove_breakpoint E p s = Ret (0, s1)"
    using remove_breakpoint_ok [OF assms] by blast
  with assms(1,2) show ?thesis by (rule delete_breakpoint_table) blast
qed

text \<open>Two breakpoints of one bucket, both in a page of code.\<close>

definition sample_bp_state :: bp_state where
  "sample_bp_state = mem_state.extend (mem_state.truncate sample_mem_state)
     \<lparr>bp_heap = [1 \<mapsto> (new_breakpoint 0x400010)\<lparr>next_breakpoint := 2\<rparr>, 2 \<mapsto> new_breakpoint 0x400110],
      breakpoints = (\<lambda>k. if k = 16 then 1 else NULL)\<rparr>"

lemma sample_bp_table: "bp_table sample_bp_state"
proof -
  have "\<exists>qs. bp_bucket (bp_heap sample_bp_state) k (breakpoints sample_bp_state k) qs" for k
    by (cases "k = 16")
      (auto simp: sample_bp_state_def mem_state.defs bp_bucket_def new_breakpoint_def breakpoint_hash_def
        BREAKPOINT_HASH_SIZE_def bp_addr_def intro: exI [of _ "[1, 2]"])
  then show ?thesis
    by (auto simp: bp_table_def) (auto simp: sample_bp_state_def mem_state.defs new_breakpoint_def split: if_splits)
qed

lemma sample_bp_state_simps:
  "bp_lookup sample_bp_state 0x400010 = Some 1" "bp_lookup sample_bp_state 0x400110 = Some 2"
  "bp_heap sample_bp_state 1 = Some ((new_breakpoint 0x400010)\<lparr>next_breakpoint := 2\<rparr>)"
  "bp_heap sample_bp_state 2 = Some (new_breakpoint 0x400110)"
  "breakpoints sample_bp_state 16 = 1"
  by (simp_all add: bp_lookup_def sample_bp_state_def mem_state.defs new_breakpoint_def breakpoint_hash_def
      BREAKPOINT_HASH_SIZE_def find_loop.simps)

lemma sample_bp_reachable:
  "byte_reachable sample_env 0x400010 sample_bp_state" "byte_reachable sample_env 0x400110 sample_bp_state"
  by (simp_all add: byte_reachable_def sample_bp_state_def mem_state.defs sample_mem_state_def sample_env_ok
      page_align_def sys_always_ok_def)

section \<open>Properties\<close>

text \<open>
  C2. Creating a breakpoint always returns. A null pointer is an allocation failure and
  changes no entry; any other pointer is what the table finds for the address from then on
  (the existing object, if there was one), and every other address is found as before.
\<close>

theorem create_breakpoint_correct:
  assumes "bp_table s"
  shows "\<exists>p s'. create_breakpoint a s = Ret (p, s') \<and> bp_table s' \<and>
    (\<forall>c. find_breakpoint c s' = (if c = a \<and> p \<noteq> NULL then Ret p else find_breakpoint c s)) \<and>
    (\<forall>q. find_breakpoint a s = Ret q \<longrightarrow> q \<noteq> NULL \<longrightarrow> p = NULL \<or> p = q)"
proof -
  obtain p s' where c: "create_breakpoint a s = Ret (p, s')"
    using table.insert_total [OF assms] by blast
  have t': "bp_table s'" using table.insert_invar [OF c assms] .
  note f = find_breakpoint_lookup
  have "find_breakpoint x s' = (if x = a \<and> p \<noteq> NULL then Ret p else find_breakpoint x s)" for x
    using f [OF assms] f [OF t'] table.insert_lookup [OF c assms] by simp
  moreover have "p = NULL \<or> p = q" if "find_breakpoint a s = Ret q" "q \<noteq> NULL" for q
    using that f [OF assms] table.insert_present [OF c assms] by (auto split: option.splits)
  ultimately show ?thesis using c t' by blast
qed

theorem create_breakpoint_correct_witness:
  "\<exists>p s'. create_breakpoint 0x400020 sample_bp_state = Ret (p, s') \<and> bp_table s' \<and>
     find_breakpoint 0x400010 s' = Ret 1"
proof -
  have "find_breakpoint 0x400010 sample_bp_state = Ret 1"
    by (simp add: find_breakpoint_lookup [OF sample_bp_table] sample_bp_state_simps)
  then show ?thesis
    using create_breakpoint_correct [OF sample_bp_table, of "0x400020"] by fastforce
qed

text \<open>
  C1. Installing a registered breakpoint puts the trap instruction at its address and nowhere
  else, and the memory that the debuggee would have without breakpoints stays the same.
\<close>

theorem install_breakpoint_transparent:
  assumes "bp_table s" and "bp_lookup s a = Some p" and "bp_heap s p = Some b" and "\<not> in_memory b"
    and "install_breakpoint E p s = Ret (0, s')"
  shows "mem s' = (mem s)(a := BREAKPOINT_INSN) \<and> plain_mem s' = plain_mem s \<and>
    bp_table s' \<and> bp_lookup s' = bp_lookup s"
proof -
  note i = install_plain [OF assms(1,2,5)]
  show ?thesis using i(2) i(4) [OF refl assms(3,4)] bp_frame_table [OF i(1) assms(1)] by simp
qed

theorem install_breakpoint_transparent_witness:
  "\<exists>s'. install_breakpoint sample_env 1 sample_bp_state = Ret (0, s') \<and> mem s' 0x400010 = 0xcc \<and>
     plain_mem s' 0x400010 = 0"
proof -
  obtain s' where s': "install_breakpoint sample_env 1 sample_bp_state = Ret (0, s')"
    using install_breakpoint_ok [OF sample_bp_table _ sample_bp_reachable(1)] sample_bp_state_simps by blast
  have "plain_mem sample_bp_state 0x400010 = 0"
    using plain_mem_entry [OF sample_bp_state_simps(1,3)]
    by (simp add: new_breakpoint_def sample_bp_state_def mem_state.defs sample_mem_state_def)
  with s' show ?thesis
    using install_breakpoint_transparent [OF sample_bp_table sample_bp_state_simps(1,3) _ s']
    by (simp add: new_breakpoint_def BREAKPOINT_INSN_def)
qed

text \<open>
  Installing a breakpoint and removing it again restores the memory exactly.
\<close>

theorem install_remove_roundtrip:
  assumes "bp_table s" and "bp_lookup s a = Some p" and "bp_heap s p = Some b" and "\<not> in_memory b"
    and "install_breakpoint E p s = Ret (0, s1)" and "remove_breakpoint E p s1 = Ret (0, s2)"
  shows "mem s2 = mem s \<and> plain_mem s2 = plain_mem s"
proof -
  note i = install_plain [OF assms(1,2,5)]
  have t1: "bp_table s1" "bp_lookup s1 a = Some p"
    using bp_frame_table [OF i(1) assms(1)] assms(2) by simp_all
  note r = remove_plain [OF t1 assms(6)]
  have "plain_mem s a = mem s a" using assms(2-4) by (simp add: plain_mem_entry)
  then show ?thesis using i(2) i(4) [OF _ assms(3,4)] r(2,3) by simp
qed

theorem install_remove_roundtrip_witness:
  "\<exists>s1 s2. install_breakpoint sample_env 1 sample_bp_state = Ret (0, s1) \<and>
     remove_breakpoint sample_env 1 s1 = Ret (0, s2) \<and> mem s2 = mem sample_bp_state"
proof -
  obtain s1 where s1: "install_breakpoint sample_env 1 sample_bp_state = Ret (0, s1)"
    and r: "byte_reachable sample_env 0x400010 s1"
    using install_breakpoint_ok [OF sample_bp_table _ sample_bp_reachable(1)] sample_bp_state_simps by blast
  note i = install_plain [OF sample_bp_table sample_bp_state_simps(1) s1]
  have "bp_table s1" "bp_lookup s1 0x400010 = Some 1"
    using bp_frame_table [OF i(1) sample_bp_table] by (simp_all add: sample_bp_state_simps)
  then obtain s2 where s2: "remove_breakpoint sample_env 1 s1 = Ret (0, s2)"
    using remove_breakpoint_ok [OF _ _ r] by blast
  show ?thesis
    using install_remove_roundtrip [OF sample_bp_table sample_bp_state_simps(1,3) _ s1 s2] s1 s2
    by (simp add: new_breakpoint_def)
qed

text \<open>
  C34. A successful deletion puts the saved byte back and forgets the entry. When the entry is
  the head of its bucket it also forgets every other breakpoint of that bucket, because the
  head is unlinked by emptying the bucket.
\<close>

theorem delete_breakpoint_effect:
  assumes "bp_table s" and "bp_lookup s a = Some p" and "delete_breakpoint E p s = Ret (0, s')"
  shows "bp_table s' \<and> mem s' = (mem s)(a := plain_mem s a) \<and>
    (\<forall>c. find_breakpoint c s' =
       (if c = a \<or> (breakpoints s (breakpoint_hash a) = p \<and> breakpoint_hash c = breakpoint_hash a)
        then Ret NULL else find_breakpoint c s))"
proof -
  note d = delete_breakpoint_run [OF assms]
  show ?thesis
    using d find_breakpoint_lookup [OF assms(1)] find_breakpoint_lookup [OF d(1)]
      delete_plain(1) [OF assms] by simp
qed

theorem delete_breakpoint_effect_witness:
  "\<exists>s'. delete_breakpoint sample_env 1 sample_bp_state = Ret (0, s') \<and> find_breakpoint 0x400110 s' = Ret NULL"
proof -
  obtain s' where s': "delete_breakpoint sample_env 1 sample_bp_state = Ret (0, s')"
    using delete_breakpoint_ok [OF sample_bp_table _ sample_bp_reachable(1)] sample_bp_state_simps by blast
  then show ?thesis
    using delete_breakpoint_effect [OF sample_bp_table sample_bp_state_simps(1) s']
    by (simp add: sample_bp_state_simps breakpoint_hash_def BREAKPOINT_HASH_SIZE_def)
qed

text \<open>
  Deleting the first breakpoint of a bucket strands an installed breakpoint behind it:
  its trap instruction stays in memory and the table does not know the address any more.
\<close>

theorem delete_strands_breakpoint:
  assumes "bp_table s" and "bp_lookup s a = Some p" and "breakpoints s (breakpoint_hash a) = p"
    and "c \<noteq> a" and "breakpoint_hash c = breakpoint_hash a" and "mem s c = BREAKPOINT_INSN"
    and "delete_breakpoint E p s = Ret (0, s')"
  shows "mem s' c = BREAKPOINT_INSN \<and> find_breakpoint c s' = Ret NULL"
proof -
  note d = delete_breakpoint_run [OF assms(1,2,7)]
  show ?thesis
    using find_breakpoint_lookup [OF d(1), of c] d(2) delete_plain(1) [OF assms(1,2,7)] assms(3-6) by simp
qed

theorem delete_strands_breakpoint_witness:
  "\<exists>s1 s'. install_breakpoint sample_env 2 sample_bp_state = Ret (0, s1) \<and>
     delete_breakpoint sample_env 1 s1 = Ret (0, s') \<and> mem s' 0x400110 = 0xcc \<and> find_breakpoint 0x400110 s' = Ret NULL"
proof -
  obtain s1 where s1: "install_breakpoint sample_env 2 sample_bp_state = Ret (0, s1)"
    and r: "byte_reachable sample_env 0x400110 s1"
    using install_breakpoint_ok [OF sample_bp_table _ sample_bp_reachable(2)] sample_bp_state_simps by blast
  note i = install_plain [OF sample_bp_table sample_bp_state_simps(2) s1]
  have t1: "bp_table s1" "bp_lookup s1 0x400010 = Some 1" "breakpoints s1 16 = 1" "mem s1 0x400110 = BREAKPOINT_INSN"
    using bp_frame_table [OF i(1) sample_bp_table] i(1) i(4) [OF refl sample_bp_state_simps(4)]
    by (simp_all add: sample_bp_state_simps bp_frame_def new_breakpoint_def)
  have "byte_reachable sample_env 0x400010 s1"
    using r by (simp add: byte_reachable_def page_align_def sample_env_ok)
  then obtain s' where s': "delete_breakpoint sample_env 1 s1 = Ret (0, s')"
    using delete_breakpoint_ok [OF t1(1,2)] by blast
  show ?thesis
    using delete_strands_breakpoint [OF t1(1,2) _ _ _ t1(4) s'] s1 s' t1(3)
    by (simp add: breakpoint_hash_def BREAKPOINT_HASH_SIZE_def BREAKPOINT_INSN_def)
qed

text \<open>
  C33. The life of a temporary breakpoint (the one that steps over a user breakpoint): created
  at an address that had none, installed and deleted, it leaves the table and the memory
  exactly as they were.
\<close>

theorem temporary_breakpoint_roundtrip:
  assumes "bp_table s" and "bp_lookup s a = None"
    and "create_breakpoint a s = Ret (p, s1)" and "p \<noteq> NULL"
    and "install_breakpoint E p s1 = Ret (0, s2)" and "delete_breakpoint E p s2 = Ret (0, s3)"
  shows "bp_table s3 \<and> bp_lookup s3 = bp_lookup s \<and> mem s3 = mem s \<and> plain_mem s3 = plain_mem s"
proof -
  have t1: "bp_table s1" "bp_lookup s1 a = Some p" "bp_removable s1 a"
    using table.insert_invar [OF assms(3,1)] table.insert_lookup [OF assms(3,1)]
      table.insert_removable [OF assms(3,1,2,4)] assms(4) by simp_all
  have c: "plain_mem s1 = plain_mem s" "mem s1 = mem s" using create_plain [OF assms(1,3)] by simp_all
  note i = install_plain [OF t1(1,2) assms(5)]
  have t2: "bp_table s2" "bp_lookup s2 = bp_lookup s1" using bp_frame_table [OF i(1) t1(1)] by simp_all
  have rem: "bp_removable s2 a" by (rule bp_removable_frame [OF i(1) t1(1,3)])
  have l2: "bp_lookup s2 a = Some p" using t1(2) t2(2) by simp
  have "plain_mem s a = mem s a" using assms(2) by (simp add: plain_mem_def)
  moreover have "mem s2 x = mem s1 x" if "x \<noteq> a" for x
    using i(1) that bp_lookup_live [OF t1(1,2)] by (auto simp: bp_frame_def)
  ultimately have "mem s3 = mem s"
    using delete_plain(1) [OF t2(1) l2 assms(6)] i(2) c by (auto simp: fun_eq_iff)
  moreover have "bp_table s3 \<and> bp_lookup s3 = bp_lookup s"
    by (rule table.temporary [OF assms(3,1,2,4) t2 rem assms(6)])
  ultimately show ?thesis
    using delete_plain(2) [OF t2(1) l2 assms(6) rem] i(2) c by simp
qed

theorem temporary_breakpoint_roundtrip_witness:
  "\<exists>s1 s2 s3. create_breakpoint 0x400020 sample_bp_state = Ret (100, s1) \<and>
     install_breakpoint sample_env 100 s1 = Ret (0, s2) \<and> delete_breakpoint sample_env 100 s2 = Ret (0, s3) \<and>
     mem s3 = mem sample_bp_state \<and> bp_lookup s3 = bp_lookup sample_bp_state"
proof -
  have none: "bp_lookup sample_bp_state 0x400020 = None"
    by (simp add: bp_lookup_def sample_bp_state_def mem_state.defs breakpoint_hash_def BREAKPOINT_HASH_SIZE_def
        find_loop.simps)
  obtain s1 where c: "create_breakpoint 0x400020 sample_bp_state = Ret (100, s1)"
    and r1: "byte_reachable sample_env 0x400020 s1"
    by (simp add: create_breakpoint_def alloc_ptr_def sys_call_def sample_bp_state_def mem_state.defs
        sample_mem_state_def breakpoint_hash_def BREAKPOINT_HASH_SIZE_def byte_reachable_def sample_env_ok
        page_align_def sys_always_ok_def)
  have t1: "bp_table s1" "bp_lookup s1 0x400020 = Some 100"
    using table.insert_invar [OF c sample_bp_table] table.insert_lookup [OF c sample_bp_table] by simp_all
  obtain s2 where i: "install_breakpoint sample_env 100 s1 = Ret (0, s2)" and r2: "byte_reachable sample_env 0x400020 s2"
    using install_breakpoint_ok [OF t1 r1] by blast
  have t2: "bp_table s2" "bp_lookup s2 0x400020 = Some 100"
    using bp_frame_table [OF install_plain(1) [OF t1 i] t1(1)] t1(2) by simp_all
  obtain s3 where d: "delete_breakpoint sample_env 100 s2 = Ret (0, s3)"
    using delete_breakpoint_ok [OF t2 r2] by blast
  show ?thesis
    using temporary_breakpoint_roundtrip [OF sample_bp_table none c _ i d] c i d by simp
qed

end
