(* ===== verification/Linux_X86.thy ===== *)
theory Linux_X86
  imports Breakpoint
begin

text \<open>
  The register context of x86-64 Linux (\<^verbatim>\<open>udirt-linux-x86.c\<close>): where each register of the
  protocol and of the disassembler lives in the saved context, and the accesses to it.
\<close>

section \<open>Definitions\<close>

text \<open>
  The saved context: its general registers, indexed as in \<^verbatim>\<open>uc_mcontext.gregs\<close> (an index
  outside the array names a cell that no 64-bit access reaches), and its signal mask.
\<close>

record ucontext =
  gregs :: "int \<Rightarrow> u64"
  uc_sigmask :: "nat set"

subsection \<open>Positions\<close>

text \<open>The macros of the C library for x86-64; a register it does not name has position -1.\<close>

definition X86_GS_OFFSET :: int where
  "X86_GS_OFFSET = - 1"

definition X86_FS_OFFSET :: int where
  "X86_FS_OFFSET = - 1"

definition X86_ES_OFFSET :: int where
  "X86_ES_OFFSET = - 1"

definition X86_DS_OFFSET :: int where
  "X86_DS_OFFSET = - 1"

definition X86_EDI_OFFSET :: int where
  "X86_EDI_OFFSET = - 1"

definition X86_ESI_OFFSET :: int where
  "X86_ESI_OFFSET = - 1"

definition X86_EBP_OFFSET :: int where
  "X86_EBP_OFFSET = - 1"

definition X86_ESP_OFFSET :: int where
  "X86_ESP_OFFSET = - 1"

definition X86_EBX_OFFSET :: int where
  "X86_EBX_OFFSET = - 1"

definition X86_EDX_OFFSET :: int where
  "X86_EDX_OFFSET = - 1"

definition X86_ECX_OFFSET :: int where
  "X86_ECX_OFFSET = - 1"

definition X86_EAX_OFFSET :: int where
  "X86_EAX_OFFSET = - 1"

definition X86_CS_OFFSET :: int where
  "X86_CS_OFFSET = - 1"

definition X86_SS_OFFSET :: int where
  "X86_SS_OFFSET = - 1"

definition X86_EIP_OFFSET :: int where
  "X86_EIP_OFFSET = - 1"

definition X86_FLAGS_OFFSET :: int where
  "X86_FLAGS_OFFSET = 17"

definition X86_64_R8_OFFSET :: int where
  "X86_64_R8_OFFSET = 0"

definition X86_64_R9_OFFSET :: int where
  "X86_64_R9_OFFSET = 1"

definition X86_64_R10_OFFSET :: int where
  "X86_64_R10_OFFSET = 2"

definition X86_64_R11_OFFSET :: int where
  "X86_64_R11_OFFSET = 3"

definition X86_64_R12_OFFSET :: int where
  "X86_64_R12_OFFSET = 4"

definition X86_64_R13_OFFSET :: int where
  "X86_64_R13_OFFSET = 5"

definition X86_64_R14_OFFSET :: int where
  "X86_64_R14_OFFSET = 6"

definition X86_64_R15_OFFSET :: int where
  "X86_64_R15_OFFSET = 7"

definition X86_64_RDI_OFFSET :: int where
  "X86_64_RDI_OFFSET = 8"

definition X86_64_RSI_OFFSET :: int where
  "X86_64_RSI_OFFSET = 9"

definition X86_64_RBP_OFFSET :: int where
  "X86_64_RBP_OFFSET = 10"

definition X86_64_RBX_OFFSET :: int where
  "X86_64_RBX_OFFSET = 11"

definition X86_64_RDX_OFFSET :: int where
  "X86_64_RDX_OFFSET = 12"

definition X86_64_RAX_OFFSET :: int where
  "X86_64_RAX_OFFSET = 13"

definition X86_64_RCX_OFFSET :: int where
  "X86_64_RCX_OFFSET = 14"

definition X86_64_RSP_OFFSET :: int where
  "X86_64_RSP_OFFSET = 15"

definition X86_64_RIP_OFFSET :: int where
  "X86_64_RIP_OFFSET = 16"

definition X86_64_CSGSFS_OFFSET :: int where
  "X86_64_CSGSFS_OFFSET = 18"

definition X86_64_FLAGS_OFFSET :: int where
  "X86_64_FLAGS_OFFSET = 17"

lemmas offset_defs =
  X86_GS_OFFSET_def X86_FS_OFFSET_def X86_ES_OFFSET_def
  X86_DS_OFFSET_def X86_EDI_OFFSET_def X86_ESI_OFFSET_def
  X86_EBP_OFFSET_def X86_ESP_OFFSET_def X86_EBX_OFFSET_def
  X86_EDX_OFFSET_def X86_ECX_OFFSET_def X86_EAX_OFFSET_def
  X86_CS_OFFSET_def X86_SS_OFFSET_def X86_EIP_OFFSET_def
  X86_FLAGS_OFFSET_def X86_64_R8_OFFSET_def X86_64_R9_OFFSET_def
  X86_64_R10_OFFSET_def X86_64_R11_OFFSET_def X86_64_R12_OFFSET_def
  X86_64_R13_OFFSET_def X86_64_R14_OFFSET_def X86_64_R15_OFFSET_def
  X86_64_RDI_OFFSET_def X86_64_RSI_OFFSET_def X86_64_RBP_OFFSET_def
  X86_64_RBX_OFFSET_def X86_64_RDX_OFFSET_def X86_64_RAX_OFFSET_def
  X86_64_RCX_OFFSET_def X86_64_RSP_OFFSET_def X86_64_RIP_OFFSET_def
  X86_64_CSGSFS_OFFSET_def X86_64_FLAGS_OFFSET_def

subsection \<open>The context of a thread and its dump\<close>

text \<open>The context of this platform needs no data beside the structure: the result and the pointer stored.\<close>

definition allocate_context_data :: "int \<times> ptr" where
  [simp]: "allocate_context_data = (0, NULL)"

text \<open>
  The dump into the log: \<open>file\<close> and \<open>line\<close> are the file and the lines of the calls. The segment
  registers are passed as 32-bit values.
\<close>

definition log_context :: "env \<Rightarrow> bool \<Rightarrow> string \<Rightarrow> (nat \<Rightarrow> int) \<Rightarrow> ucontext \<Rightarrow> string \<Rightarrow> string option" where
  "log_context E udi_debug_on file line c out =
     (if WORDSIZE = 64 then
        let csgsfs = gregs c X86_64_CSGSFS_OFFSET in
        udi_logs E udi_debug_on
           [(file, line 0, ''rax: 0x%x rbx: 0x%x rcx: 0x%x rdx: 0x%x'',
             [ArgU64 (gregs c X86_64_RAX_OFFSET), ArgU64 (gregs c X86_64_RBX_OFFSET), ArgU64 (gregs c X86_64_RCX_OFFSET), ArgU64 (gregs c X86_64_RDX_OFFSET)]),
            (file, line 1, ''rsi: 0x%x rdi: 0x%x rbp: 0x%x rsp: 0x%x'',
             [ArgU64 (gregs c X86_64_RSI_OFFSET), ArgU64 (gregs c X86_64_RDI_OFFSET), ArgU64 (gregs c X86_64_RBP_OFFSET), ArgU64 (gregs c X86_64_RSP_OFFSET)]),
            (file, line 2, ''r8:  0x%x r9:  0x%x r10: 0x%x r11: 0x%x'',
             [ArgU64 (gregs c X86_64_R8_OFFSET), ArgU64 (gregs c X86_64_R9_OFFSET), ArgU64 (gregs c X86_64_R10_OFFSET), ArgU64 (gregs c X86_64_R11_OFFSET)]),
            (file, line 3, ''r12: 0x%x r13: 0x%x r14: 0x%x r15: 0x%x'',
             [ArgU64 (gregs c X86_64_R12_OFFSET), ArgU64 (gregs c X86_64_R13_OFFSET), ArgU64 (gregs c X86_64_R14_OFFSET), ArgU64 (gregs c X86_64_R15_OFFSET)]),
            (file, line 4, ''rip: 0x%x rsp: 0x%x rflags: 0x%x'',
             [ArgU64 (gregs c X86_64_RIP_OFFSET), ArgU64 (gregs c X86_64_RSP_OFFSET), ArgU64 (gregs c X86_64_FLAGS_OFFSET)]),
            (file, line 5, ''cs: 0x%x fs: 0x%x gs: 0x%x'',
             [ArgInt (uint (drop_bit 48 (csgsfs AND 0xffff000000000000))),
              ArgInt (uint (drop_bit 32 (csgsfs AND 0xffff00000000))),
              ArgInt (uint (drop_bit 16 (csgsfs AND 0xffff0000)))])] out
      else Some out)"

subsection \<open>The program counter, the flags and the exit status\<close>

definition rewind_pc :: "ucontext \<Rightarrow> ucontext" where
  "rewind_pc c =
     (if WORDSIZE = 64
      then c\<lparr>gregs := (gregs c)(X86_64_RIP_OFFSET := gregs c X86_64_RIP_OFFSET - 1)\<rparr>
      else c\<lparr>gregs := (gregs c)(X86_EIP_OFFSET := gregs c X86_EIP_OFFSET - 1)\<rparr>)"

definition set_pc :: "ucontext \<Rightarrow> u64 \<Rightarrow> ucontext" where
  "set_pc c pc =
     (if WORDSIZE = 64 then c\<lparr>gregs := (gregs c)(X86_64_RIP_OFFSET := pc)\<rparr>
      else c\<lparr>gregs := (gregs c)(X86_EIP_OFFSET := pc)\<rparr>)"

definition get_pc :: "ucontext \<Rightarrow> u64" where
  "get_pc c = (if WORDSIZE = 64 then gregs c X86_64_RIP_OFFSET else gregs c X86_EIP_OFFSET)"

definition get_flags :: "ucontext \<Rightarrow> u64" where
  "get_flags c = (if WORDSIZE = 64 then gregs c X86_64_FLAGS_OFFSET else gregs c X86_FLAGS_OFFSET)"

definition get_trap_address :: "ucontext \<Rightarrow> u64" where
  "get_trap_address c =
     (if WORDSIZE = 64 then gregs c X86_64_RIP_OFFSET - 1 else gregs c X86_EIP_OFFSET - 1)"

text \<open>The bytes of a little-endian integer in memory.\<close>

fun le_u64 :: "u8 list \<Rightarrow> u64" where
  "le_u64 [] = 0"
| "le_u64 (b # bs) = ucast b + 256 * le_u64 bs"

text \<open>
  The exit status as a 32-bit value (\<^verbatim>\<open>*status\<close> holds \<open>status0\<close> before the call). The
  result of a failed read is overwritten with success.
\<close>

definition get_exit_argument ::
    "env \<Rightarrow> ucontext \<Rightarrow> u32 \<Rightarrow> 'z mem_state_scheme \<Rightarrow> (int \<times> u32 \<times> 'z mem_state_scheme) run" where
  "get_exit_argument E c status0 s =
     (if WORDSIZE = 64 then Ret (RESULT_SUCCESS, ucast (gregs c X86_64_RDI_OFFSET), s)
      else
        let sp = gregs c X86_ESP_OFFSET + of_nat (WORDSIZE div 8) in
        run_bind (read_memory E sp 4 s) (\<lambda>(read_result, out, s).
          let status = (if length out = 4 then ucast (le_u64 out) else status0);
              s = (if read_result \<noteq> 0
                   then udi_set_errmsg E ''failed to retrieve exit status off of the stack at %a: %s''
                          [ArgU64 sp, ArgStr (get_mem_errstr s)] s
                   else s)
          in Ret (RESULT_SUCCESS, status, s)))"

subsection \<open>Registers of the disassembler\<close>

text \<open>The 64-bit switch of \<^verbatim>\<open>get_reg_context_offset\<close>.\<close>

primrec reg_context_offset_64 :: "ud_type_t \<Rightarrow> int" where
  "reg_context_offset_64 UD_NONE = - 1"
| "reg_context_offset_64 UD_R_AL = X86_64_RAX_OFFSET"
| "reg_context_offset_64 UD_R_AH = X86_64_RAX_OFFSET"
| "reg_context_offset_64 UD_R_AX = X86_64_RAX_OFFSET"
| "reg_context_offset_64 UD_R_EAX = X86_64_RAX_OFFSET"
| "reg_context_offset_64 UD_R_RAX = X86_64_RAX_OFFSET"
| "reg_context_offset_64 UD_R_CL = X86_64_RCX_OFFSET"
| "reg_context_offset_64 UD_R_CH = X86_64_RCX_OFFSET"
| "reg_context_offset_64 UD_R_CX = X86_64_RCX_OFFSET"
| "reg_context_offset_64 UD_R_ECX = X86_64_RCX_OFFSET"
| "reg_context_offset_64 UD_R_RCX = X86_64_RCX_OFFSET"
| "reg_context_offset_64 UD_R_DL = X86_64_RDX_OFFSET"
| "reg_context_offset_64 UD_R_DH = X86_64_RDX_OFFSET"
| "reg_context_offset_64 UD_R_DX = - 1"
| "reg_context_offset_64 UD_R_EDX = X86_64_RDX_OFFSET"
| "reg_context_offset_64 UD_R_RDX = X86_64_RDX_OFFSET"
| "reg_context_offset_64 UD_R_BL = X86_64_RBX_OFFSET"
| "reg_context_offset_64 UD_R_BH = X86_64_RBX_OFFSET"
| "reg_context_offset_64 UD_R_BX = - 1"
| "reg_context_offset_64 UD_R_EBX = X86_64_RBX_OFFSET"
| "reg_context_offset_64 UD_R_RBX = X86_64_RBX_OFFSET"
| "reg_context_offset_64 UD_R_RIP = X86_64_RIP_OFFSET"
| "reg_context_offset_64 UD_R_SPL = X86_64_RSP_OFFSET"
| "reg_context_offset_64 UD_R_SP = X86_64_RSP_OFFSET"
| "reg_context_offset_64 UD_R_ESP = X86_64_RSP_OFFSET"
| "reg_context_offset_64 UD_R_RSP = X86_64_RSP_OFFSET"
| "reg_context_offset_64 UD_R_BPL = X86_64_RBP_OFFSET"
| "reg_context_offset_64 UD_R_BP = X86_64_RBP_OFFSET"
| "reg_context_offset_64 UD_R_EBP = X86_64_RBP_OFFSET"
| "reg_context_offset_64 UD_R_RBP = X86_64_RBP_OFFSET"
| "reg_context_offset_64 UD_R_SIL = X86_64_RSI_OFFSET"
| "reg_context_offset_64 UD_R_SI = X86_64_RSI_OFFSET"
| "reg_context_offset_64 UD_R_ESI = X86_64_RSI_OFFSET"
| "reg_context_offset_64 UD_R_RSI = X86_64_RSI_OFFSET"
| "reg_context_offset_64 UD_R_DIL = X86_64_RDI_OFFSET"
| "reg_context_offset_64 UD_R_DI = X86_64_RDI_OFFSET"
| "reg_context_offset_64 UD_R_EDI = X86_64_RDI_OFFSET"
| "reg_context_offset_64 UD_R_RDI = X86_64_RDI_OFFSET"
| "reg_context_offset_64 UD_R_R8B = X86_64_R8_OFFSET"
| "reg_context_offset_64 UD_R_R8W = X86_64_R8_OFFSET"
| "reg_context_offset_64 UD_R_R8D = X86_64_R8_OFFSET"
| "reg_context_offset_64 UD_R_R8 = X86_64_R8_OFFSET"
| "reg_context_offset_64 UD_R_R9B = X86_64_R9_OFFSET"
| "reg_context_offset_64 UD_R_R9W = X86_64_R9_OFFSET"
| "reg_context_offset_64 UD_R_R9D = X86_64_R9_OFFSET"
| "reg_context_offset_64 UD_R_R9 = X86_64_R9_OFFSET"
| "reg_context_offset_64 UD_R_R10B = X86_64_R10_OFFSET"
| "reg_context_offset_64 UD_R_R10W = X86_64_R10_OFFSET"
| "reg_context_offset_64 UD_R_R10D = X86_64_R10_OFFSET"
| "reg_context_offset_64 UD_R_R10 = X86_64_R10_OFFSET"
| "reg_context_offset_64 UD_R_R11B = X86_64_R11_OFFSET"
| "reg_context_offset_64 UD_R_R11W = X86_64_R11_OFFSET"
| "reg_context_offset_64 UD_R_R11D = X86_64_R11_OFFSET"
| "reg_context_offset_64 UD_R_R11 = X86_64_R11_OFFSET"
| "reg_context_offset_64 UD_R_R12B = X86_64_R12_OFFSET"
| "reg_context_offset_64 UD_R_R12W = X86_64_R12_OFFSET"
| "reg_context_offset_64 UD_R_R12D = X86_64_R12_OFFSET"
| "reg_context_offset_64 UD_R_R12 = X86_64_R12_OFFSET"
| "reg_context_offset_64 UD_R_R13B = X86_64_R13_OFFSET"
| "reg_context_offset_64 UD_R_R13W = X86_64_R13_OFFSET"
| "reg_context_offset_64 UD_R_R13D = X86_64_R13_OFFSET"
| "reg_context_offset_64 UD_R_R13 = X86_64_R13_OFFSET"
| "reg_context_offset_64 UD_R_R14B = X86_64_R14_OFFSET"
| "reg_context_offset_64 UD_R_R14W = X86_64_R14_OFFSET"
| "reg_context_offset_64 UD_R_R14D = X86_64_R14_OFFSET"
| "reg_context_offset_64 UD_R_R14 = X86_64_R14_OFFSET"
| "reg_context_offset_64 UD_R_R15B = X86_64_R15_OFFSET"
| "reg_context_offset_64 UD_R_R15W = X86_64_R15_OFFSET"
| "reg_context_offset_64 UD_R_R15D = X86_64_R15_OFFSET"
| "reg_context_offset_64 UD_R_R15 = X86_64_R15_OFFSET"
| "reg_context_offset_64 UD_R_other = - 1"

definition get_reg_context_offset :: "ud_type_t \<Rightarrow> int" where
  "get_reg_context_offset reg = (if WORDSIZE = 64 then reg_context_offset_64 reg else - 1)"

definition is_accessible_register :: "ud_type_t \<Rightarrow> bool" where
  "is_accessible_register reg \<longleftrightarrow> get_reg_context_offset reg \<noteq> - 1"

definition get_register_ud_type :: "ud_type_t \<Rightarrow> ucontext \<Rightarrow> u64 run" where
  "get_register_ud_type reg c =
     (let offset = get_reg_context_offset reg in
      if offset = - 1 then Abort else Ret (gregs c offset))"

subsection \<open>Registers of the protocol\<close>

primrec udi_reg_context_offset :: "udi_register_e \<Rightarrow> int" where
  "udi_reg_context_offset UDI_X86_MIN = - 2"
| "udi_reg_context_offset UDI_X86_GS = X86_GS_OFFSET"
| "udi_reg_context_offset UDI_X86_FS = X86_FS_OFFSET"
| "udi_reg_context_offset UDI_X86_ES = X86_ES_OFFSET"
| "udi_reg_context_offset UDI_X86_DS = X86_DS_OFFSET"
| "udi_reg_context_offset UDI_X86_EDI = X86_EDI_OFFSET"
| "udi_reg_context_offset UDI_X86_ESI = X86_ESI_OFFSET"
| "udi_reg_context_offset UDI_X86_EBP = X86_EBP_OFFSET"
| "udi_reg_context_offset UDI_X86_ESP = X86_ESP_OFFSET"
| "udi_reg_context_offset UDI_X86_EBX = X86_EBX_OFFSET"
| "udi_reg_context_offset UDI_X86_EDX = X86_EDX_OFFSET"
| "udi_reg_context_offset UDI_X86_ECX = X86_ECX_OFFSET"
| "udi_reg_context_offset UDI_X86_EAX = X86_EAX_OFFSET"
| "udi_reg_context_offset UDI_X86_CS = X86_CS_OFFSET"
| "udi_reg_context_offset UDI_X86_SS = X86_SS_OFFSET"
| "udi_reg_context_offset UDI_X86_EIP = X86_EIP_OFFSET"
| "udi_reg_context_offset UDI_X86_FLAGS = X86_FLAGS_OFFSET"
| "udi_reg_context_offset UDI_X86_ST0 = - 1"
| "udi_reg_context_offset UDI_X86_ST1 = - 1"
| "udi_reg_context_offset UDI_X86_ST2 = - 1"
| "udi_reg_context_offset UDI_X86_ST3 = - 1"
| "udi_reg_context_offset UDI_X86_ST4 = - 1"
| "udi_reg_context_offset UDI_X86_ST5 = - 1"
| "udi_reg_context_offset UDI_X86_ST6 = - 1"
| "udi_reg_context_offset UDI_X86_ST7 = - 1"
| "udi_reg_context_offset UDI_X86_MAX = - 2"
| "udi_reg_context_offset UDI_X86_64_MIN = - 2"
| "udi_reg_context_offset UDI_X86_64_R8 = X86_64_R8_OFFSET"
| "udi_reg_context_offset UDI_X86_64_R9 = X86_64_R9_OFFSET"
| "udi_reg_context_offset UDI_X86_64_R10 = X86_64_R10_OFFSET"
| "udi_reg_context_offset UDI_X86_64_R11 = X86_64_R11_OFFSET"
| "udi_reg_context_offset UDI_X86_64_R12 = X86_64_R12_OFFSET"
| "udi_reg_context_offset UDI_X86_64_R13 = X86_64_R13_OFFSET"
| "udi_reg_context_offset UDI_X86_64_R14 = X86_64_R14_OFFSET"
| "udi_reg_context_offset UDI_X86_64_R15 = X86_64_R15_OFFSET"
| "udi_reg_context_offset UDI_X86_64_RDI = X86_64_RDI_OFFSET"
| "udi_reg_context_offset UDI_X86_64_RSI = X86_64_RSI_OFFSET"
| "udi_reg_context_offset UDI_X86_64_RBP = X86_64_RBP_OFFSET"
| "udi_reg_context_offset UDI_X86_64_RBX = X86_64_RBX_OFFSET"
| "udi_reg_context_offset UDI_X86_64_RDX = X86_64_RDX_OFFSET"
| "udi_reg_context_offset UDI_X86_64_RAX = X86_64_RAX_OFFSET"
| "udi_reg_context_offset UDI_X86_64_RCX = X86_64_RCX_OFFSET"
| "udi_reg_context_offset UDI_X86_64_RSP = X86_64_RSP_OFFSET"
| "udi_reg_context_offset UDI_X86_64_RIP = X86_64_RIP_OFFSET"
| "udi_reg_context_offset UDI_X86_64_CSGSFS = X86_64_CSGSFS_OFFSET"
| "udi_reg_context_offset UDI_X86_64_FLAGS = X86_64_FLAGS_OFFSET"
| "udi_reg_context_offset UDI_X86_64_ST0 = - 1"
| "udi_reg_context_offset UDI_X86_64_ST1 = - 1"
| "udi_reg_context_offset UDI_X86_64_ST2 = - 1"
| "udi_reg_context_offset UDI_X86_64_ST3 = - 1"
| "udi_reg_context_offset UDI_X86_64_ST4 = - 1"
| "udi_reg_context_offset UDI_X86_64_ST5 = - 1"
| "udi_reg_context_offset UDI_X86_64_ST6 = - 1"
| "udi_reg_context_offset UDI_X86_64_ST7 = - 1"
| "udi_reg_context_offset UDI_X86_64_XMM0 = - 1"
| "udi_reg_context_offset UDI_X86_64_XMM1 = - 1"
| "udi_reg_context_offset UDI_X86_64_XMM2 = - 1"
| "udi_reg_context_offset UDI_X86_64_XMM3 = - 1"
| "udi_reg_context_offset UDI_X86_64_XMM4 = - 1"
| "udi_reg_context_offset UDI_X86_64_XMM5 = - 1"
| "udi_reg_context_offset UDI_X86_64_XMM6 = - 1"
| "udi_reg_context_offset UDI_X86_64_XMM7 = - 1"
| "udi_reg_context_offset UDI_X86_64_XMM8 = - 1"
| "udi_reg_context_offset UDI_X86_64_XMM9 = - 1"
| "udi_reg_context_offset UDI_X86_64_XMM10 = - 1"
| "udi_reg_context_offset UDI_X86_64_XMM11 = - 1"
| "udi_reg_context_offset UDI_X86_64_XMM12 = - 1"
| "udi_reg_context_offset UDI_X86_64_XMM13 = - 1"
| "udi_reg_context_offset UDI_X86_64_XMM14 = - 1"
| "udi_reg_context_offset UDI_X86_64_XMM15 = - 1"
| "udi_reg_context_offset UDI_X86_64_MAX = - 2"

definition get_udi_reg_context_offset :: "nat \<Rightarrow> int" where
  "get_udi_reg_context_offset reg =
     (case enum_nth register_values reg of Some r \<Rightarrow> udi_reg_context_offset r | None \<Rightarrow> - 2)"

text \<open>Reading a floating-point register is not implemented: the body of the function is a comment.\<close>

definition get_fp_register :: "nat \<Rightarrow> ucontext \<Rightarrow> int" where
  "get_fp_register reg c = - 1"

text \<open>The result and the value, when one was stored.\<close>

definition get_register ::
    "env \<Rightarrow> nat \<Rightarrow> ucontext \<Rightarrow> 'z msg_state_scheme \<Rightarrow> (int \<times> u64 option) \<times> 'z msg_state_scheme" where
  "get_register E reg c s =
     (case validate_register E reg s of (result, s) \<Rightarrow>
        if result \<noteq> 0 then ((- 1, None), s)
        else
          let offset = get_udi_reg_context_offset reg;
              val = (if offset \<ge> 0 then Some (gregs c offset) else None);
              offset = (if offset = - 1 \<and> get_fp_register reg c \<noteq> 0 then - 2 else offset)
          in if offset < - 1
             then ((- 1, val), udi_set_errmsg E ''invalid register %d'' [ArgInt (int reg)] s)
             else ((0, val), s))"

definition set_register ::
    "env \<Rightarrow> nat \<Rightarrow> u64 \<Rightarrow> ucontext \<Rightarrow> 'z msg_state_scheme \<Rightarrow> (int \<times> ucontext) \<times> 'z msg_state_scheme" where
  "set_register E reg v c s =
     (case validate_register E reg s of (result, s) \<Rightarrow>
        if result \<noteq> 0 then ((- 1, c), s)
        else
          let offset = get_udi_reg_context_offset reg;
              c = (if offset \<ge> 0 then c\<lparr>gregs := (gregs c)(offset := v)\<rparr> else c)
          in if offset < - 1
             then ((- 1, c), udi_set_errmsg E ''invalid register %d'' [ArgInt (int reg)] s)
             else ((0, c), s))"

section \<open>Lemmas\<close>

lemma register_bounds:
  "register_val UDI_X86_64_MIN = 26" "register_val UDI_X86_64_MAX = 70"
  "register_val UDI_X86_MIN = 0" "register_val UDI_X86_MAX = 25"
  by (simp_all add: register_val_def register_values_def)

lemma validate_register_64:
  "validate_register E reg s =
     (if 26 < reg \<and> reg < 70 then (0, s)
      else (- 1, udi_set_errmsg E ''invalid register %s for architecture %s''
                   [ArgStr (register_str reg), ArgStr ''UDI_ARCH_X86_64''] s))"
  by (auto simp: validate_register_def validate_register_for_def get_architecture_def WORDSIZE_def
      register_bounds arch_str_def arch_val_def arch_values_def enum_nth_def Let_def)

text \<open>The registers of the protocol that the 64-bit context holds, and where.\<close>

definition general_register :: "nat \<Rightarrow> bool" where
  "general_register reg \<longleftrightarrow> 26 < reg \<and> reg < 46"

definition fp_register_number :: "nat \<Rightarrow> bool" where
  "fp_register_number reg \<longleftrightarrow> 45 < reg \<and> reg < 70"

lemma general_register_offset:
  assumes "general_register reg"
  shows "get_udi_reg_context_offset reg = (if reg = 44 then 18 else if reg = 45 then 17 else int reg - 27)"
proof -
  have "reg \<in> set [27..<46]"
    unfolding set_upt using assms by (simp add: general_register_def)
  then show ?thesis
    by (simp add: upt_rec [of _ "46"] get_udi_reg_context_offset_def enum_nth_def register_values_def offset_defs)
      (elim disjE; simp add: offset_defs)
qed

lemma fp_register_offset:
  assumes "fp_register_number reg"
  shows "get_udi_reg_context_offset reg = - 1"
proof -
  have "reg \<in> set [46..<70]"
    unfolding set_upt using assms by (simp add: fp_register_number_def)
  then show ?thesis
    by (simp add: upt_rec [of _ "70"] get_udi_reg_context_offset_def enum_nth_def register_values_def)
      (elim disjE; simp)
qed

lemma general_register_offset_inj:
  assumes "general_register r" and "general_register q"
    and "get_udi_reg_context_offset r = get_udi_reg_context_offset q"
  shows "r = q"
  using assms by (auto simp: general_register_offset general_register_def split: if_splits)

lemma general_register_offset_pos: "general_register r \<Longrightarrow> 0 \<le> get_udi_reg_context_offset r"
  by (auto simp: general_register_offset general_register_def)

lemma get_register_general:
  "general_register r \<Longrightarrow>
     get_register E r c s = ((0, Some (gregs c (get_udi_reg_context_offset r))), s)"
  using general_register_offset_pos [of r]
  by (auto simp: get_register_def validate_register_64 general_register_def Let_def)

lemma set_register_general:
  "general_register r \<Longrightarrow>
     set_register E r v c s = ((0, c\<lparr>gregs := (gregs c)(get_udi_reg_context_offset r := v)\<rparr>), s)"
  using general_register_offset_pos [of r]
  by (auto simp: set_register_def validate_register_64 general_register_def Let_def)

lemma get_register_fp:
  "fp_register_number r \<Longrightarrow>
     get_register E r c s = ((- 1, None), udi_set_errmsg E ''invalid register %d'' [ArgInt (int r)] s)"
  by (auto simp: get_register_def validate_register_64 fp_register_number_def fp_register_offset
      get_fp_register_def Let_def)

lemma set_register_fp: "fp_register_number r \<Longrightarrow> set_register E r v c s = ((0, c), s)"
  by (auto simp: set_register_def validate_register_64 fp_register_number_def fp_register_offset Let_def)

lemma register_other:
  assumes "\<not> general_register r" and "\<not> fp_register_number r"
  shows "fst (get_register E r c s) = (- 1, None)" and "fst (set_register E r v c s) = (- 1, c)"
  using assms
  by (auto simp: get_register_def set_register_def validate_register_64 general_register_def fp_register_number_def)

text \<open>
  The contract of a register file, which the register requests and the stepping code rely on:
  a register of the file can always be read and written, a write is read back, and it leaves
  the other registers alone.
\<close>

locale register_file =
  fixes get_reg :: "nat \<Rightarrow> 'c \<Rightarrow> 's \<Rightarrow> (int \<times> u64 option) \<times> 's"
    and set_reg :: "nat \<Rightarrow> u64 \<Rightarrow> 'c \<Rightarrow> 's \<Rightarrow> (int \<times> 'c) \<times> 's"
    and in_file :: "nat \<Rightarrow> bool"
  assumes get_total: "in_file r \<Longrightarrow> \<exists>v. \<forall>s. get_reg r c s = ((0, Some v), s)"
    and set_total: "in_file r \<Longrightarrow> \<exists>c'. \<forall>s. set_reg r v c s = ((0, c'), s)"
    and get_set_same: "in_file r \<Longrightarrow> set_reg r v c s = ((0, c'), s') \<Longrightarrow> get_reg r c' t = ((0, Some v), t)"
    and get_set_other: "in_file r \<Longrightarrow> in_file q \<Longrightarrow> r \<noteq> q \<Longrightarrow> set_reg r v c s = ((0, c'), s') \<Longrightarrow>
      get_reg q c' t = get_reg q c t"
begin

text \<open>Writing back what was read leaves every register as it was.\<close>

lemma write_back:
  assumes "in_file r" and "in_file q" and "get_reg r c s = ((0, Some v), s1)" and "set_reg r v c s = ((0, c'), s2)"
  shows "get_reg q c' t = get_reg q c t"
proof (cases "q = r")
  case True
  obtain w where w: "\<And>s. get_reg r c s = ((0, Some w), s)" using get_total [OF assms(1)] by blast
  then have "w = v" using assms(3) by simp
  then show ?thesis using w get_set_same [OF assms(1,4)] True by simp
qed (use get_set_other [OF assms(1,2) _ assms(4)] in blast)

text \<open>The last of two writes counts, and writes of different registers commute.\<close>

lemma set_set_other:
  assumes "in_file r" "in_file q" "in_file x" "r \<noteq> q"
    and "set_reg r v c s = ((0, c1), s1)" "set_reg q w c1 s1 = ((0, c2), s2)"
    and "set_reg q w c t = ((0, d1), t1)" "set_reg r v d1 t1 = ((0, d2), t2)"
  shows "get_reg x c2 u = get_reg x d2 u"
proof -
  consider "x = q" | "x = r" | "x \<noteq> q" "x \<noteq> r" by blast
  then show ?thesis
  proof cases
    case 1
    then show ?thesis
      using get_set_same [OF assms(2,6)] get_set_other [OF assms(1,2,4,8)] get_set_same [OF assms(2,7)] by simp
  next
    case 2
    then show ?thesis
      using get_set_same [OF assms(1,8)] get_set_other [OF assms(2,1) _ assms(6)] assms(4)
        get_set_same [OF assms(1,5)] by simp
  next
    case 3
    then show ?thesis
      using get_set_other [OF assms(2,3) _ assms(6)] get_set_other [OF assms(1,3) _ assms(5)]
        get_set_other [OF assms(1,3) _ assms(8)] get_set_other [OF assms(2,3) _ assms(7)] by metis
  qed
qed

end

interpretation regs: register_file "get_register E" "set_register E" general_register for E
  by unfold_locales
    (auto simp: get_register_general set_register_general dest: general_register_offset_inj)

text \<open>
  The contract of the context of a stopped thread, which the decoding of a trap relies on: the program counter of a live
  context can be read and set, and after a trap the address of the trap instruction is one below it, which is where
  rewinding puts it.
\<close>

locale stopped_context =
  fixes live :: "'s \<Rightarrow> bool"
    and pc :: "'s \<Rightarrow> u64 run"
    and put_pc :: "u64 \<Rightarrow> 's \<Rightarrow> 's run"
    and rewind :: "'s \<Rightarrow> 's run"
    and trap_address :: "'s \<Rightarrow> u64 run"
  assumes pc_total: "live s \<Longrightarrow> \<exists>v. pc s = Ret v"
    and put_pc: "live s \<Longrightarrow> \<exists>s'. put_pc v s = Ret s' \<and> live s' \<and> pc s' = Ret v"
    and rewind: "live s \<Longrightarrow> pc s = Ret v \<Longrightarrow> \<exists>s'. rewind s = Ret s' \<and> live s' \<and> pc s' = Ret (v - 1)"
    and trap_address: "live s \<Longrightarrow> pc s = Ret v \<Longrightarrow> trap_address s = Ret (v - 1)"
begin

text \<open>A thread that is rewound executes the instruction at the address of the trap again.\<close>

lemma rewound_to_trap:
  assumes "live s"
  shows "\<exists>a s'. trap_address s = Ret a \<and> rewind s = Ret s' \<and> live s' \<and> pc s' = Ret a"
  using pc_total [OF assms] rewind [OF assms] trap_address [OF assms] by fastforce

text \<open>The trap behind an instruction is found at that instruction, wherever the program counter was before.\<close>

lemma trap_behind:
  assumes "live s"
  shows "\<exists>s' s''. put_pc (a + 1) s = Ret s' \<and> trap_address s' = Ret a \<and> rewind s' = Ret s'' \<and> pc s'' = Ret a"
proof -
  obtain s' where s': "put_pc (a + 1) s = Ret s'" "live s'" "pc s' = Ret (a + 1)"
    using put_pc [OF assms] by blast
  then show ?thesis using rewind [OF s'(2,3)] trap_address [OF s'(2,3)] by auto
qed

end

interpretation linux_context: stopped_context
    "\<lambda>_. True" "\<lambda>c. Ret (get_pc c)" "\<lambda>v c. Ret (set_pc c v)" "\<lambda>c. Ret (rewind_pc c)" "\<lambda>c. Ret (get_trap_address c)"
  by unfold_locales (auto simp: get_pc_def set_pc_def rewind_pc_def get_trap_address_def WORDSIZE_def)

section \<open>Properties\<close>

text \<open>
  C32. On the general registers the protocol's register access is a register file: a write
  succeeds, is read back, and changes no other general register; reading and writing need no
  message. A floating-point register cannot be read, and a write to one claims success and
  changes nothing. Every other number is refused by both.
\<close>

theorem register_access:
  "(general_register r \<and> general_register q \<longrightarrow>
      (\<exists>c'. set_register E r v c s = ((0, c'), s) \<and>
         get_register E q c' s = (if q = r then ((0, Some v), s) else get_register E q c s))) \<and>
   (fp_register_number r \<longrightarrow>
      fst (fst (get_register E r c s)) = - 1 \<and> set_register E r v c s = ((0, c), s)) \<and>
   (\<not> general_register r \<and> \<not> fp_register_number r \<longrightarrow>
      fst (get_register E r c s) = (- 1, None) \<and> fst (set_register E r v c s) = (- 1, c))"
proof -
  have "\<exists>c'. set_register E r v c s = ((0, c'), s) \<and>
         get_register E q c' s = (if q = r then ((0, Some v), s) else get_register E q c s)"
    if r: "general_register r" and q: "general_register q"
  proof -
    obtain c' where c': "set_register E r v c s = ((0, c'), s)"
      using regs.set_total [OF r] by blast
    then show ?thesis
      using regs.get_set_same [OF r c'] regs.get_set_other [OF r q _ c'] by auto
  qed
  then show ?thesis
    using get_register_fp [of r E c s] set_register_fp [of r E v c s] register_other(1) [of r E c s]
      register_other(2) [of r E v c s] by simp
qed

theorem register_access_witness:
  "\<exists>c'. set_register sample_env 43 7 \<lparr>gregs = (\<lambda>_. 0), uc_sigmask = {}\<rparr> sample_mem_state = ((0, c'), sample_mem_state) \<and>
     get_register sample_env 43 c' sample_mem_state = ((0, Some 7), sample_mem_state)"
  using register_access [of 43 43 sample_env 7 "\<lparr>gregs = (\<lambda>_. 0), uc_sigmask = {}\<rparr>" sample_mem_state]
  by (simp add: general_register_def)

end
