(* ===== verification/X86.thy ===== *)
theory X86
  imports Linux_X86
begin

text \<open>
  The control-flow analysis of \<^verbatim>\<open>udirt-x86.c\<close> (lines 83 to 456): which instruction is
  executed next, computed from the decoded instruction, the flags and the registers. It
  places the breakpoint that steps over a user breakpoint.
\<close>

section \<open>Definitions\<close>

subsection \<open>Targets\<close>

text \<open>The raw bits of an operand, read as a signed value of the given size.\<close>

definition compute_relative_location :: "ud_operand \<Rightarrow> u64 \<Rightarrow> u64" where
  "compute_relative_location op pc =
     (if op_size op = 8 then pc + scast (ucast (op_lval op) :: u8)
      else if op_size op = 16 then pc + scast (ucast (op_lval op) :: u16)
      else if op_size op = 32 then pc + scast (ucast (op_lval op) :: u32)
      else if op_size op = 64 then pc + op_lval op
      else pc)"

definition CF :: u64 where "CF = 0x1"

definition PF :: u64 where "PF = 0x4"

definition ZF :: u64 where "ZF = 0x40"

definition SF :: u64 where "SF = 0x80"

definition OF :: u64 where "OF = 0x800"

text \<open>The C truth value of a masked flags word, and its comparison.\<close>

definition ctf_condition_met :: "ud_mnemonic \<Rightarrow> ucontext \<Rightarrow> bool run" where
  "ctf_condition_met mnemonic c =
     (let flags = get_flags c in
      run_bind (if WORDSIZE = 64 then get_register_ud_type UD_R_RCX c else get_register_ud_type UD_R_ECX c) (\<lambda>cx.
      case mnemonic of
        UD_Ija \<Rightarrow> Ret (CF AND flags = 0 \<and> ZF AND flags = 0)
      | UD_Ijae \<Rightarrow> Ret (CF AND flags = 0)
      | UD_Ijb \<Rightarrow> Ret (CF AND flags \<noteq> 0)
      | UD_Ijbe \<Rightarrow> Ret (CF AND flags \<noteq> 0 \<or> ZF AND flags \<noteq> 0)
      | UD_Ijcxz \<Rightarrow> run_bind (get_register_ud_type UD_R_CX c) (\<lambda>v. Ret (v = 0))
      | UD_Ijecxz \<Rightarrow> run_bind (get_register_ud_type UD_R_ECX c) (\<lambda>v. Ret (v = 0))
      | UD_Ijrcxz \<Rightarrow> run_bind (get_register_ud_type UD_R_RCX c) (\<lambda>v. Ret (v = 0))
      | UD_Ijg \<Rightarrow> Ret (ZF AND flags = 0 \<and> SF AND flags = OF AND flags)
      | UD_Ijge \<Rightarrow> Ret (SF AND flags = OF AND flags)
      | UD_Ijl \<Rightarrow> Ret (SF AND flags \<noteq> OF AND flags)
      | UD_Ijle \<Rightarrow> Ret (ZF AND flags \<noteq> 0 \<or> SF AND flags \<noteq> OF AND flags)
      | UD_Ijno \<Rightarrow> Ret (OF AND flags = 0)
      | UD_Ijnp \<Rightarrow> Ret (PF AND flags = 0)
      | UD_Ijns \<Rightarrow> Ret (SF AND flags = 0)
      | UD_Ijnz \<Rightarrow> Ret (ZF AND flags = 0)
      | UD_Ijo \<Rightarrow> Ret (OF AND flags \<noteq> 0)
      | UD_Ijp \<Rightarrow> Ret (PF AND flags \<noteq> 0)
      | UD_Ijs \<Rightarrow> Ret (SF AND flags \<noteq> 0)
      | UD_Ijz \<Rightarrow> Ret (ZF AND flags \<noteq> 0)
      | UD_Iloopne \<Rightarrow> Ret (ZF AND flags = 0 \<and> cx - 1 \<noteq> 0)
      | UD_Iloope \<Rightarrow> Ret (ZF AND flags \<noteq> 0 \<and> cx - 1 \<noteq> 0)
      | UD_Iloop \<Rightarrow> Ret (cx - 1 \<noteq> 0)
      | _ \<Rightarrow> Ret False))"

definition compute_target :: "ud_operand \<Rightarrow> u64 \<Rightarrow> ucontext \<Rightarrow> u64 run" where
  "compute_target op effective_pc c =
     (case op_type op of
        UD_OP_REG \<Rightarrow> get_register_ud_type (op_base op) c
      | UD_OP_MEM \<Rightarrow>
          run_bind (if op_base op \<noteq> UD_NONE then get_register_ud_type (op_base op) c else Ret 0) (\<lambda>base.
          run_bind (if op_index op \<noteq> UD_NONE then get_register_ud_type (op_index op) c else Ret 0) (\<lambda>index.
            let displacement =
                  (if op_offset op = 8 then ucast (ucast (op_lval op) :: u8)
                   else if op_offset op = 16 then ucast (ucast (op_lval op) :: u16)
                   else if op_offset op = 32 then ucast (ucast (op_lval op) :: u32)
                   else if op_offset op = 64 then op_lval op
                   else 0)
            in Ret (base + index * ucast (op_scale op) + displacement)))
      | UD_OP_JIMM \<Rightarrow> Ret (compute_relative_location op effective_pc)
      | UD_OP_other \<Rightarrow> Ret 0)"

subsection \<open>The successor\<close>

definition conditional_jumps :: "ud_mnemonic list" where
  "conditional_jumps =
     [UD_Ijo, UD_Ijno, UD_Ijb, UD_Ijae, UD_Ijz, UD_Ijnz, UD_Ijbe, UD_Ija, UD_Ijs, UD_Ijns, UD_Ijp,
      UD_Ijnp, UD_Ijl, UD_Ijge, UD_Ijle, UD_Ijg, UD_Ijcxz, UD_Ijecxz, UD_Ijrcxz, UD_Iloopne,
      UD_Iloope, UD_Iloop]"

definition successor_or_error :: "env \<Rightarrow> u64 \<Rightarrow> u64 \<Rightarrow> 'z mem_state_scheme \<Rightarrow> u64 \<times> 'z mem_state_scheme" where
  "successor_or_error E pc successor s =
     (successor,
      if successor = 0 then udi_set_errmsg E ''failed to determine ctf successor at %a'' [ArgU64 pc] s else s)"

definition get_ctf_successor ::
    "env \<Rightarrow> u64 \<Rightarrow> ucontext \<Rightarrow> 'z mem_state_scheme \<Rightarrow> (u64 \<times> 'z mem_state_scheme) run" where
  "get_ctf_successor E pc c s =
     (case env_disassemble E (mem s) pc of
        None \<Rightarrow> Ret (0, udi_set_errmsg E ''disassembling instruction at %a failed'' [ArgU64 pc] s)
      | Some insn \<Rightarrow>
          let first_op = ud_operand0 insn;
              next_insn = pc + of_nat (ud_insn_len insn)
          in
          if ud_mnemonic insn \<in> {UD_Icall, UD_Ijmp} then
            run_bind (compute_target first_op (ud_pc insn) c) (\<lambda>t. Ret (successor_or_error E pc t s))
          else if ud_mnemonic insn \<in> set conditional_jumps then
            run_bind (ctf_condition_met (ud_mnemonic insn) c) (\<lambda>met.
              if met
              then run_bind (compute_target first_op (ud_pc insn) c) (\<lambda>t. Ret (successor_or_error E pc t s))
              else Ret (successor_or_error E pc next_insn s))
          else if ud_mnemonic insn = UD_Iret then
            run_bind (if WORDSIZE = 64 then get_register_ud_type UD_R_RSP c else get_register_ud_type UD_R_ESP c)
              (\<lambda>stack_ptr.
                run_bind (read_memory E stack_ptr (WORDSIZE div 8) s) (\<lambda>(r, out, s).
                  if r \<noteq> 0 then Ret (0, s) else Ret (le_u64 out, s)))
          else Ret (successor_or_error E pc next_insn s))"

subsection \<open>Kinds of registers\<close>

text \<open>The cases of the two switches.\<close>

primrec gp_register :: "udi_register_e \<Rightarrow> bool" where
  "gp_register UDI_X86_MIN \<longleftrightarrow> False"
| "gp_register UDI_X86_GS \<longleftrightarrow> True"
| "gp_register UDI_X86_FS \<longleftrightarrow> True"
| "gp_register UDI_X86_ES \<longleftrightarrow> True"
| "gp_register UDI_X86_DS \<longleftrightarrow> True"
| "gp_register UDI_X86_EDI \<longleftrightarrow> True"
| "gp_register UDI_X86_ESI \<longleftrightarrow> True"
| "gp_register UDI_X86_EBP \<longleftrightarrow> True"
| "gp_register UDI_X86_ESP \<longleftrightarrow> True"
| "gp_register UDI_X86_EBX \<longleftrightarrow> True"
| "gp_register UDI_X86_EDX \<longleftrightarrow> True"
| "gp_register UDI_X86_ECX \<longleftrightarrow> True"
| "gp_register UDI_X86_EAX \<longleftrightarrow> True"
| "gp_register UDI_X86_CS \<longleftrightarrow> True"
| "gp_register UDI_X86_SS \<longleftrightarrow> True"
| "gp_register UDI_X86_EIP \<longleftrightarrow> True"
| "gp_register UDI_X86_FLAGS \<longleftrightarrow> True"
| "gp_register UDI_X86_ST0 \<longleftrightarrow> False"
| "gp_register UDI_X86_ST1 \<longleftrightarrow> False"
| "gp_register UDI_X86_ST2 \<longleftrightarrow> False"
| "gp_register UDI_X86_ST3 \<longleftrightarrow> False"
| "gp_register UDI_X86_ST4 \<longleftrightarrow> False"
| "gp_register UDI_X86_ST5 \<longleftrightarrow> False"
| "gp_register UDI_X86_ST6 \<longleftrightarrow> False"
| "gp_register UDI_X86_ST7 \<longleftrightarrow> False"
| "gp_register UDI_X86_MAX \<longleftrightarrow> False"
| "gp_register UDI_X86_64_MIN \<longleftrightarrow> False"
| "gp_register UDI_X86_64_R8 \<longleftrightarrow> True"
| "gp_register UDI_X86_64_R9 \<longleftrightarrow> True"
| "gp_register UDI_X86_64_R10 \<longleftrightarrow> True"
| "gp_register UDI_X86_64_R11 \<longleftrightarrow> True"
| "gp_register UDI_X86_64_R12 \<longleftrightarrow> True"
| "gp_register UDI_X86_64_R13 \<longleftrightarrow> True"
| "gp_register UDI_X86_64_R14 \<longleftrightarrow> True"
| "gp_register UDI_X86_64_R15 \<longleftrightarrow> True"
| "gp_register UDI_X86_64_RDI \<longleftrightarrow> True"
| "gp_register UDI_X86_64_RSI \<longleftrightarrow> True"
| "gp_register UDI_X86_64_RBP \<longleftrightarrow> True"
| "gp_register UDI_X86_64_RBX \<longleftrightarrow> True"
| "gp_register UDI_X86_64_RDX \<longleftrightarrow> True"
| "gp_register UDI_X86_64_RAX \<longleftrightarrow> True"
| "gp_register UDI_X86_64_RCX \<longleftrightarrow> True"
| "gp_register UDI_X86_64_RSP \<longleftrightarrow> True"
| "gp_register UDI_X86_64_RIP \<longleftrightarrow> True"
| "gp_register UDI_X86_64_CSGSFS \<longleftrightarrow> True"
| "gp_register UDI_X86_64_FLAGS \<longleftrightarrow> True"
| "gp_register UDI_X86_64_ST0 \<longleftrightarrow> False"
| "gp_register UDI_X86_64_ST1 \<longleftrightarrow> False"
| "gp_register UDI_X86_64_ST2 \<longleftrightarrow> False"
| "gp_register UDI_X86_64_ST3 \<longleftrightarrow> False"
| "gp_register UDI_X86_64_ST4 \<longleftrightarrow> False"
| "gp_register UDI_X86_64_ST5 \<longleftrightarrow> False"
| "gp_register UDI_X86_64_ST6 \<longleftrightarrow> False"
| "gp_register UDI_X86_64_ST7 \<longleftrightarrow> False"
| "gp_register UDI_X86_64_XMM0 \<longleftrightarrow> False"
| "gp_register UDI_X86_64_XMM1 \<longleftrightarrow> False"
| "gp_register UDI_X86_64_XMM2 \<longleftrightarrow> False"
| "gp_register UDI_X86_64_XMM3 \<longleftrightarrow> False"
| "gp_register UDI_X86_64_XMM4 \<longleftrightarrow> False"
| "gp_register UDI_X86_64_XMM5 \<longleftrightarrow> False"
| "gp_register UDI_X86_64_XMM6 \<longleftrightarrow> False"
| "gp_register UDI_X86_64_XMM7 \<longleftrightarrow> False"
| "gp_register UDI_X86_64_XMM8 \<longleftrightarrow> False"
| "gp_register UDI_X86_64_XMM9 \<longleftrightarrow> False"
| "gp_register UDI_X86_64_XMM10 \<longleftrightarrow> False"
| "gp_register UDI_X86_64_XMM11 \<longleftrightarrow> False"
| "gp_register UDI_X86_64_XMM12 \<longleftrightarrow> False"
| "gp_register UDI_X86_64_XMM13 \<longleftrightarrow> False"
| "gp_register UDI_X86_64_XMM14 \<longleftrightarrow> False"
| "gp_register UDI_X86_64_XMM15 \<longleftrightarrow> False"
| "gp_register UDI_X86_64_MAX \<longleftrightarrow> False"

primrec fp_register :: "udi_register_e \<Rightarrow> bool" where
  "fp_register UDI_X86_MIN \<longleftrightarrow> False"
| "fp_register UDI_X86_GS \<longleftrightarrow> False"
| "fp_register UDI_X86_FS \<longleftrightarrow> False"
| "fp_register UDI_X86_ES \<longleftrightarrow> False"
| "fp_register UDI_X86_DS \<longleftrightarrow> False"
| "fp_register UDI_X86_EDI \<longleftrightarrow> False"
| "fp_register UDI_X86_ESI \<longleftrightarrow> False"
| "fp_register UDI_X86_EBP \<longleftrightarrow> False"
| "fp_register UDI_X86_ESP \<longleftrightarrow> False"
| "fp_register UDI_X86_EBX \<longleftrightarrow> False"
| "fp_register UDI_X86_EDX \<longleftrightarrow> False"
| "fp_register UDI_X86_ECX \<longleftrightarrow> False"
| "fp_register UDI_X86_EAX \<longleftrightarrow> False"
| "fp_register UDI_X86_CS \<longleftrightarrow> False"
| "fp_register UDI_X86_SS \<longleftrightarrow> False"
| "fp_register UDI_X86_EIP \<longleftrightarrow> False"
| "fp_register UDI_X86_FLAGS \<longleftrightarrow> False"
| "fp_register UDI_X86_ST0 \<longleftrightarrow> True"
| "fp_register UDI_X86_ST1 \<longleftrightarrow> True"
| "fp_register UDI_X86_ST2 \<longleftrightarrow> True"
| "fp_register UDI_X86_ST3 \<longleftrightarrow> True"
| "fp_register UDI_X86_ST4 \<longleftrightarrow> True"
| "fp_register UDI_X86_ST5 \<longleftrightarrow> True"
| "fp_register UDI_X86_ST6 \<longleftrightarrow> True"
| "fp_register UDI_X86_ST7 \<longleftrightarrow> True"
| "fp_register UDI_X86_MAX \<longleftrightarrow> False"
| "fp_register UDI_X86_64_MIN \<longleftrightarrow> False"
| "fp_register UDI_X86_64_R8 \<longleftrightarrow> False"
| "fp_register UDI_X86_64_R9 \<longleftrightarrow> False"
| "fp_register UDI_X86_64_R10 \<longleftrightarrow> False"
| "fp_register UDI_X86_64_R11 \<longleftrightarrow> False"
| "fp_register UDI_X86_64_R12 \<longleftrightarrow> False"
| "fp_register UDI_X86_64_R13 \<longleftrightarrow> False"
| "fp_register UDI_X86_64_R14 \<longleftrightarrow> False"
| "fp_register UDI_X86_64_R15 \<longleftrightarrow> False"
| "fp_register UDI_X86_64_RDI \<longleftrightarrow> False"
| "fp_register UDI_X86_64_RSI \<longleftrightarrow> False"
| "fp_register UDI_X86_64_RBP \<longleftrightarrow> False"
| "fp_register UDI_X86_64_RBX \<longleftrightarrow> False"
| "fp_register UDI_X86_64_RDX \<longleftrightarrow> False"
| "fp_register UDI_X86_64_RAX \<longleftrightarrow> False"
| "fp_register UDI_X86_64_RCX \<longleftrightarrow> False"
| "fp_register UDI_X86_64_RSP \<longleftrightarrow> False"
| "fp_register UDI_X86_64_RIP \<longleftrightarrow> False"
| "fp_register UDI_X86_64_CSGSFS \<longleftrightarrow> False"
| "fp_register UDI_X86_64_FLAGS \<longleftrightarrow> False"
| "fp_register UDI_X86_64_ST0 \<longleftrightarrow> True"
| "fp_register UDI_X86_64_ST1 \<longleftrightarrow> True"
| "fp_register UDI_X86_64_ST2 \<longleftrightarrow> True"
| "fp_register UDI_X86_64_ST3 \<longleftrightarrow> True"
| "fp_register UDI_X86_64_ST4 \<longleftrightarrow> True"
| "fp_register UDI_X86_64_ST5 \<longleftrightarrow> True"
| "fp_register UDI_X86_64_ST6 \<longleftrightarrow> True"
| "fp_register UDI_X86_64_ST7 \<longleftrightarrow> True"
| "fp_register UDI_X86_64_XMM0 \<longleftrightarrow> True"
| "fp_register UDI_X86_64_XMM1 \<longleftrightarrow> True"
| "fp_register UDI_X86_64_XMM2 \<longleftrightarrow> True"
| "fp_register UDI_X86_64_XMM3 \<longleftrightarrow> True"
| "fp_register UDI_X86_64_XMM4 \<longleftrightarrow> True"
| "fp_register UDI_X86_64_XMM5 \<longleftrightarrow> True"
| "fp_register UDI_X86_64_XMM6 \<longleftrightarrow> True"
| "fp_register UDI_X86_64_XMM7 \<longleftrightarrow> True"
| "fp_register UDI_X86_64_XMM8 \<longleftrightarrow> True"
| "fp_register UDI_X86_64_XMM9 \<longleftrightarrow> True"
| "fp_register UDI_X86_64_XMM10 \<longleftrightarrow> True"
| "fp_register UDI_X86_64_XMM11 \<longleftrightarrow> True"
| "fp_register UDI_X86_64_XMM12 \<longleftrightarrow> True"
| "fp_register UDI_X86_64_XMM13 \<longleftrightarrow> True"
| "fp_register UDI_X86_64_XMM14 \<longleftrightarrow> True"
| "fp_register UDI_X86_64_XMM15 \<longleftrightarrow> True"
| "fp_register UDI_X86_64_MAX \<longleftrightarrow> False"

definition is_gp_register :: "nat \<Rightarrow> bool" where
  "is_gp_register reg = (case enum_nth register_values reg of Some r \<Rightarrow> gp_register r | None \<Rightarrow> False)"

definition is_fp_register :: "nat \<Rightarrow> bool" where
  "is_fp_register reg = (case enum_nth register_values reg of Some r \<Rightarrow> fp_register r | None \<Rightarrow> False)"

section \<open>The architecture\<close>

text \<open>
  What the processor does, from the instruction set reference, and where the system saves its registers, from the header of the
  C library (\<^verbatim>\<open>sys/ucontext.h\<close>). Nothing here refers to the code: the condition of each jump on the
  flag bits and the count register, the registers by their names, and the address of the next instruction.
\<close>

primrec intel_condition :: "ud_mnemonic \<Rightarrow> u64 \<Rightarrow> u64 \<Rightarrow> bool" where
  "intel_condition UD_Ijo flags rcx \<longleftrightarrow> bit flags 11"
| "intel_condition UD_Ijno flags rcx \<longleftrightarrow> \<not> bit flags 11"
| "intel_condition UD_Ijb flags rcx \<longleftrightarrow> bit flags 0"
| "intel_condition UD_Ijae flags rcx \<longleftrightarrow> \<not> bit flags 0"
| "intel_condition UD_Ijz flags rcx \<longleftrightarrow> bit flags 6"
| "intel_condition UD_Ijnz flags rcx \<longleftrightarrow> \<not> bit flags 6"
| "intel_condition UD_Ijbe flags rcx \<longleftrightarrow> bit flags 0 \<or> bit flags 6"
| "intel_condition UD_Ija flags rcx \<longleftrightarrow> \<not> bit flags 0 \<and> \<not> bit flags 6"
| "intel_condition UD_Ijs flags rcx \<longleftrightarrow> bit flags 7"
| "intel_condition UD_Ijns flags rcx \<longleftrightarrow> \<not> bit flags 7"
| "intel_condition UD_Ijp flags rcx \<longleftrightarrow> bit flags 2"
| "intel_condition UD_Ijnp flags rcx \<longleftrightarrow> \<not> bit flags 2"
| "intel_condition UD_Ijl flags rcx \<longleftrightarrow> bit flags 7 \<noteq> bit flags 11"
| "intel_condition UD_Ijge flags rcx \<longleftrightarrow> bit flags 7 = bit flags 11"
| "intel_condition UD_Ijle flags rcx \<longleftrightarrow> bit flags 6 \<or> bit flags 7 \<noteq> bit flags 11"
| "intel_condition UD_Ijg flags rcx \<longleftrightarrow> \<not> bit flags 6 \<and> bit flags 7 = bit flags 11"
| "intel_condition UD_Ijcxz flags rcx \<longleftrightarrow> (ucast rcx :: u16) = 0"
| "intel_condition UD_Ijecxz flags rcx \<longleftrightarrow> (ucast rcx :: u32) = 0"
| "intel_condition UD_Ijrcxz flags rcx \<longleftrightarrow> rcx = 0"
| "intel_condition UD_Iloopne flags rcx \<longleftrightarrow> \<not> bit flags 6 \<and> rcx \<noteq> 1"
| "intel_condition UD_Iloope flags rcx \<longleftrightarrow> bit flags 6 \<and> rcx \<noteq> 1"
| "intel_condition UD_Iloop flags rcx \<longleftrightarrow> rcx \<noteq> 1"
| "intel_condition UD_Icall flags rcx \<longleftrightarrow> True"
| "intel_condition UD_Ijmp flags rcx \<longleftrightarrow> True"
| "intel_condition UD_Iret flags rcx \<longleftrightarrow> True"
| "intel_condition UD_Ifar flags rcx \<longleftrightarrow> True"
| "intel_condition UD_Iother flags rcx \<longleftrightarrow> False"

text \<open>The saved registers with a role in a transfer: RCX, RSP and the flags.\<close>

abbreviation rcx_of :: "ucontext \<Rightarrow> u64" where
  "rcx_of c \<equiv> gregs c 14"

abbreviation rsp_of :: "ucontext \<Rightarrow> u64" where
  "rsp_of c \<equiv> gregs c 15"

abbreviation rflags_of :: "ucontext \<Rightarrow> u64" where
  "rflags_of c \<equiv> gregs c 17"

text \<open>The 64-bit registers that an operand can name, with their positions in the saved context.\<close>

definition register_index :: "ud_type_t \<Rightarrow> int option" where
  "register_index = map_of
     [(UD_R_RAX, 13), (UD_R_RCX, 14), (UD_R_RDX, 12), (UD_R_RBX, 11),
      (UD_R_RSP, 15), (UD_R_RBP, 10), (UD_R_RSI, 9), (UD_R_RDI, 8),
      (UD_R_R8, 0), (UD_R_R9, 1), (UD_R_R10, 2), (UD_R_R11, 3),
      (UD_R_R12, 4), (UD_R_R13, 5), (UD_R_R14, 6), (UD_R_R15, 7)]"

definition load_u64 :: "(u64 \<Rightarrow> u8) \<Rightarrow> u64 \<Rightarrow> u64" where
  "load_u64 m a = le_u64 (read_bytes m a 8)"

text \<open>The low \<open>n\<close> bits of a word as a signed number.\<close>

definition sign_extended :: "nat \<Rightarrow> u64 \<Rightarrow> u64" where
  "sign_extended n w = word_of_int (signed_take_bit (n - 1) (uint w))"

definition reg_or_zero :: "ud_type_t \<Rightarrow> u64 \<Rightarrow> ucontext \<Rightarrow> u64" where
  "reg_or_zero r next_insn c =
     (if r = UD_R_RIP then next_insn else case register_index r of Some i \<Rightarrow> gregs c i | None \<Rightarrow> 0)"

text \<open>The target of a transfer: relative to the next instruction, in a register, or loaded from memory.\<close>

definition x86_target :: "ud_operand \<Rightarrow> u64 \<Rightarrow> ucontext \<Rightarrow> (u64 \<Rightarrow> u8) \<Rightarrow> u64" where
  "x86_target op next_insn c m =
     (case op_type op of
        UD_OP_JIMM \<Rightarrow> next_insn + sign_extended (op_size op) (op_lval op)
      | UD_OP_REG \<Rightarrow> reg_or_zero (op_base op) next_insn c
      | UD_OP_MEM \<Rightarrow> load_u64 m (reg_or_zero (op_base op) next_insn c + reg_or_zero (op_index op) next_insn c * ucast (op_scale op)
                                   + (if op_offset op = 0 then 0 else sign_extended (op_offset op) (op_lval op)))
      | UD_OP_other \<Rightarrow> 0)"

text \<open>The instructions that transfer control to the target in their operand, some on a condition.\<close>

primrec is_transfer :: "ud_mnemonic \<Rightarrow> bool" where
  "is_transfer UD_Icall \<longleftrightarrow> True"
| "is_transfer UD_Ijmp \<longleftrightarrow> True"
| "is_transfer UD_Ijo \<longleftrightarrow> True"
| "is_transfer UD_Ijno \<longleftrightarrow> True"
| "is_transfer UD_Ijb \<longleftrightarrow> True"
| "is_transfer UD_Ijae \<longleftrightarrow> True"
| "is_transfer UD_Ijz \<longleftrightarrow> True"
| "is_transfer UD_Ijnz \<longleftrightarrow> True"
| "is_transfer UD_Ijbe \<longleftrightarrow> True"
| "is_transfer UD_Ija \<longleftrightarrow> True"
| "is_transfer UD_Ijs \<longleftrightarrow> True"
| "is_transfer UD_Ijns \<longleftrightarrow> True"
| "is_transfer UD_Ijp \<longleftrightarrow> True"
| "is_transfer UD_Ijnp \<longleftrightarrow> True"
| "is_transfer UD_Ijl \<longleftrightarrow> True"
| "is_transfer UD_Ijge \<longleftrightarrow> True"
| "is_transfer UD_Ijle \<longleftrightarrow> True"
| "is_transfer UD_Ijg \<longleftrightarrow> True"
| "is_transfer UD_Ijcxz \<longleftrightarrow> True"
| "is_transfer UD_Ijecxz \<longleftrightarrow> True"
| "is_transfer UD_Ijrcxz \<longleftrightarrow> True"
| "is_transfer UD_Iloopne \<longleftrightarrow> True"
| "is_transfer UD_Iloope \<longleftrightarrow> True"
| "is_transfer UD_Iloop \<longleftrightarrow> True"
| "is_transfer UD_Iret \<longleftrightarrow> False"
| "is_transfer UD_Ifar \<longleftrightarrow> False"
| "is_transfer UD_Iother \<longleftrightarrow> False"

definition x86_next :: "ud_insn \<Rightarrow> u64 \<Rightarrow> ucontext \<Rightarrow> (u64 \<Rightarrow> u8) \<Rightarrow> u64" where
  "x86_next insn pc c m =
     (let next_insn = pc + of_nat (ud_insn_len insn) in
      if ud_mnemonic insn = UD_Iret then load_u64 m (rsp_of c)
      else if is_transfer (ud_mnemonic insn) \<and> intel_condition (ud_mnemonic insn) (rflags_of c) (rcx_of c)
      then x86_target (ud_operand0 insn) next_insn c m
      else next_insn)"

section \<open>Lemmas\<close>

lemma flag_bits:
  "CF AND f = 0 \<longleftrightarrow> \<not> bit f 0" "PF AND f = 0 \<longleftrightarrow> \<not> bit f 2" "ZF AND f = 0 \<longleftrightarrow> \<not> bit f 6"
  "SF AND f = 0 \<longleftrightarrow> \<not> bit f 7" "OF AND f = 0 \<longleftrightarrow> \<not> bit f 11"
proof -
  have m: "CF = 2 ^ 0" "PF = 2 ^ 2" "ZF = 2 ^ 6" "SF = 2 ^ 7" "OF = 2 ^ 11"
    by (simp_all add: CF_def PF_def ZF_def SF_def OF_def)
  show "CF AND f = 0 \<longleftrightarrow> \<not> bit f 0" "PF AND f = 0 \<longleftrightarrow> \<not> bit f 2" "ZF AND f = 0 \<longleftrightarrow> \<not> bit f 6"
    "SF AND f = 0 \<longleftrightarrow> \<not> bit f 7" "OF AND f = 0 \<longleftrightarrow> \<not> bit f 11"
    unfolding m by (simp_all only: and_exp_eq_0_iff_not_bit and.commute [of "2 ^ _"])
qed

text \<open>The comparison of the two masked words is not the comparison of the two flags.\<close>

lemma sign_overflow_compare: "SF AND f = OF AND f \<longleftrightarrow> \<not> bit f 7 \<and> \<not> bit f 11"
proof
  assume eq: "SF AND f = OF AND f"
  have "bit (SF AND f) 7 = bit f 7" "bit (OF AND f) 7 = False"
    "bit (SF AND f) 11 = False" "bit (OF AND f) 11 = bit f 11"
    by (simp_all add: bit_and_iff SF_def OF_def)
  then show "\<not> bit f 7 \<and> \<not> bit f 11" using eq by metis
next
  assume "\<not> bit f 7 \<and> \<not> bit f 11"
  then show "SF AND f = OF AND f" using flag_bits(4,5) [of f] by simp
qed

lemma get_rcx: "get_register_ud_type UD_R_RCX c = Ret (rcx_of c)" "get_register_ud_type UD_R_ECX c = Ret (rcx_of c)"
  "get_register_ud_type UD_R_CX c = Ret (rcx_of c)" "get_register_ud_type UD_R_RSP c = Ret (rsp_of c)" "get_flags c = rflags_of c"
  by (simp_all add: get_register_ud_type_def get_reg_context_offset_def get_flags_def WORDSIZE_def offset_defs)

lemma is_transfer_iff: "is_transfer m \<longleftrightarrow> m \<in> {UD_Icall, UD_Ijmp} \<or> m \<in> set conditional_jumps"
  by (cases m) (simp_all add: conditional_jumps_def)

text \<open>
  When the code evaluates a condition as the processor does: always, except that the signed comparisons need the sign and overflow
  flags not to be both set (unless the zero flag decides), and that the jumps on a part of the count register need the rest of it
  to be zero when the part is.
\<close>

definition condition_exact :: "ud_mnemonic \<Rightarrow> ucontext \<Rightarrow> bool" where
  "condition_exact m c \<longleftrightarrow>
     (m \<in> {UD_Ijg, UD_Ijge, UD_Ijl, UD_Ijle} \<longrightarrow>
        \<not> (bit (rflags_of c) 7 \<and> bit (rflags_of c) 11) \<or> bit (rflags_of c) 6 \<and> m \<in> {UD_Ijg, UD_Ijle}) \<and>
     (m = UD_Ijcxz \<longrightarrow> (ucast (rcx_of c) :: u16) \<noteq> 0 \<or> rcx_of c = 0) \<and>
     (m = UD_Ijecxz \<longrightarrow> (ucast (rcx_of c) :: u32) \<noteq> 0 \<or> rcx_of c = 0)"

lemma ctf_condition_exact:
  assumes "m \<in> set conditional_jumps"
  shows "ctf_condition_met m c = Ret (intel_condition m (rflags_of c) (rcx_of c)) \<longleftrightarrow> condition_exact m c"
  by (cases m; insert assms)
    (auto simp: ctf_condition_met_def condition_exact_def conditional_jumps_def get_rcx flag_bits sign_overflow_compare WORDSIZE_def Let_def)

lemma ctf_condition_returns: "\<exists>b. ctf_condition_met m c = Ret b"
  by (cases m) (auto simp: ctf_condition_met_def get_rcx WORDSIZE_def Let_def)

text \<open>Operands whose target the code computes as the processor does: relative ones, and 64-bit registers.\<close>

definition direct_operand :: "ud_operand \<Rightarrow> bool" where
  "direct_operand op \<longleftrightarrow> op_type op = UD_OP_JIMM \<and> op_size op \<in> {8, 16, 32, 64} \<or>
     op_type op = UD_OP_REG \<and> register_index (op_base op) \<noteq> None"

lemma sign_extended_scast:
  "sign_extended 8 w = scast (ucast w :: u8)" "sign_extended 16 w = scast (ucast w :: u16)"
  "sign_extended 32 w = scast (ucast w :: u32)" "sign_extended 64 w = w"
proof -
  show "sign_extended 64 w = w"
  proof (rule bit_word_eqI)
    fix n assume "n < LENGTH(64)"
    then have "n < 63 \<or> n = 63" by auto
    then show "bit (sign_extended 64 w) n = bit w n" by (auto simp: sign_extended_def bit_simps min_def)
  qed
qed (rule bit_word_eqI; auto simp: sign_extended_def bit_simps min_def)+

lemma register_index_code: "register_index r = Some i \<Longrightarrow> get_register_ud_type r c = Ret (gregs c i)"
  by (auto simp: register_index_def get_register_ud_type_def get_reg_context_offset_def WORDSIZE_def offset_defs split: if_splits)

lemma compute_target_direct:
  assumes "direct_operand op"
  shows "compute_target op next_insn c = Ret (x86_target op next_insn c m)"
proof (cases "op_type op = UD_OP_JIMM")
  case True
  then show ?thesis using assms
    by (auto simp: direct_operand_def compute_target_def x86_target_def compute_relative_location_def sign_extended_scast)
next
  case False
  then obtain i where "op_type op = UD_OP_REG" and i: "register_index (op_base op) = Some i"
    using assms by (auto simp: direct_operand_def)
  moreover have "op_base op \<noteq> UD_R_RIP" using i by (auto simp: register_index_def)
  ultimately show ?thesis
    using register_index_code [OF i, of c] by (simp add: compute_target_def x86_target_def reg_or_zero_def)
qed

text \<open>The instructions whose successor is known in a context.\<close>

definition known_successor :: "ud_insn \<Rightarrow> ucontext \<Rightarrow> bool" where
  "known_successor insn c \<longleftrightarrow> ud_mnemonic insn \<noteq> UD_Ifar \<and>
     (is_transfer (ud_mnemonic insn) \<longrightarrow> condition_exact (ud_mnemonic insn) c \<and> direct_operand (ud_operand0 insn))"

lemma get_ctf_successor_near:
  assumes "env_disassemble E (mem s) pc = Some insn" and "ud_pc insn = pc + of_nat (ud_insn_len insn)"
    and "known_successor insn c" and "ud_mnemonic insn \<noteq> UD_Iret"
  shows "get_ctf_successor E pc c s = Ret (successor_or_error E pc (x86_next insn pc c (mem s)) s)"
proof -
  consider "ud_mnemonic insn \<in> {UD_Icall, UD_Ijmp}" | "ud_mnemonic insn \<in> set conditional_jumps" "ud_mnemonic insn \<notin> {UD_Icall, UD_Ijmp}"
    | "\<not> is_transfer (ud_mnemonic insn)" by (auto simp: is_transfer_iff)
  then show ?thesis
  proof cases
    case 1
    then show ?thesis using assms
      by (auto simp: get_ctf_successor_def x86_next_def known_successor_def compute_target_direct [where m = "mem s"] Let_def)
  next
    case 2
    then show ?thesis using assms
      by (auto simp: get_ctf_successor_def x86_next_def known_successor_def is_transfer_iff compute_target_direct [where m = "mem s"]
          ctf_condition_exact [symmetric] Let_def)
  next
    case 3
    then show ?thesis using assms
      by (auto simp: get_ctf_successor_def x86_next_def is_transfer_iff Let_def)
  qed
qed

lemma get_ctf_successor_ret:
  assumes "env_disassemble E (mem s) pc = Some insn" and r: "ud_mnemonic insn = UD_Iret"
    and "hooks_ok s" and "accessible E FromDebuggee (rsp_of c) 8 s" and "\<not> aborting_mem_access s"
  shows "\<exists>s'. get_ctf_successor E pc c s = Ret (x86_next insn pc c (mem s), s') \<and> mem s' = mem s"
proof -
  have "UD_Iret \<notin> set conditional_jumps" by (simp add: conditional_jumps_def)
  then show ?thesis
    using assms read_memory_ok [OF assms(3-5)]
    by (auto simp: get_ctf_successor_def x86_next_def load_u64_def get_rcx WORDSIZE_def Let_def)
qed

section \<open>Properties\<close>

text \<open>
  C3. The successor that the stepping code computes is the instruction that the processor
  executes next: for an instruction that transfers no control, for a return whose stack can
  be read, and for calls and jumps that are relative or through a 64-bit register. Excluded are transfers through memory, far
  transfers, the signed comparisons when the sign and overflow flags are both set, and the jumps on a part of the count register
  when only that part is zero; there the code computes something else.
\<close>

theorem get_ctf_successor_correct:
  assumes "disassembler_ok E" and "env_disassemble E (mem s) pc = Some insn" and "known_successor insn c"
    and "ud_mnemonic insn = UD_Iret \<longrightarrow>
      hooks_ok s \<and> accessible E FromDebuggee (rsp_of c) 8 s \<and> \<not> aborting_mem_access s"
  shows "\<exists>s'. get_ctf_successor E pc c s = Ret (x86_next insn pc c (mem s), s') \<and> mem s' = mem s"
proof (cases "ud_mnemonic insn = UD_Iret")
  case True
  then show ?thesis using get_ctf_successor_ret [OF assms(2) True] assms(4) by simp
next
  case False
  have "ud_pc insn = pc + of_nat (ud_insn_len insn)"
    using assms(1,2) by (simp add: disassembler_ok_def)
  from get_ctf_successor_near [OF assms(2) this assms(3) False] show ?thesis
    by (simp add: successor_or_error_def)
qed

text \<open>An environment whose disassembler knows two-byte relative jumps of the conditions 0x70 to 0x7f and one-byte instructions.\<close>

definition short_jumps :: "ud_mnemonic list" where
  "short_jumps = [UD_Ijo, UD_Ijno, UD_Ijb, UD_Ijae, UD_Ijz, UD_Ijnz, UD_Ijbe, UD_Ija,
     UD_Ijs, UD_Ijns, UD_Ijp, UD_Ijnp, UD_Ijl, UD_Ijge, UD_Ijle, UD_Ijg]"

definition jump_env :: env where
  "jump_env = sample_env\<lparr>env_disassemble := (\<lambda>m pc.
     if 0x70 \<le> m pc \<and> m pc < 0x80
     then Some \<lparr>ud_mnemonic = short_jumps ! unat (m pc - 0x70),
                ud_operand0 = \<lparr>op_type = UD_OP_JIMM, op_size = 8, op_base = UD_NONE, op_index = UD_NONE,
                  op_scale = 0, op_offset = 0, op_lval = ucast (m (pc + 1))\<rparr>,
                ud_insn_len = 2, ud_pc = pc + 2\<rparr>
     else Some \<lparr>ud_mnemonic = UD_Iother,
                ud_operand0 = \<lparr>op_type = UD_OP_other, op_size = 0, op_base = UD_NONE, op_index = UD_NONE,
                  op_scale = 0, op_offset = 0, op_lval = 0\<rparr>,
                ud_insn_len = 1, ud_pc = pc + 1\<rparr>)\<rparr>"

lemma jump_env_ok: "disassembler_ok jump_env"
  by (auto simp: disassembler_ok_def jump_env_def split: if_splits)

theorem get_ctf_successor_correct_witness:
  "\<exists>s'. get_ctf_successor jump_env 0x400000 \<lparr>gregs = (\<lambda>_. 0x40), uc_sigmask = {}\<rparr>
     (sample_mem_state\<lparr>mem := (\<lambda>_. 0)(0x400000 := 0x74, 0x400001 := 0xfc)\<rparr>) = Ret (0x3ffffe, s')"
proof -
  let ?s = "sample_mem_state\<lparr>mem := (\<lambda>_. 0)(0x400000 := 0x74, 0x400001 := 0xfc)\<rparr>"
  let ?c = "\<lparr>gregs = (\<lambda>_. 0x40), uc_sigmask = {}\<rparr>"
  let ?i = "\<lparr>ud_mnemonic = UD_Ijz, ud_operand0 = \<lparr>op_type = UD_OP_JIMM, op_size = 8, op_base = UD_NONE, op_index = UD_NONE,
                  op_scale = 0, op_offset = 0, op_lval = 0xfc\<rparr>, ud_insn_len = 2, ud_pc = 0x400002\<rparr>"
  have d: "env_disassemble jump_env (mem ?s) 0x400000 = Some ?i"
    by (simp add: jump_env_def short_jumps_def)
  have "x86_next ?i 0x400000 ?c (mem ?s) = 0x3ffffe"
    by (simp add: x86_next_def x86_target_def sign_extended_scast)
  then show ?thesis
    using get_ctf_successor_correct [OF jump_env_ok d, of ?c]
    by (auto simp: known_successor_def condition_exact_def direct_operand_def)
qed

text \<open>
  The signed conditions are computed from the masked flag words themselves, whose bits
  are in different positions: for jg, jge, jl and jle the code agrees with the processor
  exactly when the sign and overflow flags are not both set (or the zero flag decides), so
  the wrong successor is chosen for every such jump after a signed overflow to a negative
  result.
\<close>

theorem signed_condition_agreement:
  assumes "m \<in> {UD_Ijg, UD_Ijge, UD_Ijl, UD_Ijle}"
  shows "ctf_condition_met m c = Ret (intel_condition m (rflags_of c) (rcx_of c)) \<longleftrightarrow>
    \<not> (bit (rflags_of c) 7 \<and> bit (rflags_of c) 11) \<or> (bit (rflags_of c) 6 \<and> m \<in> {UD_Ijg, UD_Ijle})"
  using assms ctf_condition_exact [of m c] by (auto simp: condition_exact_def conditional_jumps_def)

theorem signed_condition_agreement_witness:
  "ctf_condition_met UD_Ijge \<lparr>gregs = (\<lambda>_. 0x880), uc_sigmask = {}\<rparr> \<noteq> Ret (intel_condition UD_Ijge 0x880 0x880)"
  using signed_condition_agreement [of UD_Ijge "\<lparr>gregs = (\<lambda>_. 0x880), uc_sigmask = {}\<rparr>"]
  by simp

end
