(* ===== verification/Cbor_Read.thy ===== *)
theory Cbor_Read
  imports X86
begin

text \<open>
  The streams between the library and the debugger, and the reading of requests
  (\<^verbatim>\<open>udirt-msg.c\<close> lines 29 to 526, \<^verbatim>\<open>udirt-posix.c\<close> lines 1450 to 1531). A request is read
  one CBOR item at a time: the buffer grows by what the decoder asks for, each item makes one
  callback, and the reading ends after the callback that sets the done flag.
\<close>

section \<open>Definitions\<close>

subsection \<open>Descriptors\<close>

text \<open>
  The bytes that the debugger will have sent on a descriptor, less those already read (the
  end of the list is the end of the file), and the bytes written to it.
\<close>

record io_state = bp_state +
  in_data :: "nat \<Rightarrow> u8 list"
  out_data :: "nat \<Rightarrow> u8 list"
  pipe_write_failure :: bool

definition EINTR :: nat where
  "EINTR = 4"

definition EPIPE :: nat where
  "EPIPE = 32"

text \<open>
  \<^verbatim>\<open>read\<close> and \<^verbatim>\<open>write\<close> transfer any positive number of bytes up to what was asked for; a
  read of an exhausted stream returns 0.
\<close>

definition sys_read :: "nat \<Rightarrow> nat \<Rightarrow> 'z io_state_scheme \<Rightarrow> (nat + u8 list) \<times> 'z io_state_scheme" where
  "sys_read fd n s =
     (case sys_call s of (r, s) \<Rightarrow>
        case r of
          SysErr e \<Rightarrow> (Inl (sys_errno r), s)
        | SysOk k \<Rightarrow>
            let chunk = take (min (max 1 k) n) (in_data s fd)
            in (Inr chunk, s\<lparr>in_data := (in_data s)(fd := drop (length chunk) (in_data s fd))\<rparr>))"

definition sys_write :: "nat \<Rightarrow> u8 list \<Rightarrow> 'z io_state_scheme \<Rightarrow> (nat + nat) \<times> 'z io_state_scheme" where
  "sys_write fd bs s =
     (case sys_call s of (r, s) \<Rightarrow>
        case r of
          SysErr e \<Rightarrow> (Inl (sys_errno r), s)
        | SysOk k \<Rightarrow>
            let n = min (max 1 k) (length bs)
            in (Inr n, s\<lparr>out_data := (out_data s)(fd := out_data s fd @ take n bs)\<rparr>))"

text \<open>The result (-1 at the end of the file, otherwise an error number or 0) and the bytes stored.\<close>

partial_function (option) read_from_loop ::
    "nat \<Rightarrow> nat \<Rightarrow> u8 list \<Rightarrow> 'z io_state_scheme \<Rightarrow> ((int \<times> u8 list) \<times> 'z io_state_scheme) option" where
  "read_from_loop fd len dst s =
     (if length dst < len then
        (case sys_read fd (len - length dst) s of
           (Inr chunk, s') \<Rightarrow>
             if chunk = [] then Some ((- 1, dst), s') else read_from_loop fd len (dst @ chunk) s'
         | (Inl errno, s') \<Rightarrow>
             if errno = EINTR then read_from_loop fd len dst s' else Some ((int errno, dst), s'))
      else Some ((0, dst), s))"

definition read_from :: "nat \<Rightarrow> nat \<Rightarrow> 'z io_state_scheme \<Rightarrow> ((int \<times> u8 list) \<times> 'z io_state_scheme) option" where
  "read_from fd len s = read_from_loop fd len [] s"

text \<open>
  The answer of \<^verbatim>\<open>sigpending\<close> is whether \<^verbatim>\<open>SIGPIPE\<close> is pending; \<^verbatim>\<open>sigsuspend\<close> waits for it and
  restores the signal mask.
\<close>

definition handle_pipe_write_failure :: "'z io_state_scheme \<Rightarrow> 'z io_state_scheme" where
  "handle_pipe_write_failure s =
     (case sys_call (s\<lparr>pipe_write_failure := True\<rparr>) of (r, s) \<Rightarrow>
        case r of
          SysErr e \<Rightarrow> s
        | SysOk pending \<Rightarrow>
            if pending = 0 then s
            else (case sys_call s of (r, s) \<Rightarrow>
              if sys_failed r then s
              else (case sys_call s of (r, s) \<Rightarrow>
                if sys_errno r \<noteq> EINTR then s else s\<lparr>pipe_write_failure := False\<rparr>)))"

partial_function (option) write_to_loop ::
    "nat \<Rightarrow> u8 list \<Rightarrow> 'z io_state_scheme \<Rightarrow> (nat \<times> 'z io_state_scheme) option" where
  "write_to_loop fd src s =
     (if src \<noteq> [] then
        (case sys_write fd src s of
           (Inr n, s') \<Rightarrow> write_to_loop fd (drop n src) s'
         | (Inl errno, s') \<Rightarrow> if errno = EINTR then write_to_loop fd src s' else Some (errno, s'))
      else Some (0, s))"

definition write_to :: "nat \<Rightarrow> u8 list \<Rightarrow> 'z io_state_scheme \<Rightarrow> (nat \<times> 'z io_state_scheme) option" where
  "write_to fd src s =
     (case write_to_loop fd src s of
        None \<Rightarrow> None
      | Some (errnum, s) \<Rightarrow> Some (errnum, if errnum = EPIPE then handle_pipe_write_failure s else s))"

subsection \<open>Reading items\<close>

record 'c cbor_read_state =
  ctx :: 'c
  is_done :: bool

text \<open>
  One call of the loop body with the local variables of \<^verbatim>\<open>read_cbor_items\<close>; \<open>buffer\<close> holds
  the bytes below \<^verbatim>\<open>buf_idx\<close>. A decoder that asks for fewer bytes than it was given would
  make the code read before its buffer.
\<close>

partial_function (option) read_items_loop ::
    "env \<Rightarrow> nat \<Rightarrow> (cbor_event \<Rightarrow> 'c cbor_read_state \<Rightarrow> 'z io_state_scheme \<Rightarrow> 'c cbor_read_state \<times> 'z io_state_scheme)
       \<Rightarrow> 'c cbor_read_state \<Rightarrow> bool \<Rightarrow> u8 list \<Rightarrow> nat \<Rightarrow> nat \<Rightarrow> 'z io_state_scheme
       \<Rightarrow> ((int \<times> 'c cbor_read_state) \<times> 'z io_state_scheme) option" where
  "read_items_loop E fd callbacks st cbor_done buffer maxbuflen buflen s =
     (if is_done st \<and> cbor_done then Some ((0, st), s)
      else (case (if buflen > maxbuflen then (case sys_call s of (r, s) \<Rightarrow> (\<not> sys_failed r, s)) else (True, s)) of
        (ok, s) \<Rightarrow>
          if \<not> ok then Some ((- 1, st), udi_set_errmsg E ''failed to allocate memory'' [] s)
          else if buflen < length buffer then None
          else (case read_from fd (buflen - length buffer) s of
            None \<Rightarrow> None
          | Some ((result, bytes), s) \<Rightarrow>
              if result < 0
              then Some ((result, st),
                     udi_set_errmsg E ''failed to read CBOR data due to unexpected end-of-file'' [] s)
              else if result > 0
              then Some ((result, st), udi_set_errmsg E ''failed to read CBOR data: %e'' [ArgInt result] s)
              else (case env_cbor_decode E (buffer @ bytes) of
                CBOR_DECODER_ERROR \<Rightarrow> Some ((- 1, st), udi_set_errmsg E ''failed to decode CBOR data'' [] s)
              | CBOR_DECODER_NEDATA required \<Rightarrow>
                  read_items_loop E fd callbacks st False (buffer @ bytes) (max maxbuflen buflen) required s
              | CBOR_DECODER_FINISHED ev \<Rightarrow>
                  (case callbacks ev st s of (st, s) \<Rightarrow>
                     read_items_loop E fd callbacks st True [] (max maxbuflen buflen) 1 s)))))"

definition read_cbor_items ::
    "env \<Rightarrow> nat \<Rightarrow> (cbor_event \<Rightarrow> 'c cbor_read_state \<Rightarrow> 'z io_state_scheme \<Rightarrow> 'c cbor_read_state \<times> 'z io_state_scheme)
       \<Rightarrow> 'c \<Rightarrow> 'z io_state_scheme \<Rightarrow> ((int \<times> 'c) \<times> 'z io_state_scheme) run" where
  "read_cbor_items E fd callbacks c s =
     run_bind (of_option (read_items_loop E fd callbacks \<lparr>ctx = c, is_done = False\<rparr> False [] 0 1 s))
       (\<lambda>((result, st), s). Ret ((result, ctx st), s))"

subsection \<open>Request data\<close>

text \<open>The current item is the index of an item of the configuration.\<close>

record 'd req_data_state =
  current_item :: "nat option"
  item_count :: nat
  rd_error :: bool
  rd_data :: 'd

type_synonym ('d, 's) msg_callbacks =
  "cbor_event \<Rightarrow> 'd req_data_state cbor_read_state \<Rightarrow> 's \<Rightarrow> 'd req_data_state cbor_read_state \<times> 's"

record ('d, 's) msg_item =
  key :: string
  callbacks :: "('d, 's) msg_callbacks"

record ('d, 's) msg_config =
  num_items :: nat
  items :: "('d, 's) msg_item list"

definition set_data :: "('d \<Rightarrow> 'd) \<Rightarrow> 'd req_data_state cbor_read_state \<Rightarrow> 'd req_data_state cbor_read_state" where
  "set_data f st = st\<lparr>ctx := (ctx st)\<lparr>rd_data := f (rd_data (ctx st))\<rparr>\<rparr>"

definition complete_item :: "nat \<Rightarrow> 'd req_data_state cbor_read_state \<Rightarrow> 'd req_data_state cbor_read_state" where
  "complete_item num st =
     (let d = ctx st; count = item_count d + 1 in
      \<lparr>ctx = d\<lparr>item_count := count, current_item := None\<rparr>, is_done = is_done st \<or> count \<ge> num\<rparr>)"

text \<open>The name of the callback, as the macros print it.\<close>

primrec cbor_event_name :: "cbor_event \<Rightarrow> string" where
  "cbor_event_name (Ev_uint8 _) = ''uint8''"
| "cbor_event_name (Ev_uint16 _) = ''uint16''"
| "cbor_event_name (Ev_uint32 _) = ''uint32''"
| "cbor_event_name (Ev_uint64 _) = ''uint64''"
| "cbor_event_name (Ev_negint8 _) = ''negint8''"
| "cbor_event_name (Ev_negint16 _) = ''negint16''"
| "cbor_event_name (Ev_negint32 _) = ''negint32''"
| "cbor_event_name (Ev_negint64 _) = ''negint64''"
| "cbor_event_name Ev_byte_string_start = ''byte_string_start''"
| "cbor_event_name (Ev_byte_string _) = ''byte_string''"
| "cbor_event_name Ev_string_start = ''string_start''"
| "cbor_event_name (Ev_string _) = ''string''"
| "cbor_event_name Ev_indef_array_start = ''indef_array_start''"
| "cbor_event_name (Ev_array_start _) = ''array_start''"
| "cbor_event_name Ev_indef_map_start = ''indef_map_start''"
| "cbor_event_name (Ev_map_start _) = ''map_start''"
| "cbor_event_name (Ev_tag _) = ''tag''"
| "cbor_event_name (Ev_float2 _) = ''float2''"
| "cbor_event_name (Ev_float4 _) = ''float4''"
| "cbor_event_name (Ev_float8 _) = ''float8''"
| "cbor_event_name Ev_undefined = ''undefined''"
| "cbor_event_name Ev_null = ''null''"
| "cbor_event_name (Ev_boolean _) = ''boolean''"
| "cbor_event_name Ev_indef_break = ''indef_break''"

definition check_state ::
    "env \<Rightarrow> string \<Rightarrow> 'd req_data_state cbor_read_state \<Rightarrow> 'z msg_state_scheme
       \<Rightarrow> nat option \<times> 'd req_data_state cbor_read_state \<times> 'z msg_state_scheme" where
  "check_state E actual_type st s =
     (if rd_error (ctx st) then (None, st, s)
      else (case current_item (ctx st) of
        None \<Rightarrow>
          (None, st\<lparr>is_done := True, ctx := (ctx st)\<lparr>rd_error := True\<rparr>\<rparr>,
           udi_set_errmsg E ''received unexpected data item of type %s instead of map'' [ArgStr actual_type] s)
      | Some i \<Rightarrow> (Some i, st, s)))"

definition set_invalid_error ::
    "env \<Rightarrow> string \<Rightarrow> 'd req_data_state cbor_read_state \<Rightarrow> 'z msg_state_scheme
       \<Rightarrow> 'd req_data_state cbor_read_state \<times> 'z msg_state_scheme" where
  "set_invalid_error E type_name st s =
     (st\<lparr>is_done := True, ctx := (ctx st)\<lparr>rd_error := True\<rparr>\<rparr>,
      udi_set_errmsg E ''received unexpected data item of type %s'' [ArgStr type_name] s)"

definition invalid_callbacks :: "env \<Rightarrow> ('d, 'z msg_state_scheme) msg_callbacks" where
  "invalid_callbacks E ev st s = set_invalid_error E (cbor_event_name ev) st s"

definition item_callbacks ::
    "env \<Rightarrow> ('d, 'z msg_state_scheme) msg_config \<Rightarrow> ('d, 'z msg_state_scheme) msg_callbacks" where
  "item_callbacks E config ev st s =
     (case check_state E (cbor_event_name ev) st s of
        (None, st, s) \<Rightarrow> (st, s)
      | (Some i, st, s) \<Rightarrow> callbacks (items config ! i) ev st s)"

definition request_data_map_start ::
    "env \<Rightarrow> ('d, 'z msg_state_scheme) msg_config \<Rightarrow> u64 \<Rightarrow> 'd req_data_state cbor_read_state
       \<Rightarrow> 'z msg_state_scheme \<Rightarrow> 'd req_data_state cbor_read_state \<times> 'z msg_state_scheme" where
  "request_data_map_start E config len st s =
     (if rd_error (ctx st) then (st, s)
      else if current_item (ctx st) \<noteq> None then item_callbacks E config (Ev_map_start len) st s
      else if num_items config \<noteq> unat len
      then (st\<lparr>ctx := (ctx st)\<lparr>rd_error := True\<rparr>\<rparr>,
            udi_set_errmsg E ''Unexpected number of data items in map (expected %d, actual %l)''
              [ArgInt (int (num_items config)), ArgU64 len] s)
      else (st, s))"

text \<open>
  \<^verbatim>\<open>strncmp(data, key, len) == 0\<close> for the \<open>len\<close> bytes of a CBOR string and a terminated key.
\<close>

fun strncmp_eq :: "u8 list \<Rightarrow> u8 list \<Rightarrow> bool" where
  "strncmp_eq [] ks \<longleftrightarrow> True"
| "strncmp_eq (d # ds) [] \<longleftrightarrow> d = 0"
| "strncmp_eq (d # ds) (k # ks) \<longleftrightarrow> d = k \<and> (d = 0 \<or> strncmp_eq ds ks)"

definition bytes_of :: "string \<Rightarrow> u8 list" where
  "bytes_of cs = map (\<lambda>c. of_nat (of_char c)) cs"

definition string_of :: "u8 list \<Rightarrow> string" where
  "string_of bs = map (\<lambda>b. char_of (unat b)) bs"

fun find_item :: "u8 list \<Rightarrow> ('d, 's) msg_item list \<Rightarrow> nat \<Rightarrow> nat option" where
  "find_item data [] i = None"
| "find_item data (it # its) i =
     (if strncmp_eq data (bytes_of (key it)) then Some i else find_item data its (Suc i))"

definition request_data_string ::
    "env \<Rightarrow> ('d, 'z msg_state_scheme) msg_config \<Rightarrow> u8 list \<Rightarrow> 'd req_data_state cbor_read_state
       \<Rightarrow> 'z msg_state_scheme \<Rightarrow> 'd req_data_state cbor_read_state \<times> 'z msg_state_scheme" where
  "request_data_string E config data st s =
     (if rd_error (ctx st) then (st, s)
      else if current_item (ctx st) \<noteq> None then item_callbacks E config (Ev_string data) st s
      else (case find_item data (take (num_items config) (items config)) 0 of
        Some i \<Rightarrow> (st\<lparr>ctx := (ctx st)\<lparr>current_item := Some i\<rparr>\<rparr>, s)
      | None \<Rightarrow>
          (case sys_call s of (r, s) \<Rightarrow>
             (st\<lparr>ctx := (ctx st)\<lparr>rd_error := True\<rparr>\<rparr>,
              udi_set_errmsg E ''failed to locate config item for %s''
                [ArgStr (if sys_failed r then ''(no memory)'' else c_str (string_of data))] s))))"

text \<open>The callbacks of \<^verbatim>\<open>read_request_data\<close>: those of the items, with the two above in place.\<close>

definition request_callbacks ::
    "env \<Rightarrow> ('d, 'z msg_state_scheme) msg_config \<Rightarrow> ('d, 'z msg_state_scheme) msg_callbacks" where
  "request_callbacks E config ev =
     (case ev of
        Ev_map_start len \<Rightarrow> request_data_map_start E config len
      | Ev_string data \<Rightarrow> request_data_string E config data
      | _ \<Rightarrow> item_callbacks E config ev)"

definition read_request_data ::
    "env \<Rightarrow> nat \<Rightarrow> ('d, 'z io_state_scheme) msg_config \<Rightarrow> 'd \<Rightarrow> 'z io_state_scheme
       \<Rightarrow> ((int \<times> 'd) \<times> 'z io_state_scheme) run" where
  "read_request_data E req_fd config data s =
     run_bind (read_cbor_items E req_fd (request_callbacks E config)
                 \<lparr>current_item = None, item_count = 0, rd_error = False, rd_data = data\<rparr> s)
       (\<lambda>((result, d), s).
          Ret ((if result \<noteq> 0 then RESULT_ERROR else if rd_error d then RESULT_FAILURE else RESULT_SUCCESS,
                rd_data d), s))"

subsection \<open>Writing items\<close>

definition write_cbor_item ::
    "env \<Rightarrow> nat \<Rightarrow> cbor_item \<Rightarrow> string \<Rightarrow> 'z io_state_scheme \<Rightarrow> (int \<times> 'z io_state_scheme) run" where
  "write_cbor_item E fd item name s =
     (let buffer = env_cbor_serialize E item in
      if buffer = [] then Ret (RESULT_ERROR, udi_set_errmsg E ''failed to serialize %s'' [ArgStr name] s)
      else run_bind (of_option (write_to fd buffer s)) (\<lambda>(result, s).
        if result \<noteq> 0
        then Ret (RESULT_ERROR, udi_set_errmsg E ''failed to write %s: %e'' [ArgStr name, ArgInt (int result)] s)
        else Ret (RESULT_SUCCESS, s)))"

text \<open>The data item is \<open>None\<close> for the null pointer.\<close>

definition write_response ::
    "env \<Rightarrow> nat \<Rightarrow> udi_response_type_e \<Rightarrow> nat \<Rightarrow> cbor_item option \<Rightarrow> 'z io_state_scheme
       \<Rightarrow> (int \<times> 'z io_state_scheme) run" where
  "write_response E resp_fd resp_type req_type data s =
     run_bind (write_cbor_item E resp_fd (CUint16 (of_nat (response_val resp_type))) ''response type'' s) (\<lambda>(result, s).
       if result \<noteq> RESULT_SUCCESS then Ret (result, s)
       else run_bind (write_cbor_item E resp_fd (CUint16 (of_nat req_type)) ''request type'' s) (\<lambda>(result, s).
         if result \<noteq> RESULT_SUCCESS then Ret (result, s)
         else (case data of
             Some item \<Rightarrow> write_cbor_item E resp_fd item ''response data'' s
           | None \<Rightarrow> Ret (RESULT_SUCCESS, s))))"

definition write_response_no_data ::
    "env \<Rightarrow> nat \<Rightarrow> udi_response_type_e \<Rightarrow> nat \<Rightarrow> 'z io_state_scheme \<Rightarrow> (int \<times> 'z io_state_scheme) run" where
  "write_response_no_data E resp_fd resp_type req_type s = write_response E resp_fd resp_type req_type None s"

section \<open>Transfers\<close>

subsection \<open>A system without errors\<close>

lemma sys_read_ok:
  assumes "sys_always_ok s" and "0 < n"
  shows "\<exists>k. 0 < k \<and> k \<le> n \<and> sys_read fd n s =
    (Inr (take k (in_data s fd)),
     s\<lparr>sys_count := Suc (sys_count s), in_data := (in_data s)(fd := drop k (in_data s fd))\<rparr>)"
proof (cases "sys_oracle s (sys_count s)")
  case (SysOk j)
  let ?k = "min (max 1 j) n"
  have "drop (length (take ?k (in_data s fd))) (in_data s fd) = drop ?k (in_data s fd)"
    by (metis append_take_drop_id append_eq_conv_conj)
  then show ?thesis
    using SysOk assms(2) by (intro exI [of _ ?k]) (simp add: sys_read_def sys_call_def Let_def)
next
  case (SysErr e)
  then show ?thesis using assms(1) by (auto simp: sys_always_ok_def dest!: spec [of _ "sys_count s"])
qed

lemma read_from_loop_ok:
  assumes "sys_always_ok s" and "length dst \<le> n" and "n \<le> length dst + length (in_data s fd)"
  shows "\<exists>c. read_from_loop fd n dst s =
    Some ((0, dst @ take (n - length dst) (in_data s fd)),
          s\<lparr>sys_count := c, in_data := (in_data s)(fd := drop (n - length dst) (in_data s fd))\<rparr>)"
  using assms
proof (induction "n - length dst" arbitrary: dst s rule: less_induct)
  case less
  show ?case
  proof (cases "length dst < n")
    case False
    then have "n - length dst = 0" using less.prems(2) by simp
    moreover have "read_from_loop fd n dst s = Some ((0, dst), s)"
      using False by (subst read_from_loop.simps) simp
    moreover have "s = s\<lparr>sys_count := sys_count s, in_data := (in_data s)(fd := in_data s fd)\<rparr>" by simp
    ultimately show ?thesis by (metis append_Nil2 drop_0 take_0)
  next
    case True
    obtain k where k: "0 < k" "k \<le> n - length dst" and r: "sys_read fd (n - length dst) s =
        (Inr (take k (in_data s fd)),
         s\<lparr>sys_count := Suc (sys_count s), in_data := (in_data s)(fd := drop k (in_data s fd))\<rparr>)"
      using sys_read_ok [OF less.prems(1), of "n - length dst"] True by auto
    let ?s = "s\<lparr>sys_count := Suc (sys_count s), in_data := (in_data s)(fd := drop k (in_data s fd))\<rparr>"
    let ?dst = "dst @ take k (in_data s fd)"
    have len: "length (take k (in_data s fd)) = k" using k less.prems(3) by simp
    have "read_from_loop fd n dst s = read_from_loop fd n ?dst ?s"
      using True k len r by (subst read_from_loop.simps) auto
    moreover have "n - length ?dst < n - length dst" "sys_always_ok ?s" "length ?dst \<le> n"
      "n \<le> length ?dst + length (in_data ?s fd)"
      using k len less.prems by (auto simp: sys_always_ok_def)
    from less.hyps [OF this] obtain c where "read_from_loop fd n ?dst ?s =
      Some ((0, ?dst @ take (n - length ?dst) (in_data ?s fd)),
          ?s\<lparr>sys_count := c, in_data := (in_data ?s)(fd := drop (n - length ?dst) (in_data ?s fd))\<rparr>)" by blast
    moreover have "take (n - length dst) (in_data s fd) =
        take k (in_data s fd) @ take (n - length ?dst) (drop k (in_data s fd))"
      using k len by (simp add: take_add [symmetric])
    moreover have "drop (n - length ?dst) (drop k (in_data s fd)) = drop (n - length dst) (in_data s fd)"
      using k len by (simp add: drop_drop)
    ultimately show ?thesis by auto
  qed
qed

lemma read_from_ok:
  assumes "sys_always_ok s" and "n \<le> length (in_data s fd)"
  shows "\<exists>c. read_from fd n s =
    Some ((0, take n (in_data s fd)), s\<lparr>sys_count := c, in_data := (in_data s)(fd := drop n (in_data s fd))\<rparr>)"
  using read_from_loop_ok [of s "[]" n fd] assms by (simp add: read_from_def)

lemma write_to_loop_ok:
  assumes "sys_always_ok s"
  shows "\<exists>c. write_to_loop fd bs s =
    Some (0, s\<lparr>sys_count := c, out_data := (out_data s)(fd := out_data s fd @ bs)\<rparr>)"
  using assms
proof (induction "length bs" arbitrary: bs s rule: less_induct)
  case less
  show ?case
  proof (cases "bs = []")
    case True
    then have "write_to_loop fd bs s = Some (0, s\<lparr>sys_count := sys_count s, out_data := (out_data s)(fd := out_data s fd @ bs)\<rparr>)"
      by (subst write_to_loop.simps) simp
    then show ?thesis by blast
  next
    case False
    obtain j where j: "sys_oracle s (sys_count s) = SysOk j"
      using less.prems by (cases "sys_oracle s (sys_count s)") (auto simp: sys_always_ok_def dest!: spec [of _ "sys_count s"])
    let ?k = "min (max 1 j) (length bs)"
    let ?s = "s\<lparr>sys_count := Suc (sys_count s), out_data := (out_data s)(fd := out_data s fd @ take ?k bs)\<rparr>"
    have "write_to_loop fd bs s = write_to_loop fd (drop ?k bs) ?s"
      using False j by (subst write_to_loop.simps) (simp add: sys_write_def sys_call_def Let_def)
    moreover have "length (drop ?k bs) < length bs" "sys_always_ok ?s"
      using False less.prems by (auto simp: sys_always_ok_def)
    from less.hyps [OF this] obtain c where "write_to_loop fd (drop ?k bs) ?s =
      Some (0, ?s\<lparr>sys_count := c, out_data := (out_data ?s)(fd := out_data ?s fd @ drop ?k bs)\<rparr>)" by blast
    ultimately have "write_to_loop fd bs s =
        Some (0, s\<lparr>sys_count := c, out_data := (out_data s)(fd := out_data s fd @ bs)\<rparr>)" by simp
    then show ?thesis by blast
  qed
qed

lemma write_to_ok:
  assumes "sys_always_ok s"
  shows "\<exists>c. write_to fd bs s = Some (0, s\<lparr>sys_count := c, out_data := (out_data s)(fd := out_data s fd @ bs)\<rparr>)"
  using write_to_loop_ok [OF assms, of fd bs] by (auto simp: write_to_def EPIPE_def)

subsection \<open>Any system\<close>

text \<open>
  What a transfer or a message may change: the progress of the system calls, the streams and
  the message. The rest of the state is what remains when these are masked.
\<close>

definition io_rest :: "'z io_state_scheme \<Rightarrow> 'z io_state_scheme" where
  "io_rest s = s\<lparr>sys_count := 0, errmsg := None, in_data := (\<lambda>_. []), out_data := (\<lambda>_. []), pipe_write_failure := False\<rparr>"

lemma io_rest_upd [simp]:
  "io_rest (s\<lparr>sys_count := c\<rparr>) = io_rest s"
  "io_rest (s\<lparr>errmsg := m\<rparr>) = io_rest s"
  "io_rest (s\<lparr>in_data := i\<rparr>) = io_rest s"
  "io_rest (s\<lparr>out_data := x\<rparr>) = io_rest s"
  "io_rest (s\<lparr>pipe_write_failure := f\<rparr>) = io_rest s"
  "io_rest (udi_set_errmsg E fmt args s) = io_rest s"
  by (simp_all add: io_rest_def udi_set_errmsg_def)

lemma udi_set_errmsg_streams [simp]:
  "in_data (udi_set_errmsg E fmt args s) = in_data s"
  "out_data (udi_set_errmsg E fmt args s) = out_data s"
  "pipe_write_failure (udi_set_errmsg E fmt args s) = pipe_write_failure s"
  by (simp_all add: udi_set_errmsg_def)

lemma io_rest_eq:
  assumes "io_rest s' = io_rest s"
  shows "sys_oracle s' = sys_oracle s" "mem s' = mem s" "pages s' = pages s" "bp_heap s' = bp_heap s"
    "breakpoints s' = breakpoints s" "sig_mask s' = sig_mask s" "aborting_mem_access s' = aborting_mem_access s"
    "io_state.more s' = io_state.more s"
proof -
  have "f (io_rest s') = f (io_rest s)" for f :: "'a io_state_scheme \<Rightarrow> 'b" by (simp add: assms)
  from this [of sys_oracle] this [of mem] this [of pages] this [of bp_heap] this [of breakpoints]
    this [of sig_mask] this [of aborting_mem_access] this [of io_state.more]
  show "sys_oracle s' = sys_oracle s" "mem s' = mem s" "pages s' = pages s" "bp_heap s' = bp_heap s"
    "breakpoints s' = breakpoints s" "sig_mask s' = sig_mask s" "aborting_mem_access s' = aborting_mem_access s"
    "io_state.more s' = io_state.more s"
    by (simp_all add: io_rest_def)
qed

definition in_step :: "nat \<Rightarrow> 'z io_state_scheme \<Rightarrow> u8 list \<Rightarrow> 'z io_state_scheme \<Rightarrow> bool" where
  "in_step fd s bs s' \<longleftrightarrow> in_data s fd = bs @ in_data s' fd \<and> (\<forall>g. g \<noteq> fd \<longrightarrow> in_data s' g = in_data s g) \<and>
     out_data s' = out_data s \<and> pipe_write_failure s' = pipe_write_failure s \<and> io_rest s' = io_rest s"

lemma in_step_refl [simp]: "in_step fd s [] s"
  by (simp add: in_step_def)

lemma in_step_trans: "in_step fd s bs s' \<Longrightarrow> in_step fd s' cs s'' \<Longrightarrow> in_step fd s (bs @ cs) s''"
  by (simp add: in_step_def)

lemma sys_read_step:
  assumes "sys_read fd n s = (r, s')"
  shows "case r of Inr chunk \<Rightarrow> in_step fd s chunk s' \<and> length chunk \<le> n | Inl e \<Rightarrow> in_step fd s [] s' \<and> e \<noteq> 0"
proof (cases "sys_oracle s (sys_count s)")
  case (SysOk j)
  define chunk where "chunk = take (min (max 1 j) n) (in_data s fd)"
  have "in_data s fd = chunk @ drop (length chunk) (in_data s fd)" "length chunk \<le> n"
    by (auto simp: chunk_def) (metis append_take_drop_id append_eq_conv_conj length_take)
  moreover have "r = Inr chunk"
    "s' = s\<lparr>sys_count := Suc (sys_count s), in_data := (in_data s)(fd := drop (length chunk) (in_data s fd))\<rparr>"
    using assms SysOk by (simp_all add: sys_read_def sys_call_def chunk_def Let_def)
  ultimately show ?thesis by (auto simp: in_step_def)
next
  case (SysErr e)
  then have "r = Inl (max 1 e)" "s' = s\<lparr>sys_count := Suc (sys_count s)\<rparr>"
    using assms by (simp_all add: sys_read_def sys_call_def)
  then show ?thesis by (simp add: in_step_def)
qed

lemma read_from_loop_contract:
  fixes s :: "'a io_state_scheme"
  assumes returns: "read_from_loop fd n dst s = Some ((r, out), s')" and "length dst \<le> n"
  shows "\<exists>new. out = dst @ new \<and> in_step fd s new s' \<and> (r = 0 \<longrightarrow> length out = n)"
proof -
  define P where "P = (\<lambda>fd' n' dst (s :: 'a io_state_scheme) x. fd' = fd \<and> n' = n \<and> length dst \<le> n \<longrightarrow>
    (\<exists>new. snd (fst x) = dst @ new \<and> in_step fd s new (snd x) \<and> (fst (fst x) = (0 :: int) \<longrightarrow> length (snd (fst x)) = n)))"
  have "P fd n dst s ((r, out), s')"
  proof (rule read_from_loop.raw_induct [where P = P, OF _ returns])
    fix loop fd' n' dst x and s :: "'a io_state_scheme"
    assume IH: "\<And>fd n dst s x. loop fd n dst s = Some x \<Longrightarrow> P fd n dst s x"
      and body: "(if length dst < n' then
        (case sys_read fd' (n' - length dst) s of
           (Inr chunk, s') \<Rightarrow> if chunk = [] then Some ((- 1, dst), s') else loop fd' n' (dst @ chunk) s'
         | (Inl errno, s') \<Rightarrow> if errno = EINTR then loop fd' n' dst s' else Some ((int errno, dst), s'))
      else Some ((0, dst), s)) = Some x"
    show "P fd' n' dst s x"
      unfolding P_def
    proof clarify
      assume len: "length dst \<le> n" and eqs: "fd' = fd" "n' = n"
      obtain a s1 where rd: "sys_read fd (n - length dst) s = (a, s1)" by fastforce
      note st = sys_read_step [OF rd]
      show "\<exists>new. snd (fst x) = dst @ new \<and> in_step fd s new (snd x) \<and> (fst (fst x) = 0 \<longrightarrow> length (snd (fst x)) = n)"
      proof (cases "length dst < n")
        case False
        then show ?thesis using body len eqs by auto
      next
        case True
        show ?thesis
        proof (cases a)
          case (Inl e)
          show ?thesis
          proof (cases "e = EINTR")
            case eintr: True
            then have "P fd n dst s1 x" using body True eqs rd Inl IH by simp
            then show ?thesis using len in_step_trans [of fd s "[]" s1] st Inl by (auto simp: P_def)
          next
            case False
            then have "x = ((int e, dst), s1)" using body True eqs rd Inl by simp
            then show ?thesis using st Inl by auto
          qed
        next
          case (Inr chunk)
          show ?thesis
          proof (cases "chunk = []")
            case eof: True
            then have "x = ((- 1, dst), s1)" using body True eqs rd Inr by simp
            then show ?thesis using st Inr eof by auto
          next
            case False
            then have "P fd n (dst @ chunk) s1 x" using body True eqs rd Inr IH by simp
            then show ?thesis using st Inr True by (auto simp: P_def intro: in_step_trans)
          qed
        qed
      qed
    qed
  qed
  then show ?thesis using assms(2) by (simp add: P_def)
qed

lemma read_from_contract:
  "read_from fd n s = Some ((r, bs), s') \<Longrightarrow> in_step fd s bs s' \<and> (r = 0 \<longrightarrow> length bs = n)"
  using read_from_loop_contract [of fd n "[]" s r bs s'] by (simp add: read_from_def)

text \<open>The sending side: what was sent grows by a prefix of the message.\<close>

definition out_step :: "nat \<Rightarrow> 'z io_state_scheme \<Rightarrow> u8 list \<Rightarrow> 'z io_state_scheme \<Rightarrow> bool" where
  "out_step fd s bs s' \<longleftrightarrow> out_data s' = (out_data s)(fd := out_data s fd @ bs) \<and>
     in_data s' = in_data s \<and> io_rest s' = io_rest s"

lemma out_step_refl [simp]: "out_step fd s [] s"
  by (simp add: out_step_def)

lemma out_step_trans: "out_step fd s bs s' \<Longrightarrow> out_step fd s' cs s'' \<Longrightarrow> out_step fd s (bs @ cs) s''"
  by (simp add: out_step_def)

lemma sys_write_step:
  assumes "sys_write fd bs s = (r, s')" and "bs \<noteq> []"
  shows "case r of Inr n \<Rightarrow> out_step fd s (take n bs) s' \<and> 0 < n \<and> n \<le> length bs | Inl e \<Rightarrow> out_step fd s [] s' \<and> e \<noteq> 0"
  using assms by (auto simp: sys_write_def sys_call_def out_step_def Let_def split: sysret.splits)

lemma write_to_loop_contract:
  fixes s :: "'a io_state_scheme"
  assumes returns: "write_to_loop fd bs s = Some (r, s')"
  shows "\<exists>k\<le>length bs. out_step fd s (take k bs) s' \<and> (r = 0 \<longrightarrow> k = length bs)"
proof -
  define P where "P = (\<lambda>fd' bs (s :: 'a io_state_scheme) x. fd' = fd \<longrightarrow>
    (\<exists>k\<le>length bs. out_step fd s (take k bs) (snd x) \<and> (fst x = (0 :: nat) \<longrightarrow> k = length bs)))"
  have "P fd bs s (r, s')"
  proof (rule write_to_loop.raw_induct [where P = P, OF _ returns])
    fix loop fd' bs x and s :: "'a io_state_scheme"
    assume IH: "\<And>fd bs s x. loop fd bs s = Some x \<Longrightarrow> P fd bs s x"
      and body: "(if bs \<noteq> [] then
        (case sys_write fd' bs s of
           (Inr n, s') \<Rightarrow> loop fd' (drop n bs) s'
         | (Inl errno, s') \<Rightarrow> if errno = EINTR then loop fd' bs s' else Some (errno, s'))
      else Some (0, s)) = Some x"
    show "P fd' bs s x"
      unfolding P_def
    proof
      assume [simp]: "fd' = fd"
      show "\<exists>k\<le>length bs. out_step fd s (take k bs) (snd x) \<and> (fst x = 0 \<longrightarrow> k = length bs)"
      proof (cases "bs = []")
        case True
        then show ?thesis using body by auto
      next
        case False
        obtain a s1 where wr: "sys_write fd bs s = (a, s1)" by fastforce
        note st = sys_write_step [OF wr False]
        show ?thesis
        proof (cases a)
          case (Inl e)
          then have "P fd bs s1 x \<or> x = (e, s1)"
            using body False wr IH by (auto split: if_splits)
          then show ?thesis
            using st Inl by (auto simp: P_def out_step_def)
        next
          case (Inr n)
          then have "P fd (drop n bs) s1 x"
            using body False wr IH by simp
          then obtain k where k: "k \<le> length bs - n" "out_step fd s1 (take k (drop n bs)) (snd x)"
              "fst x = 0 \<longrightarrow> k = length bs - n"
            by (auto simp: P_def)
          have "out_step fd s (take n bs @ take k (drop n bs)) (snd x)" and n: "n \<le> length bs"
            using st Inr k(2) by (auto intro: out_step_trans)
          then have "out_step fd s (take (n + k) bs) (snd x)" by (simp add: take_add)
          then show ?thesis using k n by (intro exI [of _ "n + k"]) auto
        qed
      qed
    qed
  qed
  then show ?thesis by (simp add: P_def)
qed

lemma handle_pipe_write_failure_step: "out_step fd s [] (handle_pipe_write_failure s)"
  by (simp add: handle_pipe_write_failure_def sys_call_def out_step_def split: sysret.splits)

lemma write_to_contract:
  assumes "write_to fd bs s = Some (r, s')"
  shows "\<exists>k\<le>length bs. out_step fd s (take k bs) s' \<and> (r = 0 \<longrightarrow> k = length bs)"
proof -
  obtain s1 where l: "write_to_loop fd bs s = Some (r, s1)"
    and s': "s' = (if r = EPIPE then handle_pipe_write_failure s1 else s1)"
    using assms by (auto simp: write_to_def split: option.splits)
  have "out_step fd s1 [] s'"
    by (simp add: s' handle_pipe_write_failure_step)
  then show ?thesis
    using write_to_loop_contract [OF l] out_step_trans by fastforce
qed

subsection \<open>The stream interface\<close>

text \<open>
  What the message layer relies on. A receive that succeeds delivers the next bytes, all of
  them, and nothing is lost or taken twice; a send that succeeds appends the whole message;
  a failed one appends a prefix. The number of system calls a transfer takes is not visible.
\<close>

locale byte_stream =
  fixes recv :: "nat \<Rightarrow> nat \<Rightarrow> 's \<Rightarrow> ((int \<times> u8 list) \<times> 's) option"
    and send :: "nat \<Rightarrow> u8 list \<Rightarrow> 's \<Rightarrow> (nat \<times> 's) option"
    and pending :: "'s \<Rightarrow> nat \<Rightarrow> u8 list"
    and sent :: "'s \<Rightarrow> nat \<Rightarrow> u8 list"
  assumes recv_takes: "recv fd n s = Some ((r, bs), s') \<Longrightarrow> pending s fd = bs @ pending s' fd"
    and recv_full: "recv fd n s = Some ((0, bs), s') \<Longrightarrow> length bs = n"
    and recv_sent: "recv fd n s = Some ((r, bs), s') \<Longrightarrow> sent s' = sent s"
    and send_full: "send fd bs s = Some (0, s') \<Longrightarrow> sent s' fd = sent s fd @ bs"
    and send_prefix: "send fd bs s = Some (e, s') \<Longrightarrow> \<exists>k. sent s' fd = sent s fd @ take k bs"
    and send_pending: "send fd bs s = Some (e, s') \<Longrightarrow> pending s' = pending s"
begin

lemma recv_take:
  assumes "recv fd n s = Some ((0, bs), s')"
  shows "bs = take n (pending s fd)" and "pending s' fd = drop n (pending s fd)"
  using recv_takes [OF assms] recv_full [OF assms] by simp_all

text \<open>Two receives in a row deliver what one receive of both sizes would.\<close>

lemma recv_recv:
  assumes "recv fd n s = Some ((0, bs), s1)" and "recv fd m s1 = Some ((0, cs), s2)"
  shows "bs @ cs = take (n + m) (pending s fd)" and "pending s2 fd = drop (n + m) (pending s fd)"
  using recv_take [OF assms(1)] recv_take [OF assms(2)] by (simp_all add: take_add drop_drop add.commute [of m n])

lemma send_send:
  assumes "send fd bs s = Some (0, s1)" and "send fd cs s1 = Some (0, s2)"
  shows "sent s2 fd = sent s fd @ bs @ cs"
  using send_full [OF assms(1)] send_full [OF assms(2)] by simp

end

interpretation stream: byte_stream read_from write_to in_data out_data
proof unfold_locales
  fix fd n s r bs and s' :: "'a io_state_scheme"
  show "read_from fd n s = Some ((r, bs), s') \<Longrightarrow> in_data s fd = bs @ in_data s' fd"
    by (drule read_from_contract) (auto simp: in_step_def)
  show "read_from fd n s = Some ((0, bs), s') \<Longrightarrow> length bs = n"
    by (drule read_from_contract) simp
  show "read_from fd n s = Some ((r, bs), s') \<Longrightarrow> out_data s' = out_data s"
    by (drule read_from_contract) (auto simp: in_step_def)
next
  fix fd bs s r and s' :: "'a io_state_scheme"
  show "write_to fd bs s = Some (0, s') \<Longrightarrow> out_data s' fd = out_data s fd @ bs"
    by (drule write_to_contract) (auto simp: out_step_def)
  show "write_to fd bs s = Some (r, s') \<Longrightarrow> \<exists>k. out_data s' fd = out_data s fd @ take k bs"
    by (drule write_to_contract) (metis fun_upd_same out_step_def)
  show "write_to fd bs s = Some (r, s') \<Longrightarrow> in_data s' = in_data s"
    by (drule write_to_contract) (auto simp: out_step_def)
qed

section \<open>Items of a stream\<close>

text \<open>
  The next item of a byte list, found the way the reader asks for it: one byte first, then
  as many as the decoder requires.
\<close>

datatype item_read = Item cbor_event "u8 list" | Short | Malformed

function next_item :: "env \<Rightarrow> u8 list \<Rightarrow> nat \<Rightarrow> item_read" where
  "next_item E bs n =
     (if length bs < n then Short
      else (case env_cbor_decode E (take n bs) of
        CBOR_DECODER_ERROR \<Rightarrow> Malformed
      | CBOR_DECODER_NEDATA m \<Rightarrow> if n < m then next_item E bs m else Malformed
      | CBOR_DECODER_FINISHED ev \<Rightarrow> Item ev (drop n bs)))"
  by pat_completeness auto

termination
  by (relation "measure (\<lambda>(E, bs, n). Suc (length bs) - n)") auto

declare next_item.simps [simp del]

text \<open>The first items of a stream, and what follows them.\<close>

primrec stream_items :: "env \<Rightarrow> u8 list \<Rightarrow> cbor_event list \<Rightarrow> u8 list \<Rightarrow> bool" where
  "stream_items E bs [] rest \<longleftrightarrow> bs = rest"
| "stream_items E bs (ev # evs) rest \<longleftrightarrow> (\<exists>r. next_item E bs 1 = Item ev r \<and> stream_items E r evs rest)"

lemma stream_items_append:
  "stream_items E bs (evs @ evs') rest \<longleftrightarrow> (\<exists>r. stream_items E bs evs r \<and> stream_items E r evs' rest)"
  by (induction evs arbitrary: bs) auto

lemma sys_always_ok_call: "sys_always_ok s \<Longrightarrow> sys_call s = (r, s') \<Longrightarrow> \<not> sys_failed r \<and> s' = s\<lparr>sys_count := Suc (sys_count s)\<rparr>"
  by (auto simp: sys_call_def sys_always_ok_def)

lemma sys_always_ok_upd [simp]:
  "sys_always_ok (s\<lparr>sys_count := c\<rparr>) = sys_always_ok s"
  "sys_always_ok (udi_set_errmsg E fmt args (t :: 'z msg_state_scheme)) = sys_always_ok t"
  by (simp_all add: sys_always_ok_def)

lemma sys_always_ok_io [simp]:
  "sys_always_ok (s\<lparr>in_data := i\<rparr>) = sys_always_ok s"
  "sys_always_ok (s\<lparr>out_data := x\<rparr>) = sys_always_ok s"
  by (simp_all add: sys_always_ok_def)

lemma io_upd_order [simp]:
  "s\<lparr>in_data := i, sys_count := c\<rparr> = s\<lparr>sys_count := c, in_data := i\<rparr>"
  "s\<lparr>out_data := x, sys_count := c\<rparr> = s\<lparr>sys_count := c, out_data := x\<rparr>"
  by (cases s, simp)+

lemma read_items_done: "is_done st \<Longrightarrow> read_items_loop E fd cb st True buf mx n s = Some ((0, st), s)"
  by (simp add: read_items_loop.simps)

text \<open>One turn of the loop, when the stream has the bytes it asks for.\<close>

lemma read_items_turn:
  assumes ok: "sys_always_ok s" and nd: "\<not> (is_done st \<and> cd)" and buf: "length buf < n"
    and len: "n \<le> length (buf @ in_data s fd)"
  obtains s2 c where "s2 = s\<lparr>sys_count := c, in_data := (in_data s)(fd := drop n (buf @ in_data s fd))\<rparr>"
    and "read_items_loop E fd cb st cd buf mx n s =
    (case env_cbor_decode E (take n (buf @ in_data s fd)) of
       CBOR_DECODER_ERROR \<Rightarrow> Some ((- 1, st), udi_set_errmsg E ''failed to decode CBOR data'' [] s2)
     | CBOR_DECODER_NEDATA required \<Rightarrow>
         read_items_loop E fd cb st False (take n (buf @ in_data s fd)) (max mx n) required s2
     | CBOR_DECODER_FINISHED ev \<Rightarrow>
         (case cb ev st s2 of (st, s) \<Rightarrow> read_items_loop E fd cb st True [] (max mx n) 1 s))"
proof -
  define k where "k = (if mx < n then Suc (sys_count s) else sys_count s)"
  let ?s1 = "s\<lparr>sys_count := k\<rparr>"
  have alloc: "(if n > mx then (case sys_call s of (r, s) \<Rightarrow> (\<not> sys_failed r, s)) else (True, s)) = (True, ?s1)"
    using ok by (auto simp: k_def sys_call_def sys_always_ok_def)
  have "n - length buf \<le> length (in_data ?s1 fd)" "sys_always_ok ?s1" using len ok by auto
  from read_from_ok [OF this(2,1)] obtain c where rd: "read_from fd (n - length buf) ?s1 =
      Some ((0, take (n - length buf) (in_data s fd)),
        s\<lparr>sys_count := c, in_data := (in_data s)(fd := drop (n - length buf) (in_data s fd))\<rparr>)"
    by auto
  have "buf @ take (n - length buf) (in_data s fd) = take n (buf @ in_data s fd)"
    "drop (n - length buf) (in_data s fd) = drop n (buf @ in_data s fd)"
    using buf by simp_all
  note rd' = rd [unfolded this(2)] and app = this(1)
  show thesis
  proof (rule that [OF refl])
    show "read_items_loop E fd cb st cd buf mx n s =
      (case env_cbor_decode E (take n (buf @ in_data s fd)) of
         CBOR_DECODER_ERROR \<Rightarrow> Some ((- 1, st), udi_set_errmsg E ''failed to decode CBOR data'' []
           (s\<lparr>sys_count := c, in_data := (in_data s)(fd := drop n (buf @ in_data s fd))\<rparr>))
       | CBOR_DECODER_NEDATA required \<Rightarrow>
           read_items_loop E fd cb st False (take n (buf @ in_data s fd)) (max mx n) required
             (s\<lparr>sys_count := c, in_data := (in_data s)(fd := drop n (buf @ in_data s fd))\<rparr>)
       | CBOR_DECODER_FINISHED ev \<Rightarrow>
           (case cb ev st (s\<lparr>sys_count := c, in_data := (in_data s)(fd := drop n (buf @ in_data s fd))\<rparr>) of
              (st, s) \<Rightarrow> read_items_loop E fd cb st True [] (max mx n) 1 s))"
      using nd buf
      by (subst read_items_loop.simps, subst alloc) (simp only: if_False prod.case rd' option.case app, simp)
  qed
qed

text \<open>
  One item: the loop reaches its callback with the item's bytes consumed, however many
  system calls that took.
\<close>

lemma read_items_grow:
  assumes "sys_always_ok s" and "\<not> (is_done st \<and> cd)" and "length buf < n"
    and "next_item E (buf @ in_data s fd) n = Item ev rest"
  shows "\<exists>c mx'. read_items_loop E fd cb st cd buf mx n s =
    (case cb ev st (s\<lparr>sys_count := c, in_data := (in_data s)(fd := rest)\<rparr>) of (st', s') \<Rightarrow>
       read_items_loop E fd cb st' True [] mx' 1 s')"
  using assms
proof (induction E "buf @ in_data s fd" n arbitrary: buf s cd mx rule: next_item.induct)
  case (1 E n)
  let ?bs = "buf @ in_data s fd"
  have len: "n \<le> length ?bs"
    using 1(5) by (auto simp: next_item.simps [of E ?bs n] split: if_splits)
  obtain s2 c where s2: "s2 = s\<lparr>sys_count := c, in_data := (in_data s)(fd := drop n ?bs)\<rparr>"
    and step: "read_items_loop E fd cb st cd buf mx n s =
    (case env_cbor_decode E (take n ?bs) of
       CBOR_DECODER_ERROR \<Rightarrow> Some ((- 1, st), udi_set_errmsg E ''failed to decode CBOR data'' [] s2)
     | CBOR_DECODER_NEDATA required \<Rightarrow> read_items_loop E fd cb st False (take n ?bs) (max mx n) required s2
     | CBOR_DECODER_FINISHED ev \<Rightarrow>
         (case cb ev st s2 of (st, s) \<Rightarrow> read_items_loop E fd cb st True [] (max mx n) 1 s))"
    by (rule read_items_turn [OF 1(2-4) len])
  show ?case
  proof (cases "env_cbor_decode E (take n ?bs)")
    case CBOR_DECODER_ERROR
    then show ?thesis using 1(5) len by (simp add: next_item.simps [of E ?bs n])
  next
    case (CBOR_DECODER_NEDATA m)
    have nm: "n < m" and nx: "next_item E ?bs m = Item ev rest"
      using 1(5) len CBOR_DECODER_NEDATA by (auto simp: next_item.simps [of E ?bs n] split: if_splits)
    have bs: "?bs = take n ?bs @ in_data s2 fd"
      unfolding s2 by (simp del: take_append drop_append)
    have ok: "sys_always_ok s2" unfolding s2 using 1(2) by simp
    have "\<exists>c mx'. read_items_loop E fd cb st False (take n ?bs) (max mx n) m s2 =
        (case cb ev st (s2\<lparr>sys_count := c, in_data := (in_data s2)(fd := rest)\<rparr>) of (st', s') \<Rightarrow>
           read_items_loop E fd cb st' True [] mx' 1 s')"
      by (rule 1(1) [OF _ CBOR_DECODER_NEDATA nm bs ok]) (use len nm nx bs [symmetric] in \<open>simp_all del: take_append\<close>)
    then show ?thesis using step CBOR_DECODER_NEDATA s2 by simp
  next
    case (CBOR_DECODER_FINISHED e)
    have "e = ev" "rest = drop n ?bs"
      using 1(5) len CBOR_DECODER_FINISHED by (auto simp: next_item.simps [of E ?bs n] split: if_splits)
    then show ?thesis using step CBOR_DECODER_FINISHED s2 by auto
  qed
qed

lemma read_items_step:
  assumes "sys_always_ok s" and "\<not> (is_done st \<and> cd)" and "next_item E (in_data s fd) 1 = Item ev rest"
  shows "\<exists>c mx'. read_items_loop E fd cb st cd [] mx 1 s =
    (case cb ev st (s\<lparr>sys_count := c, in_data := (in_data s)(fd := rest)\<rparr>) of (st', s') \<Rightarrow>
       read_items_loop E fd cb st' True [] mx' 1 s')"
  using read_items_grow [of s st cd "[]" 1 E fd ev rest cb mx] assms by simp

section \<open>Requests\<close>

subsection \<open>Keys\<close>

text \<open>A CBOR string without a null byte matches a key exactly when it is a prefix of it.\<close>

lemma strncmp_eq_prefix:
  "0 \<notin> set data \<Longrightarrow> strncmp_eq data ks \<longleftrightarrow> (\<exists>zs. ks = data @ zs)"
proof (induction data ks rule: strncmp_eq.induct)
  case (3 d ds k ks)
  then show ?case by auto
qed auto

lemma find_item_Some:
  "find_item data its i = Some j \<Longrightarrow>
     i \<le> j \<and> j - i < length its \<and> strncmp_eq data (bytes_of (key (its ! (j - i)))) \<and>
     (\<forall>l<j - i. \<not> strncmp_eq data (bytes_of (key (its ! l))))"
proof (induction its arbitrary: i)
  case (Cons it its)
  show ?case
  proof (cases "strncmp_eq data (bytes_of (key it))")
    case False
    then have "find_item data its (Suc i) = Some j" using Cons.prems by simp
    note IH = Cons.IH [OF this]
    then obtain d where "j = Suc (i + d)" by (metis Suc_le_D add_Suc le_Suc_ex)
    then show ?thesis using IH False by (auto simp: less_Suc_eq_0_disj)
  qed (use Cons.prems in simp)
qed simp

subsection \<open>Reading a map of fields\<close>

type_synonym 'd field = "string \<times> cbor_event \<times> ('d \<Rightarrow> 'd)"

definition accepts :: "('d, 'z io_state_scheme) msg_config \<Rightarrow> nat \<Rightarrow> cbor_event \<Rightarrow> ('d \<Rightarrow> 'd) \<Rightarrow> bool" where
  "accepts config i ev f \<longleftrightarrow>
     (\<forall>st s. sys_always_ok s \<longrightarrow>
        (\<exists>c. callbacks (items config ! i) ev st s = (complete_item (num_items config) (set_data f st), s\<lparr>sys_count := c\<rparr>)))"

text \<open>A field that the configuration knows: its key selects an item that takes its value.\<close>

definition field_ok :: "('d, 'z io_state_scheme) msg_config \<Rightarrow> 'd field \<Rightarrow> bool" where
  "field_ok config = (\<lambda>(k, ev, f). \<exists>i.
     find_item (bytes_of k) (take (num_items config) (items config)) 0 = Some i \<and> accepts config i ev f)"

definition field_events :: "'d field \<Rightarrow> cbor_event list" where
  "field_events = (\<lambda>(k, ev, f). [Ev_string (bytes_of k), ev])"

definition field_data :: "'d field list \<Rightarrow> 'd \<Rightarrow> 'd" where
  "field_data = fold (\<lambda>(k, ev, f) d. f d)"

lemma request_value:
  assumes "\<not> rd_error (ctx st)" and "current_item (ctx st) = Some i"
  shows "request_callbacks E config ev st s = callbacks (items config ! i) ev st s"
  using assms
  by (auto simp: request_callbacks_def request_data_map_start_def request_data_string_def item_callbacks_def
      check_state_def split: cbor_event.splits)

lemma request_key:
  assumes "\<not> rd_error (ctx st)" and "current_item (ctx st) = None"
    and "find_item data (take (num_items config) (items config)) 0 = Some i"
  shows "request_callbacks E config (Ev_string data) st s =
    (st\<lparr>ctx := (ctx st)\<lparr>current_item := Some i\<rparr>\<rparr>, s)"
  using assms by (simp add: request_callbacks_def request_data_string_def)

lemma request_map:
  assumes "\<not> rd_error (ctx st)" and "current_item (ctx st) = None" and "num_items config = unat len"
  shows "request_callbacks E config (Ev_map_start len) st s = (st, s)"
  using assms by (simp add: request_callbacks_def request_data_map_start_def)

lemma acceptsD:
  "accepts config i ev f \<Longrightarrow> sys_always_ok s \<Longrightarrow>
     \<exists>c. callbacks (items config ! i) ev st s = (complete_item (num_items config) (set_data f st), s\<lparr>sys_count := c\<rparr>)"
  by (simp add: accepts_def)

lemma read_field:
  assumes ok: "sys_always_ok s" and field: "field_ok config (k, ev, f)"
    and nd: "\<not> rd_error (ctx st)" "current_item (ctx st) = None" "\<not> is_done st"
    and items: "stream_items E (in_data s fd) [Ev_string (bytes_of k), ev] rest"
  shows "\<exists>c mx'. read_items_loop E fd (request_callbacks E config) st cd [] mx 1 s =
    read_items_loop E fd (request_callbacks E config)
      (complete_item (num_items config) (set_data f st)) True [] mx' 1
      (s\<lparr>sys_count := c, in_data := (in_data s)(fd := rest)\<rparr>)"
proof -
  let ?cb = "request_callbacks E config"
  obtain i where key: "find_item (bytes_of k) (take (num_items config) (items config)) 0 = Some i"
    and acc: "accepts config i ev f"
    using field by (auto simp: field_ok_def)
  obtain r1 where r1: "next_item E (in_data s fd) 1 = Item (Ev_string (bytes_of k)) r1"
    and r2: "next_item E r1 1 = Item ev rest"
    using items by auto
  let ?st1 = "st\<lparr>ctx := (ctx st)\<lparr>current_item := Some i\<rparr>\<rparr>"
  obtain c1 m1 where s1: "read_items_loop E fd ?cb st cd [] mx 1 s =
      read_items_loop E fd ?cb ?st1 True [] m1 1 (s\<lparr>sys_count := c1, in_data := (in_data s)(fd := r1)\<rparr>)"
    using read_items_step [OF ok _ r1, of st cd ?cb mx] key nd by (auto simp: request_key)
  let ?s1 = "s\<lparr>sys_count := c1, in_data := (in_data s)(fd := r1)\<rparr>"
  have "sys_always_ok ?s1" "next_item E (in_data ?s1 fd) 1 = Item ev rest" "\<not> (is_done ?st1 \<and> True)"
    using ok r2 nd by simp_all
  from read_items_step [OF this(1,3,2), of ?cb m1] obtain c2 m2 where s2:
    "read_items_loop E fd ?cb ?st1 True [] m1 1 ?s1 =
      (case ?cb ev ?st1 (s\<lparr>sys_count := c2, in_data := (in_data s)(fd := rest)\<rparr>) of (st', s') \<Rightarrow>
         read_items_loop E fd ?cb st' True [] m2 1 s')"
    by auto
  have "?cb ev ?st1 t = callbacks (items config ! i) ev ?st1 t" for t
    using nd by (intro request_value) simp_all
  moreover have "sys_always_ok (s\<lparr>sys_count := c2, in_data := (in_data s)(fd := rest)\<rparr>)" using ok by simp
  from acceptsD [OF acc this, of ?st1] obtain c3 where
    "callbacks (items config ! i) ev ?st1 (s\<lparr>sys_count := c2, in_data := (in_data s)(fd := rest)\<rparr>) =
      (complete_item (num_items config) (set_data f ?st1), s\<lparr>sys_count := c3, in_data := (in_data s)(fd := rest)\<rparr>)"
    by auto
  moreover have "complete_item (num_items config) (set_data f ?st1) = complete_item (num_items config) (set_data f st)"
    by (simp add: complete_item_def set_data_def)
  ultimately show ?thesis using s1 s2 by auto
qed

lemma read_fields:
  assumes "sys_always_ok s" and "\<forall>fl \<in> set fls. field_ok config fl" and "fls \<noteq> []"
    and "m + length fls = num_items config"
    and "stream_items E (in_data s fd) (concat (map field_events fls)) rest"
  shows "\<exists>c. read_items_loop E fd (request_callbacks E config)
      \<lparr>ctx = \<lparr>current_item = None, item_count = m, rd_error = False, rd_data = d\<rparr>, is_done = False\<rparr> cd [] mx 1 s =
    Some ((0, \<lparr>ctx = \<lparr>current_item = None, item_count = num_items config, rd_error = False,
                 rd_data = field_data fls d\<rparr>, is_done = True\<rparr>),
          s\<lparr>sys_count := c, in_data := (in_data s)(fd := rest)\<rparr>)"
  using assms
proof (induction fls arbitrary: m d s cd mx)
  case (Cons fl fls)
  obtain k ev f where fl: "fl = (k, ev, f)" by (cases fl)
  let ?st = "\<lparr>ctx = \<lparr>current_item = None, item_count = m, rd_error = False, rd_data = d\<rparr>, is_done = False\<rparr>"
  obtain r where r: "stream_items E (in_data s fd) [Ev_string (bytes_of k), ev] r"
    and rest: "stream_items E r (concat (map field_events fls)) rest"
    using Cons.prems(5) fl by (auto simp: field_events_def)
  have "field_ok config (k, ev, f)" using Cons.prems(2) fl by simp
  from read_field [OF Cons.prems(1) this _ _ _ r, of ?st cd mx] obtain c mx' where
    loop: "read_items_loop E fd (request_callbacks E config) ?st cd [] mx 1 s =
      read_items_loop E fd (request_callbacks E config) (complete_item (num_items config) (set_data f ?st)) True [] mx' 1
        (s\<lparr>sys_count := c, in_data := (in_data s)(fd := r)\<rparr>)"
    by auto
  have st: "complete_item (num_items config) (set_data f ?st) = \<lparr>ctx = \<lparr>current_item = None, item_count = Suc m,
      rd_error = False, rd_data = f d\<rparr>, is_done = (num_items config \<le> Suc m)\<rparr>"
    by (simp add: complete_item_def set_data_def)
  show ?case
  proof (cases "fls = []")
    case True
    then have r: "r = rest" and m: "Suc m = num_items config" using rest Cons.prems(4) by simp_all
    show ?thesis
      unfolding loop st r m fl True by (subst read_items_done) (auto simp: field_data_def)
  next
    case False
    let ?s = "s\<lparr>sys_count := c, in_data := (in_data s)(fd := r)\<rparr>"
    have prems: "sys_always_ok ?s" "\<forall>fl \<in> set fls. field_ok config fl" "Suc m + length fls = num_items config"
      "stream_items E (in_data ?s fd) (concat (map field_events fls)) rest"
      using Cons.prems rest by simp_all
    have nd: "(num_items config \<le> Suc m) = False" using Cons.prems(4) False by (cases fls) auto
    have data: "field_data (fl # fls) d = field_data fls (f d)" using fl by (simp add: field_data_def)
    obtain c' where "read_items_loop E fd (request_callbacks E config) \<lparr>ctx = \<lparr>current_item = None, item_count = Suc m,
        rd_error = False, rd_data = f d\<rparr>, is_done = False\<rparr> True [] mx' 1 ?s =
      Some ((0, \<lparr>ctx = \<lparr>current_item = None, item_count = num_items config, rd_error = False,
                 rd_data = field_data fls (f d)\<rparr>, is_done = True\<rparr>),
          ?s\<lparr>sys_count := c', in_data := (in_data ?s)(fd := rest)\<rparr>)"
      using Cons.IH [OF prems(1,2) False prems(3,4)] by blast
    also have "?s\<lparr>sys_count := c', in_data := (in_data ?s)(fd := rest)\<rparr> =
        s\<lparr>sys_count := c', in_data := (in_data s)(fd := rest)\<rparr>" by simp
    finally show ?thesis unfolding loop st nd data by (rule exI)
  qed
qed simp

lemma read_request_data_ok:
  assumes "sys_always_ok s" and "\<forall>fl \<in> set fls. field_ok config fl" and "fls \<noteq> []"
    and "length fls = num_items config" and "num_items config = unat len"
    and "stream_items E (in_data s fd) (Ev_map_start len # concat (map field_events fls)) rest"
  shows "\<exists>c. read_request_data E fd config d s =
    Ret ((RESULT_SUCCESS, field_data fls d), s\<lparr>sys_count := c, in_data := (in_data s)(fd := rest)\<rparr>)"
proof -
  let ?cb = "request_callbacks E config"
  let ?st = "\<lparr>ctx = \<lparr>current_item = None, item_count = 0, rd_error = False, rd_data = d\<rparr>, is_done = False\<rparr>"
  obtain r where r: "next_item E (in_data s fd) 1 = Item (Ev_map_start len) r"
    and rest: "stream_items E r (concat (map field_events fls)) rest"
    using assms(6) by auto
  obtain c mx where l: "read_items_loop E fd ?cb ?st False [] 0 1 s =
      read_items_loop E fd ?cb ?st True [] mx 1 (s\<lparr>sys_count := c, in_data := (in_data s)(fd := r)\<rparr>)"
    using read_items_step [OF assms(1) _ r, of ?st False ?cb 0] assms(5) by (auto simp: request_map)
  let ?s = "s\<lparr>sys_count := c, in_data := (in_data s)(fd := r)\<rparr>"
  have "sys_always_ok ?s" "stream_items E (in_data ?s fd) (concat (map field_events fls)) rest" "0 + length fls = num_items config"
    using assms rest by simp_all
  from read_fields [OF this(1) assms(2,3) this(3,2), of d True mx] l
  show ?thesis
    by (auto simp: read_request_data_def read_cbor_items_def)
qed

subsection \<open>Frames and endless reading\<close>

text \<open>
  Callbacks that keep an invariant of their own state and leave everything but the message
  and the system calls alone.
\<close>

definition quiet_callbacks ::
    "('c cbor_read_state \<Rightarrow> bool) \<Rightarrow>
     (cbor_event \<Rightarrow> 'c cbor_read_state \<Rightarrow> 'z io_state_scheme \<Rightarrow> 'c cbor_read_state \<times> 'z io_state_scheme) \<Rightarrow> bool" where
  "quiet_callbacks Inv cb \<longleftrightarrow> (\<forall>ev st s. Inv st \<longrightarrow> Inv (fst (cb ev st s)) \<and> io_rest (snd (cb ev st s)) = io_rest s \<and>
     in_data (snd (cb ev st s)) = in_data s \<and> out_data (snd (cb ev st s)) = out_data s)"

text \<open>What reading a request may do to the state: consume bytes of its own descriptor.\<close>

definition consumed :: "nat \<Rightarrow> 'z io_state_scheme \<Rightarrow> 'z io_state_scheme \<Rightarrow> bool" where
  "consumed fd s s' \<longleftrightarrow> (\<exists>bs. in_data s fd = bs @ in_data s' fd) \<and> (\<forall>g. g \<noteq> fd \<longrightarrow> in_data s' g = in_data s g) \<and>
     out_data s' = out_data s \<and> io_rest s' = io_rest s"

lemma consumed_refl [simp]: "consumed fd s s"
  by (simp add: consumed_def)

lemma consumed_trans: "consumed fd s s' \<Longrightarrow> consumed fd s' s'' \<Longrightarrow> consumed fd s s''"
  by (auto simp: consumed_def)

lemma consumed_errmsg [simp]: "consumed fd s (udi_set_errmsg E fmt args s') = consumed fd s s'"
  by (simp add: consumed_def udi_set_errmsg_def)

lemma consumed_count [simp]: "consumed fd s (s'\<lparr>sys_count := c\<rparr>) = consumed fd s s'"
  by (simp add: consumed_def)

lemma in_step_consumed: "in_step fd s bs s' \<Longrightarrow> consumed fd s s'"
  by (auto simp: in_step_def consumed_def)

text \<open>
  The proof rule of the reading loop: a property of the callback state that the callbacks
  keep, with the frame of the state, holds when the loop returns; and a loop that can never
  be done only returns an error.
\<close>

abbreviation (input) read_items_body where
  "read_items_body loop E fd cb st cd buf mx n s \<equiv>
     (if is_done st \<and> cd then Some ((0, st), s)
      else (case (if n > mx then (case sys_call s of (r, s) \<Rightarrow> (\<not> sys_failed r, s)) else (True, s)) of
        (ok, s) \<Rightarrow>
          if \<not> ok then Some ((- 1, st), udi_set_errmsg E ''failed to allocate memory'' [] s)
          else if n < length buf then None
          else (case read_from fd (n - length buf) s of
            None \<Rightarrow> None
          | Some ((result, bytes), s) \<Rightarrow>
              if result < 0
              then Some ((result, st),
                     udi_set_errmsg E ''failed to read CBOR data due to unexpected end-of-file'' [] s)
              else if result > 0
              then Some ((result, st), udi_set_errmsg E ''failed to read CBOR data: %e'' [ArgInt result] s)
              else (case env_cbor_decode E (buf @ bytes) of
                CBOR_DECODER_ERROR \<Rightarrow> Some ((- 1, st), udi_set_errmsg E ''failed to decode CBOR data'' [] s)
              | CBOR_DECODER_NEDATA required \<Rightarrow>
                  loop E fd cb st False (buf @ bytes) (max mx n) required s
              | CBOR_DECODER_FINISHED ev \<Rightarrow>
                  (case cb ev st s of (st, s) \<Rightarrow>
                     loop E fd cb st True [] (max mx n) 1 s)))))"

lemma read_items_body_cases:
  assumes body: "read_items_body loop E fd cb st cd buf mx n s = Some x"
    and quiet: "quiet_callbacks Inv cb" and inv: "Inv st"
  obtains (finished) "x = ((0, st), s)" "is_done st"
  | (failed) r t where "x = ((r, st), t)" "r \<noteq> 0" "consumed fd s t"
  | (more_data) b m k t where "loop E fd cb st False b m k t = Some x" "consumed fd s t"
  | (item) ev t m st' t' where "cb ev st t = (st', t')" "loop E fd cb st' True [] m 1 t' = Some x" "consumed fd s t'"
      "Inv st'"
proof (cases "is_done st \<and> cd")
  case True
  then show thesis using body finished by simp
next
  case False
  obtain ok s1 where alloc: "(if n > mx then (case sys_call s of (r, s) \<Rightarrow> (\<not> sys_failed r, s)) else (True, s)) = (ok, s1)"
    by fastforce
  then have c1: "consumed fd s s1" by (auto simp: sys_call_def split: if_splits)
  show thesis
  proof (cases "ok \<and> \<not> n < length buf")
    case no: False
    then have "x = ((- 1, st), udi_set_errmsg E ''failed to allocate memory'' [] s1)"
      using body False alloc by (auto split: if_splits)
    then show thesis using c1 failed [of "- 1"] by simp
  next
    case go: True
    then obtain result bytes s2 where rd: "read_from fd (n - length buf) s1 = Some ((result, bytes), s2)"
      using body False alloc by (auto split: option.splits)
    then have c2: "consumed fd s s2"
      using read_from_contract in_step_consumed consumed_trans [OF c1] by blast
    show thesis
    proof (cases "result = 0")
      case bad: False
      then have "\<exists>t. x = ((result, st), t) \<and> consumed fd s t"
        using body False alloc go rd c2 by (auto split: if_splits)
      then show thesis using bad failed by blast
    next
      case zero: True
      show thesis
      proof (cases "env_cbor_decode E (buf @ bytes)")
        case CBOR_DECODER_ERROR
        then have "x = ((- 1, st), udi_set_errmsg E ''failed to decode CBOR data'' [] s2)"
          using body False alloc go rd zero by auto
        then show thesis using c2 failed [of "- 1"] by simp
      next
        case (CBOR_DECODER_NEDATA m)
        then show thesis using body False alloc go rd zero c2 by (intro more_data) auto
      next
        case (CBOR_DECODER_FINISHED ev)
        obtain st' t' where cb: "cb ev st s2 = (st', t')" by fastforce
        have "consumed fd s2 t'" "Inv st'"
          using quiet inv cb unfolding quiet_callbacks_def consumed_def by (metis append_Nil fst_conv snd_conv)+
        then show thesis
          using body False alloc go rd zero cb CBOR_DECODER_FINISHED consumed_trans [OF c2] by (intro item [OF cb]) auto
      qed
    qed
  qed
qed

lemma read_items_rule:
  fixes s :: "'a io_state_scheme" and st :: "'c cbor_read_state"
  assumes returns: "read_items_loop E fd cb st cd buf mx n s = Some x"
    and quiet: "quiet_callbacks Inv cb" and inv: "Inv st"
  shows "consumed fd s (snd x) \<and> Inv (snd (fst x)) \<and> (fst (fst x) = 0 \<longrightarrow> is_done (snd (fst x)))"
proof -
  define P where "P = (\<lambda>E' fd' cb' (st :: 'c cbor_read_state) (cd :: bool) (buf :: u8 list) (mx :: nat) (n :: nat)
      (s :: 'a io_state_scheme) (x :: (int \<times> 'c cbor_read_state) \<times> 'a io_state_scheme).
    E' = E \<and> fd' = fd \<and> cb' = cb \<and> Inv st \<longrightarrow>
    consumed fd s (snd x) \<and> Inv (snd (fst x)) \<and> (fst (fst x) = 0 \<longrightarrow> is_done (snd (fst x))))"
  have "P E fd cb st cd buf mx n s x"
  proof (rule read_items_loop.raw_induct [where P = P, OF _ returns])
    fix loop E' fd' cb' st cd buf mx n x and s :: "'a io_state_scheme"
    assume IH: "\<And>E fd cb st cd buf mx n s x. loop E fd cb st cd buf mx n s = Some x \<Longrightarrow> P E fd cb st cd buf mx n s x"
      and body: "read_items_body loop E' fd' cb' st cd buf mx n s = Some x"
    show "P E' fd' cb' st cd buf mx n s x"
      unfolding P_def
    proof (rule impI)
      assume eqs: "E' = E \<and> fd' = fd \<and> cb' = cb \<and> Inv st"
      note body = body [unfolded eqs [THEN conjunct1] eqs [THEN conjunct2, THEN conjunct1]
          eqs [THEN conjunct2, THEN conjunct2, THEN conjunct1]]
      show "consumed fd s (snd x) \<and> Inv (snd (fst x)) \<and> (fst (fst x) = 0 \<longrightarrow> is_done (snd (fst x)))"
      proof (rule read_items_body_cases [where loop = loop, OF body quiet])
        show "Inv st" using eqs by simp
      next
        assume "x = ((0, st), s)" "is_done st"
        then show ?thesis using eqs by simp
      next
        fix r t
        assume "x = ((r, st), t)" "r \<noteq> 0" "consumed fd s t"
        then show ?thesis using eqs by simp
      next
        fix b m k t
        assume "loop E fd cb st False b m k t = Some x" "consumed fd s t"
        then show ?thesis using IH eqs consumed_trans unfolding P_def by blast
      next
        fix ev t m st' t'
        assume "cb ev st t = (st', t')" "loop E fd cb st' True [] m 1 t' = Some x" "consumed fd s t'" "Inv st'"
        then show ?thesis using IH eqs consumed_trans unfolding P_def by blast
      qed
    qed
  qed
  then show ?thesis using inv by (simp add: P_def)
qed

subsection \<open>The end of the stream\<close>

lemma read_from_loop_eof:
  assumes "sys_always_ok s" and "length dst + length (in_data s fd) < n"
  shows "\<exists>c. read_from_loop fd n dst s =
    Some ((- 1, dst @ in_data s fd), s\<lparr>sys_count := c, in_data := (in_data s)(fd := [])\<rparr>)"
  using assms
proof (induction "length (in_data s fd)" arbitrary: dst s rule: less_induct)
  case less
  have "length dst < n" using less.prems(2) by simp
  obtain k where k: "0 < k" "k \<le> n - length dst" and r: "sys_read fd (n - length dst) s =
      (Inr (take k (in_data s fd)),
       s\<lparr>sys_count := Suc (sys_count s), in_data := (in_data s)(fd := drop k (in_data s fd))\<rparr>)"
    using sys_read_ok [OF less.prems(1), of "n - length dst"] less.prems(2) by auto
  let ?s = "s\<lparr>sys_count := Suc (sys_count s), in_data := (in_data s)(fd := drop k (in_data s fd))\<rparr>"
  show ?case
  proof (cases "in_data s fd = []")
    case True
    then have "read_from_loop fd n dst s = Some ((- 1, dst), ?s)"
      using r \<open>length dst < n\<close> by (subst read_from_loop.simps) simp
    moreover have "?s = s\<lparr>sys_count := Suc (sys_count s), in_data := (in_data s)(fd := [])\<rparr>" using True by simp
    ultimately show ?thesis using True by auto
  next
    case False
    let ?dst = "dst @ take k (in_data s fd)"
    have "read_from_loop fd n dst s = read_from_loop fd n ?dst ?s"
      using False k r \<open>length dst < n\<close> by (subst read_from_loop.simps) auto
    moreover have "length (in_data ?s fd) < length (in_data s fd)" "sys_always_ok ?s"
      "length ?dst + length (in_data ?s fd) < n"
      using False k less.prems by auto
    from less.hyps [OF this] obtain c where "read_from_loop fd n ?dst ?s =
      Some ((- 1, ?dst @ in_data ?s fd), ?s\<lparr>sys_count := c, in_data := (in_data ?s)(fd := [])\<rparr>)" by blast
    ultimately show ?thesis by auto
  qed
qed

lemma read_from_eof:
  assumes "sys_always_ok s" and "length (in_data s fd) < n"
  shows "\<exists>c. read_from fd n s =
    Some ((- 1, in_data s fd), s\<lparr>sys_count := c, in_data := (in_data s)(fd := [])\<rparr>)"
  using read_from_loop_eof [of s "[]" fd n] assms by (simp add: read_from_def)

lemma read_items_eof:
  assumes "sys_always_ok s" and "\<not> (is_done st \<and> cd)" and "length buf < n"
    and "length (buf @ in_data s fd) < n"
  shows "\<exists>t. read_items_loop E fd cb st cd buf mx n s = Some ((- 1, st), t)"
proof -
  define k where "k = (if mx < n then Suc (sys_count s) else sys_count s)"
  let ?s1 = "s\<lparr>sys_count := k\<rparr>"
  have alloc: "(if n > mx then (case sys_call s of (r, s) \<Rightarrow> (\<not> sys_failed r, s)) else (True, s)) = (True, ?s1)"
    using assms(1) by (auto simp: k_def sys_call_def sys_always_ok_def)
  obtain t where "read_from fd (n - length buf) ?s1 = Some ((- 1, in_data s fd), t)"
    using read_from_eof [of ?s1 fd "n - length buf"] assms(1,3,4) less_diff_conv by fastforce
  then show ?thesis
    using assms(2,3) by (subst read_items_loop.simps, subst alloc) auto
qed

text \<open>Every stream that ends is read to an answer, whatever its bytes are.\<close>

lemma read_items_returns:
  assumes "sys_always_ok s" and quiet: "quiet_callbacks Inv cb" and dec: "decoder_progress E" and "length buf < n"
    and "Inv st"
  shows "\<exists>x. read_items_loop E fd cb st cd buf mx n s = Some x"
  using assms(1,4,5)
proof (induction "length (in_data s fd)" arbitrary: s st cd buf mx n rule: less_induct)
  case less
  show ?case
  proof (cases "is_done st \<and> cd \<or> length (buf @ in_data s fd) < n")
    case True
    then consider "is_done st" "cd" | "\<not> (is_done st \<and> cd)" "length (buf @ in_data s fd) < n" by blast
    then show ?thesis
    proof cases
      case 1
      then show ?thesis by (simp add: read_items_done)
    next
      case 2
      then show ?thesis using read_items_eof [OF less.prems(1) _ less.prems(2)] by blast
    qed
  next
    case False
    let ?bs = "buf @ in_data s fd"
    have len: "n \<le> length ?bs" and nd: "\<not> (is_done st \<and> cd)" using False by simp_all
    obtain s2 c where s2: "s2 = s\<lparr>sys_count := c, in_data := (in_data s)(fd := drop n ?bs)\<rparr>"
      and step: "read_items_loop E fd cb st cd buf mx n s =
      (case env_cbor_decode E (take n ?bs) of
         CBOR_DECODER_ERROR \<Rightarrow> Some ((- 1, st), udi_set_errmsg E ''failed to decode CBOR data'' [] s2)
       | CBOR_DECODER_NEDATA required \<Rightarrow> read_items_loop E fd cb st False (take n ?bs) (max mx n) required s2
       | CBOR_DECODER_FINISHED ev \<Rightarrow>
           (case cb ev st s2 of (st, s) \<Rightarrow> read_items_loop E fd cb st True [] (max mx n) 1 s))"
      by (rule read_items_turn [OF less.prems(1) nd less.prems(2) len])
    have less2: "length (in_data s2 fd) < length (in_data s fd)" and ok2: "sys_always_ok s2"
      using less.prems len by (auto simp: s2)
    show ?thesis
    proof (cases "env_cbor_decode E (take n ?bs)")
      case CBOR_DECODER_ERROR
      then show ?thesis using step by simp
    next
      case (CBOR_DECODER_NEDATA m)
      then have "length (take n ?bs) < m" using dec unfolding decoder_progress_def by blast
      then show ?thesis using step CBOR_DECODER_NEDATA less.hyps [OF less2 ok2 _ less.prems(3)] by simp
    next
      case (CBOR_DECODER_FINISHED ev)
      obtain st' t where cb: "cb ev st s2 = (st', t)" by fastforce
      then have "in_data t = in_data s2" "io_rest t = io_rest s2" and inv: "Inv st'"
        using quiet less.prems(3) unfolding quiet_callbacks_def by (metis fst_conv snd_conv)+
      then have "length (in_data t fd) < length (in_data s fd)" "sys_always_ok t"
        using less2 ok2 io_rest_eq(1) [of t s2] by (simp_all add: sys_always_ok_def)
      then show ?thesis using step CBOR_DECODER_FINISHED cb inv less.hyps [of t "[]" 1] by simp
    qed
  qed
qed

subsection \<open>Callbacks of requests\<close>

text \<open>The current item is one of the configuration's, whatever the stream holds.\<close>

definition item_in_range :: "('d, 's) msg_config \<Rightarrow> 'd req_data_state cbor_read_state \<Rightarrow> bool" where
  "item_in_range config st \<longleftrightarrow> (\<forall>i. current_item (ctx st) = Some i \<longrightarrow> i < num_items config)"

definition quiet_config :: "('d, 'z io_state_scheme) msg_config \<Rightarrow> bool" where
  "quiet_config config \<longleftrightarrow> num_items config = length (items config) \<and>
     (\<forall>it \<in> set (items config). quiet_callbacks (item_in_range config) (callbacks it))"

lemma find_item_range: "find_item data its 0 = Some i \<Longrightarrow> i < length its"
  using find_item_Some [of data its 0 i] by simp

lemma request_error_stays:
  "rd_error (ctx st) \<Longrightarrow> request_callbacks E config ev st s = (st, s)"
  by (simp add: request_callbacks_def request_data_map_start_def request_data_string_def item_callbacks_def
      check_state_def split: cbor_event.splits)

lemma request_no_item:
  assumes "\<not> rd_error (ctx st)" and "current_item (ctx st) = None"
  shows "case request_callbacks E config ev st s of (st', s') \<Rightarrow>
    (\<forall>i. current_item (ctx st') = Some i \<longrightarrow> i < length (take (num_items config) (items config))) \<and>
    io_rest s' = io_rest s \<and> in_data s' = in_data s \<and> out_data s' = out_data s"
proof (cases "\<exists>data. ev = Ev_string data")
  case True
  then obtain data where ev: "ev = Ev_string data" by blast
  show ?thesis
    using assms find_item_range [of data "take (num_items config) (items config)"]
    by (cases "find_item data (take (num_items config) (items config)) 0")
      (simp_all add: ev request_callbacks_def request_data_string_def sys_call_def del: length_take)
next
  case False
  then show ?thesis
    using assms
    by (cases ev) (simp_all add: request_callbacks_def request_data_map_start_def item_callbacks_def check_state_def)
qed

lemma request_callbacks_quiet:
  fixes config :: "('d, 'b io_state_scheme) msg_config"
  assumes "quiet_config config"
  shows "quiet_callbacks (item_in_range config) (request_callbacks E config)"
  unfolding quiet_callbacks_def
proof (intro allI impI)
  fix ev st and s :: "'b io_state_scheme"
  assume range: "item_in_range config st"
  consider "rd_error (ctx st)" | "\<not> rd_error (ctx st)" "current_item (ctx st) = None"
    | i where "\<not> rd_error (ctx st)" "current_item (ctx st) = Some i" by blast
  then show "item_in_range config (fst (request_callbacks E config ev st s)) \<and>
      io_rest (snd (request_callbacks E config ev st s)) = io_rest s \<and>
      in_data (snd (request_callbacks E config ev st s)) = in_data s \<and>
      out_data (snd (request_callbacks E config ev st s)) = out_data s"
  proof cases
    case 1
    then show ?thesis using range by (simp add: request_error_stays)
  next
    case 2
    then show ?thesis using request_no_item [OF 2, where E = E and config = config and ev = ev and s = s] assms
      by (auto simp: item_in_range_def quiet_config_def split: prod.splits)
  next
    case (3 i)
    then have "items config ! i \<in> set (items config)"
      using range assms by (simp add: item_in_range_def quiet_config_def)
    then show ?thesis
      using assms range by (auto simp: request_value [OF 3] quiet_config_def quiet_callbacks_def)
  qed
qed

text \<open>
  The contract of reading a request, for every stream and every system: only bytes of its
  descriptor are consumed, and it returns when the system answers.
\<close>

lemma read_request_data_frame:
  assumes "quiet_config config" and "read_request_data E fd config d s = Ret ((r, d'), s')"
  shows "consumed fd s s'"
proof -
  let ?st = "\<lparr>ctx = \<lparr>current_item = None, item_count = 0, rd_error = False, rd_data = d\<rparr>, is_done = False\<rparr>"
  obtain x where "read_items_loop E fd (request_callbacks E config) ?st False [] 0 1 s = Some x" "snd x = s'"
    using assms(2) by (auto simp: read_request_data_def read_cbor_items_def run_bind_eq_Ret)
  moreover have "item_in_range config ?st" by (simp add: item_in_range_def)
  ultimately show ?thesis
    using read_items_rule [OF _ request_callbacks_quiet [OF assms(1)]] by blast
qed

lemma read_request_data_returns:
  assumes "quiet_config config" and "sys_always_ok s" and "decoder_progress E"
  shows "\<exists>r d' s'. read_request_data E fd config d s = Ret ((r, d'), s')"
proof -
  let ?st = "\<lparr>ctx = \<lparr>current_item = None, item_count = 0, rd_error = False, rd_data = d\<rparr>, is_done = False\<rparr>"
  have "item_in_range config ?st" by (simp add: item_in_range_def)
  moreover have "length ([] :: u8 list) < 1" by simp
  ultimately obtain x where "read_items_loop E fd (request_callbacks E config) ?st False [] 0 1 s = Some x"
    using read_items_returns [OF assms(2) request_callbacks_quiet [OF assms(1)] assms(3)] by meson
  then show ?thesis
    by (cases x) (auto simp: read_request_data_def read_cbor_items_def)
qed

text \<open>A request that is rejected for its key or its size is only ended by the end of the stream.\<close>

lemma read_items_after_error:
  assumes "read_items_loop E fd (request_callbacks E config) st cd buf mx n s = Some x"
    and "rd_error (ctx st)" and "\<not> is_done st"
  shows "fst (fst x) \<noteq> 0"
proof -
  have "quiet_callbacks (\<lambda>st. rd_error (ctx st) \<and> \<not> is_done st) (request_callbacks E config)"
    by (simp add: quiet_callbacks_def request_error_stays)
  from read_items_rule [OF assms(1) this] show ?thesis using assms(2,3) by blast
qed

lemma read_request_data_wrong_size:
  assumes "sys_always_ok s" and "next_item E (in_data s fd) 1 = Item (Ev_map_start len) rest"
    and "num_items config \<noteq> unat len" and "decoder_progress E" and "quiet_config config"
  shows "\<exists>d' s'. read_request_data E fd config d s = Ret ((RESULT_ERROR, d'), s')"
proof -
  let ?st = "\<lparr>ctx = \<lparr>current_item = None, item_count = 0, rd_error = False, rd_data = d\<rparr>, is_done = False\<rparr>"
  let ?st' = "\<lparr>ctx = \<lparr>current_item = None, item_count = 0, rd_error = True, rd_data = d\<rparr>, is_done = False\<rparr>"
  obtain t mx where l: "read_items_loop E fd (request_callbacks E config) ?st False [] 0 1 s =
      read_items_loop E fd (request_callbacks E config) ?st' True [] mx 1 t"
    using read_items_step [OF assms(1) _ assms(2), of ?st False "request_callbacks E config" 0] assms(3)
    by (auto simp: request_callbacks_def request_data_map_start_def)
  obtain r d' s' where ret: "read_request_data E fd config d s = Ret ((r, d'), s')"
    using read_request_data_returns [OF assms(5,1,4)] by blast
  then obtain x where x: "read_items_loop E fd (request_callbacks E config) ?st' True [] mx 1 t = Some x"
    "r = (if fst (fst x) \<noteq> 0 then RESULT_ERROR else if rd_error (ctx (snd (fst x))) then RESULT_FAILURE else RESULT_SUCCESS)"
    using l by (auto simp: read_request_data_def read_cbor_items_def run_bind_eq_Ret)
  then have "r = RESULT_ERROR" using read_items_after_error [OF x(1)] by simp
  then show ?thesis using ret by blast
qed

section \<open>Responses\<close>

text \<open>The bytes of a response, in the order the debugger reads them.\<close>

definition response_bytes :: "env \<Rightarrow> udi_response_type_e \<Rightarrow> nat \<Rightarrow> cbor_item option \<Rightarrow> u8 list" where
  "response_bytes E resp_type req_type data =
     env_cbor_serialize E (CUint16 (of_nat (response_val resp_type))) @
     env_cbor_serialize E (CUint16 (of_nat req_type)) @
     (case data of None \<Rightarrow> [] | Some item \<Rightarrow> env_cbor_serialize E item)"

lemma write_cbor_item_ok:
  assumes "sys_always_ok s" and "serializer_ok E"
  shows "\<exists>c. write_cbor_item E fd item name s = Ret (RESULT_SUCCESS,
    s\<lparr>sys_count := c, out_data := (out_data s)(fd := out_data s fd @ env_cbor_serialize E item)\<rparr>)"
  using write_to_ok [OF assms(1), of fd "env_cbor_serialize E item"] assms(2)
  by (auto simp: write_cbor_item_def serializer_ok_def)

lemma write_response_ok:
  assumes ok: "sys_always_ok s" and ser: "serializer_ok E"
  shows "\<exists>c. write_response E fd resp_type req_type data s = Ret (RESULT_SUCCESS,
    s\<lparr>sys_count := c, out_data := (out_data s)(fd := out_data s fd @ response_bytes E resp_type req_type data)\<rparr>)"
proof -
  let ?b1 = "env_cbor_serialize E (CUint16 (of_nat (response_val resp_type)))"
  let ?b2 = "env_cbor_serialize E (CUint16 (of_nat req_type))"
  obtain c1 where w1: "write_cbor_item E fd (CUint16 (of_nat (response_val resp_type))) ''response type'' s =
      Ret (RESULT_SUCCESS, s\<lparr>sys_count := c1, out_data := (out_data s)(fd := out_data s fd @ ?b1)\<rparr>)"
    using write_cbor_item_ok [OF assms] by blast
  let ?s1 = "s\<lparr>sys_count := c1, out_data := (out_data s)(fd := out_data s fd @ ?b1)\<rparr>"
  have "sys_always_ok ?s1" using ok by simp
  from write_cbor_item_ok [OF this ser, of fd "CUint16 (of_nat req_type)" "''request type''"] obtain c2 where
    w2: "write_cbor_item E fd (CUint16 (of_nat req_type)) ''request type'' ?s1 =
      Ret (RESULT_SUCCESS, s\<lparr>sys_count := c2, out_data := (out_data s)(fd := out_data s fd @ ?b1 @ ?b2)\<rparr>)"
    by auto
  let ?s2 = "s\<lparr>sys_count := c2, out_data := (out_data s)(fd := out_data s fd @ ?b1 @ ?b2)\<rparr>"
  show ?thesis
  proof (cases data)
    case None
    then show ?thesis using w1 w2 by (auto simp: write_response_def response_bytes_def)
  next
    case (Some item)
    have "sys_always_ok ?s2" using ok by simp
    from write_cbor_item_ok [OF this ser, of fd item "''response data''"] show ?thesis
      using w1 w2 Some by (auto simp: write_response_def response_bytes_def)
  qed
qed

lemma write_cbor_item_step:
  assumes "write_cbor_item E fd item name s = Ret (r, s')"
  shows "(\<exists>k. out_step fd s (take k (env_cbor_serialize E item)) s') \<and>
    (r = RESULT_SUCCESS \<longrightarrow> out_step fd s (env_cbor_serialize E item) s') \<and> r \<in> {RESULT_SUCCESS, RESULT_ERROR}"
proof (cases "env_cbor_serialize E item = []")
  case True
  then show ?thesis using assms by (auto simp: write_cbor_item_def out_step_def result_defs)
next
  case False
  then obtain e t where w: "write_to fd (env_cbor_serialize E item) s = Some (e, t)"
    and r: "(r, s') = (if e \<noteq> 0 then (RESULT_ERROR, udi_set_errmsg E ''failed to write %s: %e'' [ArgStr name, ArgInt (int e)] t)
      else (RESULT_SUCCESS, t))"
    using assms by (auto simp: write_cbor_item_def Let_def run_bind_eq_Ret split: if_splits)
  from write_to_contract [OF w] obtain k where "out_step fd s (take k (env_cbor_serialize E item)) t"
    "e = 0 \<longrightarrow> k = length (env_cbor_serialize E item)" by blast
  moreover then have "out_step fd s (take k (env_cbor_serialize E item)) s'" using r by (auto simp: out_step_def split: if_splits)
  moreover have "r \<noteq> RESULT_SUCCESS \<longleftrightarrow> e \<noteq> 0" "r \<in> {RESULT_SUCCESS, RESULT_ERROR}"
    using r by (auto simp: result_defs split: if_splits)
  ultimately show ?thesis by (metis order_refl take_all_iff)
qed

text \<open>A response, or what is sent of it before an error, is a prefix of the response's bytes.\<close>

lemma write_response_prefix:
  assumes "write_response E fd resp_type req_type data s = Ret (r, s')"
  shows "\<exists>k. out_step fd s (take k (response_bytes E resp_type req_type data)) s' \<and>
    (r = RESULT_SUCCESS \<longrightarrow> out_step fd s (response_bytes E resp_type req_type data) s')"
proof -
  let ?b1 = "env_cbor_serialize E (CUint16 (of_nat (response_val resp_type)))"
  let ?b2 = "env_cbor_serialize E (CUint16 (of_nat req_type))"
  let ?b3 = "case data of None \<Rightarrow> [] | Some item \<Rightarrow> env_cbor_serialize E item"
  have whole: "response_bytes E resp_type req_type data = ?b1 @ ?b2 @ ?b3" by (simp add: response_bytes_def)
  have pre: "take (length bs + k) (bs @ cs) = bs @ take k cs" for bs cs :: "u8 list" and k by simp
  have pre0: "take (min k (length bs)) (bs @ cs) = take k bs" for bs cs :: "u8 list" and k
    by (cases "k \<le> length bs") simp_all
  obtain r1 s1 where w1: "write_cbor_item E fd (CUint16 (of_nat (response_val resp_type))) ''response type'' s = Ret (r1, s1)"
    and rest1: "(if r1 \<noteq> RESULT_SUCCESS then Ret (r1, s1)
       else run_bind (write_cbor_item E fd (CUint16 (of_nat req_type)) ''request type'' s1) (\<lambda>(result, s).
         if result \<noteq> RESULT_SUCCESS then Ret (result, s)
         else (case data of
             Some item \<Rightarrow> write_cbor_item E fd item ''response data'' s
           | None \<Rightarrow> Ret (RESULT_SUCCESS, s)))) = Ret (r, s')"
    using assms unfolding write_response_def by (auto simp: run_bind_eq_Ret)
  note st1 = write_cbor_item_step [OF w1]
  show ?thesis
  proof (cases "r1 = RESULT_SUCCESS")
    case False
    then show ?thesis using rest1 st1 unfolding whole by (metis pre0 prod.inject run.inject)
  next
    case ok1: True
    then obtain r2 s2 where w2: "write_cbor_item E fd (CUint16 (of_nat req_type)) ''request type'' s1 = Ret (r2, s2)"
      and rest2: "(if r2 \<noteq> RESULT_SUCCESS then Ret (r2, s2)
         else (case data of Some item \<Rightarrow> write_cbor_item E fd item ''response data'' s2
           | None \<Rightarrow> Ret (RESULT_SUCCESS, s2))) = Ret (r, s')"
      using rest1 by (auto simp: run_bind_eq_Ret)
    note st2 = write_cbor_item_step [OF w2]
    have o1: "out_step fd s ?b1 s1" using st1 ok1 by blast
    show ?thesis
    proof (cases "r2 = RESULT_SUCCESS")
      case False
      then obtain k where "out_step fd s1 (take k ?b2) s'" "r \<noteq> RESULT_SUCCESS" using rest2 st2 by auto
      then show ?thesis
        using out_step_trans [OF o1] unfolding whole by (metis pre pre0)
    next
      case ok2: True
      then have o2: "out_step fd s (?b1 @ ?b2) s2" using st2 out_step_trans [OF o1] by blast
      have "\<exists>k. out_step fd s2 (take k ?b3) s' \<and> (r = RESULT_SUCCESS \<longrightarrow> out_step fd s2 ?b3 s')"
        using rest2 ok2 write_cbor_item_step [of E fd _ "''response data''" s2 r s'] by (cases data) auto
      then show ?thesis
        using out_step_trans [OF o2] unfolding whole append_assoc [symmetric] by (metis pre append_assoc)
    qed
  qed
qed

section \<open>Properties\<close>

text \<open>
  The initial state of the examples: a page of memory, a request on descriptor 3, and a
  system whose transfers are short.
\<close>

definition sample_io_state :: "u8 list \<Rightarrow> (nat \<Rightarrow> sysret) \<Rightarrow> io_state" where
  "sample_io_state bs orc =
     bp_state.extend (sample_bp_state\<lparr>sys_oracle := orc, sys_count := 0\<rparr>)
       \<lparr>in_data = (\<lambda>_. [])(3 := bs), out_data = (\<lambda>_. []), pipe_write_failure = False\<rparr>"

text \<open>
  C5. Receiving. Under every behaviour of the operating system, what \<^verbatim>\<open>read_from\<close> stores is a
  prefix of the descriptor's stream, the stream afterwards is exactly the rest, no other
  descriptor is touched, and a result of 0 means that all the bytes asked for are there. When the
  system reports no error, it returns: with 0 when the stream is long enough, and with -1 and
  everything consumed when it is not.
\<close>

theorem read_from_exact:
  "(\<forall>r bs s'. read_from fd n s = Some ((r, bs), s') \<longrightarrow>
      in_data s fd = bs @ in_data s' fd \<and> (r = 0 \<longrightarrow> length bs = n) \<and>
      (\<forall>g. g \<noteq> fd \<longrightarrow> in_data s' g = in_data s g) \<and> out_data s' = out_data s \<and> mem s' = mem s) \<and>
   (sys_always_ok s \<longrightarrow>
      (\<exists>s'. read_from fd n s = Some (if n \<le> length (in_data s fd) then (0, take n (in_data s fd)) else (- 1, in_data s fd), s')))"
proof (intro conjI allI impI)
  fix r bs s'
  assume "read_from fd n s = Some ((r, bs), s')"
  note c = read_from_contract [OF this]
  show "in_data s fd = bs @ in_data s' fd" and "r = 0 \<Longrightarrow> length bs = n" and "out_data s' = out_data s"
    and "g \<noteq> fd \<Longrightarrow> in_data s' g = in_data s g" for g
    using c by (auto simp: in_step_def)
  show "mem s' = mem s" using c io_rest_eq(2) by (auto simp: in_step_def)
next
  assume "sys_always_ok s"
  then show "\<exists>s'. read_from fd n s = Some (if n \<le> length (in_data s fd) then (0, take n (in_data s fd)) else (- 1, in_data s fd), s')"
    using read_from_ok [of s n fd] read_from_eof [of s fd n] by (auto simp: not_le)
qed

theorem read_from_exact_witness:
  "\<exists>s'. read_from 3 2 (sample_io_state [7, 8, 9] (\<lambda>_. SysOk 1)) = Some ((0, [7, 8]), s')"
proof -
  have "sys_always_ok (sample_io_state [7, 8, 9] (\<lambda>_. SysOk 1))" "in_data (sample_io_state [7, 8, 9] (\<lambda>_. SysOk 1)) 3 = [7, 8, 9]"
    by (simp_all add: sample_io_state_def bp_state.defs sys_always_ok_def)
  then show ?thesis
    using read_from_exact [of 3 2 "sample_io_state [7, 8, 9] (\<lambda>_. SysOk 1)"] by (auto simp: numeral_2_eq_2)
qed

text \<open>
  C6. Responding. Whatever the system does, the bytes that a response adds to its descriptor are a
  prefix of the serialized response type, request type and data in this order, nothing else
  of the process is changed but the message, and the whole response was written when the
  result is success; when the system reports no error the result is success.
\<close>

theorem write_response_exact:
  "(\<forall>r s'. write_response E fd resp_type req_type data s = Ret (r, s') \<longrightarrow>
      (\<exists>k. out_data s' = (out_data s)(fd := out_data s fd @ take k (response_bytes E resp_type req_type data)) \<and>
           (r = RESULT_SUCCESS \<longrightarrow> length (response_bytes E resp_type req_type data) \<le> k)) \<and>
      in_data s' = in_data s \<and> io_rest s' = io_rest s) \<and>
   (sys_always_ok s \<longrightarrow> serializer_ok E \<longrightarrow>
      (\<exists>s'. write_response E fd resp_type req_type data s = Ret (RESULT_SUCCESS, s')))"
proof (intro conjI allI impI)
  fix r s'
  assume "write_response E fd resp_type req_type data s = Ret (r, s')"
  from write_response_prefix [OF this] obtain k where
    k: "out_step fd s (take k (response_bytes E resp_type req_type data)) s'"
    and ok: "r = RESULT_SUCCESS \<longrightarrow> out_step fd s (response_bytes E resp_type req_type data) s'" by blast
  show "\<exists>k. out_data s' = (out_data s)(fd := out_data s fd @ take k (response_bytes E resp_type req_type data)) \<and>
           (r = RESULT_SUCCESS \<longrightarrow> length (response_bytes E resp_type req_type data) \<le> k)"
    using k ok exI [of _ "length (response_bytes E resp_type req_type data)"]
    by (cases "r = RESULT_SUCCESS") (auto simp: out_step_def)
  show "in_data s' = in_data s" "io_rest s' = io_rest s" using k by (auto simp: out_step_def)
next
  assume "sys_always_ok s" "serializer_ok E"
  then show "\<exists>s'. write_response E fd resp_type req_type data s = Ret (RESULT_SUCCESS, s')"
    using write_response_ok by blast
qed

theorem write_response_exact_witness:
  "\<exists>s'. write_response sample_env 4 UDI_RESP_VALID 2 None (sample_io_state [] (\<lambda>_. SysOk 1)) = Ret (RESULT_SUCCESS, s')"
proof -
  have "sys_always_ok (sample_io_state [] (\<lambda>_. SysOk 1))"
    by (simp add: sample_io_state_def bp_state.defs sys_always_ok_def)
  then show ?thesis
    using write_response_exact [of sample_env 4 UDI_RESP_VALID 2 None "sample_io_state [] (\<lambda>_. SysOk 1)"] sample_env_ok(3) by blast
qed

end
