(* ===== verification/Threads.thy ===== *)
theory Threads
  imports Cbor_Read
begin

text \<open>
  Threads (\<^verbatim>\<open>udirt-posix-pthreads.c\<close>) and their files (\<^verbatim>\<open>udirt-posix.c\<close> lines 977 to 1266): the
  list of thread structures, its accessors, and the directory with the two pipes that each thread
  has below the directory of the process. The list is kept at pointer level; the lemmas relate it
  to a list of pointers.
\<close>

section \<open>Definitions\<close>

text \<open>
  The data pointer of a signal state is null on Linux and is left out; of the signal
  information only the code and the address are used.
\<close>

record signal_state =
  st_signal :: nat
  st_si_code :: nat
  st_si_addr :: u64
  st_context :: ucontext
  context_valid :: bool

text \<open>Saving a context: on Linux the structure holds the registers themselves.\<close>

definition copy_context :: "ucontext \<Rightarrow> signal_state \<Rightarrow> signal_state" where
  [simp]: "copy_context src dst = dst\<lparr>st_context := src\<rparr>"

record thread =
  thr_id :: u64
  ts :: udi_thread_state_e
  dead :: bool
  request_handle :: int
  response_handle :: int
  control_write :: int
  control_read :: int
  control_thread :: bool
  suspend_pending :: bool
  single_step :: bool
  stack_event_pending :: bool
  single_step_bp :: ptr
  event_state :: signal_state
  next_thread :: ptr

text \<open>
  The globals of the thread support; the identity of the running thread and whether the
  debuggee is linked with pthreads; the descriptors closed so far and the files that exist
  below the base directory.
\<close>

record thr_state = io_state +
  thr_heap :: "ptr \<rightharpoonup> thread"
  threads :: ptr
  num_threads :: int
  self :: u64
  has_pthread_self :: bool
  has_pthread_sigmask :: bool
  closed_fds :: "int list"
  basedir_name :: string
  udi_files :: "string set"

definition UDI_SINGLE_THREAD_ID :: u64 where
  "UDI_SINGLE_THREAD_ID = 0xC0FFEEABC"

definition REQUEST_FILE_NAME :: string where
  "REQUEST_FILE_NAME = ''request''"

definition RESPONSE_FILE_NAME :: string where
  "RESPONSE_FILE_NAME = ''response''"

definition EVENTS_FILE_NAME :: string where
  "EVENTS_FILE_NAME = ''events''"

subsection \<open>System calls on descriptors and files\<close>

definition sys_value :: "sysret \<Rightarrow> nat" where
  "sys_value r = (case r of SysOk v \<Rightarrow> v | SysErr e \<Rightarrow> 0)"

text \<open>The error number of \<^verbatim>\<open>close\<close>, \<^verbatim>\<open>mkdir\<close>, \<^verbatim>\<open>mkfifo\<close>, \<^verbatim>\<open>unlink\<close> and \<^verbatim>\<open>rmdir\<close>; 0 is success.\<close>

definition sys_close :: "int \<Rightarrow> 'z thr_state_scheme \<Rightarrow> nat \<times> 'z thr_state_scheme" where
  "sys_close fd s =
     (case sys_call s of (r, s) \<Rightarrow>
        (sys_errno r, if sys_failed r then s else s\<lparr>closed_fds := closed_fds s @ [fd]\<rparr>))"

definition sys_make :: "string \<Rightarrow> 'z thr_state_scheme \<Rightarrow> nat \<times> 'z thr_state_scheme" where
  "sys_make path s =
     (case sys_call s of (r, s) \<Rightarrow>
        (sys_errno r, if sys_failed r then s else s\<lparr>udi_files := insert path (udi_files s)\<rparr>))"

definition sys_unlink :: "string \<Rightarrow> 'z thr_state_scheme \<Rightarrow> nat \<times> 'z thr_state_scheme" where
  "sys_unlink path s =
     (case sys_call s of (r, s) \<Rightarrow>
        (sys_errno r, if sys_failed r then s else s\<lparr>udi_files := udi_files s - {path}\<rparr>))"

text \<open>\<^verbatim>\<open>pipe\<close>: its two descriptors are two answers of the system.\<close>

definition sys_pipe :: "'z thr_state_scheme \<Rightarrow> (int \<times> int) option \<times> 'z thr_state_scheme" where
  "sys_pipe s =
     (case sys_call s of (r, s) \<Rightarrow>
        if sys_failed r then (None, s)
        else (case sys_call s of (w, s) \<Rightarrow> (Some (int (sys_value r), int (sys_value w)), s)))"

text \<open>\<^verbatim>\<open>open\<close>: the descriptor, or the error number.\<close>

definition sys_open :: "string \<Rightarrow> 'z thr_state_scheme \<Rightarrow> (nat + int) \<times> 'z thr_state_scheme" where
  "sys_open path s =
     (case sys_call s of (r, s) \<Rightarrow> (if sys_failed r then Inl (sys_errno r) else Inr (int (sys_value r)), s))"

subsection \<open>The list of threads\<close>

definition get_multithread_capable :: "'z thr_state_scheme \<Rightarrow> bool" where
  "get_multithread_capable s = has_pthread_sigmask s"

definition get_num_threads :: "'z thr_state_scheme \<Rightarrow> int" where
  "get_num_threads s = num_threads s"

definition get_multithreaded :: "'z thr_state_scheme \<Rightarrow> bool" where
  "get_multithreaded s \<longleftrightarrow> get_multithread_capable s \<and> get_num_threads s > 1"

definition get_user_thread_id :: "'z thr_state_scheme \<Rightarrow> u64" where
  "get_user_thread_id s =
     (if has_pthread_self s \<and> get_multithread_capable s then self s else UDI_SINGLE_THREAD_ID)"

definition init_control_pipe :: "'z thr_state_scheme \<Rightarrow> (int \<times> int) option \<times> 'z thr_state_scheme" where
  "init_control_pipe s = (if get_multithread_capable s then sys_pipe s else (Some (- 1, - 1), s))"

text \<open>The structure after \<^verbatim>\<open>memset\<close> and the assignments of \<^verbatim>\<open>create_thread_struct\<close>.\<close>

definition new_thread :: "u64 \<Rightarrow> int \<times> int \<Rightarrow> thread" where
  "new_thread tid control_pipe =
     \<lparr>thr_id = tid, ts = UDI_TS_RUNNING, dead = False, request_handle = - 1, response_handle = - 1,
      control_write = snd control_pipe, control_read = fst control_pipe, control_thread = False,
      suspend_pending = False, single_step = False, stack_event_pending = False, single_step_bp = NULL,
      event_state = \<lparr>st_signal = 0, st_si_code = 0, st_si_addr = 0,
        st_context = \<lparr>gregs = (\<lambda>_. 0), uc_sigmask = {}\<rparr>, context_valid = False\<rparr>,
      next_thread = NULL\<rparr>"

text \<open>When the pipe cannot be made, the structure is not freed: it stays allocated and zeroed.\<close>

definition zero_thread :: thread where
  "zero_thread = (new_thread 0 (0, 0))\<lparr>request_handle := 0, response_handle := 0\<rparr>"

definition create_thread_struct :: "u64 \<Rightarrow> 'z thr_state_scheme \<Rightarrow> ptr \<times> 'z thr_state_scheme" where
  "create_thread_struct tid s =
     (case alloc_ptr (thr_heap s) s of (p, s) \<Rightarrow>
        if p = NULL then (NULL, s)
        else
          let s = s\<lparr>thr_heap := (thr_heap s)(p \<mapsto> zero_thread)\<rparr>
          in (case init_control_pipe s of
                (None, s) \<Rightarrow> (NULL, s)
              | (Some control_pipe, s) \<Rightarrow>
                  if fst allocate_context_data \<noteq> 0 then (NULL, s)
                  else (p, s\<lparr>thr_heap := (thr_heap s)(p \<mapsto> new_thread tid control_pipe)\<rparr>)))"

text \<open>The loop of \<^verbatim>\<open>link_thread\<close>: the last thread of the list.\<close>

partial_function (option) link_loop :: "(ptr \<rightharpoonup> thread) \<Rightarrow> ptr \<Rightarrow> ptr \<Rightarrow> ptr option" where
  "link_loop h cur last_thread =
     (if cur = NULL then Some last_thread
      else (case h cur of
        None \<Rightarrow> None
      | Some t \<Rightarrow> link_loop h (next_thread t) cur))"

definition link_thread :: "ptr \<Rightarrow> 'z thr_state_scheme \<Rightarrow> 'z thr_state_scheme run" where
  "link_thread new_thr s =
     run_bind (of_option (link_loop (thr_heap s) (threads s) (threads s))) (\<lambda>last_thread.
       let s = s\<lparr>num_threads := num_threads s + 1\<rparr> in
       if last_thread = NULL then Ret (s\<lparr>threads := new_thr\<rparr>)
       else run_bind (deref (thr_heap s) last_thread) (\<lambda>t.
         Ret (s\<lparr>thr_heap := (thr_heap s)(last_thread \<mapsto> t\<lparr>next_thread := new_thr\<rparr>)\<rparr>)))"

definition create_thread :: "u64 \<Rightarrow> 'z thr_state_scheme \<Rightarrow> (ptr \<times> 'z thr_state_scheme) run" where
  "create_thread tid s =
     (case create_thread_struct tid s of (p, s) \<Rightarrow>
        if p = NULL then Ret (NULL, s)
        else run_bind (link_thread p s) (\<lambda>s. Ret (p, s)))"

partial_function (option) find_thread_loop :: "(ptr \<rightharpoonup> thread) \<Rightarrow> u64 \<Rightarrow> ptr \<Rightarrow> ptr option" where
  "find_thread_loop h tid p =
     (if p = NULL then Some NULL
      else (case h p of
        None \<Rightarrow> None
      | Some t \<Rightarrow> if thr_id t = tid then Some p else find_thread_loop h tid (next_thread t)))"

definition find_thread :: "u64 \<Rightarrow> 'z thr_state_scheme \<Rightarrow> ptr run" where
  "find_thread tid s = of_option (find_thread_loop (thr_heap s) tid (threads s))"

definition get_current_thread :: "'z thr_state_scheme \<Rightarrow> ptr run" where
  "get_current_thread s = of_option (find_thread_loop (thr_heap s) (get_user_thread_id s) (threads s))"

definition create_initial_thread :: "'z thr_state_scheme \<Rightarrow> (ptr \<times> 'z thr_state_scheme) run" where
  "create_initial_thread s = create_thread (get_user_thread_id s) s"

definition get_thread_list :: "'z thr_state_scheme \<Rightarrow> ptr" where
  "get_thread_list s = threads s"

text \<open>The loop of \<^verbatim>\<open>destroy_thread\<close>: the pointers \<^verbatim>\<open>iter\<close> and \<^verbatim>\<open>last_thread\<close> at its end.\<close>

partial_function (option) destroy_loop :: "(ptr \<rightharpoonup> thread) \<Rightarrow> ptr \<Rightarrow> ptr \<Rightarrow> ptr \<Rightarrow> (ptr \<times> ptr) option" where
  "destroy_loop h thr iter last_thread =
     (if iter = NULL \<or> iter = thr then Some (iter, last_thread)
      else (case h iter of
        None \<Rightarrow> None
      | Some t \<Rightarrow> destroy_loop h thr (next_thread t) iter))"

definition destroy_thread :: "ptr \<Rightarrow> 'z thr_state_scheme \<Rightarrow> 'z thr_state_scheme run" where
  "destroy_thread thr s =
     run_bind (of_option (destroy_loop (thr_heap s) thr (threads s) (threads s))) (\<lambda>(iter, last_thread).
       if iter = NULL then Ret s
       else run_bind (deref (thr_heap s) iter) (\<lambda>t.
         run_bind
           (if iter = threads s then Ret (s\<lparr>threads := NULL\<rparr>)
            else run_bind (deref (thr_heap s) last_thread) (\<lambda>l.
              Ret (s\<lparr>thr_heap := (thr_heap s)(last_thread \<mapsto> l\<lparr>next_thread := next_thread t\<rparr>)\<rparr>)))
           (\<lambda>s. case sys_close (control_write t) s of (_, s) \<Rightarrow>
                case sys_close (control_read t) s of (_, s) \<Rightarrow>
                Ret (s\<lparr>thr_heap := (thr_heap s)(iter := None), num_threads := num_threads s - 1\<rparr>))))"

subsection \<open>Accessors\<close>

definition thread_at :: "ptr \<Rightarrow> 'z thr_state_scheme \<Rightarrow> thread run" where
  "thread_at thr s = deref (thr_heap s) thr"

definition update_thread :: "ptr \<Rightarrow> (thread \<Rightarrow> thread) \<Rightarrow> 'z thr_state_scheme \<Rightarrow> 'z thr_state_scheme run" where
  "update_thread thr f s =
     run_bind (deref (thr_heap s) thr) (\<lambda>t. Ret (s\<lparr>thr_heap := (thr_heap s)(thr \<mapsto> f t)\<rparr>))"

definition get_next_thread :: "ptr \<Rightarrow> 'z thr_state_scheme \<Rightarrow> ptr run" where
  "get_next_thread thr s = run_bind (thread_at thr s) (\<lambda>t. Ret (next_thread t))"

definition is_thread_dead :: "ptr \<Rightarrow> 'z thr_state_scheme \<Rightarrow> bool run" where
  "is_thread_dead thr s = run_bind (thread_at thr s) (\<lambda>t. Ret (dead t))"

definition get_thread_state :: "ptr \<Rightarrow> 'z thr_state_scheme \<Rightarrow> udi_thread_state_e run" where
  "get_thread_state thr s = run_bind (thread_at thr s) (\<lambda>t. Ret (ts t))"

definition set_thread_state :: "ptr \<Rightarrow> udi_thread_state_e \<Rightarrow> 'z thr_state_scheme \<Rightarrow> 'z thr_state_scheme run" where
  "set_thread_state thr state s = update_thread thr (\<lambda>t. t\<lparr>ts := state\<rparr>) s"

definition get_thread_id :: "ptr \<Rightarrow> 'z thr_state_scheme \<Rightarrow> u64 run" where
  "get_thread_id thr s = run_bind (thread_at thr s) (\<lambda>t. Ret (thr_id t))"

definition is_thread_context_valid :: "ptr \<Rightarrow> 'z thr_state_scheme \<Rightarrow> bool run" where
  "is_thread_context_valid thr s = run_bind (thread_at thr s) (\<lambda>t. Ret (context_valid (event_state t)))"

text \<open>The source returns a pointer to the context, through which the context is read and written.\<close>

definition get_thread_context :: "ptr \<Rightarrow> 'z thr_state_scheme \<Rightarrow> ucontext run" where
  "get_thread_context thr s = run_bind (thread_at thr s) (\<lambda>t. Ret (st_context (event_state t)))"

definition set_thread_context :: "ptr \<Rightarrow> ucontext \<Rightarrow> 'z thr_state_scheme \<Rightarrow> 'z thr_state_scheme run" where
  "set_thread_context thr c s =
     update_thread thr (\<lambda>t. t\<lparr>event_state := (event_state t)\<lparr>st_context := c\<rparr>\<rparr>) s"

definition is_single_step :: "ptr \<Rightarrow> 'z thr_state_scheme \<Rightarrow> bool run" where
  "is_single_step thr s = run_bind (thread_at thr s) (\<lambda>t. Ret (single_step t))"

definition set_single_step :: "ptr \<Rightarrow> bool \<Rightarrow> 'z thr_state_scheme \<Rightarrow> 'z thr_state_scheme run" where
  "set_single_step thr v s = update_thread thr (\<lambda>t. t\<lparr>single_step := v\<rparr>) s"

definition get_single_step_breakpoint :: "ptr \<Rightarrow> 'z thr_state_scheme \<Rightarrow> ptr run" where
  "get_single_step_breakpoint thr s = run_bind (thread_at thr s) (\<lambda>t. Ret (single_step_bp t))"

definition set_single_step_breakpoint :: "ptr \<Rightarrow> ptr \<Rightarrow> 'z thr_state_scheme \<Rightarrow> 'z thr_state_scheme run" where
  "set_single_step_breakpoint thr bp s = update_thread thr (\<lambda>t. t\<lparr>single_step_bp := bp\<rparr>) s"

subsection \<open>The files of a thread\<close>

text \<open>Formatting into a fresh buffer of the given size.\<close>

definition formatted :: "env \<Rightarrow> nat \<Rightarrow> string \<Rightarrow> log_arg list \<Rightarrow> string run" where
  "formatted E n fmt args = of_option (map_option c_str (udi_formatted_str E (replicate n NUL) n fmt args))"

text \<open>\<open>None\<close> is the null pointer.\<close>

definition get_thread_dir :: "env \<Rightarrow> ptr \<Rightarrow> 'z thr_state_scheme \<Rightarrow> (string option \<times> 'z thr_state_scheme) run" where
  "get_thread_dir E thr s =
     run_bind (get_thread_id thr s) (\<lambda>tid.
     run_bind (formatted E 32 ''%x'' [ArgU64 tid]) (\<lambda>subdir_name.
       let dir_length = length (basedir_name s) + 1 + length subdir_name + 1 in
       case sys_call s of (r, s) \<Rightarrow>
         if sys_failed r then Ret (None, s)
         else run_bind (formatted E dir_length ''%s/%s'' [ArgStr (basedir_name s), ArgStr subdir_name])
                (\<lambda>thread_dir. Ret (Some thread_dir, s))))"

definition get_thread_file ::
    "env \<Rightarrow> string \<Rightarrow> string \<Rightarrow> 'z thr_state_scheme \<Rightarrow> (string option \<times> 'z thr_state_scheme) run" where
  "get_thread_file E thread_dir filename s =
     (let file_length = length thread_dir + 1 + length filename + 1 in
      case sys_call s of (r, s) \<Rightarrow>
        if sys_failed r then Ret (None, s)
        else run_bind (formatted E file_length ''%s/%s'' [ArgStr thread_dir, ArgStr filename])
               (\<lambda>thread_file. Ret (Some thread_file, s)))"

text \<open>The steps of the \<^verbatim>\<open>do\<close> blocks: the next step runs while there is no error.\<close>

definition with_path ::
    "(string option \<times> 'z thr_state_scheme) run \<Rightarrow> (string \<Rightarrow> 'z thr_state_scheme \<Rightarrow> (int \<times> 'z thr_state_scheme) run)
       \<Rightarrow> (int \<times> 'z thr_state_scheme) run" where
  "with_path m f = run_bind m (\<lambda>(path, s). case path of None \<Rightarrow> Ret (- 1, s) | Some path \<Rightarrow> f path s)"

definition or_errmsg ::
    "env \<Rightarrow> string \<Rightarrow> string \<Rightarrow> nat \<times> 'z thr_state_scheme
       \<Rightarrow> ('z thr_state_scheme \<Rightarrow> (int \<times> 'z thr_state_scheme) run) \<Rightarrow> (int \<times> 'z thr_state_scheme) run" where
  "or_errmsg E fmt path m f =
     (case m of (errno, s) \<Rightarrow>
        if errno \<noteq> 0 then Ret (- 1, udi_set_errmsg E fmt [ArgStr path, ArgInt (int errno)] s) else f s)"

definition thread_create_callback :: "env \<Rightarrow> ptr \<Rightarrow> 'z thr_state_scheme \<Rightarrow> (int \<times> 'z thr_state_scheme) run" where
  "thread_create_callback E thr s =
     with_path (get_thread_dir E thr s) (\<lambda>thread_dir s.
     or_errmsg E ''failed to create directory %s: %e'' thread_dir (sys_make thread_dir s) (\<lambda>s.
     with_path (get_thread_file E thread_dir RESPONSE_FILE_NAME s) (\<lambda>response_file s.
     with_path (get_thread_file E thread_dir REQUEST_FILE_NAME s) (\<lambda>request_file s.
     or_errmsg E ''failed to create request pipe %s: %e'' request_file (sys_make request_file s) (\<lambda>s.
     or_errmsg E ''failed to create response pipe %s: %e'' response_file (sys_make response_file s) (\<lambda>s.
       Ret (0, s)))))))"

definition thread_death_callback :: "env \<Rightarrow> ptr \<Rightarrow> 'z thr_state_scheme \<Rightarrow> (int \<times> 'z thr_state_scheme) run" where
  "thread_death_callback E thr s =
     run_bind (update_thread thr (\<lambda>t. t\<lparr>dead := True\<rparr>) s) (\<lambda>s.
     run_bind (thread_at thr s) (\<lambda>t.
       case sys_close (response_handle t) s of (errno, s) \<Rightarrow>
         if errno \<noteq> 0
         then Ret (- 1, udi_set_errmsg E ''failed to close response handle for thread %a: %s''
                          [ArgU64 (thr_id t), ArgInt (int errno)] s)
         else Ret (0, s)))"

definition thread_death_handshake :: "env \<Rightarrow> ptr \<Rightarrow> 'z thr_state_scheme \<Rightarrow> (int \<times> 'z thr_state_scheme) run" where
  "thread_death_handshake E thr s =
     run_bind (thread_at thr s) (\<lambda>t.
       if \<not> dead t
       then Ret (- 1, udi_set_errmsg E ''thread %a is not dead, not completing handshake'' [ArgU64 (thr_id t)] s)
       else (case sys_close (request_handle t) s of (errno, s) \<Rightarrow>
         if errno \<noteq> 0
         then Ret (- 1, udi_set_errmsg E ''failed to close request handle for thread %a: %e''
                          [ArgU64 (thr_id t), ArgInt (int errno)] s)
         else run_bind
           (with_path (get_thread_dir E thr s) (\<lambda>thread_dir s.
            with_path (get_thread_file E thread_dir RESPONSE_FILE_NAME s) (\<lambda>response_file s.
            or_errmsg E ''failed to unlink %s: %e'' response_file (sys_unlink response_file s) (\<lambda>s.
            with_path (get_thread_file E thread_dir REQUEST_FILE_NAME s) (\<lambda>request_file s.
            or_errmsg E ''failed to unlink %s: %e'' request_file (sys_unlink request_file s) (\<lambda>s.
            or_errmsg E ''failed to rmdir %s: %e'' thread_dir (sys_unlink thread_dir s) (\<lambda>s.
              Ret (0, s))))))))
           (\<lambda>(_, s). run_bind (destroy_thread thr s) (\<lambda>s. Ret (0, s)))))"

section \<open>Linked objects\<close>

text \<open>A list of distinct live objects from a pointer to the null pointer.\<close>

primrec obj_chain :: "('o \<Rightarrow> ptr) \<Rightarrow> (ptr \<rightharpoonup> 'o) \<Rightarrow> ptr \<Rightarrow> ptr list \<Rightarrow> bool" where
  "obj_chain nxt h p [] \<longleftrightarrow> p = NULL"
| "obj_chain nxt h p (q # qs) \<longleftrightarrow> p = q \<and> q \<noteq> NULL \<and> (\<exists>x. h q = Some x \<and> obj_chain nxt h (nxt x) qs)"

lemma obj_chain_unique: "obj_chain nxt h p qs \<Longrightarrow> obj_chain nxt h p rs \<Longrightarrow> qs = rs"
proof (induction qs arbitrary: p rs)
  case Nil
  then show ?case by (cases rs) auto
next
  case (Cons q qs)
  then show ?case by (cases rs) auto
qed

lemma obj_chain_NULL [simp]: "obj_chain nxt h 0 qs \<longleftrightarrow> qs = []"
  by (cases qs) auto

lemma obj_chain_live: "obj_chain nxt h p qs \<Longrightarrow> q \<in> set qs \<Longrightarrow> q \<noteq> NULL \<and> (\<exists>x. h q = Some x)"
  by (induction qs arbitrary: p) auto

lemma obj_chain_field:
  "obj_chain nxt h p qs \<Longrightarrow> h q = Some x \<Longrightarrow> nxt y = nxt x \<Longrightarrow> obj_chain nxt (h(q \<mapsto> y)) p qs"
  by (induction qs arbitrary: p) auto

lemma obj_chain_head: "obj_chain nxt h p qs \<Longrightarrow> p = (case qs of [] \<Rightarrow> NULL | q # _ \<Rightarrow> q)"
  by (cases qs) auto

lemma obj_chain_cong:
  assumes "obj_chain nxt h p qs"
    and "\<And>q x. q \<in> set qs \<Longrightarrow> h q = Some x \<Longrightarrow> \<exists>x'. h' q = Some x' \<and> nxt x' = nxt x"
  shows "obj_chain nxt h' p qs"
  using assms by (induction qs arbitrary: p) force+

text \<open>
  A type of objects with a link that can be replaced. What the list operations of the code rely on
  is that the new link is the one read back.
\<close>

locale linked_objects =
  fixes nxt :: "'o \<Rightarrow> ptr" and relink :: "ptr \<Rightarrow> 'o \<Rightarrow> 'o"
  assumes nxt_relink [simp]: "nxt (relink p x) = p"
begin

lemma chain_append:
  assumes "obj_chain nxt h p qs" and "qs \<noteq> []" and "distinct qs" and "n \<notin> set qs" and "n \<noteq> NULL"
    and "h (last qs) = Some x" and "h n = Some y" and "nxt y = NULL"
  shows "obj_chain nxt (h(last qs \<mapsto> relink n x)) p (qs @ [n])"
  using assms
proof (induction qs arbitrary: p)
  case (Cons q qs)
  show ?case
  proof (cases qs)
    case Nil
    then show ?thesis using Cons.prems by auto
  next
    case (Cons r rs)
    then have "q \<noteq> last qs" using Cons.prems(3) by auto
    then show ?thesis
      using Cons Cons.prems Cons.IH [of "nxt (the (h q))"] by auto
  qed
qed simp

lemma chain_unlink:
  assumes "obj_chain nxt h p (ys @ q # zs)" and "ys \<noteq> []" and "distinct (ys @ q # zs)"
    and "h (last ys) = Some v" and "h q = Some t"
  shows "obj_chain nxt (h(last ys \<mapsto> relink (nxt t) v, q := None)) p (ys @ zs)"
  using assms
proof (induction ys arbitrary: p)
  case (Cons y ys)
  let ?h = "h(last (y # ys) \<mapsto> relink (nxt t) v, q := None)"
  obtain x where x: "h y = Some x" "obj_chain nxt h (nxt x) (ys @ q # zs)" using Cons.prems(1) by auto
  show ?case
  proof (cases ys)
    case Nil
    moreover have "obj_chain nxt h (nxt t) zs" using Cons.prems Nil by auto
    then have "obj_chain nxt ?h (nxt t) zs" using Cons.prems Nil by (elim obj_chain_cong) auto
    ultimately show ?thesis using Cons.prems by (auto simp: fun_upd_def)
  next
    case (Cons r rs)
    have "last (y # ys) = last ys" "y \<noteq> last ys" "y \<noteq> q" using Cons Cons.prems(3) by auto
    moreover have "obj_chain nxt (h(last ys \<mapsto> relink (nxt t) v, q := None)) (nxt x) (ys @ zs)"
      using Cons Cons.prems x(2) by (intro Cons.IH) auto
    ultimately show ?thesis using x(1) Cons.prems(1) by (simp add: fun_upd_def)
  qed
qed simp

end

interpretation thr: linked_objects next_thread "\<lambda>p t. t\<lparr>next_thread := p\<rparr>"
  by unfold_locales simp

interpretation bp: linked_objects next_breakpoint "\<lambda>p b. b\<lparr>next_breakpoint := p\<rparr>"
  by unfold_locales simp

section \<open>The list of threads\<close>

text \<open>The invariant: the list is a chain of distinct live structures and its length is counted.\<close>

definition thread_list :: "'z thr_state_scheme \<Rightarrow> ptr list \<Rightarrow> bool" where
  "thread_list s ps \<longleftrightarrow> obj_chain next_thread (thr_heap s) (threads s) ps \<and> distinct ps \<and> num_threads s = int (length ps)"

definition id_at :: "'z thr_state_scheme \<Rightarrow> ptr \<Rightarrow> u64" where
  "id_at s p = (case thr_heap s p of None \<Rightarrow> 0 | Some t \<Rightarrow> thr_id t)"

lemma link_loop_chain: "obj_chain next_thread h p qs \<Longrightarrow> link_loop h p l = Some (if qs = [] then l else last qs)"
proof (induction qs arbitrary: p l)
  case Nil
  then show ?case by (simp add: link_loop.simps)
next
  case (Cons q qs)
  then show ?case by (subst link_loop.simps) auto
qed

lemma find_thread_loop_chain:
  "obj_chain next_thread h p qs \<Longrightarrow>
     find_thread_loop h tid p = Some (case find (\<lambda>q. \<exists>t. h q = Some t \<and> thr_id t = tid) qs of None \<Rightarrow> NULL | Some q \<Rightarrow> q)"
proof (induction qs arbitrary: p)
  case Nil
  then show ?case by (simp add: find_thread_loop.simps)
next
  case (Cons q qs)
  then show ?case by (subst find_thread_loop.simps) auto
qed

lemma destroy_loop_chain:
  "obj_chain next_thread h p (ys @ q # zs) \<Longrightarrow> q \<notin> set ys \<Longrightarrow>
     destroy_loop h q p l = Some (q, if ys = [] then l else last ys)"
proof (induction ys arbitrary: p l)
  case Nil
  then show ?case by (subst destroy_loop.simps) auto
next
  case (Cons y ys)
  then show ?case by (subst destroy_loop.simps) auto
qed

lemma destroy_loop_absent:
  "obj_chain next_thread h p qs \<Longrightarrow> q \<notin> set qs \<Longrightarrow> \<exists>l'. destroy_loop h q p l = Some (NULL, l')"
proof (induction qs arbitrary: p l)
  case Nil
  then show ?case by (subst destroy_loop.simps) auto
next
  case (Cons y ys)
  then show ?case by (subst destroy_loop.simps) auto
qed

lemma find_thread_list:
  assumes "thread_list s ps"
  shows "find_thread tid s = Ret (case find (\<lambda>q. id_at s q = tid) ps of None \<Rightarrow> NULL | Some q \<Rightarrow> q)"
proof -
  have chain: "obj_chain next_thread (thr_heap s) (threads s) ps" using assms by (simp add: thread_list_def)
  have "find (\<lambda>q. \<exists>t. thr_heap s q = Some t \<and> thr_id t = tid) ps = find (\<lambda>q. id_at s q = tid) ps"
    using obj_chain_live [OF chain] by (intro find_cong) (fastforce simp: id_at_def)+
  then show ?thesis by (simp add: find_thread_def find_thread_loop_chain [OF chain])
qed

lemma get_current_thread_find: "get_current_thread s = find_thread (get_user_thread_id s) s"
  by (simp add: get_current_thread_def find_thread_def)

subsection \<open>Creating\<close>

lemma sys_pipe_heap [simp]:
  "thr_heap (snd (sys_pipe s)) = thr_heap s" "threads (snd (sys_pipe s)) = threads s"
  "num_threads (snd (sys_pipe s)) = num_threads s" "io_rest (snd (sys_pipe s)) = io_rest s"
  by (simp_all add: sys_pipe_def sys_call_def)

lemma init_control_pipe_heap:
  assumes "init_control_pipe s = (c, s')"
  shows "thr_heap s' = thr_heap s" "threads s' = threads s" "num_threads s' = num_threads s"
  using assms sys_pipe_heap [of s] by (auto simp: init_control_pipe_def sys_pipe_def sys_call_def split: if_splits)

lemma create_thread_struct_cases:
  assumes "create_thread_struct tid s = (p, s')"
  obtains (failed) "p = NULL" "threads s' = threads s" "num_threads s' = num_threads s" "thr_heap s \<subseteq>\<^sub>m thr_heap s'"
  | (made) pipe where "p \<noteq> NULL" "thr_heap s p = None" "thr_heap s' = (thr_heap s)(p \<mapsto> new_thread tid pipe)"
    "threads s' = threads s" "num_threads s' = num_threads s"
proof -
  obtain q s1 where a: "alloc_ptr (thr_heap s) s = (q, s1)" by fastforce
  then have s1: "s1 = s\<lparr>sys_count := Suc (sys_count s)\<rparr>" using alloc_ptr_state [of "thr_heap s" s] by simp
  show thesis
  proof (cases "q = NULL")
    case True
    then have "p = NULL" "s' = s1" using assms a by (auto simp: create_thread_struct_def)
    then show thesis by (intro failed) (simp_all add: s1)
  next
    case False
    then have fresh: "thr_heap s q = None" using alloc_ptr_fresh [OF a] by simp
    let ?s2 = "s1\<lparr>thr_heap := (thr_heap s1)(q \<mapsto> zero_thread)\<rparr>"
    obtain c s3 where c: "init_control_pipe ?s2 = (c, s3)" by fastforce
    then have s3: "thr_heap s3 = (thr_heap s)(q \<mapsto> zero_thread)" "threads s3 = threads s" "num_threads s3 = num_threads s"
      using init_control_pipe_heap [OF c] by (simp_all add: s1)
    show thesis
    proof (cases c)
      case None
      have "thr_heap s \<subseteq>\<^sub>m thr_heap s3" using s3 fresh by (auto simp: map_le_def)
      then show thesis using None failed assms a c s3 False by (simp add: create_thread_struct_def)
    next
      case (Some pipe)
      then have "p = q" "s' = s3\<lparr>thr_heap := (thr_heap s3)(q \<mapsto> new_thread tid pipe)\<rparr>"
        using assms a c False by (auto simp: create_thread_struct_def)
      then show thesis using made [of pipe] s3 False fresh by simp
    qed
  qed
qed

text \<open>Creation and destruction on the chain of the list; the count follows.\<close>

lemma create_thread_chain:
  assumes chain: "obj_chain next_thread (thr_heap s) (threads s) ps" and "distinct ps"
  shows "\<exists>p s'. create_thread tid s = Ret (p, s') \<and>
    (if p = NULL then obj_chain next_thread (thr_heap s') (threads s') ps \<and> num_threads s' = num_threads s \<and> (\<forall>q \<in> set ps. thr_heap s' q = thr_heap s q)
     else p \<notin> set ps \<and> obj_chain next_thread (thr_heap s') (threads s') (ps @ [p]) \<and> num_threads s' = num_threads s + 1 \<and>
       (\<exists>pipe. thr_heap s' p = Some (new_thread tid pipe)) \<and>
       (\<forall>q \<in> set ps. \<exists>t n. thr_heap s q = Some t \<and> thr_heap s' q = Some (t\<lparr>next_thread := n\<rparr>)))"
proof -
  obtain p s1 where c: "create_thread_struct tid s = (p, s1)" by fastforce
  then show ?thesis
  proof (cases rule: create_thread_struct_cases)
    case failed
    have same: "thr_heap s1 q = thr_heap s q" if "q \<in> set ps" for q
      using failed(4) obj_chain_live [OF chain that] by (metis domI map_le_def)
    then have "obj_chain next_thread (thr_heap s1) (threads s1) ps"
      unfolding failed(2) by (intro obj_chain_cong [OF chain]) simp
    then show ?thesis using c failed same by (simp add: create_thread_def)
  next
    case (made pipe)
    have new: "p \<notin> set ps" using obj_chain_live [OF chain] made(2) by force
    have same: "thr_heap s1 q = thr_heap s q" if "q \<in> set ps" for q using made(3) new that by auto
    have chain1: "obj_chain next_thread (thr_heap s1) (threads s1) ps"
      unfolding made(4) by (rule obj_chain_cong [OF chain]) (simp add: same)
    show ?thesis
    proof (cases "ps = []")
      case True
      then have "create_thread tid s = Ret (p, s1\<lparr>num_threads := num_threads s1 + 1, threads := p\<rparr>)"
        using c chain1 made(1) by (simp add: create_thread_def link_thread_def link_loop.simps)
      then show ?thesis using True made by (auto simp: new_thread_def)
    next
      case False
      then obtain x where x: "thr_heap s (last ps) = Some x" "last ps \<noteq> NULL" using obj_chain_live [OF chain] last_in_set by blast
      have hd: "threads s1 \<noteq> NULL" using obj_chain_head [OF chain1] False obj_chain_live [OF chain1] by (cases ps) auto
      let ?s' = "s1\<lparr>num_threads := num_threads s1 + 1, thr_heap := (thr_heap s1)(last ps \<mapsto> x\<lparr>next_thread := p\<rparr>)\<rparr>"
      have run: "create_thread tid s = Ret (p, ?s')"
        using c made(1) x False hd same by (simp add: create_thread_def link_thread_def link_loop_chain [OF chain1] derefI)
      have "obj_chain next_thread (thr_heap ?s') (threads ?s') (ps @ [p])"
        using thr.chain_append [OF chain1 False \<open>distinct ps\<close> new made(1), of x "new_thread tid pipe"] x made(3) False same
        by (simp add: new_thread_def)
      moreover have "num_threads ?s' = num_threads s + 1" using made(5) by simp
      moreover have "thr_heap ?s' p = Some (new_thread tid pipe)" using made(3) new False by auto
      moreover have "\<exists>t n. thr_heap s q = Some t \<and> thr_heap ?s' q = Some (t\<lparr>next_thread := n\<rparr>)" if "q \<in> set ps" for q
      proof -
        obtain t where "thr_heap s q = Some t" using obj_chain_live [OF chain] \<open>q \<in> set ps\<close> by blast
        then show ?thesis
          using same [OF \<open>q \<in> set ps\<close>] x(1) by (cases "q = last ps") (auto intro: exI [of _ "next_thread t"])
      qed
      ultimately show ?thesis
        using made(1) new by (intro exI [of _ p] exI [of _ ?s'] conjI run) (simp only: if_False, blast)
    qed
  qed
qed

lemma create_thread_ok:
  assumes inv: "thread_list s ps"
  shows "\<exists>p s'. create_thread tid s = Ret (p, s') \<and>
    (if p = NULL then thread_list s' ps \<and> (\<forall>q \<in> set ps. thr_heap s' q = thr_heap s q)
     else p \<notin> set ps \<and> thread_list s' (ps @ [p]) \<and> (\<exists>pipe. thr_heap s' p = Some (new_thread tid pipe)) \<and>
       (\<forall>q \<in> set ps. \<exists>t n. thr_heap s q = Some t \<and> thr_heap s' q = Some (t\<lparr>next_thread := n\<rparr>)))"
proof -
  have chain: "obj_chain next_thread (thr_heap s) (threads s) ps" and "distinct ps" and num: "num_threads s = int (length ps)"
    using inv by (simp_all add: thread_list_def)
  from create_thread_chain [OF chain \<open>distinct ps\<close>, of tid] obtain p s' where run: "create_thread tid s = Ret (p, s')"
    and res: "if p = NULL then obj_chain next_thread (thr_heap s') (threads s') ps \<and> num_threads s' = num_threads s \<and> (\<forall>q \<in> set ps. thr_heap s' q = thr_heap s q)
     else p \<notin> set ps \<and> obj_chain next_thread (thr_heap s') (threads s') (ps @ [p]) \<and> num_threads s' = num_threads s + 1 \<and>
       (\<exists>pipe. thr_heap s' p = Some (new_thread tid pipe)) \<and>
       (\<forall>q \<in> set ps. \<exists>t n. thr_heap s q = Some t \<and> thr_heap s' q = Some (t\<lparr>next_thread := n\<rparr>))"
    by blast
  then show ?thesis using num \<open>distinct ps\<close> by (intro exI [of _ p] exI [of _ s']) (cases "p = NULL"; simp add: thread_list_def)
qed

subsection \<open>Destroying\<close>

text \<open>The state after the two descriptors are closed, as far as the system lets them be.\<close>

lemma sys_close_heap [simp]:
  "thr_heap (snd (sys_close fd s)) = thr_heap s" "threads (snd (sys_close fd s)) = threads s"
  "num_threads (snd (sys_close fd s)) = num_threads s" "udi_files (snd (sys_close fd s)) = udi_files s"
  "io_rest (snd (sys_close fd s)) = snd (sys_close fd s)\<lparr>sys_count := 0, errmsg := None, in_data := (\<lambda>_. []), out_data := (\<lambda>_. []), pipe_write_failure := False\<rparr>"
  by (simp_all add: sys_close_def sys_call_def io_rest_def)

lemma destroy_thread_chain:
  assumes chain: "obj_chain next_thread (thr_heap s) (threads s) (ys @ p # zs)" and dist: "distinct (ys @ p # zs)"
  shows "\<exists>s'. destroy_thread p s = Ret s' \<and> thr_heap s' p = None \<and> num_threads s' = num_threads s - 1 \<and>
    udi_files s' = udi_files s \<and> bp_heap s' = bp_heap s \<and> breakpoints s' = breakpoints s \<and>
    (if ys = [] then threads s' = NULL \<and> (\<forall>q. q \<noteq> p \<longrightarrow> thr_heap s' q = thr_heap s q)
     else obj_chain next_thread (thr_heap s') (threads s') (ys @ zs) \<and> threads s' = threads s \<and>
       (\<forall>q. q \<noteq> p \<and> q \<noteq> last ys \<longrightarrow> thr_heap s' q = thr_heap s q) \<and>
       (\<exists>l n. thr_heap s (last ys) = Some l \<and> thr_heap s' (last ys) = Some (l\<lparr>next_thread := n\<rparr>)))"
proof -
  obtain t where t: "thr_heap s p = Some t" "p \<noteq> NULL" using obj_chain_live [OF chain, of p] by auto
  have loop: "destroy_loop (thr_heap s) p (threads s) (threads s) = Some (p, if ys = [] then threads s else last ys)"
    using destroy_loop_chain [OF chain] dist by simp
  have head: "p = threads s \<longleftrightarrow> ys = []" using obj_chain_head [OF chain] dist by (cases ys) auto
  define close2 where "close2 u = snd (sys_close (control_read t) (snd (sys_close (control_write t) u)))" for u :: "'a thr_state_scheme"
  have c2: "thr_heap (close2 u) = thr_heap u" "threads (close2 u) = threads u" "num_threads (close2 u) = num_threads u"
    "udi_files (close2 u) = udi_files u" "bp_heap (close2 u) = bp_heap u" "breakpoints (close2 u) = breakpoints u" for u
    by (simp_all add: close2_def) (simp_all add: sys_close_def sys_call_def)
  show ?thesis
  proof (cases "ys = []")
    case True
    then have "destroy_thread p s = Ret ((close2 (s\<lparr>threads := NULL\<rparr>))\<lparr>thr_heap := (thr_heap s)(p := None), num_threads := num_threads s - 1\<rparr>)"
      using loop t head c2 by (simp add: destroy_thread_def derefI close2_def split_beta)
    then show ?thesis using True c2 by simp
  next
    case False
    then obtain l where l: "thr_heap s (last ys) = Some l" "last ys \<noteq> NULL" using obj_chain_live [OF chain, of "last ys"] by auto
    let ?h = "(thr_heap s)(last ys \<mapsto> l\<lparr>next_thread := next_thread t\<rparr>)"
    have run: "destroy_thread p s = Ret ((close2 (s\<lparr>thr_heap := ?h\<rparr>))\<lparr>thr_heap := ?h(p := None), num_threads := num_threads s - 1\<rparr>)"
      using loop t head False l c2 by (simp add: destroy_thread_def derefI close2_def split_beta)
    have ne: "last ys \<noteq> p" using dist False by auto
    have "obj_chain next_thread (?h(p := None)) (threads s) (ys @ zs)"
      using thr.chain_unlink [OF chain False dist l(1) t(1)] by simp
    then show ?thesis using run False c2 ne l by auto
  qed
qed

lemma destroy_thread_ok:
  assumes inv: "thread_list s (ys @ p # zs)"
  shows "\<exists>s'. destroy_thread p s = Ret s' \<and> thr_heap s' p = None \<and> num_threads s' = num_threads s - 1 \<and>
    udi_files s' = udi_files s \<and>
    (if ys = [] then threads s' = NULL \<and> (\<forall>q. q \<noteq> p \<longrightarrow> thr_heap s' q = thr_heap s q)
     else thread_list s' (ys @ zs) \<and> threads s' = threads s \<and>
       (\<forall>q. q \<noteq> p \<and> q \<noteq> last ys \<longrightarrow> thr_heap s' q = thr_heap s q) \<and>
       (\<exists>l n. thr_heap s (last ys) = Some l \<and> thr_heap s' (last ys) = Some (l\<lparr>next_thread := n\<rparr>)))"
proof -
  have chain: "obj_chain next_thread (thr_heap s) (threads s) (ys @ p # zs)" and dist: "distinct (ys @ p # zs)"
    and num: "num_threads s = int (length (ys @ p # zs))"
    using inv by (simp_all add: thread_list_def)
  from destroy_thread_chain [OF chain dist] show ?thesis using num dist by (auto simp: thread_list_def split: if_splits)
qed

section \<open>The files of a thread\<close>

text \<open>The directory of a thread: the base directory and the sixteen hexadecimal digits of its identity.\<close>

definition thread_dir_of :: "'z thr_state_scheme \<Rightarrow> u64 \<Rightarrow> string" where
  "thread_dir_of s tid = basedir_name s @ ''/'' @ udi_log_64bit write_log [] tid"

definition thread_file_of :: "'z thr_state_scheme \<Rightarrow> u64 \<Rightarrow> string \<Rightarrow> string" where
  "thread_file_of s tid name = thread_dir_of s tid @ ''/'' @ name"

definition thread_files :: "'z thr_state_scheme \<Rightarrow> u64 \<Rightarrow> string set" where
  "thread_files s tid =
     {thread_dir_of s tid, thread_file_of s tid REQUEST_FILE_NAME, thread_file_of s tid RESPONSE_FILE_NAME}"

lemma thread_paths_upd [simp]:
  "thread_dir_of (s\<lparr>sys_count := c\<rparr>) = thread_dir_of s" "thread_dir_of (s\<lparr>udi_files := f\<rparr>) = thread_dir_of s"
  "thread_dir_of (s\<lparr>closed_fds := l\<rparr>) = thread_dir_of s" "thread_dir_of (s\<lparr>thr_heap := h\<rparr>) = thread_dir_of s"
  "thread_file_of (s\<lparr>sys_count := c\<rparr>) = thread_file_of s" "thread_file_of (s\<lparr>udi_files := f\<rparr>) = thread_file_of s"
  "thread_file_of (s\<lparr>closed_fds := l\<rparr>) = thread_file_of s" "thread_file_of (s\<lparr>thr_heap := h\<rparr>) = thread_file_of s"
  by (simp_all add: fun_eq_iff thread_dir_of_def thread_file_of_def)

lemma formatted_text:
  assumes "format_text E fmt args = Some text" and "NUL \<notin> set text" and "length text < n"
  shows "formatted E n fmt args = Ret text"
proof -
  have "0 < n" "n \<le> length (replicate n NUL)" using assms(3) by auto
  from formatted_buffer(2) [OF this assms(2) refl] assms(1,3) show ?thesis
    by (simp add: formatted_def udi_formatted_str_text [OF \<open>0 < n\<close>] Let_def)
qed

lemma format_join: "format_text E ''%s/%s'' [ArgStr a, ArgStr b] = Some (c_str a @ ''/'' @ c_str b)"
  by (simp add: format_text_def log_placeholder.simps udi_log_string_def write_log_def)

lemma format_hex: "format_text E ''%x'' [ArgU64 w] = Some (udi_log_64bit write_log [] w)"
  by (simp add: format_text_def log_placeholder.simps)

lemma formatted_join:
  "NUL \<notin> set a \<Longrightarrow> NUL \<notin> set b \<Longrightarrow>
     formatted E (Suc (Suc (length a + length b))) ''%s/%s'' [ArgStr a, ArgStr b] = Ret (a @ ''/'' @ b)"
  by (rule formatted_text) (auto simp: format_join c_str_id)

lemma get_thread_dir_ok:
  assumes "sys_always_ok s" and "p \<noteq> NULL" and "thr_heap s p = Some t" and "NUL \<notin> set (basedir_name s)"
  shows "get_thread_dir E p s = Ret (Some (thread_dir_of s (thr_id t)), s\<lparr>sys_count := Suc (sys_count s)\<rparr>)"
proof -
  have "formatted E 32 ''%x'' [ArgU64 (thr_id t)] = Ret (udi_log_64bit write_log [] (thr_id t))"
    by (rule formatted_text) (simp_all add: format_hex read_hex_log_64bit)
  then show ?thesis
    using assms formatted_join [OF assms(4) read_hex_log_64bit(3) [of "thr_id t"], of E]
    by (simp add: get_thread_dir_def get_thread_id_def thread_at_def derefI sys_call_def sys_always_ok_def thread_dir_of_def)
qed

lemma get_thread_file_ok:
  assumes "sys_always_ok s" and "NUL \<notin> set dir" and "NUL \<notin> set name"
  shows "get_thread_file E dir name s = Ret (Some (dir @ ''/'' @ name), s\<lparr>sys_count := Suc (sys_count s)\<rparr>)"
  using assms formatted_join [OF assms(2,3), of E]
  by (simp add: get_thread_file_def sys_call_def sys_always_ok_def)

lemma thread_dir_no_NUL: "NUL \<notin> set (basedir_name s) \<Longrightarrow> NUL \<notin> set (thread_dir_of s tid)"
  by (simp add: thread_dir_of_def read_hex_log_64bit)

lemma file_name_no_NUL: "NUL \<notin> set REQUEST_FILE_NAME" "NUL \<notin> set RESPONSE_FILE_NAME"
  by (simp_all add: REQUEST_FILE_NAME_def RESPONSE_FILE_NAME_def)

lemma sys_errno_ok [simp]: "\<not> sys_failed r \<Longrightarrow> sys_errno r = 0"
  by (cases r) simp_all

lemma sys_files_ok:
  assumes "sys_always_ok s"
  shows "sys_make path s = (0, s\<lparr>sys_count := Suc (sys_count s), udi_files := insert path (udi_files s)\<rparr>)"
    and "sys_unlink path s = (0, s\<lparr>sys_count := Suc (sys_count s), udi_files := udi_files s - {path}\<rparr>)"
    and "sys_close fd s = (0, s\<lparr>sys_count := Suc (sys_count s), closed_fds := closed_fds s @ [fd]\<rparr>)"
  using assms by (auto simp: sys_make_def sys_unlink_def sys_close_def sys_call_def sys_always_ok_def)

lemma sys_always_ok_thr [simp]:
  "sys_always_ok (s\<lparr>udi_files := f\<rparr>) = sys_always_ok s" "sys_always_ok (s\<lparr>closed_fds := l\<rparr>) = sys_always_ok s"
  "sys_always_ok (s\<lparr>thr_heap := h\<rparr>) = sys_always_ok s"
  by (simp_all add: sys_always_ok_def)

text \<open>What the operations on threads and files leave alone.\<close>

definition thr_frame :: "'z thr_state_scheme \<Rightarrow> 'z thr_state_scheme \<Rightarrow> bool" where
  "thr_frame s s' \<longleftrightarrow> sys_oracle s' = sys_oracle s \<and> in_data s' = in_data s \<and> out_data s' = out_data s \<and> basedir_name s' = basedir_name s \<and>
     self s' = self s \<and> has_pthread_self s' = has_pthread_self s \<and> has_pthread_sigmask s' = has_pthread_sigmask s \<and>
     thr_state.more s' = thr_state.more s"

lemma thr_frame_refl [simp]: "thr_frame s s"
  by (simp add: thr_frame_def)

lemma thr_frame_trans: "thr_frame s s' \<Longrightarrow> thr_frame s' s'' \<Longrightarrow> thr_frame s s''"
  by (simp add: thr_frame_def)

lemma thr_frameD:
  assumes "thr_frame s s'"
  shows "sys_oracle s' = sys_oracle s" "in_data s' = in_data s" "out_data s' = out_data s" "basedir_name s' = basedir_name s"
    "get_user_thread_id s' = get_user_thread_id s" "get_multithread_capable s' = get_multithread_capable s" "thread_files s' = thread_files s"
    "sys_always_ok s' = sys_always_ok s" "thr_state.more s' = thr_state.more s"
  using assms
  by (simp_all add: thr_frame_def get_user_thread_id_def get_multithread_capable_def sys_always_ok_def thread_files_def
      thread_file_of_def thread_dir_of_def fun_eq_iff)

lemma create_thread_frame:
  assumes "create_thread tid s = Ret (p, s')"
  shows "thr_frame s s'" and "udi_files s' = udi_files s"
  using assms
  by (auto simp: thr_frame_def create_thread_def create_thread_struct_def alloc_ptr_def link_thread_def init_control_pipe_def sys_pipe_def
      sys_call_def Let_def split: if_splits sysret.splits elim!: run_bind_Ret_E)

lemma thread_create_callback_ok:
  assumes "sys_always_ok s" and "p \<noteq> NULL" and "thr_heap s p = Some t" and "NUL \<notin> set (basedir_name s)"
  shows "\<exists>s'. thread_create_callback E p s = Ret (0, s') \<and> udi_files s' = udi_files s \<union> thread_files s (thr_id t) \<and>
    thr_heap s' = thr_heap s \<and> threads s' = threads s \<and> num_threads s' = num_threads s \<and> thr_frame s s'"
  using assms thread_dir_no_NUL [OF assms(4), of "thr_id t"]
  by (auto simp: thr_frame_def thread_create_callback_def with_path_def or_errmsg_def get_thread_dir_ok get_thread_file_ok sys_files_ok
      file_name_no_NUL thread_files_def thread_file_of_def)

lemma thread_death_handshake_ok:
  assumes "sys_always_ok s" and "p \<noteq> NULL" and "thr_heap s p = Some t" and "dead t" and "NUL \<notin> set (basedir_name s)"
  shows "\<exists>s1. thread_death_handshake E p s = run_bind (destroy_thread p s1) (\<lambda>s. Ret (0, s)) \<and>
    udi_files s1 = udi_files s - thread_files s (thr_id t) \<and> closed_fds s1 = closed_fds s @ [request_handle t] \<and>
    thr_heap s1 = thr_heap s \<and> threads s1 = threads s \<and> num_threads s1 = num_threads s \<and> sys_oracle s1 = sys_oracle s"
  using assms thread_dir_no_NUL [OF assms(5), of "thr_id t"]
  by (auto simp: thread_death_handshake_def thread_at_def derefI with_path_def or_errmsg_def get_thread_dir_ok get_thread_file_ok
      sys_files_ok file_name_no_NUL thread_files_def thread_file_of_def)

section \<open>Properties\<close>

lemma thread_death_callback_ok:
  assumes "sys_always_ok s" and "p \<noteq> NULL" and "thr_heap s p = Some t"
  shows "thread_death_callback E p s = Ret (0, s\<lparr>thr_heap := (thr_heap s)(p \<mapsto> t\<lparr>dead := True\<rparr>), sys_count := Suc (sys_count s),
    closed_fds := closed_fds s @ [response_handle t]\<rparr>)"
  using assms by (auto simp: thread_death_callback_def update_thread_def thread_at_def derefI sys_files_ok)

text \<open>Two threads, the second of which is dead, in a system that answers every call.\<close>

definition sample_thr_state :: thr_state where
  "sample_thr_state = io_state.extend (sample_io_state [] (\<lambda>_. SysOk 7))
     \<lparr>thr_heap = [3 \<mapsto> (new_thread 16 (5, 6))\<lparr>next_thread := 2\<rparr>, 2 \<mapsto> (new_thread 17 (8, 9))\<lparr>dead := True\<rparr>],
      threads = 3, num_threads = 2, self = 16, has_pthread_self = True, has_pthread_sigmask = True,
      closed_fds = [], basedir_name = ''/tmp/udi/9'', udi_files = {}\<rparr>"

lemma sample_thr_state_simps:
  "thread_list sample_thr_state [3, 2]" "sys_always_ok sample_thr_state"
  "thr_heap sample_thr_state 3 = Some ((new_thread 16 (5, 6))\<lparr>next_thread := 2\<rparr>)"
  "thr_heap sample_thr_state 2 = Some ((new_thread 17 (8, 9))\<lparr>dead := True\<rparr>)"
  "NUL \<notin> set (basedir_name sample_thr_state)" "udi_files sample_thr_state = {}"
  by (simp_all add: sample_thr_state_def io_state.defs thread_list_def new_thread_def sys_always_ok_def
      sample_io_state_def bp_state.defs)

text \<open>
  C37. Creating a thread structure. From a well-formed list, \<^verbatim>\<open>create_thread\<close> returns for every
  behaviour of the allocator and of \<^verbatim>\<open>pipe\<close>: either null with the list as it was, or a new
  structure that stands last in the list, counted, in the running state and without pipes of its
  own; every other structure keeps everything but its link. A search for the identity
  then finds the new structure, unless an earlier thread has that identity.
\<close>

theorem create_thread_correct:
  assumes "thread_list s ps"
  shows "\<exists>p s'. create_thread tid s = Ret (p, s') \<and>
    (if p = NULL then thread_list s' ps \<and> (\<forall>q \<in> set ps. thr_heap s' q = thr_heap s q)
     else p \<notin> set ps \<and> thread_list s' (ps @ [p]) \<and> (\<exists>pipe. thr_heap s' p = Some (new_thread tid pipe)) \<and>
       (\<forall>q \<in> set ps. \<exists>t n. thr_heap s q = Some t \<and> thr_heap s' q = Some (t\<lparr>next_thread := n\<rparr>)) \<and>
       (tid \<notin> id_at s ` set ps \<longrightarrow> find_thread tid s' = Ret p))"
proof -
  obtain p s' where run: "create_thread tid s = Ret (p, s')"
    and res: "if p = NULL then thread_list s' ps \<and> (\<forall>q \<in> set ps. thr_heap s' q = thr_heap s q)
     else p \<notin> set ps \<and> thread_list s' (ps @ [p]) \<and> (\<exists>pipe. thr_heap s' p = Some (new_thread tid pipe)) \<and>
       (\<forall>q \<in> set ps. \<exists>t n. thr_heap s q = Some t \<and> thr_heap s' q = Some (t\<lparr>next_thread := n\<rparr>))"
    using create_thread_ok [OF assms] by blast
  have "find_thread tid s' = Ret p" if "p \<noteq> NULL" and new: "tid \<notin> id_at s ` set ps"
  proof -
    have "id_at s' q = id_at s q" if "q \<in> set ps" for q
      using res \<open>p \<noteq> NULL\<close> that by (fastforce simp: id_at_def)
    then have "find (\<lambda>q. id_at s' q = tid) ps = None" using new by (auto simp: find_None_iff)
    moreover have "id_at s' p = tid" using res \<open>p \<noteq> NULL\<close> by (auto simp: id_at_def new_thread_def)
    moreover have "find P (xs @ [x]) = (case find P xs of None \<Rightarrow> find P [x] | Some y \<Rightarrow> Some y)" for P xs and x :: ptr
      by (induction xs) auto
    ultimately show ?thesis using find_thread_list [of s' "ps @ [p]" tid] res \<open>p \<noteq> NULL\<close> by simp
  qed
  then show ?thesis
  proof (cases "p = NULL")
    case True
    then show ?thesis using run res by (intro exI [of _ p] exI [of _ s']) simp
  next
    case False
    note res [unfolded if_not_P [OF False]]
    then show ?thesis
      unfolding run using False \<open>p \<noteq> NULL \<Longrightarrow> tid \<notin> id_at s ` set ps \<Longrightarrow> find_thread tid s' = Ret p\<close>
      by (intro exI [of _ p] exI [of _ s'] conjI refl) (subst if_not_P [OF False], blast)
  qed
qed

theorem create_thread_correct_witness:
  "\<exists>p s'. create_thread 18 sample_thr_state = Ret (p, s') \<and> p = 7 \<and> thread_list s' [3, 2, 7] \<and> find_thread 18 s' = Ret 7"
proof -
  obtain p s' where r: "create_thread 18 sample_thr_state = Ret (p, s')"
    and res: "if p = NULL then thread_list s' [3, 2] \<and> (\<forall>q \<in> set [3, 2]. thr_heap s' q = thr_heap sample_thr_state q)
     else p \<notin> set [3, 2] \<and> thread_list s' ([3, 2] @ [p]) \<and> (\<exists>pipe. thr_heap s' p = Some (new_thread 18 pipe)) \<and>
       (\<forall>q \<in> set [3, 2]. \<exists>t n. thr_heap sample_thr_state q = Some t \<and> thr_heap s' q = Some (t\<lparr>next_thread := n\<rparr>)) \<and>
       (18 \<notin> id_at sample_thr_state ` set [3, 2] \<longrightarrow> find_thread 18 s' = Ret p)"
    using create_thread_correct [OF sample_thr_state_simps(1), of 18] by blast
  have "p = 7"
    using r by (simp add: create_thread_def create_thread_struct_def alloc_ptr_def sys_call_def sample_thr_state_def
        io_state.defs sample_io_state_def bp_state.defs init_control_pipe_def get_multithread_capable_def sys_pipe_def
        run_bind_eq_Ret)
  then show ?thesis using r res by (simp add: id_at_def sample_thr_state_simps new_thread_def)
qed

text \<open>
  Destroying a thread structure. A thread that is not the first of the list is unlinked and
  freed: the list is what remains without it, its count is exact, and only the link of its
  predecessor is written. Destroying the first thread empties the list: every other thread stays
  allocated but is no longer reachable from the list, while the count still includes them.
\<close>

theorem destroy_thread_effect:
  assumes "thread_list s (ys @ p # zs)"
  shows "\<exists>s'. destroy_thread p s = Ret s' \<and> thr_heap s' p = None \<and> num_threads s' = num_threads s - 1 \<and>
    (if ys = [] then threads s' = NULL \<and> (\<forall>q. q \<noteq> p \<longrightarrow> thr_heap s' q = thr_heap s q) \<and>
       (\<forall>tid. find_thread tid s' = Ret NULL) \<and> num_threads s' = int (length zs)
     else thread_list s' (ys @ zs) \<and> (\<forall>q. q \<noteq> p \<and> q \<noteq> last ys \<longrightarrow> thr_heap s' q = thr_heap s q))"
proof -
  obtain s' where run: "destroy_thread p s = Ret s'" and gone: "thr_heap s' p = None" and num: "num_threads s' = num_threads s - 1"
    and res: "if ys = [] then threads s' = NULL \<and> (\<forall>q. q \<noteq> p \<longrightarrow> thr_heap s' q = thr_heap s q)
     else thread_list s' (ys @ zs) \<and> threads s' = threads s \<and>
       (\<forall>q. q \<noteq> p \<and> q \<noteq> last ys \<longrightarrow> thr_heap s' q = thr_heap s q) \<and>
       (\<exists>l n. thr_heap s (last ys) = Some l \<and> thr_heap s' (last ys) = Some (l\<lparr>next_thread := n\<rparr>))"
    using destroy_thread_ok [OF assms] by blast
  have "find_thread tid s' = Ret NULL" if "ys = []" for tid
    using res that by (simp add: find_thread_def find_thread_loop.simps)
  moreover have "num_threads s' = int (length zs)" if "ys = []"
    using num assms that by (simp add: thread_list_def)
  ultimately show ?thesis using run gone num res by (intro exI [of _ s']) (cases "ys = []"; simp)
qed

theorem destroy_thread_effect_witness:
  "\<exists>s'. destroy_thread 3 sample_thr_state = Ret s' \<and> threads s' = NULL \<and> num_threads s' = 1 \<and>
     thr_heap s' 2 = thr_heap sample_thr_state 2"
proof -
  have "thread_list sample_thr_state ([] @ 3 # [2])" using sample_thr_state_simps(1) by simp
  from destroy_thread_effect [OF this] show ?thesis by (auto simp: numeral_2_eq_2)
qed

text \<open>
  C38. The files of a thread, from its creation to the acknowledgement of its death. When the system answers, \<^verbatim>\<open>thread_create_callback\<close> makes for a
  new thread exactly the directory named by the sixteen hexadecimal digits of its identity and the two pipes in it. Whatever happens until the thread dies, as long
  as it is in the list behind the first thread, with its files and open handles: its death marks it and closes its response handle, and
  the handshake for it takes exactly these files away again, closes the request handle and takes the thread off the list.
\<close>

theorem thread_files_lifecycle:
  fixes s u :: "'z thr_state_scheme"
  assumes "sys_always_ok s" and "thread_list s ps" and "create_thread tid s = Ret (p, s0)" and "p \<noteq> NULL"
    and "NUL \<notin> set (basedir_name s)"
    and "sys_always_ok u" and "thread_list u (ys @ p # zs)" and "ys \<noteq> []" and "thr_heap u p = Some t" and "thr_id t = tid"
    and "0 \<le> request_handle t" and "0 \<le> response_handle t" and "basedir_name u = basedir_name s"
  shows "(\<exists>s1. thread_create_callback E p s0 = Ret (0, s1) \<and> udi_files s1 = udi_files s \<union> thread_files s tid) \<and>
    (\<exists>u1 u2. thread_death_callback E p u = Ret (0, u1) \<and> udi_files u1 = udi_files u \<and> closed_fds u1 = closed_fds u @ [response_handle t] \<and>
       thread_death_handshake E p u1 = Ret (0, u2) \<and> udi_files u2 = udi_files u - thread_files s tid \<and> thread_list u2 (ys @ zs))"
proof
  obtain pipe where new: "thr_heap s0 p = Some (new_thread tid pipe)" using create_thread_ok [OF assms(2), of tid] assms(3,4) by auto
  note f = thr_frameD [OF create_thread_frame(1) [OF assms(3)]] create_thread_frame(2) [OF assms(3)]
  have "sys_always_ok s0" "NUL \<notin> set (basedir_name s0)" "thr_id (new_thread tid pipe) = tid"
    using assms(1,5) f by (simp_all add: new_thread_def)
  with thread_create_callback_ok [OF _ assms(4) new] f
  show "\<exists>s1. thread_create_callback E p s0 = Ret (0, s1) \<and> udi_files s1 = udi_files s \<union> thread_files s tid" by fastforce
next
  note d1 = thread_death_callback_ok [OF assms(6,4,9), of E]
  let ?u1 = "u\<lparr>thr_heap := (thr_heap u)(p \<mapsto> t\<lparr>dead := True\<rparr>), sys_count := Suc (sys_count u), closed_fds := closed_fds u @ [response_handle t]\<rparr>"
  have chain: "obj_chain next_thread (thr_heap ?u1) (threads u) (ys @ p # zs)"
    using assms(7,9) by (auto simp: thread_list_def intro!: obj_chain_field)
  have u1: "sys_always_ok ?u1" "thr_heap ?u1 p = Some (t\<lparr>dead := True\<rparr>)" "NUL \<notin> set (basedir_name ?u1)" "dead (t\<lparr>dead := True\<rparr>)"
    using assms(5,6,13) by simp_all
  from thread_death_handshake_ok [OF u1(1) assms(4) u1(2,4,3)] obtain v where
    v: "thread_death_handshake E p ?u1 = run_bind (destroy_thread p v) (\<lambda>s. Ret (0, s))"
      "udi_files v = udi_files ?u1 - thread_files ?u1 (thr_id (t\<lparr>dead := True\<rparr>))"
      "thr_heap v = thr_heap ?u1" "threads v = threads ?u1" "num_threads v = num_threads ?u1" by blast
  have "thread_list v (ys @ p # zs)" using assms(7) chain v by (simp add: thread_list_def)
  from destroy_thread_ok [OF this] obtain w where "destroy_thread p v = Ret w" "thread_list w (ys @ zs)" "udi_files w = udi_files v"
    using assms(8) by auto
  moreover have "thread_files ?u1 (thr_id (t\<lparr>dead := True\<rparr>)) = thread_files s tid"
    using assms(10,13) by (simp add: thread_files_def thread_file_of_def thread_dir_of_def)
  ultimately show "\<exists>u1 u2. thread_death_callback E p u = Ret (0, u1) \<and> udi_files u1 = udi_files u \<and> closed_fds u1 = closed_fds u @ [response_handle t] \<and>
       thread_death_handshake E p u1 = Ret (0, u2) \<and> udi_files u2 = udi_files u - thread_files s tid \<and> thread_list u2 (ys @ zs)"
    using d1 v(1,2) by (intro exI [of _ ?u1] exI [of _ w]) simp
qed

text \<open>The second thread of the sample, made from a process with one thread, and with its handles open.\<close>

definition sample_first_thread :: thr_state where
  "sample_first_thread = sample_thr_state\<lparr>thr_heap := [3 \<mapsto> new_thread 16 (5, 6)], num_threads := 1\<rparr>"

definition sample_open_thread :: thr_state where
  "sample_open_thread = sample_thr_state\<lparr>
     thr_heap := [3 \<mapsto> (new_thread 16 (5, 6))\<lparr>next_thread := 7\<rparr>, 7 \<mapsto> (new_thread 17 (7, 7))\<lparr>request_handle := 8, response_handle := 9\<rparr>],
     udi_files := thread_files sample_thr_state 17\<rparr>"

theorem thread_files_lifecycle_witness:
  "\<exists>s0 s1 u1 u2. create_thread 17 sample_first_thread = Ret (7, s0) \<and> thread_create_callback sample_env 7 s0 = Ret (0, s1) \<and>
     udi_files s1 = udi_files sample_open_thread \<and> thread_death_callback sample_env 7 sample_open_thread = Ret (0, u1) \<and>
     thread_death_handshake sample_env 7 u1 = Ret (0, u2) \<and> udi_files u2 = {} \<and> thread_list u2 [3]"
proof -
  let ?s = sample_first_thread and ?u = sample_open_thread
  have s: "sys_always_ok ?s" "thread_list ?s [3]" "NUL \<notin> set (basedir_name ?s)" "udi_files ?s = {}" "thread_files ?s = thread_files sample_thr_state"
    using sample_thr_state_simps
    by (simp_all add: sample_first_thread_def thread_list_def sys_always_ok_def new_thread_def thread_files_def thread_file_of_def
        thread_dir_of_def fun_eq_iff sample_thr_state_def io_state.defs)
  have u: "sys_always_ok ?u" "thread_list ?u ([3] @ 7 # [])" "thr_heap ?u 7 = Some ((new_thread 17 (7, 7))\<lparr>request_handle := 8, response_handle := 9\<rparr>)"
    "basedir_name ?u = basedir_name ?s" "udi_files ?u = thread_files sample_thr_state 17"
    using sample_thr_state_simps
    by (simp_all add: sample_open_thread_def sample_first_thread_def thread_list_def sys_always_ok_def new_thread_def sample_thr_state_def io_state.defs)
  obtain p s0 where c: "create_thread 17 ?s = Ret (p, s0)" using create_thread_ok [OF s(2), of 17] by blast
  then have "p = 7"
    by (auto simp: create_thread_def create_thread_struct_def alloc_ptr_def sys_call_def sample_first_thread_def sample_thr_state_def
        io_state.defs sample_io_state_def bp_state.defs init_control_pipe_def get_multithread_capable_def sys_pipe_def run_bind_eq_Ret)
  with c have c7: "create_thread 17 ?s = Ret (7, s0)" by simp
  from thread_files_lifecycle [OF s(1,2) c7 _ s(3) u(1,2) _ u(3) _ _ _ u(4), of sample_env] show ?thesis
    using c7 s(4,5) u(5) by (auto simp: new_thread_def)
qed

end
