(* ===== verification/Requests.thy ===== *)
theory Requests
  imports Threads
begin

text \<open>
  Requests of the debugger (\<^verbatim>\<open>udirt-msg.c\<close> lines 528 to 1545): for each request its configuration
  (the keys it expects and the callbacks that store their values) and its handler, the two tables of
  handlers, the dispatch of a request to the process or to a thread, the error response, and
  the initial handshake.
\<close>

section \<open>Definitions\<close>

text \<open>
  The breakpoint to install on the next continue and the address of the breakpoint
  stepped over; whether the process is exiting; the signal to pass on, and the signals that
  \<^verbatim>\<open>kill\<close> was called with.
\<close>

record req_state = thr_state +
  continue_bp :: ptr
  last_bp_address :: u64
  exiting :: bool
  pass_signal :: u32
  kills :: "u32 list"

type_synonym ('d, 's) item_step = "'d req_data_state cbor_read_state \<Rightarrow> 's \<Rightarrow> 'd req_data_state cbor_read_state \<times> 's"

text \<open>A callback that stores a value and completes its item.\<close>

definition store_item :: "nat \<Rightarrow> ('d \<Rightarrow> 'd) \<Rightarrow> ('d, 's) item_step" where
  "store_item num f st s = (complete_item num (set_data f st), s)"

subsection \<open>Continue\<close>

definition continue_sig_callback :: "u32 \<Rightarrow> (continue_req, 's) item_step" where
  "continue_sig_callback value = store_item 1 (\<lambda>data. data\<lparr>sig := value\<rparr>)"

definition continue_sig_uint16_callback :: "u16 \<Rightarrow> (continue_req, 's) item_step" where
  "continue_sig_uint16_callback value = continue_sig_callback (ucast value)"

definition continue_sig_uint8_callback :: "u8 \<Rightarrow> (continue_req, 's) item_step" where
  "continue_sig_uint8_callback value = continue_sig_callback (ucast value)"

definition continue_init_config :: "env \<Rightarrow> (continue_req, 'z msg_state_scheme) msg_config" where
  "continue_init_config E =
     \<lparr>num_items = 1,
      items = [\<lparr>key = ''sig'', callbacks = (\<lambda>ev. case ev of
         Ev_uint32 v \<Rightarrow> continue_sig_callback v
       | Ev_uint16 v \<Rightarrow> continue_sig_uint16_callback v
       | Ev_uint8 v \<Rightarrow> continue_sig_uint8_callback v
       | _ \<Rightarrow> invalid_callbacks E ev)\<rparr>]\<rparr>"

text \<open>The first loop of \<^verbatim>\<open>continue_handler\<close>: whether some thread is in the running state.\<close>

partial_function (option) can_continue_loop :: "(ptr \<rightharpoonup> thread) \<Rightarrow> ptr \<Rightarrow> bool option" where
  "can_continue_loop h iter =
     (if iter = NULL then Some False
      else (case h iter of
        None \<Rightarrow> None
      | Some t \<Rightarrow> if ts t = UDI_TS_RUNNING then Some True else can_continue_loop h (next_thread t)))"

text \<open>The second loop: the handshake for every dead thread. The link is read before the thread is destroyed.\<close>

partial_function (option) reap_loop :: "env \<Rightarrow> ptr \<Rightarrow> 'z thr_state_scheme \<Rightarrow> (int \<times> 'z thr_state_scheme) run option" where
  "reap_loop E cur_thr s =
     (if cur_thr = NULL then Some (Ret (0, s))
      else (case thr_heap s cur_thr of
        None \<Rightarrow> None
      | Some t \<Rightarrow>
          if dead t
          then (case thread_death_handshake E cur_thr s of
              Ret (r, s') \<Rightarrow> if r \<noteq> 0 then Some (Ret (RESULT_ERROR, s')) else reap_loop E (next_thread t) s'
            | Abort \<Rightarrow> Some Abort
            | Stuck \<Rightarrow> None)
          else reap_loop E (next_thread t) s))"

text \<open>The body of \<^verbatim>\<open>remove_udi_filesystem\<close> is to be written: it returns 0.\<close>

definition remove_udi_filesystem :: int where
  "remove_udi_filesystem = 0"

definition post_continue_hook :: "u32 \<Rightarrow> 'z req_state_scheme \<Rightarrow> 'z req_state_scheme" where
  "post_continue_hook sig_val s =
     (if \<not> exiting s
      then snd (sys_call (s\<lparr>pass_signal := sig_val, kills := kills s @ [sig_val]\<rparr>))
      else s)"

definition continue_handler :: "env \<Rightarrow> nat \<Rightarrow> nat \<Rightarrow> 'z req_state_scheme \<Rightarrow> (int \<times> 'z req_state_scheme) run" where
  "continue_handler E req_fd resp_fd s =
     run_bind (read_request_data E req_fd (continue_init_config E) \<lparr>sig = 0\<rparr> s) (\<lambda>((result, data), s).
       if result \<noteq> RESULT_SUCCESS then Ret (result, s)
       else run_bind (of_option (can_continue_loop (thr_heap s) (get_thread_list s))) (\<lambda>can_continue.
         if \<not> can_continue
         then Ret (RESULT_FAILURE, udi_set_errmsg E ''cannot continue process, all threads are suspended'' [] s)
         else run_bind
           (if continue_bp s \<noteq> NULL
            then run_bind (install_breakpoint E (continue_bp s) s) (\<lambda>(install_result, s). Ret s)
            else Ret s)
           (\<lambda>s. run_bind
             (if get_multithread_capable s
              then run_bind (of_option (reap_loop E (get_thread_list s) s)) (\<lambda>r. r)
              else Ret (0, s))
             (\<lambda>(reap_result, s).
               if reap_result \<noteq> 0 then Ret (RESULT_ERROR, s)
               else run_bind (write_response_no_data E resp_fd UDI_RESP_VALID (request_val UDI_REQ_CONTINUE) s)
                 (\<lambda>(result, s).
                   Ret (result, if result = RESULT_SUCCESS then post_continue_hook (sig data) s else s))))))"

subsection \<open>Memory\<close>

definition read_addr_callback :: "u64 \<Rightarrow> (read_mem_req, 's) item_step" where
  "read_addr_callback value = store_item 2 (\<lambda>data. data\<lparr>rm_addr := value\<rparr>)"

definition read_len_callback :: "u32 \<Rightarrow> (read_mem_req, 's) item_step" where
  "read_len_callback value = store_item 2 (\<lambda>data. data\<lparr>rm_len := value\<rparr>)"

definition read_init_config :: "env \<Rightarrow> (read_mem_req, 'z msg_state_scheme) msg_config" where
  "read_init_config E =
     \<lparr>num_items = 2,
      items =
        [\<lparr>key = ''addr'', callbacks = (\<lambda>ev. case ev of
            Ev_uint64 v \<Rightarrow> read_addr_callback v | _ \<Rightarrow> invalid_callbacks E ev)\<rparr>,
         \<lparr>key = ''len'', callbacks = (\<lambda>ev. case ev of
            Ev_uint32 v \<Rightarrow> read_len_callback v | _ \<Rightarrow> invalid_callbacks E ev)\<rparr>]\<rparr>"

definition read_handler :: "env \<Rightarrow> nat \<Rightarrow> nat \<Rightarrow> 'z req_state_scheme \<Rightarrow> (int \<times> 'z req_state_scheme) run" where
  "read_handler E req_fd resp_fd s =
     run_bind (read_request_data E req_fd (read_init_config E) \<lparr>rm_addr = 0, rm_len = 0\<rparr> s) (\<lambda>((result, data), s).
       if result \<noteq> RESULT_SUCCESS then Ret (result, s)
       else (case sys_call s of (r, s) \<Rightarrow>
         if sys_failed r then Ret (RESULT_ERROR, udi_set_errmsg E ''failed to allocate memory'' [] s)
         else run_bind (read_memory E (rm_addr data) (unat (rm_len data)) s) (\<lambda>(read_result, memory_read, s).
           if read_result \<noteq> 0
           then Ret (RESULT_FAILURE, udi_set_errmsg E ''%s'' [ArgStr (get_mem_errstr s)] s)
           else run_bind (cbor_build_map E 2 [(''data'', CBytes memory_read)]) (\<lambda>map.
             write_response E resp_fd UDI_RESP_VALID (request_val UDI_REQ_READ_MEM) (Some map) s))))"

text \<open>The byte string is kept only when the allocation of its copy succeeds; its length is cut to 32 bits.\<close>

definition write_data_callback :: "u8 list \<Rightarrow> (write_mem_req, 'z msg_state_scheme) item_step" where
  "write_data_callback bytes st s =
     (case sys_call s of (r, s) \<Rightarrow>
        (complete_item 2
           (if sys_failed r then set_data (\<lambda>req. req\<lparr>wm_data := None\<rparr>) st
            else set_data (\<lambda>req. req\<lparr>wm_data := Some bytes, wm_len := of_nat (length bytes)\<rparr>) st), s))"

definition write_addr_callback :: "u64 \<Rightarrow> (write_mem_req, 's) item_step" where
  "write_addr_callback value = store_item 2 (\<lambda>req. req\<lparr>wm_addr := value\<rparr>)"

definition write_config_init :: "env \<Rightarrow> (write_mem_req, 'z msg_state_scheme) msg_config" where
  "write_config_init E =
     \<lparr>num_items = 2,
      items =
        [\<lparr>key = ''addr'', callbacks = (\<lambda>ev. case ev of
            Ev_uint64 v \<Rightarrow> write_addr_callback v | _ \<Rightarrow> invalid_callbacks E ev)\<rparr>,
         \<lparr>key = ''data'', callbacks = (\<lambda>ev. case ev of
            Ev_byte_string bs \<Rightarrow> write_data_callback bs | _ \<Rightarrow> invalid_callbacks E ev)\<rparr>]\<rparr>"

text \<open>
  The bytes that \<^verbatim>\<open>req.data\<close> and \<^verbatim>\<open>req.len\<close> give to \<^verbatim>\<open>write_memory\<close>. When a second data item cannot be copied,
  the length of the first one stays with a null pointer, and the copy reads through it.
\<close>

definition write_handler :: "env \<Rightarrow> nat \<Rightarrow> nat \<Rightarrow> 'z req_state_scheme \<Rightarrow> (int \<times> 'z req_state_scheme) run" where
  "write_handler E req_fd resp_fd s =
     run_bind (read_request_data E req_fd (write_config_init E) \<lparr>wm_addr = 0, wm_data = None, wm_len = 0\<rparr> s)
       (\<lambda>((result, req), s).
       if result \<noteq> RESULT_SUCCESS then Ret (result, s)
       else if wm_data req = None \<and> wm_len req \<noteq> 0 then Stuck
       else
         let bytes = (case wm_data req of None \<Rightarrow> [] | Some bs \<Rightarrow> take (unat (wm_len req)) bs) in
         run_bind (write_memory E (wm_addr req) bytes s) (\<lambda>(write_result, s).
           if write_result \<noteq> 0
           then Ret (RESULT_FAILURE, udi_set_errmsg E ''%s'' [ArgStr (get_mem_errstr s)] s)
           else write_response_no_data E resp_fd UDI_RESP_VALID (request_val UDI_REQ_WRITE_MEM) s))"

subsection \<open>State\<close>

text \<open>The loop of \<^verbatim>\<open>state_handler\<close>: the array built so far; a full array fails the assertion.\<close>

definition thread_state_item :: "env \<Rightarrow> thread \<Rightarrow> cbor_item run" where
  "thread_state_item E t =
     cbor_build_map E 2 [(''tid'', CUint64 (thr_id t)), (''state'', CUint16 (of_nat (thread_state_val (ts t))))]"

partial_function (option) state_loop ::
    "env \<Rightarrow> (ptr \<rightharpoonup> thread) \<Rightarrow> nat \<Rightarrow> ptr \<Rightarrow> cbor_item list \<Rightarrow> cbor_item list run option" where
  "state_loop E h n thr acc =
     (if thr = NULL then Some (Ret acc)
      else (case h thr of
        None \<Rightarrow> None
      | Some t \<Rightarrow>
          (case thread_state_item E t of
             Ret state_map \<Rightarrow>
               if env_cbor_add E (CArray n acc) then state_loop E h n (next_thread t) (acc @ [state_map]) else Some Abort
           | Abort \<Rightarrow> Some Abort
           | Stuck \<Rightarrow> None)))"

definition state_handler :: "env \<Rightarrow> nat \<Rightarrow> nat \<Rightarrow> 'z req_state_scheme \<Rightarrow> (int \<times> 'z req_state_scheme) run" where
  "state_handler E req_fd resp_fd s =
     (let n = unat (word_of_int (get_num_threads s) :: u64) in
      run_bind (of_option (state_loop E (thr_heap s) n (get_thread_list s) [])) (\<lambda>m.
      run_bind m (\<lambda>states.
      run_bind (cbor_build_map E 1 [(''states'', CArray n states)]) (\<lambda>map.
        write_response E resp_fd UDI_RESP_VALID (request_val UDI_REQ_STATE) (Some map) s))))"

subsection \<open>Breakpoints\<close>

definition breakpoint_addr_callback :: "u64 \<Rightarrow> (brkpt_req, 's) item_step" where
  "breakpoint_addr_callback value = store_item 1 (\<lambda>req. req\<lparr>br_addr := value\<rparr>)"

definition breakpoint_addr_uint32_callback :: "u32 \<Rightarrow> (brkpt_req, 's) item_step" where
  "breakpoint_addr_uint32_callback value = breakpoint_addr_callback (ucast value)"

definition breakpoint_addr_uint16_callback :: "u16 \<Rightarrow> (brkpt_req, 's) item_step" where
  "breakpoint_addr_uint16_callback value = breakpoint_addr_callback (ucast value)"

definition breakpoint_addr_uint8_callback :: "u8 \<Rightarrow> (brkpt_req, 's) item_step" where
  "breakpoint_addr_uint8_callback value = breakpoint_addr_callback (ucast value)"

definition breakpoint_init_config :: "env \<Rightarrow> (brkpt_req, 'z msg_state_scheme) msg_config" where
  "breakpoint_init_config E =
     \<lparr>num_items = 1,
      items = [\<lparr>key = ''addr'', callbacks = (\<lambda>ev. case ev of
         Ev_uint64 v \<Rightarrow> breakpoint_addr_callback v
       | Ev_uint32 v \<Rightarrow> breakpoint_addr_uint32_callback v
       | Ev_uint16 v \<Rightarrow> breakpoint_addr_uint16_callback v
       | Ev_uint8 v \<Rightarrow> breakpoint_addr_uint8_callback v
       | _ \<Rightarrow> invalid_callbacks E ev)\<rparr>]\<rparr>"

definition read_breakpoint_addr :: "env \<Rightarrow> nat \<Rightarrow> 'z req_state_scheme \<Rightarrow> ((int \<times> u64) \<times> 'z req_state_scheme) run" where
  "read_breakpoint_addr E req_fd s =
     run_bind (read_request_data E req_fd (breakpoint_init_config E) \<lparr>br_addr = 0\<rparr> s) (\<lambda>((result, req), s).
       Ret ((result, br_addr req), s))"

definition breakpoint_create_handler ::
    "env \<Rightarrow> nat \<Rightarrow> nat \<Rightarrow> 'z req_state_scheme \<Rightarrow> (int \<times> 'z req_state_scheme) run" where
  "breakpoint_create_handler E req_fd resp_fd s =
     run_bind (read_breakpoint_addr E req_fd s) (\<lambda>((result, addr), s).
       if result \<noteq> RESULT_SUCCESS then Ret (result, s)
       else run_bind (find_breakpoint addr s) (\<lambda>bp.
         if bp \<noteq> NULL
         then Ret (RESULT_FAILURE, udi_set_errmsg E ''breakpoint already exists at %a'' [ArgU64 addr] s)
         else run_bind (create_breakpoint addr s) (\<lambda>(bp, s).
           if bp = NULL
           then Ret (RESULT_FAILURE, udi_set_errmsg E ''failed to create breakpoint at %a'' [ArgU64 addr] s)
           else write_response_no_data E resp_fd UDI_RESP_VALID (request_val UDI_REQ_CREATE_BREAKPOINT) s)))"

text \<open>The check of \<^verbatim>\<open>read_breakpoint\<close> tests the address of its output variable, which is never null.\<close>

definition read_breakpoint :: "env \<Rightarrow> nat \<Rightarrow> 'z req_state_scheme \<Rightarrow> ((int \<times> ptr) \<times> 'z req_state_scheme) run" where
  "read_breakpoint E req_fd s =
     run_bind (read_breakpoint_addr E req_fd s) (\<lambda>((result, addr), s).
       if result \<noteq> RESULT_SUCCESS then Ret ((result, NULL), s)
       else run_bind (find_breakpoint addr s) (\<lambda>bp. Ret ((RESULT_SUCCESS, bp), s)))"

definition breakpoint_install_handler ::
    "env \<Rightarrow> nat \<Rightarrow> nat \<Rightarrow> 'z req_state_scheme \<Rightarrow> (int \<times> 'z req_state_scheme) run" where
  "breakpoint_install_handler E req_fd resp_fd s =
     run_bind (read_breakpoint E req_fd s) (\<lambda>((result, bp), s).
       if result \<noteq> RESULT_SUCCESS then Ret (result, s)
       else run_bind (install_breakpoint E bp s) (\<lambda>(result, s).
         if result \<noteq> 0 then Ret (RESULT_FAILURE, s)
         else write_response_no_data E resp_fd UDI_RESP_VALID (request_val UDI_REQ_INSTALL_BREAKPOINT) s))"

definition breakpoint_remove_handler ::
    "env \<Rightarrow> nat \<Rightarrow> nat \<Rightarrow> 'z req_state_scheme \<Rightarrow> (int \<times> 'z req_state_scheme) run" where
  "breakpoint_remove_handler E req_fd resp_fd s =
     run_bind (read_breakpoint E req_fd s) (\<lambda>((result, bp), s).
       if result \<noteq> RESULT_SUCCESS then Ret (result, s)
       else run_bind (remove_breakpoint E bp s) (\<lambda>(result, s).
         if result \<noteq> 0 then Ret (RESULT_FAILURE, s)
         else write_response_no_data E resp_fd UDI_RESP_VALID (request_val UDI_REQ_REMOVE_BREAKPOINT) s))"

text \<open>The response to a deletion names the request to remove.\<close>

definition breakpoint_delete_handler ::
    "env \<Rightarrow> nat \<Rightarrow> nat \<Rightarrow> 'z req_state_scheme \<Rightarrow> (int \<times> 'z req_state_scheme) run" where
  "breakpoint_delete_handler E req_fd resp_fd s =
     run_bind (read_breakpoint E req_fd s) (\<lambda>((result, bp), s).
       if result \<noteq> RESULT_SUCCESS then Ret (result, s)
       else run_bind (delete_breakpoint E bp s) (\<lambda>(result, s).
         if result \<noteq> 0 then Ret (RESULT_FAILURE, s)
         else write_response_no_data E resp_fd UDI_RESP_VALID (request_val UDI_REQ_REMOVE_BREAKPOINT) s))"

subsection \<open>Dispatch to the process\<close>

definition invalid_handler :: "env \<Rightarrow> nat \<Rightarrow> nat \<Rightarrow> 'z req_state_scheme \<Rightarrow> (int \<times> 'z req_state_scheme) run" where
  "invalid_handler E req_fd resp_fd s = Ret (RESULT_ERROR, udi_set_errmsg E ''invalid request for process'' [] s)"

definition request_handlers :: "(env \<Rightarrow> nat \<Rightarrow> nat \<Rightarrow> 'z req_state_scheme \<Rightarrow> (int \<times> 'z req_state_scheme) run) list" where
  "request_handlers =
     [invalid_handler, continue_handler, read_handler, write_handler, invalid_handler, invalid_handler,
      state_handler, invalid_handler, breakpoint_create_handler, breakpoint_install_handler,
      breakpoint_remove_handler, breakpoint_delete_handler, invalid_handler, invalid_handler,
      invalid_handler, invalid_handler]"

definition request_type_callback :: "u16 \<Rightarrow> (nat, 's) item_step" where
  "request_type_callback value st s = ((set_data (\<lambda>_. unat value) st)\<lparr>is_done := True\<rparr>, s)"

definition request_type_uint8_callback :: "u8 \<Rightarrow> (nat, 's) item_step" where
  "request_type_uint8_callback value = request_type_callback (ucast value)"

definition request_type_callbacks :: "env \<Rightarrow> (nat, 'z msg_state_scheme) msg_callbacks" where
  "request_type_callbacks E ev =
     (case ev of
        Ev_uint16 v \<Rightarrow> request_type_callback v
      | Ev_uint8 v \<Rightarrow> request_type_uint8_callback v
      | _ \<Rightarrow> invalid_callbacks E ev)"

text \<open>The type is the caller's variable, with the value that it had before.\<close>

definition read_request_type :: "env \<Rightarrow> nat \<Rightarrow> nat \<Rightarrow> 'z io_state_scheme \<Rightarrow> ((int \<times> nat) \<times> 'z io_state_scheme) run" where
  "read_request_type E req_fd type s =
     run_bind (read_cbor_items E req_fd (request_type_callbacks E)
                 \<lparr>current_item = None, item_count = 0, rd_error = False, rd_data = type\<rparr> s)
       (\<lambda>((result, d), s).
          Ret ((if result \<noteq> 0 then RESULT_ERROR else if rd_error d then RESULT_FAILURE else RESULT_SUCCESS,
                rd_data d), s))"

text \<open>Errors of writing the error response go to a message of their own.\<close>

definition write_error_response :: "env \<Rightarrow> nat \<Rightarrow> nat \<Rightarrow> 'z io_state_scheme \<Rightarrow> (int \<times> 'z io_state_scheme) run" where
  "write_error_response E resp_fd req_type s =
     run_bind (cbor_build_map E 1 [(''msg'', CString (errmsg_text E s))]) (\<lambda>map.
     run_bind (write_response E resp_fd UDI_RESP_ERROR req_type (Some map) (s\<lparr>errmsg := None\<rparr>)) (\<lambda>(result, s').
       Ret (result, s'\<lparr>errmsg := errmsg s\<rparr>)))"

text \<open>The end of both dispatchers: an error is answered, and the answer's own failure is an error.\<close>

definition finish_request ::
    "env \<Rightarrow> nat \<Rightarrow> nat \<Rightarrow> int \<Rightarrow> 'z io_state_scheme \<Rightarrow> ((int \<times> nat) \<times> 'z io_state_scheme) run" where
  "finish_request E resp_fd type result s =
     (if result \<noteq> RESULT_SUCCESS
      then run_bind (write_error_response E resp_fd type s) (\<lambda>(error_result, s).
        Ret ((if result \<noteq> RESULT_ERROR \<and> error_result = RESULT_ERROR then RESULT_ERROR else result, type), s))
      else Ret ((result, type), s))"

definition handle_process_request ::
    "env \<Rightarrow> nat \<Rightarrow> nat \<Rightarrow> nat \<Rightarrow> 'z req_state_scheme \<Rightarrow> ((int \<times> nat) \<times> 'z req_state_scheme) run" where
  "handle_process_request E req_fd resp_fd type s =
     run_bind (read_request_type E req_fd type s) (\<lambda>((result, type), s).
       if result \<noteq> RESULT_SUCCESS then finish_request E resp_fd (request_val UDI_REQ_INVALID) result s
       else if type < length (request_handlers :: (env \<Rightarrow> nat \<Rightarrow> nat \<Rightarrow> 'z req_state_scheme \<Rightarrow> (int \<times> 'z req_state_scheme) run) list)
       then run_bind ((request_handlers ! type) E req_fd resp_fd s) (\<lambda>(result, s). finish_request E resp_fd type result s)
       else Stuck)"

subsection \<open>The initial handshake\<close>

definition init_handler :: "env \<Rightarrow> u64 \<Rightarrow> nat \<Rightarrow> 'z thr_state_scheme \<Rightarrow> (int \<times> 'z thr_state_scheme) run" where
  "init_handler E tid resp_fd s =
     run_bind (cbor_build_map E 4
         [(''v'', CUint32 get_protocol_version), (''arch'', CUint16 (of_nat (arch_val get_architecture))),
          (''mt'', CBool (get_multithread_capable s)), (''tid'', CUint64 tid)]) (\<lambda>map.
       write_response E resp_fd UDI_RESP_VALID (request_val UDI_REQ_INIT) (Some map) s)"

definition perform_init_handshake ::
    "env \<Rightarrow> nat \<Rightarrow> ('z thr_state_scheme \<Rightarrow> ((int \<times> nat) \<times> 'z thr_state_scheme) run) \<Rightarrow> u64 \<Rightarrow> 'z thr_state_scheme
       \<Rightarrow> (int \<times> 'z thr_state_scheme) run" where
  "perform_init_handshake E req_fd callback tid s =
     run_bind (read_request_type E req_fd (request_val UDI_REQ_INVALID) s) (\<lambda>((result, type), s).
       if result \<noteq> RESULT_SUCCESS then Ret (result, s)
       else run_bind (callback s) (\<lambda>((result, resp_fd), s).
         if result \<noteq> RESULT_SUCCESS then Ret (result, s)
         else if type \<noteq> request_val UDI_REQ_INIT
         then run_bind (write_error_response E resp_fd type
                  (udi_set_errmsg E ''received invalid request type(%s) as init request''
                     [ArgStr (request_type_str type)] s))
                (\<lambda>(_, s). Ret (RESULT_ERROR, s))
         else init_handler E tid resp_fd s))"

subsection \<open>Registers\<close>

definition read_reg_callback :: "u16 \<Rightarrow> (read_reg_req, 's) item_step" where
  "read_reg_callback value = store_item 1 (\<lambda>req. req\<lparr>rr_reg := unat value\<rparr>)"

definition read_reg_uint8_callback :: "u8 \<Rightarrow> (read_reg_req, 's) item_step" where
  "read_reg_uint8_callback value = read_reg_callback (ucast value)"

definition read_reg_init_config :: "env \<Rightarrow> (read_reg_req, 'z msg_state_scheme) msg_config" where
  "read_reg_init_config E =
     \<lparr>num_items = 1,
      items = [\<lparr>key = ''reg'', callbacks = (\<lambda>ev. case ev of
         Ev_uint16 v \<Rightarrow> read_reg_callback v
       | Ev_uint8 v \<Rightarrow> read_reg_uint8_callback v
       | _ \<Rightarrow> invalid_callbacks E ev)\<rparr>]\<rparr>"

definition read_register_handler ::
    "env \<Rightarrow> nat \<Rightarrow> nat \<Rightarrow> ptr \<Rightarrow> 'z req_state_scheme \<Rightarrow> (int \<times> 'z req_state_scheme) run" where
  "read_register_handler E req_fd resp_fd thr s =
     run_bind (read_request_data E req_fd (read_reg_init_config E) \<lparr>rr_reg = 0\<rparr> s) (\<lambda>((result, req), s).
       if result \<noteq> RESULT_SUCCESS then Ret (result, s)
       else run_bind (is_thread_context_valid thr s) (\<lambda>valid.
         if \<not> valid
         then Ret (RESULT_FAILURE, udi_set_errmsg E ''%s'' [ArgStr ''register context is unavailable''] s)
         else run_bind (get_thread_context thr s) (\<lambda>c.
           case get_register E (rr_reg req) c s of ((result, val), s) \<Rightarrow>
             if result \<noteq> 0 then Ret (RESULT_FAILURE, s)
             else run_bind (of_option val) (\<lambda>v.
               run_bind (cbor_build_map E 1 [(''value'', CUint64 v)]) (\<lambda>map.
                 write_response E resp_fd UDI_RESP_VALID (request_val UDI_REQ_READ_REGISTER) (Some map) s)))))"

definition write_reg_callback :: "u16 \<Rightarrow> (write_reg_req, 's) item_step" where
  "write_reg_callback value = store_item 2 (\<lambda>req. req\<lparr>wr_reg := unat value\<rparr>)"

definition write_reg_uint8_callback :: "u8 \<Rightarrow> (write_reg_req, 's) item_step" where
  "write_reg_uint8_callback value = write_reg_callback (ucast value)"

definition write_reg_value_callback :: "u64 \<Rightarrow> (write_reg_req, 's) item_step" where
  "write_reg_value_callback value = store_item 2 (\<lambda>req. req\<lparr>wr_value := value\<rparr>)"

definition write_reg_value_uint32_callback :: "u32 \<Rightarrow> (write_reg_req, 's) item_step" where
  "write_reg_value_uint32_callback value = write_reg_value_callback (ucast value)"

definition write_reg_value_uint16_callback :: "u16 \<Rightarrow> (write_reg_req, 's) item_step" where
  "write_reg_value_uint16_callback value = write_reg_value_callback (ucast value)"

definition write_reg_value_uint8_callback :: "u8 \<Rightarrow> (write_reg_req, 's) item_step" where
  "write_reg_value_uint8_callback value = write_reg_value_callback (ucast value)"

definition write_reg_init_config :: "env \<Rightarrow> (write_reg_req, 'z msg_state_scheme) msg_config" where
  "write_reg_init_config E =
     \<lparr>num_items = 2,
      items =
        [\<lparr>key = ''reg'', callbacks = (\<lambda>ev. case ev of
            Ev_uint16 v \<Rightarrow> write_reg_callback v
          | Ev_uint8 v \<Rightarrow> write_reg_uint8_callback v
          | _ \<Rightarrow> invalid_callbacks E ev)\<rparr>,
         \<lparr>key = ''value'', callbacks = (\<lambda>ev. case ev of
            Ev_uint64 v \<Rightarrow> write_reg_value_callback v
          | Ev_uint32 v \<Rightarrow> write_reg_value_uint32_callback v
          | Ev_uint16 v \<Rightarrow> write_reg_value_uint16_callback v
          | Ev_uint8 v \<Rightarrow> write_reg_value_uint8_callback v
          | _ \<Rightarrow> invalid_callbacks E ev)\<rparr>]\<rparr>"

definition write_register_handler ::
    "env \<Rightarrow> nat \<Rightarrow> nat \<Rightarrow> ptr \<Rightarrow> 'z req_state_scheme \<Rightarrow> (int \<times> 'z req_state_scheme) run" where
  "write_register_handler E req_fd resp_fd thr s =
     run_bind (read_request_data E req_fd (write_reg_init_config E) \<lparr>wr_reg = 0, wr_value = 0\<rparr> s) (\<lambda>((result, req), s).
       if result \<noteq> RESULT_SUCCESS then Ret (result, s)
       else run_bind (is_thread_context_valid thr s) (\<lambda>valid.
         if \<not> valid
         then Ret (RESULT_FAILURE, udi_set_errmsg E ''%s'' [ArgStr ''register context is unavailable''] s)
         else run_bind (get_thread_context thr s) (\<lambda>c.
           case set_register E (wr_reg req) (wr_value req) c s of ((result, c), s) \<Rightarrow>
             run_bind (set_thread_context thr c s) (\<lambda>s.
               if result \<noteq> 0 then Ret (RESULT_FAILURE, s)
               else write_response_no_data E resp_fd UDI_RESP_VALID (request_val UDI_REQ_WRITE_REGISTER) s))))"

subsection \<open>Thread requests\<close>

definition thr_state_handler :: "env \<Rightarrow> nat \<Rightarrow> nat \<Rightarrow> ptr \<Rightarrow> 'z req_state_scheme \<Rightarrow> (int \<times> 'z req_state_scheme) run" where
  "thr_state_handler E req_fd resp_fd thr s =
     run_bind (thread_at thr s) (\<lambda>t.
     run_bind (thread_state_item E t) (\<lambda>map.
       write_response E resp_fd UDI_RESP_VALID (request_val UDI_REQ_STATE) (Some map) s))"

definition next_instr_handler :: "env \<Rightarrow> nat \<Rightarrow> nat \<Rightarrow> ptr \<Rightarrow> 'z req_state_scheme \<Rightarrow> (int \<times> 'z req_state_scheme) run" where
  "next_instr_handler E req_fd resp_fd thr s =
     run_bind (is_thread_context_valid thr s) (\<lambda>valid.
       if \<not> valid then Ret (RESULT_FAILURE, udi_set_errmsg E ''register context unavailable'' [] s)
       else run_bind (get_thread_context thr s) (\<lambda>c.
         run_bind (get_ctf_successor E (get_pc c) c s) (\<lambda>(address, s).
           if address = 0
           then Ret (RESULT_FAILURE,
                  udi_set_errmsg E ''failed to determine successor instruction from %a'' [ArgU64 (get_pc c)] s)
           else run_bind (cbor_build_map E 1 [(''addr'', CUint64 address)]) (\<lambda>map.
             write_response E resp_fd UDI_RESP_VALID (request_val UDI_REQ_NEXT_INSTRUCTION) (Some map) s))))"

definition thr_suspend_handler :: "env \<Rightarrow> nat \<Rightarrow> nat \<Rightarrow> ptr \<Rightarrow> 'z req_state_scheme \<Rightarrow> (int \<times> 'z req_state_scheme) run" where
  "thr_suspend_handler E req_fd resp_fd thr s =
     run_bind (set_thread_state thr UDI_TS_SUSPENDED s) (\<lambda>s.
       write_response_no_data E resp_fd UDI_RESP_VALID (request_val UDI_REQ_THREAD_SUSPEND) s)"

definition thr_resume_handler :: "env \<Rightarrow> nat \<Rightarrow> nat \<Rightarrow> ptr \<Rightarrow> 'z req_state_scheme \<Rightarrow> (int \<times> 'z req_state_scheme) run" where
  "thr_resume_handler E req_fd resp_fd thr s =
     run_bind (set_thread_state thr UDI_TS_RUNNING s) (\<lambda>s.
       write_response_no_data E resp_fd UDI_RESP_VALID (request_val UDI_REQ_THREAD_RESUME) s)"

definition single_step_callback :: "bool \<Rightarrow> (single_step_req, 's) item_step" where
  "single_step_callback value = store_item 1 (\<lambda>req. req\<lparr>ss_setting := value\<rparr>)"

definition single_step_init_config :: "env \<Rightarrow> (single_step_req, 'z msg_state_scheme) msg_config" where
  "single_step_init_config E =
     \<lparr>num_items = 1,
      items = [\<lparr>key = ''value'', callbacks = (\<lambda>ev. case ev of
         Ev_boolean v \<Rightarrow> single_step_callback v | _ \<Rightarrow> invalid_callbacks E ev)\<rparr>]\<rparr>"

definition single_step_handler :: "env \<Rightarrow> nat \<Rightarrow> nat \<Rightarrow> ptr \<Rightarrow> 'z req_state_scheme \<Rightarrow> (int \<times> 'z req_state_scheme) run" where
  "single_step_handler E req_fd resp_fd thr s =
     run_bind (read_request_data E req_fd (single_step_init_config E) \<lparr>ss_setting = False\<rparr> s) (\<lambda>((result, req), s).
       if result \<noteq> RESULT_SUCCESS then Ret (result, s)
       else run_bind (is_single_step thr s) (\<lambda>prev_setting.
         run_bind (set_single_step thr (ss_setting req) s) (\<lambda>s.
         run_bind (get_single_step_breakpoint thr s) (\<lambda>single_step_bp.
         run_bind
           (if \<not> ss_setting req \<and> single_step_bp \<noteq> NULL
            then run_bind (delete_breakpoint E single_step_bp s) (\<lambda>(r, s).
              if r \<noteq> 0 then Ret (RESULT_FAILURE, s)
              else run_bind (set_single_step_breakpoint thr NULL s) (\<lambda>s. Ret (RESULT_SUCCESS, s)))
            else Ret (RESULT_SUCCESS, s))
           (\<lambda>(result, s).
             if result \<noteq> RESULT_SUCCESS then Ret (result, s)
             else run_bind (cbor_build_map E 1 [(''value'', CBool prev_setting)]) (\<lambda>map.
               write_response E resp_fd UDI_RESP_VALID (request_val UDI_REQ_SINGLE_STEP) (Some map) s))))))"

definition thr_invalid_handler :: "env \<Rightarrow> nat \<Rightarrow> nat \<Rightarrow> ptr \<Rightarrow> 'z req_state_scheme \<Rightarrow> (int \<times> 'z req_state_scheme) run" where
  "thr_invalid_handler E req_fd resp_fd thr s = Ret (RESULT_ERROR, udi_set_errmsg E ''invalid request for thread'' [] s)"

definition thr_request_handlers ::
    "(env \<Rightarrow> nat \<Rightarrow> nat \<Rightarrow> ptr \<Rightarrow> 'z req_state_scheme \<Rightarrow> (int \<times> 'z req_state_scheme) run) list" where
  "thr_request_handlers =
     [thr_invalid_handler, thr_invalid_handler, thr_invalid_handler, thr_invalid_handler,
      read_register_handler, write_register_handler, thr_state_handler, thr_invalid_handler,
      thr_invalid_handler, thr_invalid_handler, thr_invalid_handler, thr_invalid_handler,
      thr_suspend_handler, thr_resume_handler, next_instr_handler, single_step_handler]"

definition handle_thread_request ::
    "env \<Rightarrow> nat \<Rightarrow> nat \<Rightarrow> ptr \<Rightarrow> nat \<Rightarrow> 'z req_state_scheme \<Rightarrow> ((int \<times> nat) \<times> 'z req_state_scheme) run" where
  "handle_thread_request E req_fd resp_fd thr type s =
     run_bind (read_request_type E req_fd type s) (\<lambda>((result, type), s).
       if result \<noteq> RESULT_SUCCESS then finish_request E resp_fd (request_val UDI_REQ_INVALID) result s
       else if type < length (thr_request_handlers :: (env \<Rightarrow> nat \<Rightarrow> nat \<Rightarrow> ptr \<Rightarrow> 'z req_state_scheme \<Rightarrow> (int \<times> 'z req_state_scheme) run) list)
       then run_bind ((thr_request_handlers ! type) E req_fd resp_fd thr s) (\<lambda>(result, s). finish_request E resp_fd type result s)
       else Stuck)"

end
