(* ===== verification/Dispatch.thy ===== *)
theory Dispatch
  imports Requests
begin

text \<open>
  What the requests of \<open>Requests\<close> do: which steps send nothing, the contract of a request
  handler (the locale \<open>request_handler\<close>, interpreted for every entry of the two tables), the
  one response of every dispatched request, and the effect of the requests that read and change
  the debuggee.
\<close>

section \<open>Results of handlers\<close>

text \<open>Partial correctness of an outcome: what holds of the value, when there is one.\<close>

definition yields :: "'a run \<Rightarrow> ('a \<Rightarrow> bool) \<Rightarrow> bool" where
  "yields m Q \<longleftrightarrow> (\<forall>x. m = Ret x \<longrightarrow> Q x)"

lemma yields_simps [simp]:
  "yields (Ret x) Q \<longleftrightarrow> Q x" "yields Abort Q" "yields Stuck Q"
  "yields (run_bind m f) Q \<longleftrightarrow> yields m (\<lambda>x. yields (f x) Q)"
  by (auto simp: yields_def run_bind_eq_Ret)

lemma yields_True [simp]: "yields m (\<lambda>_. True)"
  by (simp add: yields_def)

lemma yields_of_option: "(\<And>x. m = Some x \<Longrightarrow> Q x) \<Longrightarrow> yields (of_option m) Q"
  by (simp add: yields_def)

lemma yields_deref: "(\<And>x. p \<noteq> NULL \<Longrightarrow> h p = Some x \<Longrightarrow> Q x) \<Longrightarrow> yields (deref h p) Q"
  by (simp add: yields_def)

lemma yields_prod: "(\<And>a b. x = (a, b) \<Longrightarrow> yields (f a b) Q) \<Longrightarrow> yields (case x of (a, b) \<Rightarrow> f a b) Q"
  by (cases x) simp

lemma yields_I: "(\<And>x. m = Ret x \<Longrightarrow> Q x) \<Longrightarrow> yields m Q"
  by (simp add: yields_def)

lemma yields_D: "yields m Q \<Longrightarrow> m = Ret x \<Longrightarrow> Q x"
  by (simp add: yields_def)

named_theorems silent_rules \<open>what the operations before a response keep\<close>

lemmas [silent_rules] = yields_of_option yields_deref yields_prod

subsection \<open>Steps that send nothing\<close>

text \<open>
  Everything a handler does before its response leaves what was sent alone. The relation
  also keeps the oracle, so that a system that answers goes on answering.
\<close>

definition silent :: "'z io_state_scheme \<Rightarrow> 'z io_state_scheme \<Rightarrow> bool" where
  "silent s s' \<longleftrightarrow> sys_oracle s' = sys_oracle s \<and> out_data s' = out_data s"

lemma silent_refl [simp]: "silent s s"
  by (simp add: silent_def)

lemma silent_trans: "silent s s' \<Longrightarrow> silent s' s'' \<Longrightarrow> silent s s''"
  by (simp add: silent_def)

lemma silent_errmsg [simp]: "silent s (udi_set_errmsg E fmt args s') = silent s s'"
  by (simp add: silent_def)

lemma silent_upd [simp]:
  "silent s (s'\<lparr>sys_count := c\<rparr>) = silent s s'" "silent s (s'\<lparr>bp_heap := h\<rparr>) = silent s s'"
  "silent s (s'\<lparr>breakpoints := b\<rparr>) = silent s s'"
  by (simp_all add: silent_def)

lemma silent_upd_thr [simp]:
  "silent t (t'\<lparr>thr_heap := th\<rparr>) = silent t t'" "silent t (t'\<lparr>threads := l\<rparr>) = silent t t'"
  "silent t (t'\<lparr>num_threads := n\<rparr>) = silent t t'" "silent t (t'\<lparr>closed_fds := f\<rparr>) = silent t t'"
  "silent t (t'\<lparr>udi_files := u\<rparr>) = silent t t'"
  by (simp_all add: silent_def)

lemma silent_ok: "silent s s' \<Longrightarrow> sys_always_ok s \<Longrightarrow> sys_always_ok s'"
  by (simp add: silent_def sys_always_ok_def)

lemma silent_consumed: "consumed fd s s' \<Longrightarrow> silent s s'"
  using io_rest_eq(1) [of s' s] by (simp add: consumed_def silent_def)

subsection \<open>Memory and breakpoints\<close>

lemma decode_event_oracle: "decode_memory_access_event E c s = (x, s') \<Longrightarrow> sys_oracle s' = sys_oracle s"
  by (auto simp: decode_memory_access_event_def mprotect_all_def sys_call_def abort_mem_access_def Let_def
      split: if_splits option.splits prod.splits)

lemma memcpy_loop_oracle:
  assumes "memcpy_loop E dir a n 0 [] s = Some r"
  shows "sys_oracle (snd r) = sys_oracle s"
proof -
  let ?Inv = "\<lambda>(i :: nat) (out :: u8 list) t. sys_oracle t = sys_oracle s"
  have "?Inv n (fst r) (snd r) \<or> (\<exists>k s0 c x w. k < n \<and> ?Inv k (fst r) s0 \<and>
      decode_memory_access_event E c s0 = ((x, w, True), snd r))"
    by (rule memcpy_loop_rule [OF assms])
      (auto simp: store_byte_def dest: decode_event_oracle split: copy_dir.splits)
  then show ?thesis by (auto dest: decode_event_oracle)
qed

lemma hook_oracle:
  "sys_oracle (snd (pre_mem_access_hook s)) = sys_oracle s"
  "sys_oracle (snd (post_mem_access_hook m s)) = sys_oracle s"
  by (auto simp: pre_mem_access_hook_def post_mem_access_hook_def setsigmask_def sys_call_def Let_def split: if_splits)

lemma udi_memcpy_oracle: "yields (udi_memcpy E dir a n s) (\<lambda>(r, out, s'). sys_oracle s' = sys_oracle s)"
proof -
  obtain m s1 where pre: "pre_mem_access_hook s = (m, s1)" by fastforce
  then have o1: "sys_oracle s1 = sys_oracle s" using hook_oracle(1) [of s] by simp
  show ?thesis
  proof (cases m)
    case None
    then show ?thesis using pre o1 by (simp add: udi_memcpy_def)
  next
    case (Some ms)
    have "sys_oracle (snd (post_mem_access_hook ms t)) = sys_oracle s" if "sys_oracle t = sys_oracle s" for t :: "'a mem_state_scheme"
      using hook_oracle(2) [of ms t] that by simp
    then show ?thesis
      using pre o1 Some memcpy_loop_oracle [of E dir a n "s1\<lparr>performing_mem_access := True\<rparr>"]
      by (auto simp: udi_memcpy_def abortable_memcpy_def split_beta intro!: yields_of_option)
  qed
qed

lemma io_more:
  assumes "bp_state.more s' = bp_state.more s"
  shows "in_data s' = in_data s" and "out_data s' = out_data s" and "io_state.more s' = io_state.more s"
  using assms by (cases s; cases s'; simp)+

lemma read_memory_silent [silent_rules]:
  assumes "silent s0 s" and "\<And>r out s'. silent s0 s' \<Longrightarrow> Q (r, out, s')"
  shows "yields (read_memory E a n s) Q"
proof (rule yields_I)
  fix x
  assume run: "read_memory E a n s = Ret x"
  obtain r out s' where x: "x = (r, out, s')" by (cases x)
  have "out_data s' = out_data s"
    using run unfolding x by (intro io_more(2) bp_more(3) memory.read_client)
  moreover have "sys_oracle s' = sys_oracle s"
    using yields_D [OF udi_memcpy_oracle run [unfolded read_memory_def]] by (simp add: x)
  ultimately have "silent s0 s'" using assms(1) by (simp add: silent_def)
  then show "Q x" using assms(2) by (simp add: x)
qed

lemma write_memory_silent [silent_rules]:
  assumes "length bs \<le> 2 ^ 64" and "silent s0 s" and "\<And>r s'. silent s0 s' \<Longrightarrow> Q (r, s')"
  shows "yields (write_memory E a bs s) Q"
proof (rule yields_I)
  fix x
  assume run: "write_memory E a bs s = Ret x"
  obtain r s' where x: "x = (r, s')" by (cases x)
  have "out_data s' = out_data s"
    using run assms(1) unfolding x by (intro io_more(2) bp_more(3) memory.write_client)
  moreover have "sys_oracle s' = sys_oracle s"
    using run unfolding x write_memory_def
    by (auto simp: run_bind_eq_Ret dest!: yields_D [OF udi_memcpy_oracle])
  ultimately have "silent s0 s'" using assms(2) by (simp add: silent_def)
  then show "Q x" using assms(3) by (simp add: x)
qed

lemma install_breakpoint_silent [silent_rules]:
  "silent s0 s \<Longrightarrow> (\<And>r s'. silent s0 s' \<Longrightarrow> Q (r, s')) \<Longrightarrow> yields (install_breakpoint E bp s) Q"
  by (auto simp: install_breakpoint_def write_breakpoint_instruction_def set_in_memory_def Let_def intro!: silent_rules)

lemma remove_breakpoint_silent [silent_rules]:
  "silent s0 s \<Longrightarrow> (\<And>r s'. silent s0 s' \<Longrightarrow> Q (r, s')) \<Longrightarrow> yields (remove_breakpoint E bp s) Q"
  by (auto simp: remove_breakpoint_def write_saved_bytes_def set_in_memory_def intro!: silent_rules)

lemma delete_breakpoint_silent [silent_rules]:
  "silent s0 s \<Longrightarrow> (\<And>r s'. silent s0 s' \<Longrightarrow> Q (r, s')) \<Longrightarrow> yields (delete_breakpoint E bp s) Q"
  by (auto simp: delete_breakpoint_def Let_def intro!: silent_rules)

lemma create_breakpoint_silent [silent_rules]:
  "silent s0 s \<Longrightarrow> (\<And>p s'. silent s0 s' \<Longrightarrow> Q (p, s')) \<Longrightarrow> yields (create_breakpoint a s) Q"
  using alloc_ptr_state [of "bp_heap s" s]
  by (auto simp: create_breakpoint_def Let_def intro!: silent_rules split: bp_place.split)

lemma find_breakpoint_silent [silent_rules]: "(\<And>p. Q p) \<Longrightarrow> yields (find_breakpoint a s) Q"
  by (auto simp: find_breakpoint_def intro!: silent_rules)

lemma yields_any: "(\<And>x. Q x) \<Longrightarrow> yields m Q"
  by (simp add: yields_def)

subsection \<open>Threads\<close>

lemma thread_at_silent [silent_rules]: "(\<And>t. thr_heap s thr = Some t \<Longrightarrow> Q t) \<Longrightarrow> yields (thread_at thr s) Q"
  by (auto simp: thread_at_def intro!: silent_rules)

lemma update_thread_silent [silent_rules]:
  "silent s0 s \<Longrightarrow> (\<And>s'. silent s0 s' \<Longrightarrow> Q s') \<Longrightarrow> yields (update_thread thr f s) Q"
  by (auto simp: update_thread_def intro!: silent_rules)

lemma sys_close_silent:
  "silent s0 s \<Longrightarrow> (\<And>e s'. silent s0 s' \<Longrightarrow> yields (f e s') Q) \<Longrightarrow> yields (case sys_close fd s of (e, s') \<Rightarrow> f e s') Q"
  by (simp add: sys_close_def sys_call_def Let_def)

lemma destroy_thread_silent [silent_rules]:
  assumes "silent s0 s" and Q: "\<And>s'. silent s0 s' \<Longrightarrow> Q s'"
  shows "yields (destroy_thread thr s) Q"
proof -
  have closing: "yields (case sys_close fd t of (_, t) \<Rightarrow> case sys_close fd' t of (_, t) \<Rightarrow>
      Ret (t\<lparr>thr_heap := (thr_heap t)(i := None), num_threads := num_threads t - 1\<rparr>)) Q"
    if "silent s0 t" for fd fd' i t
    by (rule sys_close_silent [OF that], rule sys_close_silent, assumption, simp, rule Q, simp)
  show ?thesis
    using assms(1) by (auto simp: destroy_thread_def intro!: yields_of_option yields_deref closing Q)
qed

text \<open>The same for the steps that give back a value and the state: the property of states holds afterwards.\<close>

definition keeps :: "('s \<Rightarrow> bool) \<Rightarrow> ('a \<times> 's) run \<Rightarrow> bool" where
  "keeps I m \<longleftrightarrow> yields m (\<lambda>(r, s'). I s')"

lemma keeps_Ret [simp]: "keeps I (Ret (r, s)) = I s"
  by (simp add: keeps_def)

lemma keeps_D: "keeps I m \<Longrightarrow> (\<And>r s'. I s' \<Longrightarrow> Q (r, s')) \<Longrightarrow> yields m Q"
  by (auto simp: keeps_def yields_def)

lemma with_path_keeps:
  "keeps I m \<Longrightarrow> (\<And>p s. I s \<Longrightarrow> keeps I (f p s)) \<Longrightarrow> keeps I (with_path m f)"
  by (auto simp: keeps_def with_path_def yields_def run_bind_eq_Ret split: option.splits prod.splits)

text \<open>
  A property of states that does not depend on the answers of the system, the message, closed descriptors and files, and that
  reading memory and destroying a thread keep, is also kept by the computation of a successor, by the files of a
  thread and by the handshakes for dead threads.
\<close>

locale kept =
  fixes I :: "'z thr_state_scheme \<Rightarrow> bool"
  assumes upd [simp]: "I (s\<lparr>sys_count := c\<rparr>) = I s" "I (s\<lparr>errmsg := m\<rparr>) = I s"
      "I (s\<lparr>closed_fds := f\<rparr>) = I s" "I (s\<lparr>udi_files := u\<rparr>) = I s"
    and reads: "I s \<Longrightarrow> (\<And>r out s'. I s' \<Longrightarrow> Q (r, out, s')) \<Longrightarrow> yields (read_memory E a n s) Q"
    and destroys: "I s \<Longrightarrow> (\<And>s'. I s' \<Longrightarrow> R s') \<Longrightarrow> yields (destroy_thread thr s) R"
begin

lemma errmsg_kept [simp]: "I (udi_set_errmsg E fmt args s) = I s"
  by (simp add: udi_set_errmsg_def)

lemma successor:
  assumes "I s" and Q: "\<And>a s'. I s' \<Longrightarrow> Q (a, s')"
  shows "yields (get_ctf_successor E pc c s) Q"
proof (cases "env_disassemble E (mem s) pc")
  case None
  then show ?thesis using assms by (simp add: get_ctf_successor_def)
next
  case (Some insn)
  have result: "Q (successor_or_error E pc t s)" for t
    using assms by (simp add: successor_or_error_def)
  have ret: "yields (get_register_ud_type r c) (\<lambda>p. yields (read_memory E p n s)
      (\<lambda>x. yields (case x of (r, out, s) \<Rightarrow> if r \<noteq> 0 then Ret (0, s) else Ret (le_u64 out, s)) Q))" for r n
    by (rule yields_any, rule reads [OF assms(1)]) (simp add: Q)
  have jump: "yields (compute_target o1 p c) (\<lambda>t. Q (successor_or_error E pc t s))" for o1 p
    by (rule yields_any, rule result)
  have cond: "yields (ctf_condition_met m c) (\<lambda>met. yields (if met then run_bind (compute_target o1 p c)
      (\<lambda>t. Ret (successor_or_error E pc t s)) else Ret (successor_or_error E pc q s)) Q)" for m o1 p q
    by (rule yields_any) (simp add: result)
  show ?thesis
    unfolding get_ctf_successor_def Some option.case Let_def
    by (simp only: if_split [of "\<lambda>m. yields m Q"] yields_simps result jump cond simp_thms)
      (simp add: ret)
qed

lemma closing:
  "I s \<Longrightarrow> (\<And>e s'. I s' \<Longrightarrow> yields (f e s') Q) \<Longrightarrow> yields (case sys_close fd s of (e, s') \<Rightarrow> f e s') Q"
  by (simp add: sys_close_def sys_call_def Let_def)

lemma thread_dir: "I s \<Longrightarrow> keeps I (get_thread_dir E thr s)"
  by (auto simp: keeps_def get_thread_dir_def get_thread_id_def thread_at_def formatted_def sys_call_def Let_def
      intro!: yields_of_option yields_deref)

lemma thread_file: "I s \<Longrightarrow> keeps I (get_thread_file E d f s)"
  by (auto simp: keeps_def get_thread_file_def formatted_def sys_call_def Let_def intro!: yields_of_option)

lemma making:
  assumes "I s" and "\<And>s. I s \<Longrightarrow> keeps I (f s)"
  shows "keeps I (or_errmsg E fmt p (sys_make q s) f)" and "keeps I (or_errmsg E fmt p (sys_unlink q s) f)"
  using assms by (simp_all add: or_errmsg_def sys_make_def sys_unlink_def sys_call_def Let_def)

lemmas files = thread_dir thread_file with_path_keeps making

lemma handshake:
  assumes "I s" and Q: "\<And>r s'. I s' \<Longrightarrow> Q (r, s')"
  shows "yields (thread_death_handshake E thr s) Q"
proof -
  have removed: "keeps I
     (with_path (get_thread_dir E thr s) (\<lambda>thread_dir s.
      with_path (get_thread_file E thread_dir RESPONSE_FILE_NAME s) (\<lambda>response_file s.
      or_errmsg E f1 response_file (sys_unlink response_file s) (\<lambda>s.
      with_path (get_thread_file E thread_dir REQUEST_FILE_NAME s) (\<lambda>request_file s.
      or_errmsg E f2 request_file (sys_unlink request_file s) (\<lambda>s.
      or_errmsg E f3 thread_dir (sys_unlink thread_dir s) (\<lambda>s. Ret (0 :: int, s))))))))"
    if "I s" for s f1 f2 f3
    by (intro files that; simp)
  show ?thesis
    unfolding thread_death_handshake_def yields_simps
    using assms(1)
    by (auto intro!: thread_at_silent closing keeps_D [OF removed] destroys Q)
qed

lemma reaping:
  assumes "reap_loop E thr s = Some m" and "I s"
  shows "keeps I m"
proof -
  define P where "P = (\<lambda>(E :: env) (thr :: ptr) s (m :: (int \<times> 'z thr_state_scheme) run). I s \<longrightarrow> keeps I m)"
  have "P E thr s m"
  proof (rule reap_loop.raw_induct [where P = P, OF _ assms(1)])
    fix loop :: "env \<Rightarrow> ptr \<Rightarrow> 'z thr_state_scheme \<Rightarrow> (int \<times> 'z thr_state_scheme) run option" and E thr s m
    assume IH: "\<And>E thr s m. loop E thr s = Some m \<Longrightarrow> P E thr s m"
      and run: "(if thr = NULL then Some (Ret (0, s))
      else (case thr_heap s thr of
        None \<Rightarrow> None
      | Some t \<Rightarrow>
          if dead t
          then (case thread_death_handshake E thr s of
              Ret (r, s') \<Rightarrow> if r \<noteq> 0 then Some (Ret (RESULT_ERROR, s')) else loop E (next_thread t) s'
            | Abort \<Rightarrow> Some Abort
            | Stuck \<Rightarrow> None)
          else loop E (next_thread t) s)) = Some m"
    have "I s'" if "thread_death_handshake E thr s = Ret (r, s')" "I s" for r s'
      using yields_D [OF handshake [OF that(2), where Q = "\<lambda>(r, s'). I s'"] that(1)] by simp
    then show "P E thr s m"
      using run IH unfolding P_def
      by (auto simp: keeps_def split: if_splits option.splits run.splits prod.splits)
  qed
  then show ?thesis using assms(2) by (simp add: P_def)
qed

end

interpretation sending: kept "silent s0 :: 'z thr_state_scheme \<Rightarrow> bool" for s0 :: "'z thr_state_scheme"
  by unfold_locales (simp_all add: read_memory_silent destroy_thread_silent, simp_all add: silent_def)

lemmas [silent_rules] = sending.successor sending.handshake

subsection \<open>Reading the parts of a request\<close>

lemma quiet_invalid [simp]:
  "io_rest (snd (invalid_callbacks E ev st s)) = io_rest s"
  "in_data (snd (invalid_callbacks E ev st s)) = in_data s"
  "out_data (snd (invalid_callbacks E ev st s)) = out_data s"
  "current_item (ctx (fst (invalid_callbacks E ev st s))) = current_item (ctx st)"
  by (simp_all add: invalid_callbacks_def set_invalid_error_def)

lemma quiet_store [simp]: "snd (store_item n f st s) = s" "current_item (ctx (fst (store_item n f st s))) = None"
  by (simp_all add: store_item_def complete_item_def set_data_def)

lemmas quiet_defs = quiet_config_def quiet_callbacks_def item_in_range_def

lemma continue_quiet: "quiet_config (continue_init_config E)"
  by (auto simp: quiet_defs continue_init_config_def continue_sig_callback_def continue_sig_uint16_callback_def
      continue_sig_uint8_callback_def split: cbor_event.split)

lemma read_mem_quiet: "quiet_config (read_init_config E)"
  by (auto simp: quiet_defs read_init_config_def read_addr_callback_def read_len_callback_def split: cbor_event.split)

lemma write_mem_quiet: "quiet_config (write_config_init E)"
  by (auto simp: quiet_defs write_config_init_def write_addr_callback_def write_data_callback_def sys_call_def
      complete_item_def set_data_def split: cbor_event.split)

lemma breakpoint_quiet: "quiet_config (breakpoint_init_config E)"
  by (auto simp: quiet_defs breakpoint_init_config_def breakpoint_addr_callback_def breakpoint_addr_uint32_callback_def
      breakpoint_addr_uint16_callback_def breakpoint_addr_uint8_callback_def split: cbor_event.split)

lemma read_reg_quiet: "quiet_config (read_reg_init_config E)"
  by (auto simp: quiet_defs read_reg_init_config_def read_reg_callback_def read_reg_uint8_callback_def split: cbor_event.split)

lemma write_reg_quiet: "quiet_config (write_reg_init_config E)"
  by (auto simp: quiet_defs write_reg_init_config_def write_reg_callback_def write_reg_uint8_callback_def
      write_reg_value_callback_def write_reg_value_uint32_callback_def write_reg_value_uint16_callback_def
      write_reg_value_uint8_callback_def split: cbor_event.split)

lemma single_step_quiet: "quiet_config (single_step_init_config E)"
  by (auto simp: quiet_defs single_step_init_config_def single_step_callback_def split: cbor_event.split)

lemmas quiet_configs = continue_quiet read_mem_quiet write_mem_quiet breakpoint_quiet read_reg_quiet write_reg_quiet
  single_step_quiet

lemma read_request_data_silent:
  assumes "quiet_config config" and "silent s0 s"
  shows "keeps (silent s0) (read_request_data E fd config d s)"
  using silent_trans [OF assms(2) silent_consumed [OF read_request_data_frame [OF assms(1)]]]
  by (auto simp: keeps_def intro!: yields_I)

lemma request_type_quiet: "quiet_callbacks (\<lambda>_. True) (request_type_callbacks E)"
  by (auto simp: quiet_callbacks_def request_type_callbacks_def request_type_callback_def
      request_type_uint8_callback_def split: cbor_event.split)

lemma read_request_type_frame:
  assumes "read_request_type E fd type s = Ret ((r, t), s')"
  shows "consumed fd s s'"
proof -
  let ?st = "\<lparr>ctx = \<lparr>current_item = None, item_count = 0, rd_error = False, rd_data = type\<rparr>, is_done = False\<rparr>"
  obtain x where "read_items_loop E fd (request_type_callbacks E) ?st False [] 0 1 s = Some x" "snd x = s'"
    using assms by (auto simp: read_request_type_def read_cbor_items_def run_bind_eq_Ret)
  then show ?thesis using read_items_rule [OF _ request_type_quiet] by blast
qed

lemma read_request_type_silent: "keeps (silent s) (read_request_type E fd type s)"
  using silent_consumed [OF read_request_type_frame] by (auto simp: keeps_def intro!: yields_I)

section \<open>One response for every request\<close>

text \<open>
  What a handler does with the response descriptor when the system answers: on success one
  valid response with the handler's request code, and nothing on a failure.
\<close>

definition sent :: "nat \<Rightarrow> u8 list \<Rightarrow> 'z io_state_scheme \<Rightarrow> 'z io_state_scheme \<Rightarrow> bool" where
  "sent fd bs s s' \<longleftrightarrow> sys_oracle s' = sys_oracle s \<and> out_data s' = (out_data s)(fd := out_data s fd @ bs)"

definition answered :: "env \<Rightarrow> nat \<Rightarrow> nat \<Rightarrow> 'z io_state_scheme \<Rightarrow> (int \<times> 'z io_state_scheme) run \<Rightarrow> bool" where
  "answered E fd code s m \<longleftrightarrow> yields m (\<lambda>(r, s').
     if r = RESULT_SUCCESS then \<exists>data. sent fd (response_bytes E UDI_RESP_VALID code data) s s' else silent s s')"

lemma sent_upd [simp]:
  "sent fd bs s (s'\<lparr>sys_count := c\<rparr>) = sent fd bs s s'" "sent fd bs s (s'\<lparr>errmsg := e\<rparr>) = sent fd bs s s'"
  by (simp_all add: sent_def)

lemma sent_after_silent: "silent s s' \<Longrightarrow> sent fd bs s' s'' \<Longrightarrow> sent fd bs s s''"
  by (simp add: silent_def sent_def)

lemma write_response_sent:
  assumes "sys_always_ok s0" and "serializer_ok E" and "silent s0 s"
  shows "yields (write_response E fd rt code data s) (\<lambda>(r, s'). r = RESULT_SUCCESS \<and> sent fd (response_bytes E rt code data) s0 s')"
proof -
  have "sys_always_ok s" using silent_ok [OF assms(3,1)] .
  from write_response_ok [OF this assms(2), of fd rt code data] show ?thesis
    using assms(3) by (auto simp: sent_def silent_def)
qed

lemma answered_bind:
  assumes "keeps (silent s) m" and "\<And>r s'. silent s s' \<Longrightarrow> answered E fd code s (f r s')"
  shows "answered E fd code s (run_bind m (\<lambda>(r, s'). f r s'))"
  using assms unfolding answered_def by (auto simp only: yields_simps prod.case intro!: keeps_D [OF assms(1)])

lemma answered_yields: "yields m (\<lambda>x. answered E fd code s (f x)) \<Longrightarrow> answered E fd code s (run_bind m f)"
  by (auto simp: answered_def)

lemma answered_error: "r \<noteq> RESULT_SUCCESS \<Longrightarrow> silent s s' \<Longrightarrow> answered E fd code s (Ret (r, s'))"
  by (simp add: answered_def)

lemma answered_response:
  assumes "sys_always_ok s0" and "serializer_ok E" and "silent s0 s"
  shows "answered E fd code s0 (write_response E fd UDI_RESP_VALID code data s)"
  using write_response_sent [OF assms, of fd UDI_RESP_VALID code data] by (auto simp: answered_def yields_def)

lemma response_ne: "RESULT_FAILURE \<noteq> RESULT_SUCCESS" "RESULT_ERROR \<noteq> RESULT_SUCCESS"
  by (simp_all add: result_defs)

lemma yields_weaken: "yields m P \<Longrightarrow> (\<And>x. P x \<Longrightarrow> Q x) \<Longrightarrow> yields m Q"
  by (simp add: yields_def)

lemma finish_request_sent:
  assumes "r \<noteq> RESULT_SUCCESS" and ok: "sys_always_ok s0" and ser: "serializer_ok E" and "silent s0 s"
  shows "yields (finish_request E fd type r s) (\<lambda>((r', t), s'). t = type \<and> r' = r \<and>
    (\<exists>data. sent fd (response_bytes E UDI_RESP_ERROR type (Some data)) s0 s'))"
proof -
  have "silent s0 (s\<lparr>errmsg := None\<rparr>)" using assms(4) by (simp add: silent_def)
  from write_response_sent [OF ok ser this]
  have "yields (write_error_response E fd type s) (\<lambda>(e, s'). e = RESULT_SUCCESS \<and>
      (\<exists>data. sent fd (response_bytes E UDI_RESP_ERROR type (Some data)) s0 s'))"
    by (fastforce simp: write_error_response_def yields_def run_bind_eq_Ret)
  then show ?thesis
    using assms(1) by (auto simp: finish_request_def result_defs elim!: yields_weaken)
qed

locale request_handler =
  fixes handle :: "env \<Rightarrow> nat \<Rightarrow> nat \<Rightarrow> 'z req_state_scheme \<Rightarrow> (int \<times> 'z req_state_scheme) run"
    and code :: nat
  assumes answers: "sys_always_ok s \<Longrightarrow> serializer_ok E \<Longrightarrow> answered E fd code s (handle E req_fd fd s)"
begin

text \<open>After the end of the dispatch there is one response, which says what happened.\<close>

lemma finishes:
  assumes ok: "sys_always_ok s0" and ser: "serializer_ok E" and quiet: "silent s0 s"
  shows "yields (run_bind (handle E req_fd fd s) (\<lambda>(result, s). finish_request E fd type result s))
    (\<lambda>((r, t), s'). t = type \<and> (if r = RESULT_SUCCESS
       then \<exists>data. sent fd (response_bytes E UDI_RESP_VALID code data) s0 s'
       else \<exists>data. sent fd (response_bytes E UDI_RESP_ERROR type (Some data)) s0 s'))"
proof -
  have "sys_always_ok s" using silent_ok [OF quiet ok] .
  then have a: "answered E fd code s (handle E req_fd fd s)" using answers ser by blast
  have done_ok: "yields (finish_request E fd type r s') (\<lambda>((r, t), s'). t = type \<and> (if r = RESULT_SUCCESS
       then \<exists>data. sent fd (response_bytes E UDI_RESP_VALID code data) s0 s'
       else \<exists>data. sent fd (response_bytes E UDI_RESP_ERROR type (Some data)) s0 s'))"
    if "if r = RESULT_SUCCESS then \<exists>data. sent fd (response_bytes E UDI_RESP_VALID code data) s s' else silent s s'" for r s'
  proof (cases "r = RESULT_SUCCESS")
    case True
    then show ?thesis using that sent_after_silent [OF quiet] by (auto simp: finish_request_def)
  next
    case False
    then have "silent s0 s'" using that silent_trans [OF quiet, of s'] by simp
    from finish_request_sent [OF False ok ser this] show ?thesis by (rule yields_weaken) (use False in auto)
  qed
  show ?thesis using a done_ok by (auto simp: answered_def yields_def run_bind_eq_Ret split: prod.splits)
qed

end

subsection \<open>The handlers\<close>

named_theorems answer_rules \<open>rules for what a handler sends\<close>

lemma answered_bind2 [answer_rules]:
  assumes "keeps (silent s) m" and "\<And>a b s'. silent s s' \<Longrightarrow> answered E fd code s (f a b s')"
  shows "answered E fd code s (run_bind m (\<lambda>((a, b), s'). f a b s'))"
  by (rule answered_bind [OF assms(1), of E fd code "\<lambda>(a, b). f a b", unfolded prod.case_distrib])
    (use assms(2) in \<open>auto split: prod.split\<close>)

lemma answered_if [answer_rules]:
  "(b \<Longrightarrow> answered E fd code s m) \<Longrightarrow> (\<not> b \<Longrightarrow> answered E fd code s m') \<Longrightarrow> answered E fd code s (if b then m else m')"
  by simp

lemma answered_build_map [answer_rules]:
  "(\<And>map. answered E fd code s (f map)) \<Longrightarrow> answered E fd code s (run_bind (cbor_build_map E n kvs) f)"
  by (auto intro!: answered_yields yields_any)

lemma answered_option [answer_rules]:
  "(\<And>x. m = Some x \<Longrightarrow> answered E fd code s (f x)) \<Longrightarrow> answered E fd code s (run_bind (of_option m) f)"
  by (auto intro!: answered_yields yields_of_option)

lemma answered_sys_call [answer_rules]:
  "silent s0 s \<Longrightarrow> (\<And>r s'. silent s0 s' \<Longrightarrow> answered E fd code s0 (f r s'))
     \<Longrightarrow> answered E fd code s0 (case sys_call s of (r, s') \<Rightarrow> f r s')"
  by (simp add: sys_call_def)

lemma ops_keep [answer_rules]:
  assumes "silent s0 s"
  shows "keeps (silent s0) (install_breakpoint E bp s)" and "keeps (silent s0) (remove_breakpoint E bp s)"
    and "keeps (silent s0) (delete_breakpoint E bp s)" and "keeps (silent s0) (create_breakpoint a s)"
    and "length bs \<le> 2 ^ 64 \<Longrightarrow> keeps (silent s0) (write_memory E a bs s)"
  using assms by (auto simp: keeps_def intro!: silent_rules)

lemma successor_keeps [answer_rules]: "silent s0 s \<Longrightarrow> keeps (silent s0) (get_ctf_successor E pc c s)" for s :: "'z thr_state_scheme"
  by (auto simp: keeps_def intro!: sending.successor)

lemma read_memory_answered [answer_rules]:
  assumes "silent s0 s" and "\<And>r out s'. silent s0 s' \<Longrightarrow> answered E' fd code s0 (f r out s')"
  shows "answered E' fd code s0 (run_bind (read_memory E a n s) (\<lambda>(r, out, s'). f r out s'))"
  by (rule answered_yields) (auto intro!: read_memory_silent [OF assms(1)] assms(2))

lemma find_breakpoint_answered [answer_rules]:
  "(\<And>p. answered E fd code s0 (f p)) \<Longrightarrow> answered E fd code s0 (run_bind (find_breakpoint a s) f)"
  by (auto intro!: answered_yields yields_any)

lemma update_thread_answered [answer_rules]:
  "silent s0 s \<Longrightarrow> (\<And>s'. silent s0 s' \<Longrightarrow> answered E fd code s0 (f s'))
     \<Longrightarrow> answered E fd code s0 (run_bind (update_thread thr g s) f)"
  by (auto intro!: answered_yields update_thread_silent)

lemma thread_at_answered [answer_rules]:
  "(\<And>t. answered E fd code s0 (f t)) \<Longrightarrow> answered E fd code s0 (run_bind (thread_at thr s) f)"
  by (auto intro!: answered_yields yields_any)

lemma read_breakpoint_addr_keeps [answer_rules]: "silent s0 s \<Longrightarrow> keeps (silent s0) (read_breakpoint_addr E fd s)"
  unfolding read_breakpoint_addr_def keeps_def yields_simps
  by (rule keeps_D [OF read_request_data_silent [OF breakpoint_quiet]]) (auto split: prod.split)

lemma read_breakpoint_keeps [answer_rules]: "silent s0 s \<Longrightarrow> keeps (silent s0) (read_breakpoint E fd s)"
  unfolding read_breakpoint_def keeps_def yields_simps
  by (rule keeps_D [OF read_breakpoint_addr_keeps]) (auto split: prod.split intro!: yields_any)

lemma answered_Stuck [answer_rules]: "answered E fd code s0 Stuck"
  by (simp add: answered_def)

declare read_request_data_silent [answer_rules] answered_error [answer_rules] answered_response [answer_rules]
  answered_bind [answer_rules] quiet_configs [answer_rules]

lemma post_continue_silent: "silent s0 (post_continue_hook v s) = silent s0 s" "sent fd bs s0 (post_continue_hook v s) = sent fd bs s0 s"
  by (simp_all add: post_continue_hook_def sys_call_def silent_def sent_def)

interpretation read_request: request_handler read_handler "request_val UDI_REQ_READ_MEM"
  by unfold_locales (simp only: read_handler_def; intro answer_rules; simp add: response_ne)

lemma request_bytes_length: "length (case d of None \<Rightarrow> [] | Some bs \<Rightarrow> take (unat (n :: u32)) bs) \<le> 2 ^ 64"
proof -
  have "unat n < 2 ^ LENGTH(32)" by (rule unsigned_less)
  then show ?thesis by (auto simp: min_def split: option.split)
qed

interpretation write_request: request_handler write_handler "request_val UDI_REQ_WRITE_MEM"
  by unfold_locales
    (simp only: write_handler_def write_response_no_data_def Let_def;
     intro answer_rules request_bytes_length; simp add: response_ne)

interpretation state_request: request_handler state_handler "request_val UDI_REQ_STATE"
  by unfold_locales
    (simp only: state_handler_def Let_def;
     rule answered_option, rule answered_yields, rule yields_any, intro answer_rules; simp add: response_ne)

interpretation create_request: request_handler breakpoint_create_handler "request_val UDI_REQ_CREATE_BREAKPOINT"
  by unfold_locales
    (simp only: breakpoint_create_handler_def write_response_no_data_def; intro answer_rules; simp add: response_ne)

interpretation install_request: request_handler breakpoint_install_handler "request_val UDI_REQ_INSTALL_BREAKPOINT"
  by unfold_locales
    (simp only: breakpoint_install_handler_def write_response_no_data_def; intro answer_rules; simp add: response_ne)

interpretation remove_request: request_handler breakpoint_remove_handler "request_val UDI_REQ_REMOVE_BREAKPOINT"
  by unfold_locales
    (simp only: breakpoint_remove_handler_def write_response_no_data_def; intro answer_rules; simp add: response_ne)

interpretation delete_request: request_handler breakpoint_delete_handler "request_val UDI_REQ_REMOVE_BREAKPOINT"
  by unfold_locales
    (simp only: breakpoint_delete_handler_def write_response_no_data_def; intro answer_rules; simp add: response_ne)

interpretation invalid_request: request_handler invalid_handler code for code
  by unfold_locales (simp add: invalid_handler_def answered_def response_ne)

lemma answered_any: "(\<And>x. answered E fd code s (f x)) \<Longrightarrow> answered E fd code s (run_bind m f)"
  by (rule answered_yields) (rule yields_any)

lemmas [answer_rules] =
  answered_any [where m = "is_thread_context_valid thr t" for thr t]
  answered_any [where m = "get_thread_context thr t" for thr t]
  answered_any [where m = "is_single_step thr t" for thr t]
  answered_any [where m = "get_single_step_breakpoint thr t" for thr t]
  answered_any [where m = "thread_state_item E t" for E t]

lemma validate_register_silent [simp]: "silent s0 (snd (validate_register E reg s)) = silent s0 s"
  by (simp add: validate_register_def validate_register_for_def Let_def)

lemma register_answered [answer_rules]:
  assumes "silent s0 s"
  shows "(\<And>r v s'. silent s0 s' \<Longrightarrow> answered E' fd code s0 (f r v s'))
      \<Longrightarrow> answered E' fd code s0 (case get_register E reg c s of ((r, v), s') \<Rightarrow> f r v s')"
    and "(\<And>r d s'. silent s0 s' \<Longrightarrow> answered E' fd code s0 (g r d s'))
      \<Longrightarrow> answered E' fd code s0 (case set_register E reg w c s of ((r, d), s') \<Rightarrow> g r d s')"
  using assms validate_register_silent [of s0 E reg s]
  by (auto simp: get_register_def set_register_def Let_def simp del: validate_register_silent split: prod.split)

interpretation thr_read_register: request_handler "\<lambda>E req_fd fd. read_register_handler E req_fd fd thr"
    "request_val UDI_REQ_READ_REGISTER" for thr
  by unfold_locales (simp only: read_register_handler_def; intro answer_rules; simp add: response_ne)

interpretation thr_write_register: request_handler "\<lambda>E req_fd fd. write_register_handler E req_fd fd thr"
    "request_val UDI_REQ_WRITE_REGISTER" for thr
  by unfold_locales
    (simp only: write_register_handler_def set_thread_context_def write_response_no_data_def;
     intro answer_rules; simp add: response_ne)

interpretation thr_state: request_handler "\<lambda>E req_fd fd. thr_state_handler E req_fd fd thr" "request_val UDI_REQ_STATE" for thr
  by unfold_locales (simp only: thr_state_handler_def; intro answer_rules; simp add: response_ne)

interpretation thr_suspend: request_handler "\<lambda>E req_fd fd. thr_suspend_handler E req_fd fd thr"
    "request_val UDI_REQ_THREAD_SUSPEND" for thr
  by unfold_locales
    (simp only: thr_suspend_handler_def set_thread_state_def write_response_no_data_def;
     intro answer_rules; simp add: response_ne)

interpretation thr_resume: request_handler "\<lambda>E req_fd fd. thr_resume_handler E req_fd fd thr"
    "request_val UDI_REQ_THREAD_RESUME" for thr
  by unfold_locales
    (simp only: thr_resume_handler_def set_thread_state_def write_response_no_data_def;
     intro answer_rules; simp add: response_ne)

interpretation thr_next_instr: request_handler "\<lambda>E req_fd fd. next_instr_handler E req_fd fd thr"
    "request_val UDI_REQ_NEXT_INSTRUCTION" for thr
  by unfold_locales (simp only: next_instr_handler_def; intro answer_rules; simp add: response_ne)

interpretation thr_invalid: request_handler "\<lambda>E req_fd fd. thr_invalid_handler E req_fd fd thr" code for thr code
  by unfold_locales (simp add: thr_invalid_handler_def answered_def response_ne)

lemma single_step_delete_keeps:
  assumes "silent s0 s"
  shows "keeps (silent s0) (if c then run_bind (delete_breakpoint E bp s) (\<lambda>(r, s).
      if r \<noteq> 0 then Ret (RESULT_FAILURE, s)
      else run_bind (set_single_step_breakpoint thr NULL s) (\<lambda>s. Ret (RESULT_SUCCESS, s)))
    else Ret (RESULT_SUCCESS, s))"
  using assms by (auto simp: keeps_def set_single_step_breakpoint_def intro!: delete_breakpoint_silent update_thread_silent)

interpretation thr_single_step: request_handler "\<lambda>E req_fd fd. single_step_handler E req_fd fd thr"
    "request_val UDI_REQ_SINGLE_STEP" for thr
  by unfold_locales
    (simp only: single_step_handler_def set_single_step_def; intro answer_rules single_step_delete_keeps; simp add: response_ne)

interpretation continue_request: request_handler continue_handler "request_val UDI_REQ_CONTINUE"
proof unfold_locales
  fix s :: "'a req_state_scheme" and E fd req_fd
  assume ok: "sys_always_ok s" "serializer_ok E"
  have final: "answered E fd (request_val UDI_REQ_CONTINUE) s
      (run_bind (write_response E fd UDI_RESP_VALID (request_val UDI_REQ_CONTINUE) None t)
        (\<lambda>(result, s). Ret (result, if result = RESULT_SUCCESS then post_continue_hook v s else s)))"
    if "silent s t" for t v
    using write_response_sent [OF ok that, of fd UDI_RESP_VALID "request_val UDI_REQ_CONTINUE" None]
    by (auto simp: answered_def post_continue_silent elim!: yields_weaken)
  have install: "yields (if continue_bp t \<noteq> NULL
      then run_bind (install_breakpoint E (continue_bp t) t) (\<lambda>(install_result, s). Ret s) else Ret t) (silent s)"
    if "silent s t" for t
    using that by (auto intro!: install_breakpoint_silent)
  have reap: "keeps (silent s) (if get_multithread_capable t
      then run_bind (of_option (reap_loop E (get_thread_list t) t)) (\<lambda>r. r) else Ret (0, t))"
    if "silent s t" for t
    using that sending.reaping [OF _ that] by (auto simp: keeps_def intro!: yields_of_option)
  show "answered E fd (request_val UDI_REQ_CONTINUE) s (continue_handler E req_fd fd s)"
    unfolding continue_handler_def write_response_no_data_def
    by (intro answered_bind2 answered_if answered_option answered_error read_request_data_silent continue_quiet
          answered_bind reap final answered_yields yields_weaken [OF install] silent_refl; simp add: response_ne)
qed

subsection \<open>The dispatch\<close>

text \<open>What is sent at the end of a request, by its type and its result.\<close>

definition one_response :: "env \<Rightarrow> (nat \<Rightarrow> nat) \<Rightarrow> nat \<Rightarrow> 'z io_state_scheme \<Rightarrow> (int \<times> nat) \<times> 'z io_state_scheme \<Rightarrow> bool" where
  "one_response E code fd s = (\<lambda>((r, t), s'). if r = RESULT_SUCCESS
       then \<exists>data. sent fd (response_bytes E UDI_RESP_VALID (code t) data) s s'
       else \<exists>data. sent fd (response_bytes E UDI_RESP_ERROR t (Some data)) s s')"

definition process_code :: "nat \<Rightarrow> nat" where
  "process_code t = (if t = request_val UDI_REQ_DELETE_BREAKPOINT then request_val UDI_REQ_REMOVE_BREAKPOINT else t)"

lemma less_16: "(t :: nat) < 16 \<longleftrightarrow> t \<in> {0, 1, 2, 3, 4, 5, 6, 7, 8, 9, 10, 11, 12, 13, 14, 15}"
  unfolding insert_iff empty_iff by presburger

lemma request_vals:
  "request_val UDI_REQ_CONTINUE = 1" "request_val UDI_REQ_READ_MEM = 2" "request_val UDI_REQ_WRITE_MEM = 3"
  "request_val UDI_REQ_READ_REGISTER = 4" "request_val UDI_REQ_WRITE_REGISTER = 5" "request_val UDI_REQ_STATE = 6"
  "request_val UDI_REQ_INIT = 7" "request_val UDI_REQ_CREATE_BREAKPOINT = 8" "request_val UDI_REQ_INSTALL_BREAKPOINT = 9"
  "request_val UDI_REQ_REMOVE_BREAKPOINT = 10" "request_val UDI_REQ_DELETE_BREAKPOINT = 11"
  "request_val UDI_REQ_THREAD_SUSPEND = 12" "request_val UDI_REQ_THREAD_RESUME = 13"
  "request_val UDI_REQ_NEXT_INSTRUCTION = 14" "request_val UDI_REQ_SINGLE_STEP = 15" "request_val UDI_REQ_INVALID = 0"
  by (simp_all add: request_val_def request_values_def)

text \<open>Every entry of the two tables meets the contract of a handler.\<close>

lemmas process_handlers = invalid_request.request_handler_axioms continue_request.request_handler_axioms
  read_request.request_handler_axioms write_request.request_handler_axioms state_request.request_handler_axioms
  create_request.request_handler_axioms install_request.request_handler_axioms remove_request.request_handler_axioms
  delete_request.request_handler_axioms

lemmas thread_handlers = thr_invalid.request_handler_axioms thr_read_register.request_handler_axioms
  thr_write_register.request_handler_axioms thr_state.request_handler_axioms thr_suspend.request_handler_axioms
  thr_resume.request_handler_axioms thr_next_instr.request_handler_axioms thr_single_step.request_handler_axioms

lemma process_table: "type < 16 \<Longrightarrow> request_handler (request_handlers ! type) (process_code type)"
  unfolding less_16 insert_iff empty_iff
  using process_handlers
  by (elim disjE) (simp_all add: request_handlers_def process_code_def request_vals)

lemma thread_table: "type < 16 \<Longrightarrow> request_handler (\<lambda>E req_fd fd. (thr_request_handlers ! type) E req_fd fd thr) type"
  unfolding less_16 insert_iff empty_iff
  using thread_handlers
  by (elim disjE) (simp_all add: thr_request_handlers_def request_vals)

lemma table_finishes:
  assumes "request_handler h (code type)" and "sys_always_ok s0" "serializer_ok E" "silent s0 s"
  shows "yields (run_bind (h E req_fd fd s) (\<lambda>(result, s). finish_request E fd type result s)) (one_response E code fd s0)"
  using request_handler.finishes [OF assms, of req_fd fd type] by (rule yields_weaken) (auto simp: one_response_def split: if_splits)

lemma invalid_finishes:
  assumes "r \<noteq> RESULT_SUCCESS" "sys_always_ok s0" "serializer_ok E" "silent s0 s"
  shows "yields (finish_request E fd type r s) (one_response E code fd s0)"
  using finish_request_sent [OF assms, of fd type] by (rule yields_weaken) (use assms(1) in \<open>auto simp: one_response_def\<close>)

lemma table_lengths [simp]: "length request_handlers = 16" "length thr_request_handlers = 16"
  by (simp_all add: request_handlers_def thr_request_handlers_def)

lemma process_dispatch:
  assumes "sys_always_ok s" "serializer_ok E"
  shows "yields (handle_process_request E req_fd fd type s) (one_response E process_code fd s)"
  unfolding handle_process_request_def yields_simps
  by (rule keeps_D [OF read_request_type_silent])
    (auto simp del: yields_simps(4) intro!: table_finishes process_table invalid_finishes assms split: prod.split)

lemma thread_dispatch:
  assumes "sys_always_ok s" "serializer_ok E"
  shows "yields (handle_thread_request E req_fd fd thr type s) (one_response E (\<lambda>t. t) fd s)"
  unfolding handle_thread_request_def yields_simps
  by (rule keeps_D [OF read_request_type_silent])
    (auto simp del: yields_simps(4) split: prod.split intro!: invalid_finishes assms thread_table
      table_finishes [where h = "\<lambda>E req_fd fd. (thr_request_handlers ! t) E req_fd fd thr" for t])

subsection \<open>The type of a request\<close>

text \<open>The value that an event carries for the reader of request types.\<close>

fun type_event :: "cbor_event \<Rightarrow> nat option" where
  "type_event (Ev_uint8 v) = Some (unat v)"
| "type_event (Ev_uint16 v) = Some (unat v)"
| "type_event _ = None"

lemma request_type_event:
  "type_event ev = Some t \<Longrightarrow> request_type_callbacks E ev st s = ((set_data (\<lambda>_. t) st)\<lparr>is_done := True\<rparr>, s)"
  by (cases ev) (auto simp: request_type_callbacks_def request_type_callback_def request_type_uint8_callback_def
      unsigned_ucast_eq take_bit_nat_eq_self unsigned_less [THEN less_trans])

lemma read_request_type_ok:
  assumes "sys_always_ok s" and "next_item E (in_data s fd) 1 = Item ev rest" and "type_event ev = Some t"
  shows "\<exists>c. read_request_type E fd type s = Ret ((RESULT_SUCCESS, t), s\<lparr>sys_count := c, in_data := (in_data s)(fd := rest)\<rparr>)"
proof -
  let ?st = "\<lparr>ctx = \<lparr>current_item = None, item_count = 0, rd_error = False, rd_data = type\<rparr>, is_done = False\<rparr>"
  obtain c mx where "read_items_loop E fd (request_type_callbacks E) ?st False [] 0 1 s =
    read_items_loop E fd (request_type_callbacks E) ((set_data (\<lambda>_. t) ?st)\<lparr>is_done := True\<rparr>) True [] mx 1
      (s\<lparr>sys_count := c, in_data := (in_data s)(fd := rest)\<rparr>)"
    using read_items_step [OF assms(1) _ assms(2), of ?st False "request_type_callbacks E" 0]
    by (auto simp: request_type_event [OF assms(3)])
  then show ?thesis
    by (auto simp: read_request_type_def read_cbor_items_def read_items_done set_data_def)
qed

subsection \<open>Error responses\<close>

definition error_data :: "env \<Rightarrow> 'z io_state_scheme \<Rightarrow> cbor_item" where
  "error_data E s = cbor_map_of 1 [(''msg'', CString (errmsg_text E s))]"

lemma finish_request_error_ok:
  assumes "sys_always_ok s" and "serializer_ok E" and "builders_ok E" and "r \<noteq> RESULT_SUCCESS"
  shows "\<exists>c. finish_request E fd type r s = Ret ((r, type), s\<lparr>sys_count := c,
    out_data := (out_data s)(fd := out_data s fd @ response_bytes E UDI_RESP_ERROR type (Some (error_data E s)))\<rparr>)"
proof -
  let ?bs = "response_bytes E UDI_RESP_ERROR type (Some (error_data E s))"
  have map: "cbor_build_map E 1 [(''msg'', CString (errmsg_text E s))] = Ret (error_data E s)"
    using assms(3) by (simp add: cbor_build_map_ok error_data_def)
  have "sys_always_ok (s\<lparr>errmsg := None\<rparr>)" using assms(1) by (simp add: sys_always_ok_def)
  from write_response_ok [OF this assms(2), of fd UDI_RESP_ERROR type "Some (error_data E s)"] obtain c where
    w: "write_response E fd UDI_RESP_ERROR type (Some (error_data E s)) (s\<lparr>errmsg := None\<rparr>) = Ret (RESULT_SUCCESS,
      s\<lparr>errmsg := None, sys_count := c, out_data := (out_data s)(fd := out_data s fd @ ?bs)\<rparr>)" by auto
  have "s\<lparr>errmsg := None, sys_count := c, out_data := u, errmsg := errmsg s\<rparr> = s\<lparr>sys_count := c, out_data := u\<rparr>" for u
    by (cases s) simp
  then show ?thesis
    using assms(4) map w by (auto simp: finish_request_def write_error_response_def result_defs)
qed

section \<open>A concrete wire format\<close>

text \<open>
  For the concrete examples, the part of CBOR that requests are made of: unsigned integers,
  short byte and text strings, short maps, and the two booleans.
\<close>

definition wire_need :: "nat \<Rightarrow> u8 list \<Rightarrow> (u8 list \<Rightarrow> cbor_event) \<Rightarrow> decoder_result" where
  "wire_need n r f = (if length r < n then CBOR_DECODER_NEDATA (Suc n) else CBOR_DECODER_FINISHED (f (take n r)))"

definition wire_int :: "u8 list \<Rightarrow> 'w :: len word" where
  "wire_int bs = fold (\<lambda>b w. w * 256 + ucast b) bs 0"

definition wire_decode :: "u8 list \<Rightarrow> decoder_result" where
  "wire_decode bs = (case bs of
       [] \<Rightarrow> CBOR_DECODER_NEDATA 1
     | b # r \<Rightarrow>
         if b < 0x18 then CBOR_DECODER_FINISHED (Ev_uint8 b)
         else if b = 0x18 then wire_need 1 r (\<lambda>p. Ev_uint8 (wire_int p))
         else if b = 0x19 then wire_need 2 r (\<lambda>p. Ev_uint16 (wire_int p))
         else if b = 0x1a then wire_need 4 r (\<lambda>p. Ev_uint32 (wire_int p))
         else if b = 0x1b then wire_need 8 r (\<lambda>p. Ev_uint64 (wire_int p))
         else if 0x40 \<le> b \<and> b < 0x58 then wire_need (unat b - 0x40) r Ev_byte_string
         else if 0x60 \<le> b \<and> b < 0x78 then wire_need (unat b - 0x60) r Ev_string
         else if 0xa0 \<le> b \<and> b < 0xb8 then CBOR_DECODER_FINISHED (Ev_map_start (ucast (b - 0xa0)))
         else if b = 0xf4 then CBOR_DECODER_FINISHED (Ev_boolean False)
         else if b = 0xf5 then CBOR_DECODER_FINISHED (Ev_boolean True)
         else CBOR_DECODER_ERROR)"

definition wire_env :: env where
  "wire_env = sample_env\<lparr>env_cbor_decode := wire_decode\<rparr>"

lemma wire_env_ok:
  "decoder_progress wire_env" "builders_ok wire_env" "serializer_ok wire_env" "env_cbor_decode wire_env = wire_decode"
  "env_pagesize wire_env = 4096"
  using sample_env_ok
  by (auto simp: wire_env_def decoder_progress_def builders_ok_def serializer_ok_def wire_decode_def wire_need_def
      split: list.splits if_splits)

lemmas wire_simps = next_item.simps wire_env_ok(4) wire_decode_def wire_need_def wire_int_def

definition sample_req_state :: "u8 list \<Rightarrow> req_state" where
  "sample_req_state bs = thr_state.extend (sample_thr_state\<lparr>in_data := (\<lambda>_. [])(3 := bs)\<rparr>)
     \<lparr>continue_bp = NULL, last_bp_address = 0, exiting = False, pass_signal = 0, kills = []\<rparr>"

lemma sample_req_state_simps:
  "sys_always_ok (sample_req_state bs)" "in_data (sample_req_state bs) 3 = bs" "out_data (sample_req_state bs) = (\<lambda>_. [])"
  "thread_list (sample_req_state bs) [3, 2]" "threads (sample_req_state bs) = 3"
  "thr_heap (sample_req_state bs) = thr_heap sample_thr_state"
  "continue_bp (sample_req_state bs) = NULL" "kills (sample_req_state bs) = []"
  using sample_thr_state_simps
  by (simp_all add: sample_req_state_def thr_state.defs sys_always_ok_def thread_list_def sample_thr_state_def io_state.defs
      sample_io_state_def bp_state.defs)

section \<open>Properties\<close>

text \<open>
  C7. Exactly one response for every request to the process. When the system reports no error
  and items can be serialized, a dispatched request that comes to an end has added one response to
  its response descriptor and nothing to any other: a valid response on success, which names the
  type of the request (the deletion of a breakpoint names the removal), and otherwise an error
  response with a message, which names the type of the request, or the invalid one
  when the type could not be read.
\<close>

theorem process_request_one_response:
  assumes "sys_always_ok s" and "serializer_ok E"
    and "handle_process_request E req_fd resp_fd type s = Ret ((r, t), s')"
  shows "\<exists>data. out_data s' = (out_data s)(resp_fd := out_data s resp_fd @
    (if r = RESULT_SUCCESS then response_bytes E UDI_RESP_VALID (if t = 11 then 10 else t) data
     else response_bytes E UDI_RESP_ERROR t data)) \<and> (r = RESULT_SUCCESS \<or> data \<noteq> None)"
  using yields_D [OF process_dispatch [OF assms(1,2)] assms(3)]
  by (auto simp: one_response_def sent_def process_code_def request_vals split: if_splits)

theorem process_request_one_response_witness:
  "\<exists>s'. handle_process_request wire_env 3 4 0 (sample_req_state [5]) = Ret ((RESULT_ERROR, 5), s') \<and>
     (\<exists>data. out_data s' 4 = response_bytes wire_env UDI_RESP_ERROR 5 data)"
proof -
  have "next_item wire_env (in_data (sample_req_state [5]) 3) 1 = Item (Ev_uint8 5) []"
    by (simp add: sample_req_state_simps wire_simps)
  from read_request_type_ok [OF sample_req_state_simps(1) this, of 5 0] obtain c where
    t: "read_request_type wire_env 3 0 (sample_req_state [5]) =
      Ret ((RESULT_SUCCESS, 5), (sample_req_state [5])\<lparr>sys_count := c, in_data := (in_data (sample_req_state [5]))(3 := [])\<rparr>)"
    by auto
  have "\<exists>s'. finish_request wire_env 4 5 RESULT_ERROR u = Ret ((RESULT_ERROR, 5), s')" if "sys_always_ok u" for u :: req_state
    using finish_request_error_ok [OF that wire_env_ok(3,2) response_ne(2), of 4 5] by blast
  moreover have "sys_always_ok (udi_set_errmsg wire_env fmt args u)" if "sys_always_ok u" for fmt args and u :: req_state
    using that by (simp add: sys_always_ok_def)
  ultimately obtain s' where run: "handle_process_request wire_env 3 4 0 (sample_req_state [5]) = Ret ((RESULT_ERROR, 5), s')"
    unfolding handle_process_request_def t using sample_req_state_simps(1) [of "[5]"]
    by (fastforce simp: request_handlers_def invalid_handler_def)
  then show ?thesis
    using process_request_one_response [OF sample_req_state_simps(1) wire_env_ok(3) run] sample_req_state_simps
    by (auto simp: result_defs)
qed

text \<open>
  C8. Exactly one response for every request to a thread: as for the process, and a valid
  response always names the type of the request.
\<close>

theorem thread_request_one_response:
  assumes "sys_always_ok s" and "serializer_ok E"
    and "handle_thread_request E req_fd resp_fd thr type s = Ret ((r, t), s')"
  shows "\<exists>data. out_data s' = (out_data s)(resp_fd := out_data s resp_fd @
    response_bytes E (if r = RESULT_SUCCESS then UDI_RESP_VALID else UDI_RESP_ERROR) t data) \<and>
    (r = RESULT_SUCCESS \<or> data \<noteq> None)"
  using yields_D [OF thread_dispatch [OF assms(1,2)] assms(3)]
  by (auto simp: one_response_def sent_def split: if_splits)

theorem thread_request_one_response_witness:
  "\<exists>s'. handle_thread_request wire_env 3 4 3 0 (sample_req_state [12]) = Ret ((RESULT_SUCCESS, 12), s') \<and>
     (\<exists>data. out_data s' 4 = response_bytes wire_env UDI_RESP_VALID 12 data)"
proof -
  have "next_item wire_env (in_data (sample_req_state [12]) 3) 1 = Item (Ev_uint8 12) []"
    by (simp add: sample_req_state_simps wire_simps)
  from read_request_type_ok [OF sample_req_state_simps(1) this, of 12 0] obtain c where
    t: "read_request_type wire_env 3 0 (sample_req_state [12]) =
      Ret ((RESULT_SUCCESS, 12), (sample_req_state [12])\<lparr>sys_count := c, in_data := (in_data (sample_req_state [12]))(3 := [])\<rparr>)"
    by auto
  let ?s = "(sample_req_state [12])\<lparr>sys_count := c, in_data := (in_data (sample_req_state [12]))(3 := [])\<rparr>"
  obtain u :: req_state where u: "set_thread_state 3 UDI_TS_SUSPENDED ?s = Ret u" "sys_always_ok u"
    using sample_req_state_simps(1,6) [of "[12]"] sample_thr_state_simps(3)
    by (simp add: set_thread_state_def update_thread_def derefI)
  obtain s' where "write_response_no_data wire_env 4 UDI_RESP_VALID 12 u = Ret (RESULT_SUCCESS, s')"
    using write_response_ok [OF u(2) wire_env_ok(3), of 4 UDI_RESP_VALID 12 None] by (auto simp: write_response_no_data_def)
  then have run: "handle_thread_request wire_env 3 4 3 0 (sample_req_state [12]) = Ret ((RESULT_SUCCESS, 12), s')"
    unfolding handle_thread_request_def t using u(1)
    by (simp add: thr_request_handlers_def thr_suspend_handler_def finish_request_def request_vals)
  then show ?thesis
    using thread_request_one_response [OF sample_req_state_simps(1) wire_env_ok(3) run] sample_req_state_simps by auto
qed

end
