(* ===== verification/Request_Effects.thy ===== *)
theory Request_Effects
  imports Dispatch
begin

text \<open>
  The requests of \<open>Requests\<close> from the bytes on the request descriptor to the state of the
  debuggee: what each configuration reads, and what the breakpoint, memory, register, thread
  and continue requests do to the breakpoint table, the memory, the registers and the
  threads.
\<close>

section \<open>Reading requests\<close>

subsection \<open>Integers of every width\<close>

fun int_event :: "cbor_event \<Rightarrow> u64 option" where
  "int_event (Ev_uint8 v) = Some (ucast v)"
| "int_event (Ev_uint16 v) = Some (ucast v)"
| "int_event (Ev_uint32 v) = Some (ucast v)"
| "int_event (Ev_uint64 v) = Some v"
| "int_event _ = None"

lemma accepts_store:
  assumes "\<And>st s. sys_always_ok s \<Longrightarrow> callbacks (items config ! i) ev st s = store_item (num_items config) f st s"
  shows "accepts config i ev f"
  unfolding accepts_def
proof (intro allI impI)
  fix st and s :: "'b io_state_scheme"
  assume "sys_always_ok s"
  then show "\<exists>c. callbacks (items config ! i) ev st s = (complete_item (num_items config) (set_data f st), s\<lparr>sys_count := c\<rparr>)"
    by (intro exI [of _ "sys_count s"]) (simp add: assms store_item_def)
qed

lemma bytes_of_key: "strncmp_eq (bytes_of k) (bytes_of k)"
  by (induction k) (auto simp: bytes_of_def)

lemmas key_simps = bytes_of_def strncmp_eq.simps

lemma breakpoint_field:
  "int_event ev = Some a \<Longrightarrow> field_ok (breakpoint_init_config E) (''addr'', ev, \<lambda>d. d\<lparr>br_addr := a\<rparr>)"
  unfolding field_ok_def
  by (cases ev)
    (auto intro!: exI [of _ 0] accepts_store simp: breakpoint_init_config_def bytes_of_key
      breakpoint_addr_callback_def breakpoint_addr_uint32_callback_def breakpoint_addr_uint16_callback_def
      breakpoint_addr_uint8_callback_def)

text \<open>Requests with one and with two fields.\<close>

lemma read_one_field:
  assumes "sys_always_ok s" and "field_ok config (k, ev, f)" and "num_items config = 1"
    and "stream_items E (in_data s fd) [Ev_map_start 1, Ev_string (bytes_of k), ev] rest"
  shows "\<exists>c. read_request_data E fd config d s = Ret ((RESULT_SUCCESS, f d), s\<lparr>sys_count := c, in_data := (in_data s)(fd := rest)\<rparr>)"
proof -
  have "stream_items E (in_data s fd) (Ev_map_start 1 # concat (map field_events [(k, ev, f)])) rest"
    using assms(4) by (simp add: field_events_def)
  from read_request_data_ok [OF assms(1) _ _ _ _ this, of config d] assms(2,3)
  show ?thesis by (simp add: field_data_def)
qed

lemma read_two_fields:
  assumes "sys_always_ok s" and "field_ok config (k1, ev1, f1)" and "field_ok config (k2, ev2, f2)" and "num_items config = 2"
    and "stream_items E (in_data s fd) [Ev_map_start 2, Ev_string (bytes_of k1), ev1, Ev_string (bytes_of k2), ev2] rest"
  shows "\<exists>c. read_request_data E fd config d s = Ret ((RESULT_SUCCESS, f2 (f1 d)), s\<lparr>sys_count := c, in_data := (in_data s)(fd := rest)\<rparr>)"
proof -
  have "stream_items E (in_data s fd) (Ev_map_start 2 # concat (map field_events [(k1, ev1, f1), (k2, ev2, f2)])) rest"
    using assms(5) by (simp add: field_events_def)
  from read_request_data_ok [OF assms(1) _ _ _ _ this, of config d] assms(2-4)
  show ?thesis by (simp add: field_data_def)
qed

lemma config_sizes [simp]:
  "num_items (continue_init_config E) = 1" "num_items (read_init_config E) = 2" "num_items (write_config_init E) = 2"
  "num_items (breakpoint_init_config E) = 1" "num_items (read_reg_init_config E) = 1" "num_items (write_reg_init_config E) = 2"
  "num_items (single_step_init_config E) = 1"
  by (simp_all add: continue_init_config_def read_init_config_def write_config_init_def breakpoint_init_config_def
      read_reg_init_config_def write_reg_init_config_def single_step_init_config_def)

lemma read_breakpoint_addr_ok:
  assumes "sys_always_ok s" and "int_event ev = Some a"
    and "stream_items E (in_data s fd) [Ev_map_start 1, Ev_string (bytes_of ''addr''), ev] rest"
  shows "\<exists>c. read_breakpoint_addr E fd s = Ret ((RESULT_SUCCESS, a), s\<lparr>sys_count := c, in_data := (in_data s)(fd := rest)\<rparr>)"
  using read_one_field [OF assms(1) breakpoint_field [OF assms(2), of E] config_sizes(4) assms(3), where d = "\<lparr>br_addr = 0\<rparr>"]
  by (auto simp: read_breakpoint_addr_def)

subsection \<open>The start of a request\<close>

lemma process_request_start:
  assumes ok: "sys_always_ok s" and t: "type_event tev = Some t" "t < 16" and items: "stream_items E (in_data s fd) (tev # evs) rest"
  obtains c r where "handle_process_request E fd resp_fd type s =
      run_bind ((request_handlers ! t) E fd resp_fd (s\<lparr>sys_count := c, in_data := (in_data s)(fd := r)\<rparr>))
        (\<lambda>(result, s). finish_request E resp_fd t result s)"
    and "stream_items E r evs rest"
proof -
  obtain r where r: "next_item E (in_data s fd) 1 = Item tev r" "stream_items E r evs rest" using items by auto
  from read_request_type_ok [OF ok r(1) t(1), of type] obtain c where
    "read_request_type E fd type s = Ret ((RESULT_SUCCESS, t), s\<lparr>sys_count := c, in_data := (in_data s)(fd := r)\<rparr>)" by blast
  then have "handle_process_request E fd resp_fd type s =
      run_bind ((request_handlers ! t) E fd resp_fd (s\<lparr>sys_count := c, in_data := (in_data s)(fd := r)\<rparr>))
        (\<lambda>(result, s). finish_request E resp_fd t result s)"
    using t(2) by (simp add: handle_process_request_def)
  then show thesis using that r(2) by blast
qed

lemma thread_request_start:
  assumes ok: "sys_always_ok s" and t: "type_event tev = Some t" "t < 16" and items: "stream_items E (in_data s fd) (tev # evs) rest"
  obtains c r where "handle_thread_request E fd resp_fd thr type s =
      run_bind ((thr_request_handlers ! t) E fd resp_fd thr (s\<lparr>sys_count := c, in_data := (in_data s)(fd := r)\<rparr>))
        (\<lambda>(result, s). finish_request E resp_fd t result s)"
    and "stream_items E r evs rest"
proof -
  obtain r where r: "next_item E (in_data s fd) 1 = Item tev r" "stream_items E r evs rest" using items by auto
  from read_request_type_ok [OF ok r(1) t(1), of type] obtain c where
    "read_request_type E fd type s = Ret ((RESULT_SUCCESS, t), s\<lparr>sys_count := c, in_data := (in_data s)(fd := r)\<rparr>)" by blast
  then have "handle_thread_request E fd resp_fd thr type s =
      run_bind ((thr_request_handlers ! t) E fd resp_fd thr (s\<lparr>sys_count := c, in_data := (in_data s)(fd := r)\<rparr>))
        (\<lambda>(result, s). finish_request E resp_fd t result s)"
    using t(2) by (simp add: handle_thread_request_def)
  then show thesis using that r(2) by blast
qed

text \<open>The end of a request whose handler answered.\<close>

lemma finish_success [simp]: "finish_request E fd type RESULT_SUCCESS s = Ret ((RESULT_SUCCESS, type), s)"
  by (simp add: finish_request_def)

lemma request_table [simp]:
  "request_handlers ! request_val UDI_REQ_CONTINUE = continue_handler"
  "request_handlers ! request_val UDI_REQ_READ_MEM = read_handler"
  "request_handlers ! request_val UDI_REQ_WRITE_MEM = write_handler"
  "request_handlers ! request_val UDI_REQ_STATE = state_handler"
  "request_handlers ! request_val UDI_REQ_CREATE_BREAKPOINT = breakpoint_create_handler"
  "request_handlers ! request_val UDI_REQ_INSTALL_BREAKPOINT = breakpoint_install_handler"
  "request_handlers ! request_val UDI_REQ_REMOVE_BREAKPOINT = breakpoint_remove_handler"
  "request_handlers ! request_val UDI_REQ_DELETE_BREAKPOINT = breakpoint_delete_handler"
  "thr_request_handlers ! request_val UDI_REQ_READ_REGISTER = read_register_handler"
  "thr_request_handlers ! request_val UDI_REQ_WRITE_REGISTER = write_register_handler"
  "thr_request_handlers ! request_val UDI_REQ_STATE = thr_state_handler"
  "thr_request_handlers ! request_val UDI_REQ_THREAD_SUSPEND = thr_suspend_handler"
  "thr_request_handlers ! request_val UDI_REQ_THREAD_RESUME = thr_resume_handler"
  "thr_request_handlers ! request_val UDI_REQ_NEXT_INSTRUCTION = next_instr_handler"
  "thr_request_handlers ! request_val UDI_REQ_SINGLE_STEP = single_step_handler"
  by (simp_all add: request_handlers_def thr_request_handlers_def request_vals)

lemma request_val_less: "request_val r < 16"
  by (cases r) (simp_all add: request_vals)

text \<open>A request from the type on: what its handler establishes holds at the end of the dispatch.\<close>

lemma finish_request_rule:
  assumes "sys_always_ok v" and "serializer_ok E" and "builders_ok E" and "P r v"
    and "P RESULT_SUCCESS v \<Longrightarrow> Q RESULT_SUCCESS v"
    and "\<And>c bs. r \<noteq> RESULT_SUCCESS \<Longrightarrow> P r v \<Longrightarrow> Q r (v\<lparr>sys_count := c, out_data := (out_data v)(fd := bs)\<rparr>)"
  shows "\<exists>s'. finish_request E fd type r v = Ret ((r, type), s') \<and> Q r s'"
proof (cases "r = RESULT_SUCCESS")
  case False
  then show ?thesis using finish_request_error_ok [OF assms(1-3) False, of fd type] assms(4,6) by blast
qed (use assms(4,5) in simp)

lemma process_request_run:
  assumes ok: "sys_always_ok s" and env: "serializer_ok E" "builders_ok E"
    and tev: "type_event tev = Some (request_val req)" and items: "stream_items E (in_data s fd) (tev # evs) rest"
    and handler: "\<And>c d. stream_items E d evs rest \<Longrightarrow> \<exists>r v. (request_handlers ! request_val req) E fd resp_fd
        (s\<lparr>sys_count := c, in_data := (in_data s)(fd := d)\<rparr>) = Ret (r, v) \<and> sys_always_ok v \<and> P r v"
    and Q: "\<And>v. P RESULT_SUCCESS v \<Longrightarrow> Q RESULT_SUCCESS v"
      "\<And>r v c bs. r \<noteq> RESULT_SUCCESS \<Longrightarrow> P r v \<Longrightarrow> Q r (v\<lparr>sys_count := c, out_data := (out_data v)(resp_fd := bs)\<rparr>)"
  shows "\<exists>r s'. handle_process_request E fd resp_fd type s = Ret ((r, request_val req), s') \<and> Q r s'"
proof (rule process_request_start [OF ok tev request_val_less items, of resp_fd type])
  fix c d
  assume start: "handle_process_request E fd resp_fd type s =
      run_bind ((request_handlers ! request_val req) E fd resp_fd (s\<lparr>sys_count := c, in_data := (in_data s)(fd := d)\<rparr>))
        (\<lambda>(result, s). finish_request E resp_fd (request_val req) result s)"
    and "stream_items E d evs rest"
  from handler [OF this(2), of c] obtain r v where run: "(request_handlers ! request_val req) E fd resp_fd
        (s\<lparr>sys_count := c, in_data := (in_data s)(fd := d)\<rparr>) = Ret (r, v)" and v: "sys_always_ok v" "P r v" by blast
  from finish_request_rule [where P = P and Q = Q, OF v(1) env v(2) Q, of "request_val req"] show ?thesis
    using start run by auto
qed

lemma thread_request_run:
  assumes ok: "sys_always_ok s" and env: "serializer_ok E" "builders_ok E"
    and tev: "type_event tev = Some (request_val req)" and items: "stream_items E (in_data s fd) (tev # evs) rest"
    and handler: "\<And>c d. stream_items E d evs rest \<Longrightarrow> \<exists>r v. (thr_request_handlers ! request_val req) E fd resp_fd thr
        (s\<lparr>sys_count := c, in_data := (in_data s)(fd := d)\<rparr>) = Ret (r, v) \<and> sys_always_ok v \<and> P r v"
    and Q: "\<And>v. P RESULT_SUCCESS v \<Longrightarrow> Q RESULT_SUCCESS v"
      "\<And>r v c bs. r \<noteq> RESULT_SUCCESS \<Longrightarrow> P r v \<Longrightarrow> Q r (v\<lparr>sys_count := c, out_data := (out_data v)(resp_fd := bs)\<rparr>)"
  shows "\<exists>r s'. handle_thread_request E fd resp_fd thr type s = Ret ((r, request_val req), s') \<and> Q r s'"
proof (rule thread_request_start [OF ok tev request_val_less items, of resp_fd thr type])
  fix c d
  assume start: "handle_thread_request E fd resp_fd thr type s =
      run_bind ((thr_request_handlers ! request_val req) E fd resp_fd thr (s\<lparr>sys_count := c, in_data := (in_data s)(fd := d)\<rparr>))
        (\<lambda>(result, s). finish_request E resp_fd (request_val req) result s)"
    and "stream_items E d evs rest"
  from handler [OF this(2), of c] obtain r v where run: "(thr_request_handlers ! request_val req) E fd resp_fd thr
        (s\<lparr>sys_count := c, in_data := (in_data s)(fd := d)\<rparr>) = Ret (r, v)" and v: "sys_always_ok v" "P r v" by blast
  from finish_request_rule [where P = P and Q = Q, OF v(1) env v(2) Q, of "request_val req"] show ?thesis
    using start run by auto
qed

section \<open>Breakpoint requests\<close>

lemma bp_table_upd [simp]:
  "bp_table (s\<lparr>sys_count := c\<rparr>) = bp_table s" "bp_table (t\<lparr>in_data := d\<rparr>) = bp_table t" "bp_table (t\<lparr>out_data := d\<rparr>) = bp_table t"
  "bp_table (udi_set_errmsg E fmt args s) = bp_table s"
  by (simp_all add: bp_table_def udi_set_errmsg_def)

lemma bp_lookup_upd [simp]:
  "bp_lookup (s\<lparr>sys_count := c\<rparr>) = bp_lookup s" "bp_lookup (t\<lparr>in_data := d\<rparr>) = bp_lookup t"
  "bp_lookup (t\<lparr>out_data := d\<rparr>) = bp_lookup t" "bp_lookup (udi_set_errmsg E fmt args s) = bp_lookup s"
  by (simp_all add: fun_eq_iff bp_lookup_def udi_set_errmsg_def)

lemma read_breakpoint_ok:
  assumes "sys_always_ok s" and "int_event ev = Some a" and "bp_table s"
    and "stream_items E (in_data s fd) [Ev_map_start 1, Ev_string (bytes_of ''addr''), ev] rest"
  shows "\<exists>c. read_breakpoint E fd s = Ret ((RESULT_SUCCESS, case bp_lookup s a of None \<Rightarrow> NULL | Some p \<Rightarrow> p),
    s\<lparr>sys_count := c, in_data := (in_data s)(fd := rest)\<rparr>)"
proof -
  obtain c where "read_breakpoint_addr E fd s = Ret ((RESULT_SUCCESS, a), s\<lparr>sys_count := c, in_data := (in_data s)(fd := rest)\<rparr>)"
    using read_breakpoint_addr_ok [OF assms(1,2,4)] by blast
  then show ?thesis
    using find_breakpoint_lookup [of "s\<lparr>sys_count := c, in_data := (in_data s)(fd := rest)\<rparr>" a] assms(3)
    by (auto simp: read_breakpoint_def)
qed

lemma no_data_ok:
  assumes "sys_always_ok s" and "serializer_ok E"
  shows "\<exists>c. write_response_no_data E fd rt code s = Ret (RESULT_SUCCESS,
    s\<lparr>sys_count := c, out_data := (out_data s)(fd := out_data s fd @ response_bytes E rt code None)\<rparr>)"
  using write_response_ok [OF assms] by (simp add: write_response_no_data_def)

lemma sys_always_ok_bp [simp]:
  "sys_always_ok (s\<lparr>bp_heap := h\<rparr>) = sys_always_ok s" "sys_always_ok (s\<lparr>breakpoints := b\<rparr>) = sys_always_ok s"
  "sys_always_ok (udi_set_errmsg E fmt args s) = sys_always_ok s"
  by (simp_all add: sys_always_ok_def)

text \<open>Allocation always gives a new object.\<close>

definition fresh_alloc :: "(ptr \<rightharpoonup> 'a) \<Rightarrow> 'z sys_state_scheme \<Rightarrow> bool" where
  "fresh_alloc h s \<longleftrightarrow> (\<forall>k. \<exists>p. sys_oracle s k = SysOk p \<and> p \<noteq> NULL \<and> h p = None)"

lemma create_breakpoint_fresh:
  assumes "fresh_alloc (bp_heap s) s" and "create_breakpoint a s = Ret (p, s')" and t: "bp_table s" and none: "bp_lookup s a = None"
  shows "p \<noteq> NULL"
proof -
  obtain q where q: "sys_oracle s (sys_count s) = SysOk q" "q \<noteq> NULL" "bp_heap s q = None"
    using assms(1) by (auto simp: fresh_alloc_def)
  have "breakpoint_hash a < BREAKPOINT_HASH_SIZE" by (rule breakpoint_hash_less)
  then obtain qs where qs: "bp_bucket (bp_heap s) (breakpoint_hash a) (breakpoints s (breakpoint_hash a)) qs"
    using t unfolding bp_table_def by blast
  have "fst (alloc_ptr (bp_heap s) s) = q" using q by (simp add: alloc_ptr_def sys_call_def)
  from create_breakpoint_new [OF t none this q(2) qs] have "p = q" using assms(2) by auto
  then show ?thesis using q(2) by simp
qed

lemma fresh_alloc_upd [simp]:
  "fresh_alloc h (s\<lparr>sys_count := c\<rparr>) = fresh_alloc h s" "fresh_alloc h (t\<lparr>in_data := d\<rparr>) = fresh_alloc h t"
  by (simp_all add: fresh_alloc_def)

text \<open>The handler of the request to create a breakpoint, from its arguments on.\<close>

lemma breakpoint_create_handler_ok:
  assumes ok: "sys_always_ok s" "serializer_ok E" and t: "bp_table s" and ev: "int_event ev = Some a"
    and items: "stream_items E (in_data s fd) [Ev_map_start 1, Ev_string (bytes_of ''addr''), ev] rest"
  shows "\<exists>r s'. breakpoint_create_handler E fd resp_fd s = Ret (r, s') \<and> sys_always_ok s' \<and>
    in_data s' = (in_data s)(fd := rest) \<and> mem s' = mem s \<and> bp_table s' \<and>
    (r = RESULT_SUCCESS \<longrightarrow> bp_lookup s a = None \<and> (\<exists>p. p \<noteq> NULL \<and> bp_lookup s' = (bp_lookup s)(a \<mapsto> p))) \<and>
    (r \<noteq> RESULT_SUCCESS \<longrightarrow> r = RESULT_FAILURE \<and> bp_lookup s' = bp_lookup s) \<and>
    (bp_lookup s a = None \<longrightarrow> fresh_alloc (bp_heap s) s \<longrightarrow> r = RESULT_SUCCESS)"
proof -
  obtain c where read: "read_breakpoint_addr E fd s = Ret ((RESULT_SUCCESS, a), s\<lparr>sys_count := c, in_data := (in_data s)(fd := rest)\<rparr>)"
    using read_breakpoint_addr_ok [OF ok(1) ev items] by blast
  let ?u = "s\<lparr>sys_count := c, in_data := (in_data s)(fd := rest)\<rparr>"
  have u: "bp_table ?u" "bp_lookup ?u = bp_lookup s" "sys_always_ok ?u" using t ok by simp_all
  show ?thesis
  proof (cases "bp_lookup s a")
    case (Some p)
    then have "find_breakpoint a ?u = Ret p" "p \<noteq> NULL"
      using find_breakpoint_lookup [OF u(1), of a] bp_lookup_live [OF t Some] by auto
    then have "breakpoint_create_handler E fd resp_fd s =
        Ret (RESULT_FAILURE, udi_set_errmsg E ''breakpoint already exists at %a'' [ArgU64 a] ?u)"
      by (simp add: breakpoint_create_handler_def read)
    then show ?thesis using Some u t by (auto simp: result_defs)
  next
    case None
    then have find: "find_breakpoint a ?u = Ret NULL" using find_breakpoint_lookup [OF u(1), of a] by simp
    obtain p v where create: "create_breakpoint a ?u = Ret (p, v)" and v: "bp_table v"
      "bp_lookup v = (if p = NULL then bp_lookup s else (bp_lookup s)(a \<mapsto> p))"
      and frame: "\<exists>h bs. v = ?u\<lparr>sys_count := Suc (sys_count ?u), bp_heap := h, breakpoints := bs\<rparr>"
      by (rule create_breakpoint_table [OF u(1), of a]) (simp add: u(2))
    obtain h bs where vv: "v = ?u\<lparr>sys_count := Suc (sys_count ?u), bp_heap := h, breakpoints := bs\<rparr>" using frame by blast
    have keep: "sys_always_ok v" "in_data v = (in_data s)(fd := rest)" "mem v = mem s" using ok(1) by (simp_all add: vv)
    show ?thesis
    proof (cases "p = NULL")
      case True
      then have "breakpoint_create_handler E fd resp_fd s =
          Ret (RESULT_FAILURE, udi_set_errmsg E ''failed to create breakpoint at %a'' [ArgU64 a] v)"
        by (simp add: breakpoint_create_handler_def read find create)
      moreover have "\<not> fresh_alloc (bp_heap s) s"
        using create_breakpoint_fresh [OF _ create u(1)] None True by auto
      ultimately show ?thesis using True v keep by (auto simp: result_defs)
    next
      case False
      obtain c' where "write_response_no_data E resp_fd UDI_RESP_VALID (request_val UDI_REQ_CREATE_BREAKPOINT) v =
          Ret (RESULT_SUCCESS, v\<lparr>sys_count := c', out_data := (out_data v)(resp_fd := out_data v resp_fd @
            response_bytes E UDI_RESP_VALID (request_val UDI_REQ_CREATE_BREAKPOINT) None)\<rparr>)"
        using no_data_ok [OF keep(1) ok(2)] by blast
      then have "breakpoint_create_handler E fd resp_fd s = Ret (RESULT_SUCCESS, v\<lparr>sys_count := c',
          out_data := (out_data v)(resp_fd := out_data v resp_fd @
            response_bytes E UDI_RESP_VALID (request_val UDI_REQ_CREATE_BREAKPOINT) None)\<rparr>)"
        using False by (simp add: breakpoint_create_handler_def read find create)
      then show ?thesis using False None v keep by auto
    qed
  qed
qed

lemma byte_reachable_upd [simp]:
  "byte_reachable E a (s\<lparr>sys_count := c\<rparr>) = byte_reachable E a s" "byte_reachable E a (t\<lparr>in_data := d\<rparr>) = byte_reachable E a t"
  by (simp_all add: byte_reachable_def sys_always_ok_def)

lemma plain_mem_upd [simp]:
  "plain_mem (s\<lparr>sys_count := c\<rparr>) = plain_mem s" "plain_mem (t\<lparr>in_data := d\<rparr>) = plain_mem t" "plain_mem (t\<lparr>out_data := d\<rparr>) = plain_mem t"
  by (simp_all add: fun_eq_iff plain_mem_def split: option.split)

text \<open>A handler on the null pointer that the search returns for an address without a breakpoint.\<close>

lemma null_breakpoint:
  "install_breakpoint E NULL s = Stuck" "remove_breakpoint E NULL s = Stuck" "delete_breakpoint E NULL s = Stuck"
  by (simp_all add: install_breakpoint_def remove_breakpoint_def delete_breakpoint_def deref_def)

lemma breakpoint_install_handler_ok:
  assumes ok: "sys_always_ok s" "serializer_ok E" and t: "bp_table s" and ev: "int_event ev = Some a"
    and items: "stream_items E (in_data s fd) [Ev_map_start 1, Ev_string (bytes_of ''addr''), ev] rest"
    and p: "bp_lookup s a = Some p" "bp_heap s p = Some b" "\<not> in_memory b" and reach: "byte_reachable E a s"
  shows "\<exists>s'. breakpoint_install_handler E fd resp_fd s = Ret (RESULT_SUCCESS, s') \<and> sys_always_ok s' \<and>
    in_data s' = (in_data s)(fd := rest) \<and> mem s' = (mem s)(a := BREAKPOINT_INSN) \<and> plain_mem s' = plain_mem s \<and>
    bp_table s' \<and> bp_lookup s' = bp_lookup s"
proof -
  obtain c where read: "read_breakpoint E fd s = Ret ((RESULT_SUCCESS, p), s\<lparr>sys_count := c, in_data := (in_data s)(fd := rest)\<rparr>)"
    using read_breakpoint_ok [OF ok(1) ev t items] p(1) by auto
  let ?u = "s\<lparr>sys_count := c, in_data := (in_data s)(fd := rest)\<rparr>"
  have u: "bp_table ?u" "bp_lookup ?u a = Some p" "byte_reachable E a ?u" using t p reach by simp_all
  obtain v where install: "install_breakpoint E p ?u = Ret (0, v)" and v: "byte_reachable E a v"
    using install_breakpoint_ok [OF u] by blast
  note i = install_plain [OF u(1,2) install]
  have "sys_always_ok v" using v by (simp add: byte_reachable_def)
  moreover have "mem v = (mem s)(a := BREAKPOINT_INSN)" "plain_mem v = plain_mem s"
    using i(2) i(4) [OF refl, of b] p by simp_all
  moreover have "bp_table v" "bp_lookup v = bp_lookup s" using bp_frame_table [OF i(1) u(1)] by simp_all
  moreover have "in_data v = (in_data s)(fd := rest)" using i(1) io_more(1) [of v ?u] by (simp add: bp_frame_def)
  moreover obtain c' where "write_response_no_data E resp_fd UDI_RESP_VALID (request_val UDI_REQ_INSTALL_BREAKPOINT) v =
      Ret (RESULT_SUCCESS, v\<lparr>sys_count := c', out_data := (out_data v)(resp_fd := out_data v resp_fd @
        response_bytes E UDI_RESP_VALID (request_val UDI_REQ_INSTALL_BREAKPOINT) None)\<rparr>)"
    using no_data_ok [OF calculation(1) ok(2)] by blast
  ultimately show ?thesis by (simp add: breakpoint_install_handler_def read install)
qed

lemma sample_req_bp:
  "bp_table (sample_req_state bs)" "bp_lookup (sample_req_state bs) = bp_lookup sample_bp_state"
  "bp_heap (sample_req_state bs) = bp_heap sample_bp_state" "bp_lookup (sample_req_state bs) 0x400010 = Some 1"
  "bp_lookup (sample_req_state bs) 0x400020 = None" "fresh_alloc (bp_heap (sample_req_state bs)) (sample_req_state bs)"
proof -
  have eq: "bp_heap (sample_req_state bs) = bp_heap sample_bp_state" "breakpoints (sample_req_state bs) = breakpoints sample_bp_state"
    by (simp_all add: sample_req_state_def thr_state.defs sample_thr_state_def io_state.defs sample_io_state_def bp_state.defs
        sample_bp_state_def mem_state.defs)
  then show "bp_lookup (sample_req_state bs) = bp_lookup sample_bp_state" "bp_heap (sample_req_state bs) = bp_heap sample_bp_state"
    by (simp_all add: bp_lookup_def [abs_def])
  then show "bp_lookup (sample_req_state bs) 0x400010 = Some 1" using sample_bp_state_simps by simp
  show "bp_table (sample_req_state bs)" using sample_bp_table eq by (simp add: bp_table_def)
  show "bp_lookup (sample_req_state bs) 0x400020 = None"
    using eq by (simp add: bp_lookup_def sample_bp_state_def mem_state.defs breakpoint_hash_def BREAKPOINT_HASH_SIZE_def find_loop.simps)
  show "fresh_alloc (bp_heap (sample_req_state bs)) (sample_req_state bs)"
    by (simp add: eq fresh_alloc_def) (simp add: sample_req_state_def thr_state.defs sample_thr_state_def io_state.defs
        sample_io_state_def bp_state.defs sample_bp_state_def mem_state.defs)
qed

lemma sample_req_reachable: "byte_reachable wire_env 0x400010 (sample_req_state bs)"
  by (simp add: byte_reachable_def wire_env_ok sample_req_state_simps page_align_def sample_req_state_def thr_state.defs
      sample_thr_state_def io_state.defs sample_io_state_def bp_state.defs sample_bp_state_def mem_state.defs
      sample_mem_state_def sys_always_ok_def)

section \<open>Memory requests\<close>

lemma read_mem_fields:
  "field_ok (read_init_config E) (''addr'', Ev_uint64 a, \<lambda>d. d\<lparr>rm_addr := a\<rparr>)"
  "field_ok (read_init_config E) (''len'', Ev_uint32 n, \<lambda>d. d\<lparr>rm_len := n\<rparr>)"
  unfolding field_ok_def
  by (auto intro!: exI [of _ 0] exI [of _ 1] accepts_store
      simp: read_init_config_def read_addr_callback_def read_len_callback_def key_simps)

lemma write_mem_fields:
  "field_ok (write_config_init E) (''addr'', Ev_uint64 a, \<lambda>d. d\<lparr>wm_addr := a\<rparr>)"
  "field_ok (write_config_init E) (''data'', Ev_byte_string bs, \<lambda>d. d\<lparr>wm_data := Some bs, wm_len := of_nat (length bs)\<rparr>)"
proof -
  show "field_ok (write_config_init E) (''addr'', Ev_uint64 a, \<lambda>d. d\<lparr>wm_addr := a\<rparr>)"
    unfolding field_ok_def
    by (auto intro!: exI [of _ 0] accepts_store simp: write_config_init_def write_addr_callback_def key_simps)
  have "accepts (write_config_init E) 1 (Ev_byte_string bs) (\<lambda>d. d\<lparr>wm_data := Some bs, wm_len := of_nat (length bs)\<rparr>)"
    by (auto simp: accepts_def write_config_init_def write_data_callback_def sys_call_def sys_always_ok_def)
  then show "field_ok (write_config_init E) (''data'', Ev_byte_string bs, \<lambda>d. d\<lparr>wm_data := Some bs, wm_len := of_nat (length bs)\<rparr>)"
    unfolding field_ok_def by (auto intro!: exI [of _ 1] simp: write_config_init_def key_simps)
qed

lemma always_sys_ok: "sys_always_ok s \<Longrightarrow> sys_ok s k" "sys_always_ok s \<Longrightarrow> hooks_ok s"
  by (simp_all add: sys_ok_def hooks_ok_def sys_always_ok_def)

lemma accessible_upd [simp]:
  "accessible E dir a n (s\<lparr>sys_count := c\<rparr>) = accessible E dir a n s"
  "accessible E dir a n (t\<lparr>in_data := d\<rparr>) = accessible E dir a n t" "accessible E dir a n (t\<lparr>out_data := d\<rparr>) = accessible E dir a n t"
  by (simp_all add: accessible_def access_fault_def)

lemma openable_upd [simp]:
  "openable E a n (s\<lparr>sys_count := c\<rparr>) = openable E a n s" "openable E a n (t\<lparr>in_data := d\<rparr>) = openable E a n t"
  by (simp_all add: openable_def)

lemma write_memory_done:
  assumes "sys_always_ok s" and "openable E a (length bs) s" and "\<not> aborting_mem_access s" and "length bs \<le> 2 ^ 64"
    and read: "accessible E FromDebuggee a (length bs) s"
  shows "\<exists>s'. write_memory E a bs s = Ret (0, s') \<and> mem s' = write_bytes (mem s) a bs \<and> sys_always_ok s' \<and>
    \<not> aborting_mem_access s' \<and> accessible E FromDebuggee a (length bs) s'"
proof (cases "accessible E (ToDebuggee bs) a (length bs) s")
  case True
  then show ?thesis
    using write_memory_ok [OF always_sys_ok(2) [OF assms(1)] True assms(3,4)] assms
    by (simp add: sys_always_ok_def accessible_def access_fault_def)
next
  case False
  from write_memory_opens [OF always_sys_ok(1) [OF assms(1)] always_sys_ok(1) [OF assms(1)] always_sys_ok(1) [OF assms(1)]
      always_sys_ok(1) [OF assms(1)] always_sys_ok(1) [OF assms(1)] assms(2) False assms(3,4)]
  obtain s' where s': "write_memory E a bs s = Ret (0, s')" "mem s' = write_bytes (mem s) a bs" "\<not> aborting_mem_access s'"
    "sys_oracle s' = sys_oracle s"
    and pages: "\<And>p pg. pages s p = Some pg \<Longrightarrow> \<exists>pg'. pages s' p = Some pg' \<and> (can_read pg \<longrightarrow> can_read pg') \<and> backed pg' = backed pg"
    by blast
  have "access_fault E FromDebuggee x s' = None" if "access_fault E FromDebuggee x s = None" for x
    using that pages [of "page_align E x"] by (auto simp: access_fault_def split: option.splits if_splits)
  then have "accessible E FromDebuggee a (length bs) s'" using read by (simp add: accessible_def)
  then show ?thesis using s' assms(1) by (auto simp: sys_always_ok_def)
qed

lemma write_handler_ok:
  assumes ok: "sys_always_ok s" "serializer_ok E" and mem: "openable E a (length bs) s" "\<not> aborting_mem_access s"
      "accessible E FromDebuggee a (length bs) s" and len: "length bs < 2 ^ 32"
    and items: "stream_items E (in_data s fd)
      [Ev_map_start 2, Ev_string (bytes_of ''addr''), Ev_uint64 a, Ev_string (bytes_of ''data''), Ev_byte_string bs] rest"
  shows "\<exists>s'. write_handler E fd resp_fd s = Ret (RESULT_SUCCESS, s') \<and> sys_always_ok s' \<and>
    in_data s' = (in_data s)(fd := rest) \<and> mem s' = write_bytes (mem s) a bs \<and> \<not> aborting_mem_access s' \<and>
    accessible E FromDebuggee a (length bs) s' \<and>
    out_data s' = (out_data s)(resp_fd := out_data s resp_fd @ response_bytes E UDI_RESP_VALID (request_val UDI_REQ_WRITE_MEM) None)"
proof -
  obtain c where read: "read_request_data E fd (write_config_init E) \<lparr>wm_addr = 0, wm_data = None, wm_len = 0\<rparr> s =
      Ret ((RESULT_SUCCESS, \<lparr>wm_addr = a, wm_data = Some bs, wm_len = of_nat (length bs)\<rparr>),
        s\<lparr>sys_count := c, in_data := (in_data s)(fd := rest)\<rparr>)"
    using read_two_fields [OF ok(1) write_mem_fields config_sizes(3) items, where d = "\<lparr>wm_addr = 0, wm_data = None, wm_len = 0\<rparr>"]
    by auto
  let ?u = "s\<lparr>sys_count := c, in_data := (in_data s)(fd := rest)\<rparr>"
  have whole: "take (unat (of_nat (length bs) :: u32)) bs = bs" using len by (simp add: unat_of_nat take_bit_nat_eq_self)
  have "sys_always_ok ?u" "openable E a (length bs) ?u" "\<not> aborting_mem_access ?u" "length bs \<le> 2 ^ 64"
    "accessible E FromDebuggee a (length bs) ?u" using ok mem len by simp_all
  from write_memory_done [OF this] obtain v where w: "write_memory E a bs ?u = Ret (0, v)"
    and v: "mem v = write_bytes (mem s) a bs" "sys_always_ok v" "\<not> aborting_mem_access v" "accessible E FromDebuggee a (length bs) v"
    by auto
  have more: "bp_state.more v = bp_state.more ?u" using len by (intro bp_more(3) memory.write_client [OF w]) simp
  have io: "in_data v = (in_data s)(fd := rest)" "out_data v = out_data s"
    using io_more(1,2) [OF more] by simp_all
  obtain c' where "write_response_no_data E resp_fd UDI_RESP_VALID (request_val UDI_REQ_WRITE_MEM) v =
      Ret (RESULT_SUCCESS, v\<lparr>sys_count := c', out_data := (out_data v)(resp_fd := out_data v resp_fd @
        response_bytes E UDI_RESP_VALID (request_val UDI_REQ_WRITE_MEM) None)\<rparr>)"
    using no_data_ok [OF v(2) ok(2)] by blast
  then show ?thesis using v io by (simp add: write_handler_def read whole w)
qed

lemma read_handler_ok:
  assumes ok: "sys_always_ok s" "serializer_ok E" "builders_ok E" and mem: "accessible E FromDebuggee a (unat n) s" "\<not> aborting_mem_access s"
    and items: "stream_items E (in_data s fd)
      [Ev_map_start 2, Ev_string (bytes_of ''addr''), Ev_uint64 a, Ev_string (bytes_of ''len''), Ev_uint32 n] rest"
  shows "\<exists>s'. read_handler E fd resp_fd s = Ret (RESULT_SUCCESS, s') \<and> sys_always_ok s' \<and>
    in_data s' = (in_data s)(fd := rest) \<and> mem s' = mem s \<and>
    out_data s' = (out_data s)(resp_fd := out_data s resp_fd @ response_bytes E UDI_RESP_VALID (request_val UDI_REQ_READ_MEM)
      (Some (cbor_map_of 2 [(''data'', CBytes (read_bytes (mem s) a (unat n)))])))"
proof -
  obtain c where read: "read_request_data E fd (read_init_config E) \<lparr>rm_addr = 0, rm_len = 0\<rparr> s =
      Ret ((RESULT_SUCCESS, \<lparr>rm_addr = a, rm_len = n\<rparr>), s\<lparr>sys_count := c, in_data := (in_data s)(fd := rest)\<rparr>)"
    using read_two_fields [OF ok(1) read_mem_fields config_sizes(2) items, where d = "\<lparr>rm_addr = 0, rm_len = 0\<rparr>"] by auto
  let ?u = "s\<lparr>sys_count := Suc c, in_data := (in_data s)(fd := rest)\<rparr>"
  have "hooks_ok ?u" "accessible E FromDebuggee a (unat n) ?u" "\<not> aborting_mem_access ?u" using ok mem always_sys_ok(2) [of ?u] by simp_all
  note fetch = read_memory_ok [OF this]
  let ?v = "?u\<lparr>sys_count := sys_count ?u + 4, mem_access_addr := a, mem_access_size := unat n, performing_mem_access := False\<rparr>"
  let ?m = "cbor_map_of 2 [(''data'', CBytes (read_bytes (mem s) a (unat n)))]"
  have v: "sys_always_ok ?v" using ok(1) by (simp add: sys_always_ok_def)
  have map: "cbor_build_map E 2 [(''data'', CBytes (read_bytes (mem s) a (unat n)))] = Ret ?m" using ok(3) by (simp add: cbor_build_map_ok)
  have alloc: "sys_call (s\<lparr>sys_count := c, in_data := (in_data s)(fd := rest)\<rparr>) = (sys_oracle s c, ?u)" "\<not> sys_failed (sys_oracle s c)"
    using ok(1) by (simp_all add: sys_call_def sys_always_ok_def)
  obtain c' where "write_response E resp_fd UDI_RESP_VALID (request_val UDI_REQ_READ_MEM) (Some ?m) ?v = Ret (RESULT_SUCCESS,
      ?v\<lparr>sys_count := c', out_data := (out_data ?v)(resp_fd := out_data ?v resp_fd @
        response_bytes E UDI_RESP_VALID (request_val UDI_REQ_READ_MEM) (Some ?m))\<rparr>)"
    using write_response_ok [OF v ok(2)] by blast
  then have "read_handler E fd resp_fd s = Ret (RESULT_SUCCESS,
      ?v\<lparr>sys_count := c', out_data := (out_data ?v)(resp_fd := out_data ?v resp_fd @
        response_bytes E UDI_RESP_VALID (request_val UDI_REQ_READ_MEM) (Some ?m))\<rparr>)"
    using alloc(2) fetch map by (simp add: read_handler_def read alloc(1))
  then show ?thesis using ok(1) by (simp add: sys_always_ok_def)
qed

section \<open>Thread states\<close>

text \<open>The entry of a thread in the response.\<close>

definition thread_entry :: "thread \<Rightarrow> cbor_item" where
  "thread_entry t = cbor_map_of 2 [(''tid'', CUint64 (thr_id t)), (''state'', CUint16 (of_nat (thread_state_val (ts t))))]"

definition thread_obj :: "'z thr_state_scheme \<Rightarrow> ptr \<Rightarrow> thread" where
  "thread_obj s p = the (thr_heap s p)"

lemma thread_state_item_ok: "builders_ok E \<Longrightarrow> thread_state_item E t = Ret (thread_entry t)"
  by (simp add: thread_state_item_def thread_entry_def cbor_build_map_ok)

lemma state_loop_chain:
  "obj_chain next_thread h p qs \<Longrightarrow> builders_ok E \<Longrightarrow> length acc + length qs \<le> n \<Longrightarrow>
     state_loop E h n p acc = Some (Ret (acc @ map (\<lambda>q. thread_entry (the (h q))) qs))"
proof (induction qs arbitrary: p acc)
  case (Cons q qs)
  then obtain t where t: "p = q" "q \<noteq> NULL" "h q = Some t" "obj_chain next_thread h (next_thread t) qs" by auto
  moreover have "env_cbor_add E (CArray n acc)" using Cons.prems(2,3) by (simp add: builders_ok_def)
  ultimately show ?case
    using Cons.IH [OF t(4) Cons.prems(2), of "acc @ [thread_entry t]"] Cons.prems(2,3)
    by (subst state_loop.simps) (simp add: thread_state_item_ok)
qed (simp add: state_loop.simps)

lemma can_continue_chain:
  "obj_chain next_thread h p qs \<Longrightarrow> can_continue_loop h p = Some (\<exists>q \<in> set qs. ts (the (h q)) = UDI_TS_RUNNING)"
proof (induction qs arbitrary: p)
  case (Cons q qs)
  then obtain t where "p = q" "q \<noteq> NULL" "h q = Some t" "obj_chain next_thread h (next_thread t) qs" by auto
  then show ?case using Cons.IH [of "next_thread t"] by (subst can_continue_loop.simps) auto
qed (simp add: can_continue_loop.simps)

lemma reap_chain_alive:
  "obj_chain next_thread (thr_heap s) p qs \<Longrightarrow> \<forall>q \<in> set qs. \<not> dead (the (thr_heap s q)) \<Longrightarrow> reap_loop E p s = Some (Ret (0, s))"
proof (induction qs arbitrary: p)
  case (Cons q qs)
  then obtain t where "p = q" "q \<noteq> NULL" "thr_heap s q = Some t" "obj_chain next_thread (thr_heap s) (next_thread t) qs" by auto
  then show ?case using Cons.IH [of "next_thread t"] Cons.prems(2) by (subst reap_loop.simps) auto
qed (simp add: reap_loop.simps)

lemma state_handler_ok:
  assumes ok: "sys_always_ok s" "serializer_ok E" "builders_ok E" and l: "thread_list s ps" "length ps < 2 ^ 64"
  shows "\<exists>c. state_handler E fd resp_fd s = Ret (RESULT_SUCCESS, s\<lparr>sys_count := c, out_data := (out_data s)(resp_fd :=
    out_data s resp_fd @ response_bytes E UDI_RESP_VALID (request_val UDI_REQ_STATE)
      (Some (cbor_map_of 1 [(''states'', CArray (length ps) (map (\<lambda>p. thread_entry (thread_obj s p)) ps))])))\<rparr>)"
proof -
  have chain: "obj_chain next_thread (thr_heap s) (threads s) ps" and n: "get_num_threads s = int (length ps)"
    using l by (simp_all add: thread_list_def get_num_threads_def)
  have "unat (word_of_int (int (length ps)) :: u64) = length ps"
    using l(2) by (simp add: unat_of_nat take_bit_nat_eq_self)
  moreover have "state_loop E (thr_heap s) (length ps) (threads s) [] =
      Some (Ret (map (\<lambda>p. thread_entry (thread_obj s p)) ps))"
    using state_loop_chain [OF chain ok(3), of "[]" "length ps"] by (simp add: thread_obj_def)
  ultimately have "state_handler E fd resp_fd s = write_response E resp_fd UDI_RESP_VALID (request_val UDI_REQ_STATE)
      (Some (cbor_map_of 1 [(''states'', CArray (length ps) (map (\<lambda>p. thread_entry (thread_obj s p)) ps))])) s"
    using ok(3) by (simp add: state_handler_def n get_thread_list_def cbor_build_map_ok)
  then show ?thesis using write_response_ok [OF ok(1,2)] by simp
qed

section \<open>Continue requests\<close>

lemma udi_set_errmsg_req [simp]:
  "thr_heap (udi_set_errmsg E fmt args t) = thr_heap t" "threads (udi_set_errmsg E fmt args t) = threads t"
  "num_threads (udi_set_errmsg E fmt args t) = num_threads t"
  "kills (udi_set_errmsg E fmt args s) = kills s" "pass_signal (udi_set_errmsg E fmt args s) = pass_signal s"
  by (simp_all add: udi_set_errmsg_def)

fun sig_event :: "cbor_event \<Rightarrow> u32 option" where
  "sig_event (Ev_uint8 v) = Some (ucast v)"
| "sig_event (Ev_uint16 v) = Some (ucast v)"
| "sig_event (Ev_uint32 v) = Some v"
| "sig_event _ = None"

lemma continue_field:
  "sig_event ev = Some v \<Longrightarrow> field_ok (continue_init_config E) (''sig'', ev, \<lambda>d. d\<lparr>sig := v\<rparr>)"
  unfolding field_ok_def
  by (cases ev)
    (auto intro!: exI [of _ 0] accepts_store simp: continue_init_config_def bytes_of_key
      continue_sig_callback_def continue_sig_uint16_callback_def continue_sig_uint8_callback_def)

text \<open>What a continue request without breakpoints and dead threads leaves alone: everything but the streams, the message and the signals.\<close>

definition req_rest :: "'z req_state_scheme \<Rightarrow> 'z req_state_scheme" where
  "req_rest s = (io_rest s)\<lparr>kills := [], pass_signal := 0\<rparr>"

lemma req_rest_upd [simp]:
  "req_rest (s\<lparr>sys_count := c\<rparr>) = req_rest s" "req_rest (s\<lparr>errmsg := m\<rparr>) = req_rest s"
  "req_rest (s\<lparr>in_data := d\<rparr>) = req_rest s" "req_rest (s\<lparr>out_data := d\<rparr>) = req_rest s"
  "req_rest (s\<lparr>kills := k\<rparr>) = req_rest s" "req_rest (s\<lparr>pass_signal := v\<rparr>) = req_rest s"
  "req_rest (udi_set_errmsg E fmt args s) = req_rest s"
  by (simp_all add: req_rest_def io_rest_def udi_set_errmsg_def)

lemma req_restD:
  assumes "req_rest s' = req_rest s"
  shows "thr_heap s' = thr_heap s" "threads s' = threads s" "num_threads s' = num_threads s" "self s' = self s"
    "has_pthread_self s' = has_pthread_self s" "has_pthread_sigmask s' = has_pthread_sigmask s" "continue_bp s' = continue_bp s"
    "performing_mem_access s' = performing_mem_access s" "exiting s' = exiting s" "sys_oracle s' = sys_oracle s" "mem s' = mem s"
    "req_state.more s' = req_state.more s"
  using assms by (cases s; cases s'; simp add: req_rest_def io_rest_def)+

lemma continue_handler_ok:
  assumes ok: "sys_always_ok s" "serializer_ok E" and l: "thread_list s ps" and bp: "continue_bp s = NULL"
    and alive: "\<forall>p \<in> set ps. \<not> dead (thread_obj s p)" and ev: "sig_event ev = Some v"
    and items: "stream_items E (in_data s fd) [Ev_map_start 1, Ev_string (bytes_of ''sig''), ev] rest"
  shows "\<exists>r s'. continue_handler E fd resp_fd s = Ret (r, s') \<and> sys_always_ok s' \<and>
    r = (if \<exists>p \<in> set ps. ts (thread_obj s p) = UDI_TS_RUNNING then RESULT_SUCCESS else RESULT_FAILURE) \<and>
    in_data s' = (in_data s)(fd := rest) \<and> mem s' = mem s \<and> thr_heap s' = thr_heap s \<and>
    kills s' = (if r = RESULT_SUCCESS \<and> \<not> exiting s then kills s @ [v] else kills s) \<and>
    pass_signal s' = (if r = RESULT_SUCCESS \<and> \<not> exiting s then v else pass_signal s) \<and> req_rest s' = req_rest s \<and>
    (\<forall>f. f \<noteq> resp_fd \<longrightarrow> out_data s' f = out_data s f)"
proof -
  obtain c where read: "read_request_data E fd (continue_init_config E) \<lparr>sig = 0\<rparr> s =
      Ret ((RESULT_SUCCESS, \<lparr>sig = v\<rparr>), s\<lparr>sys_count := c, in_data := (in_data s)(fd := rest)\<rparr>)"
    using read_one_field [OF ok(1) continue_field [OF ev] config_sizes(1) items, where d = "\<lparr>sig = 0\<rparr>"] by auto
  let ?u = "s\<lparr>sys_count := c, in_data := (in_data s)(fd := rest)\<rparr>"
  have chain: "obj_chain next_thread (thr_heap ?u) (threads s) ps" using l by (simp add: thread_list_def)
  let ?run = "\<exists>p \<in> set ps. ts (thread_obj s p) = UDI_TS_RUNNING"
  have can: "can_continue_loop (thr_heap s) (get_thread_list ?u) = Some ?run"
    using can_continue_chain [OF chain] by (simp add: get_thread_list_def thread_obj_def)
  have reap: "reap_loop E (get_thread_list ?u) ?u = Some (Ret (0, ?u))"
    using reap_chain_alive [OF chain] alive by (simp add: get_thread_list_def thread_obj_def)
  have u: "sys_always_ok ?u" using ok(1) by simp
  show ?thesis
  proof (cases ?run)
    case False
    then have "continue_handler E fd resp_fd s =
        Ret (RESULT_FAILURE, udi_set_errmsg E ''cannot continue process, all threads are suspended'' [] ?u)"
      by (simp add: continue_handler_def read can)
    then show ?thesis using u False by (simp add: response_ne)
  next
    case True
    obtain c' where "write_response_no_data E resp_fd UDI_RESP_VALID (request_val UDI_REQ_CONTINUE) ?u = Ret (RESULT_SUCCESS,
        ?u\<lparr>sys_count := c', out_data := (out_data ?u)(resp_fd := out_data ?u resp_fd @
          response_bytes E UDI_RESP_VALID (request_val UDI_REQ_CONTINUE) None)\<rparr>)" (is "_ = Ret (_, ?w)")
      using no_data_ok [OF u ok(2)] by blast
    then have "continue_handler E fd resp_fd s = Ret (RESULT_SUCCESS, post_continue_hook v ?w)"
      using True bp by (simp add: continue_handler_def read can reap)
    then show ?thesis using True ok(1) by (simp add: post_continue_hook_def sys_call_def sys_always_ok_def)
  qed
qed

lemma get_thread_list_upd [simp]:
  "thread_list (s\<lparr>sys_count := c\<rparr>) ps = thread_list s ps" "thread_list (s\<lparr>in_data := d\<rparr>) ps = thread_list s ps"
  "thread_obj (s\<lparr>sys_count := c\<rparr>) = thread_obj s" "thread_obj (s\<lparr>in_data := d\<rparr>) = thread_obj s"
  by (simp_all add: thread_list_def thread_obj_def [abs_def])

section \<open>Register requests\<close>

fun reg_event :: "cbor_event \<Rightarrow> nat option" where
  "reg_event (Ev_uint8 v) = Some (unat v)"
| "reg_event (Ev_uint16 v) = Some (unat v)"
| "reg_event _ = None"

lemma unat_ucast_8_16: "unat (ucast (v :: u8) :: u16) = unat v"
  by (simp add: unsigned_ucast_eq take_bit_nat_eq_self unsigned_less [THEN less_trans])

lemma read_reg_field:
  "reg_event ev = Some r \<Longrightarrow> field_ok (read_reg_init_config E) (''reg'', ev, \<lambda>d. d\<lparr>rr_reg := r\<rparr>)"
  unfolding field_ok_def
  by (cases ev)
    (auto intro!: exI [of _ 0] accepts_store simp: read_reg_init_config_def bytes_of_key read_reg_callback_def
      read_reg_uint8_callback_def unat_ucast_8_16)

lemma write_reg_fields:
  "reg_event ev = Some r \<Longrightarrow> field_ok (write_reg_init_config E) (''reg'', ev, \<lambda>d. d\<lparr>wr_reg := r\<rparr>)"
  "int_event ev' = Some v \<Longrightarrow> field_ok (write_reg_init_config E) (''value'', ev', \<lambda>d. d\<lparr>wr_value := v\<rparr>)"
  unfolding field_ok_def
   by (cases ev; auto intro!: exI [of _ 0] accepts_store simp: write_reg_init_config_def bytes_of_key write_reg_callback_def
      write_reg_uint8_callback_def unat_ucast_8_16)
    (cases ev'; auto intro!: exI [of _ 1] accepts_store simp: write_reg_init_config_def key_simps write_reg_value_callback_def
      write_reg_value_uint32_callback_def write_reg_value_uint16_callback_def write_reg_value_uint8_callback_def)

text \<open>The structure of a thread after a write to a register of its context.\<close>

definition with_register :: "nat \<Rightarrow> u64 \<Rightarrow> thread \<Rightarrow> thread" where
  "with_register r v t = t\<lparr>event_state := (event_state t)\<lparr>st_context :=
     (st_context (event_state t))\<lparr>gregs := (gregs (st_context (event_state t)))(get_udi_reg_context_offset r := v)\<rparr>\<rparr>\<rparr>"

lemma write_register_handler_ok:
  assumes ok: "sys_always_ok s" "serializer_ok E" and t: "thr \<noteq> NULL" "thr_heap s thr = Some t" "context_valid (event_state t)"
    and r: "general_register r" and ev: "reg_event ev = Some r" "int_event ev' = Some v"
    and items: "stream_items E (in_data s fd) [Ev_map_start 2, Ev_string (bytes_of ''reg''), ev, Ev_string (bytes_of ''value''), ev'] rest"
  shows "\<exists>c. write_register_handler E fd resp_fd thr s = Ret (RESULT_SUCCESS, s\<lparr>sys_count := c, in_data := (in_data s)(fd := rest),
    thr_heap := (thr_heap s)(thr \<mapsto> with_register r v t), out_data := (out_data s)(resp_fd := out_data s resp_fd @
      response_bytes E UDI_RESP_VALID (request_val UDI_REQ_WRITE_REGISTER) None)\<rparr>)"
proof -
  obtain c where read: "read_request_data E fd (write_reg_init_config E) \<lparr>wr_reg = 0, wr_value = 0\<rparr> s =
      Ret ((RESULT_SUCCESS, \<lparr>wr_reg = r, wr_value = v\<rparr>), s\<lparr>sys_count := c, in_data := (in_data s)(fd := rest)\<rparr>)"
    using read_two_fields [OF ok(1) write_reg_fields(1) [OF ev(1)] write_reg_fields(2) [OF ev(2)] config_sizes(6) items,
        where d = "\<lparr>wr_reg = 0, wr_value = 0\<rparr>"] by auto
  let ?u = "s\<lparr>sys_count := c, in_data := (in_data s)(fd := rest)\<rparr>"
  let ?w = "?u\<lparr>thr_heap := (thr_heap s)(thr \<mapsto> with_register r v t)\<rparr>"
  have w: "sys_always_ok ?w" using ok(1) by simp
  obtain c' where "write_response_no_data E resp_fd UDI_RESP_VALID (request_val UDI_REQ_WRITE_REGISTER) ?w = Ret (RESULT_SUCCESS,
      ?w\<lparr>sys_count := c', out_data := (out_data ?w)(resp_fd := out_data ?w resp_fd @
        response_bytes E UDI_RESP_VALID (request_val UDI_REQ_WRITE_REGISTER) None)\<rparr>)"
    using no_data_ok [OF w ok(2)] by blast
  then have "write_register_handler E fd resp_fd thr s = Ret (RESULT_SUCCESS,
      ?w\<lparr>sys_count := c', out_data := (out_data ?w)(resp_fd := out_data ?w resp_fd @
        response_bytes E UDI_RESP_VALID (request_val UDI_REQ_WRITE_REGISTER) None)\<rparr>)"
    using t by (simp add: write_register_handler_def read is_thread_context_valid_def get_thread_context_def thread_at_def
        derefI set_register_general [OF r] set_thread_context_def update_thread_def with_register_def)
  then show ?thesis by (intro exI [of _ c']) (cases s, simp)
qed

lemma read_register_handler_ok:
  assumes ok: "sys_always_ok s" "serializer_ok E" "builders_ok E" and t: "thr \<noteq> NULL" "thr_heap s thr = Some t" "context_valid (event_state t)"
    and r: "general_register r" and ev: "reg_event ev = Some r"
    and items: "stream_items E (in_data s fd) [Ev_map_start 1, Ev_string (bytes_of ''reg''), ev] rest"
  shows "\<exists>c. read_register_handler E fd resp_fd thr s = Ret (RESULT_SUCCESS, s\<lparr>sys_count := c, in_data := (in_data s)(fd := rest),
    out_data := (out_data s)(resp_fd := out_data s resp_fd @ response_bytes E UDI_RESP_VALID (request_val UDI_REQ_READ_REGISTER)
      (Some (cbor_map_of 1 [(''value'', CUint64 (gregs (st_context (event_state t)) (get_udi_reg_context_offset r)))])))\<rparr>)"
proof -
  obtain c where read: "read_request_data E fd (read_reg_init_config E) \<lparr>rr_reg = 0\<rparr> s =
      Ret ((RESULT_SUCCESS, \<lparr>rr_reg = r\<rparr>), s\<lparr>sys_count := c, in_data := (in_data s)(fd := rest)\<rparr>)"
    using read_one_field [OF ok(1) read_reg_field [OF ev] config_sizes(5) items, where d = "\<lparr>rr_reg = 0\<rparr>"] by auto
  let ?u = "s\<lparr>sys_count := c, in_data := (in_data s)(fd := rest)\<rparr>"
  let ?m = "cbor_map_of 1 [(''value'', CUint64 (gregs (st_context (event_state t)) (get_udi_reg_context_offset r)))]"
  have "read_register_handler E fd resp_fd thr s = write_response E resp_fd UDI_RESP_VALID (request_val UDI_REQ_READ_REGISTER) (Some ?m) ?u"
    using t ok(3) by (simp add: read_register_handler_def read is_thread_context_valid_def get_thread_context_def thread_at_def
        derefI get_register_general [OF r] cbor_build_map_ok)
  moreover have "sys_always_ok ?u" using ok(1) by simp
  ultimately show ?thesis
    using write_response_ok [OF _ ok(2), of ?u resp_fd UDI_RESP_VALID "request_val UDI_REQ_READ_REGISTER" "Some ?m"] by auto
qed

section \<open>Properties\<close>

subsection \<open>Breakpoints\<close>

text \<open>
  C15. The request to create a breakpoint, from the bytes to the table: for every width of the
  address on the wire, the request is consumed exactly, no memory of the debuggee changes,
  the table stays well-formed, and it gets one new entry at the address when the request
  succeeds. It fails when the address has an entry, and then the table is as before; with an
  allocator that gives new objects it succeeds for every address that has none.
\<close>

theorem create_breakpoint_request:
  assumes "sys_always_ok s" and "serializer_ok E" and "builders_ok E" and "bp_table s"
    and "stream_items E (in_data s req_fd) [tev, Ev_map_start 1, Ev_string (bytes_of ''addr''), ev] rest"
    and "type_event tev = Some (request_val UDI_REQ_CREATE_BREAKPOINT)" and "int_event ev = Some a"
  shows "\<exists>r s'. handle_process_request E req_fd resp_fd type s = Ret ((r, request_val UDI_REQ_CREATE_BREAKPOINT), s') \<and>
    in_data s' = (in_data s)(req_fd := rest) \<and> mem s' = mem s \<and> bp_table s' \<and>
    (r = RESULT_SUCCESS \<longrightarrow> bp_lookup s a = None \<and> (\<exists>p. p \<noteq> NULL \<and> bp_lookup s' = (bp_lookup s)(a \<mapsto> p))) \<and>
    (r \<noteq> RESULT_SUCCESS \<longrightarrow> r = RESULT_FAILURE \<and> bp_lookup s' = bp_lookup s) \<and>
    (bp_lookup s a = None \<longrightarrow> fresh_alloc (bp_heap s) s \<longrightarrow> r = RESULT_SUCCESS)"
proof (rule process_request_run [OF assms(1-3,6,5), where P = "\<lambda>r v. in_data v = (in_data s)(req_fd := rest) \<and>
    mem v = mem s \<and> bp_table v \<and>
    (r = RESULT_SUCCESS \<longrightarrow> bp_lookup s a = None \<and> (\<exists>p. p \<noteq> NULL \<and> bp_lookup v = (bp_lookup s)(a \<mapsto> p))) \<and>
    (r \<noteq> RESULT_SUCCESS \<longrightarrow> r = RESULT_FAILURE \<and> bp_lookup v = bp_lookup s) \<and>
    (bp_lookup s a = None \<longrightarrow> fresh_alloc (bp_heap s) s \<longrightarrow> r = RESULT_SUCCESS)"])
  fix c d
  assume items: "stream_items E d [Ev_map_start 1, Ev_string (bytes_of ''addr''), ev] rest"
  let ?u = "s\<lparr>sys_count := c, in_data := (in_data s)(req_fd := d)\<rparr>"
  have u: "sys_always_ok ?u" "bp_table ?u" "stream_items E (in_data ?u req_fd) [Ev_map_start 1, Ev_string (bytes_of ''addr''), ev] rest"
    using assms(1,4) items by simp_all
  show "\<exists>r v. (request_handlers ! request_val UDI_REQ_CREATE_BREAKPOINT) E req_fd resp_fd ?u = Ret (r, v) \<and> sys_always_ok v \<and>
    in_data v = (in_data s)(req_fd := rest) \<and> mem v = mem s \<and> bp_table v \<and>
    (r = RESULT_SUCCESS \<longrightarrow> bp_lookup s a = None \<and> (\<exists>p. p \<noteq> NULL \<and> bp_lookup v = (bp_lookup s)(a \<mapsto> p))) \<and>
    (r \<noteq> RESULT_SUCCESS \<longrightarrow> r = RESULT_FAILURE \<and> bp_lookup v = bp_lookup s) \<and>
    (bp_lookup s a = None \<longrightarrow> fresh_alloc (bp_heap s) s \<longrightarrow> r = RESULT_SUCCESS)"
    using breakpoint_create_handler_ok [OF u(1) assms(2) u(2) assms(7) u(3), of resp_fd] by simp
qed simp_all

text \<open>A request to create a breakpoint at \<open>0x400020\<close>, in the shortest encoding of the address.\<close>

definition sample_create_request :: "u8 list" where
  "sample_create_request = [8, 0xa1, 0x64, 0x61, 0x64, 0x64, 0x72, 0x1a, 0x00, 0x40, 0x00, 0x20]"

lemma sample_create_items:
  "stream_items wire_env sample_create_request [Ev_uint8 8, Ev_map_start 1, Ev_string (bytes_of ''addr''), Ev_uint32 0x400020] []"
  by (simp add: wire_simps sample_create_request_def bytes_of_def)

theorem create_breakpoint_request_witness:
  "\<exists>s' p. handle_process_request wire_env 3 4 0 (sample_req_state sample_create_request) = Ret ((RESULT_SUCCESS, 8), s') \<and>
     p \<noteq> NULL \<and> bp_lookup s' 0x400020 = Some p \<and> bp_lookup s' 0x400010 = Some 1 \<and> in_data s' 3 = []"
proof -
  let ?s = "sample_req_state sample_create_request"
  have ev: "type_event (Ev_uint8 8) = Some (request_val UDI_REQ_CREATE_BREAKPOINT)" "int_event (Ev_uint32 0x400020) = Some 0x400020"
    by (simp_all add: request_vals)
  have items: "stream_items wire_env (in_data ?s 3) [Ev_uint8 8, Ev_map_start 1, Ev_string (bytes_of ''addr''), Ev_uint32 0x400020] []"
    using sample_create_items by (simp add: sample_req_state_simps)
  show ?thesis
    using create_breakpoint_request [OF sample_req_state_simps(1) wire_env_ok(3,2) sample_req_bp(1) items ev, of 4 0]
      sample_req_bp by (auto simp: request_vals)
qed

text \<open>
  The request to install a breakpoint, from the bytes to the memory: for a registered
  breakpoint that is not in memory and whose byte is mapped and readable, the request succeeds,
  the trap instruction stands at the address, no other byte changes, and the memory that the
  debuggee would have without breakpoints is the same.
\<close>

theorem install_breakpoint_request:
  assumes "sys_always_ok s" and "serializer_ok E" and "builders_ok E" and "bp_table s"
    and "stream_items E (in_data s req_fd) [tev, Ev_map_start 1, Ev_string (bytes_of ''addr''), ev] rest"
    and "type_event tev = Some (request_val UDI_REQ_INSTALL_BREAKPOINT)" and "int_event ev = Some a"
    and "bp_lookup s a = Some p" and "bp_heap s p = Some b" and "\<not> in_memory b" and "byte_reachable E a s"
  shows "\<exists>s'. handle_process_request E req_fd resp_fd type s = Ret ((RESULT_SUCCESS, request_val UDI_REQ_INSTALL_BREAKPOINT), s') \<and>
    in_data s' = (in_data s)(req_fd := rest) \<and> mem s' = (mem s)(a := BREAKPOINT_INSN) \<and> plain_mem s' = plain_mem s \<and>
    bp_table s' \<and> bp_lookup s' = bp_lookup s"
proof -
  have "\<exists>r s'. handle_process_request E req_fd resp_fd type s = Ret ((r, request_val UDI_REQ_INSTALL_BREAKPOINT), s') \<and>
    r = RESULT_SUCCESS \<and>
    in_data s' = (in_data s)(req_fd := rest) \<and> mem s' = (mem s)(a := BREAKPOINT_INSN) \<and> plain_mem s' = plain_mem s \<and>
    bp_table s' \<and> bp_lookup s' = bp_lookup s" (is "\<exists>r s'. _ \<and> ?Q r s'")
  proof (rule process_request_run [OF assms(1-3,6,5), where P = ?Q and Q = ?Q])
    fix c d
    assume items: "stream_items E d [Ev_map_start 1, Ev_string (bytes_of ''addr''), ev] rest"
    let ?u = "s\<lparr>sys_count := c, in_data := (in_data s)(req_fd := d)\<rparr>"
    have u: "sys_always_ok ?u" "bp_table ?u" "stream_items E (in_data ?u req_fd) [Ev_map_start 1, Ev_string (bytes_of ''addr''), ev] rest"
      "bp_lookup ?u a = Some p" "bp_heap ?u p = Some b" "byte_reachable E a ?u"
      using assms items by simp_all
    show "\<exists>r v. (request_handlers ! request_val UDI_REQ_INSTALL_BREAKPOINT) E req_fd resp_fd ?u = Ret (r, v) \<and> sys_always_ok v \<and> ?Q r v"
      using breakpoint_install_handler_ok [OF u(1) assms(2) u(2) assms(7) u(3-5) assms(10) u(6), of resp_fd] by auto
  qed simp_all
  then show ?thesis by blast
qed

definition sample_install_request :: "u8 list" where
  "sample_install_request = [9, 0xa1, 0x64, 0x61, 0x64, 0x64, 0x72, 0x1b, 0, 0, 0, 0, 0x00, 0x40, 0x00, 0x10]"

lemma sample_install_items:
  "stream_items wire_env sample_install_request [Ev_uint8 9, Ev_map_start 1, Ev_string (bytes_of ''addr''), Ev_uint64 0x400010] []"
  by (simp add: wire_simps sample_install_request_def bytes_of_def)

theorem install_breakpoint_request_witness:
  "\<exists>s'. handle_process_request wire_env 3 4 0 (sample_req_state sample_install_request) = Ret ((RESULT_SUCCESS, 9), s') \<and>
     mem s' 0x400010 = 0xcc"
proof -
  let ?s = "sample_req_state sample_install_request"
  have ev: "type_event (Ev_uint8 9) = Some (request_val UDI_REQ_INSTALL_BREAKPOINT)" "int_event (Ev_uint64 0x400010) = Some 0x400010"
    by (simp_all add: request_vals)
  have items: "stream_items wire_env (in_data ?s 3) [Ev_uint8 9, Ev_map_start 1, Ev_string (bytes_of ''addr''), Ev_uint64 0x400010] []"
    using sample_install_items by (simp add: sample_req_state_simps)
  have b: "bp_heap ?s 1 = Some ((new_breakpoint 0x400010)\<lparr>next_breakpoint := 2\<rparr>)"
    "\<not> in_memory ((new_breakpoint 0x400010)\<lparr>next_breakpoint := 2\<rparr>)"
    using sample_req_bp(3) sample_bp_state_simps(3) by (simp_all add: new_breakpoint_def)
  from install_breakpoint_request [OF sample_req_state_simps(1) wire_env_ok(3,2) sample_req_bp(1) items ev
      sample_req_bp(4) b sample_req_reachable, of 4 0]
  show ?thesis by (auto simp: request_vals BREAKPOINT_INSN_def)
qed

text \<open>
  C28. A request to install, remove or delete a breakpoint at an address that has none never
  gets a response: the check for a missing breakpoint tests the wrong pointer, and the handler
  goes on with the null pointer.
\<close>

theorem unregistered_breakpoint_request:
  assumes "sys_always_ok s" and "bp_table s"
    and "stream_items E (in_data s req_fd) [tev, Ev_map_start 1, Ev_string (bytes_of ''addr''), ev] rest"
    and "req \<in> {UDI_REQ_INSTALL_BREAKPOINT, UDI_REQ_REMOVE_BREAKPOINT, UDI_REQ_DELETE_BREAKPOINT}"
    and "type_event tev = Some (request_val req)" and "int_event ev = Some a" and "bp_lookup s a = None"
  shows "handle_process_request E req_fd resp_fd type s = Stuck"
proof (rule process_request_start [OF assms(1,5) request_val_less assms(3), of resp_fd type])
  fix c d
  assume start: "handle_process_request E req_fd resp_fd type s =
      run_bind ((request_handlers ! request_val req) E req_fd resp_fd (s\<lparr>sys_count := c, in_data := (in_data s)(req_fd := d)\<rparr>))
        (\<lambda>(result, s). finish_request E resp_fd (request_val req) result s)"
    and items: "stream_items E d [Ev_map_start 1, Ev_string (bytes_of ''addr''), ev] rest"
  let ?u = "s\<lparr>sys_count := c, in_data := (in_data s)(req_fd := d)\<rparr>"
  have "sys_always_ok ?u" "bp_table ?u" "stream_items E (in_data ?u req_fd) [Ev_map_start 1, Ev_string (bytes_of ''addr''), ev] rest"
    using assms items by simp_all
  from read_breakpoint_ok [OF this(1) assms(6) this(2,3)] assms(7) obtain v where
    "read_breakpoint E req_fd ?u = Ret ((RESULT_SUCCESS, NULL), v)" by auto
  then show ?thesis
    unfolding start using assms(4)
    by (auto simp: breakpoint_install_handler_def breakpoint_remove_handler_def breakpoint_delete_handler_def null_breakpoint)
qed

definition sample_remove_request :: "u8 list" where
  "sample_remove_request = [10, 0xa1, 0x64, 0x61, 0x64, 0x64, 0x72, 0x1a, 0x00, 0x40, 0x00, 0x20]"

theorem unregistered_breakpoint_request_witness:
  "handle_process_request wire_env 3 4 0 (sample_req_state sample_remove_request) = Stuck"
proof -
  let ?s = "sample_req_state sample_remove_request"
  have items: "stream_items wire_env (in_data ?s 3) [Ev_uint8 10, Ev_map_start 1, Ev_string (bytes_of ''addr''), Ev_uint32 0x400020] []"
    by (simp add: sample_req_state_simps wire_simps sample_remove_request_def bytes_of_def)
  show ?thesis
    by (rule unregistered_breakpoint_request [OF sample_req_state_simps(1) sample_req_bp(1) items, of UDI_REQ_REMOVE_BREAKPOINT "0x400020"])
      (simp_all add: request_vals sample_req_bp(5))
qed

subsection \<open>Memory\<close>

text \<open>
  C16. Writing memory and reading it back over the wire. For a range that can be read and whose
  pages the write can open, a write request followed by a read request of the same range
  both succeed and are consumed exactly; the memory is changed by the write, and in the range
  only; and the two responses are the empty answer and the bytes that were written.
\<close>

theorem memory_requests_roundtrip:
  assumes "sys_always_ok s" and "serializer_ok E" and "builders_ok E"
    and "openable E a (length bs) s" and "\<not> aborting_mem_access s" and "accessible E FromDebuggee a (length bs) s"
    and "length bs < 2 ^ 32"
    and "stream_items E (in_data s req_fd)
      (wev # Ev_map_start 2 # Ev_string (bytes_of ''addr'') # Ev_uint64 a # Ev_string (bytes_of ''data'') # Ev_byte_string bs #
       rdev # [Ev_map_start 2, Ev_string (bytes_of ''addr''), Ev_uint64 a, Ev_string (bytes_of ''len''), Ev_uint32 (of_nat (length bs))])
      rest"
    and "type_event wev = Some (request_val UDI_REQ_WRITE_MEM)" and "type_event rdev = Some (request_val UDI_REQ_READ_MEM)"
  shows "\<exists>s1 s2. handle_process_request E req_fd resp_fd type s = Ret ((RESULT_SUCCESS, request_val UDI_REQ_WRITE_MEM), s1) \<and>
    handle_process_request E req_fd resp_fd type s1 = Ret ((RESULT_SUCCESS, request_val UDI_REQ_READ_MEM), s2) \<and>
    mem s1 = write_bytes (mem s) a bs \<and> mem s2 = mem s1 \<and> in_data s2 = (in_data s)(req_fd := rest) \<and>
    out_data s2 = (out_data s)(resp_fd := out_data s resp_fd @
      response_bytes E UDI_RESP_VALID (request_val UDI_REQ_WRITE_MEM) None @
      response_bytes E UDI_RESP_VALID (request_val UDI_REQ_READ_MEM) (Some (cbor_map_of 2 [(''data'', CBytes bs)])))"
proof -
  let ?wevs = "[Ev_map_start 2, Ev_string (bytes_of ''addr''), Ev_uint64 a, Ev_string (bytes_of ''data''), Ev_byte_string bs]"
  let ?revs = "[Ev_map_start 2, Ev_string (bytes_of ''addr''), Ev_uint64 a, Ev_string (bytes_of ''len''), Ev_uint32 (of_nat (length bs))]"
  obtain mid where w: "stream_items E (in_data s req_fd) (wev # ?wevs) mid" and r: "stream_items E mid (rdev # ?revs) rest"
    using assms(8) stream_items_append [of E "in_data s req_fd" "wev # ?wevs" "rdev # ?revs" rest] by auto
  have n: "unat (of_nat (length bs) :: u32) = length bs" using assms(7) by (simp add: unat_of_nat take_bit_nat_eq_self)
  let ?P1 = "\<lambda>r s'. r = RESULT_SUCCESS \<and> in_data s' = (in_data s)(req_fd := mid) \<and> mem s' = write_bytes (mem s) a bs \<and>
    \<not> aborting_mem_access s' \<and> accessible E FromDebuggee a (length bs) s' \<and> sys_always_ok s' \<and>
    out_data s' = (out_data s)(resp_fd := out_data s resp_fd @ response_bytes E UDI_RESP_VALID (request_val UDI_REQ_WRITE_MEM) None)"
  have "\<exists>r s'. handle_process_request E req_fd resp_fd type s = Ret ((r, request_val UDI_REQ_WRITE_MEM), s') \<and> ?P1 r s'"
  proof (rule process_request_run [OF assms(1-3,9) w, where P = ?P1 and Q = ?P1])
    fix c d
    assume items: "stream_items E d ?wevs mid"
    let ?u = "s\<lparr>sys_count := c, in_data := (in_data s)(req_fd := d)\<rparr>"
    show "\<exists>r v. (request_handlers ! request_val UDI_REQ_WRITE_MEM) E req_fd resp_fd ?u = Ret (r, v) \<and> sys_always_ok v \<and> ?P1 r v"
      using write_handler_ok [of ?u E a bs req_fd mid resp_fd] assms items by auto
  qed simp_all
  then obtain s1 where s1: "handle_process_request E req_fd resp_fd type s = Ret ((RESULT_SUCCESS, request_val UDI_REQ_WRITE_MEM), s1)"
    and P1: "?P1 RESULT_SUCCESS s1" by (elim exE) blast
  let ?P2 = "\<lambda>r s'. r = RESULT_SUCCESS \<and> in_data s' = (in_data s)(req_fd := rest) \<and> mem s' = mem s1 \<and>
    out_data s' = (out_data s1)(resp_fd := out_data s1 resp_fd @ response_bytes E UDI_RESP_VALID (request_val UDI_REQ_READ_MEM)
      (Some (cbor_map_of 2 [(''data'', CBytes bs)])))"
  have r1: "stream_items E (in_data s1 req_fd) (rdev # ?revs) rest" and ok1: "sys_always_ok s1" using r P1 by simp_all
  have "\<exists>r s'. handle_process_request E req_fd resp_fd type s1 = Ret ((r, request_val UDI_REQ_READ_MEM), s') \<and> ?P2 r s'"
  proof (rule process_request_run [OF ok1 assms(2,3,10) r1, where P = ?P2 and Q = ?P2])
    fix c d
    assume items: "stream_items E d ?revs rest"
    let ?u = "s1\<lparr>sys_count := c, in_data := (in_data s1)(req_fd := d)\<rparr>"
    have "read_bytes (mem s1) a (length bs) = bs" using P1 assms(7) by (simp add: read_write_bytes)
    then show "\<exists>r v. (request_handlers ! request_val UDI_REQ_READ_MEM) E req_fd resp_fd ?u = Ret (r, v) \<and> sys_always_ok v \<and> ?P2 r v"
      using read_handler_ok [of ?u E a "of_nat (length bs)" req_fd rest resp_fd] assms(2,3) P1 items n by auto
  qed simp_all
  then obtain s2 where "handle_process_request E req_fd resp_fd type s1 = Ret ((RESULT_SUCCESS, request_val UDI_REQ_READ_MEM), s2)"
    and "?P2 RESULT_SUCCESS s2" by (elim exE) blast
  with s1 P1 show ?thesis by (intro exI [of _ s1] exI [of _ s2]) simp
qed

definition sample_memory_requests :: "u8 list" where
  "sample_memory_requests =
     [3, 0xa2, 0x64, 0x61, 0x64, 0x64, 0x72, 0x1b, 0, 0, 0, 0, 0x00, 0x40, 0x00, 0x30, 0x64, 0x64, 0x61, 0x74, 0x61, 0x42, 0xcc, 0x90] @
     [2, 0xa2, 0x64, 0x61, 0x64, 0x64, 0x72, 0x1b, 0, 0, 0, 0, 0x00, 0x40, 0x00, 0x30, 0x63, 0x6c, 0x65, 0x6e, 0x1a, 0, 0, 0, 2]"

theorem memory_requests_roundtrip_witness:
  "\<exists>s1 s2. handle_process_request wire_env 3 4 0 (sample_req_state sample_memory_requests) = Ret ((RESULT_SUCCESS, 3), s1) \<and>
     handle_process_request wire_env 3 4 0 s1 = Ret ((RESULT_SUCCESS, 2), s2) \<and> mem s2 0x400031 = 0x90"
proof -
  let ?s = "sample_req_state sample_memory_requests"
  have items: "stream_items wire_env (in_data ?s 3)
      (Ev_uint8 3 # Ev_map_start 2 # Ev_string (bytes_of ''addr'') # Ev_uint64 0x400030 # Ev_string (bytes_of ''data'') #
       Ev_byte_string [0xcc, 0x90] # Ev_uint8 2 #
       [Ev_map_start 2, Ev_string (bytes_of ''addr''), Ev_uint64 0x400030, Ev_string (bytes_of ''len''),
        Ev_uint32 (of_nat (length [0xcc :: u8, 0x90]))]) []"
    by (simp add: sample_req_state_simps wire_simps sample_memory_requests_def bytes_of_def)
  have state: "openable wire_env 0x400030 (length [0xcc :: u8, 0x90]) ?s" "\<not> aborting_mem_access ?s"
    "accessible wire_env FromDebuggee 0x400030 (length [0xcc :: u8, 0x90]) ?s"
    by (simp_all add: sample_req_state_def thr_state.defs sample_thr_state_def io_state.defs sample_io_state_def bp_state.defs
        sample_bp_state_def mem_state.defs sample_mem_state_def wire_env_ok openable_def range_pages_def accessible_def
        access_fault_def page_align_def all_less_two Let_def)
  have types: "type_event (Ev_uint8 3) = Some (request_val UDI_REQ_WRITE_MEM)" "type_event (Ev_uint8 2) = Some (request_val UDI_REQ_READ_MEM)"
    by (simp_all add: request_vals)
  obtain s1 s2 where "handle_process_request wire_env 3 4 0 ?s = Ret ((RESULT_SUCCESS, request_val UDI_REQ_WRITE_MEM), s1)"
    "handle_process_request wire_env 3 4 0 s1 = Ret ((RESULT_SUCCESS, request_val UDI_REQ_READ_MEM), s2)"
    "mem s1 = write_bytes (mem ?s) 0x400030 [0xcc, 0x90]" "mem s2 = mem s1"
    using memory_requests_roundtrip [OF sample_req_state_simps(1) wire_env_ok(3,2) state _ items types, of 4 0] by auto
  then show ?thesis by (intro exI [of _ s1] exI [of _ s2]) (simp add: request_vals write_bytes_def)
qed

subsection \<open>Threads and registers\<close>

text \<open>
  The state request answers with one entry for every thread of the list, in the order of the
  list, each with the identity and the state of its thread, and changes nothing else.
\<close>

theorem state_request_lists_threads:
  assumes "sys_always_ok s" and "serializer_ok E" and "builders_ok E" and "thread_list s ps" and "length ps < 2 ^ 64"
    and "next_item E (in_data s req_fd) 1 = Item tev rest" and "type_event tev = Some (request_val UDI_REQ_STATE)"
  shows "\<exists>c. handle_process_request E req_fd resp_fd type s = Ret ((RESULT_SUCCESS, request_val UDI_REQ_STATE),
    s\<lparr>sys_count := c, in_data := (in_data s)(req_fd := rest), out_data := (out_data s)(resp_fd := out_data s resp_fd @
      response_bytes E UDI_RESP_VALID (request_val UDI_REQ_STATE)
        (Some (cbor_map_of 1 [(''states'', CArray (length ps) (map (\<lambda>p. thread_entry (thread_obj s p)) ps))])))\<rparr>)"
proof -
  have "stream_items E (in_data s req_fd) (tev # []) rest" using assms(6) by simp
  then show ?thesis
  proof (rule process_request_start [OF assms(1,7) request_val_less, of E req_fd "[]" rest resp_fd type])
    fix c d
    assume start: "handle_process_request E req_fd resp_fd type s =
        run_bind ((request_handlers ! request_val UDI_REQ_STATE) E req_fd resp_fd (s\<lparr>sys_count := c, in_data := (in_data s)(req_fd := d)\<rparr>))
          (\<lambda>(result, s). finish_request E resp_fd (request_val UDI_REQ_STATE) result s)"
      and d: "stream_items E d [] rest"
    let ?u = "s\<lparr>sys_count := c, in_data := (in_data s)(req_fd := rest)\<rparr>"
    have "sys_always_ok ?u" "thread_list ?u ps" using assms(1,4) by simp_all
    from state_handler_ok [OF this(1) assms(2,3) this(2) assms(5), of req_fd resp_fd] show ?thesis
      using start d by auto
  qed
qed

theorem state_request_lists_threads_witness:
  "\<exists>s'. handle_process_request wire_env 3 4 0 (sample_req_state [6]) = Ret ((RESULT_SUCCESS, 6), s') \<and>
     out_data s' 4 = response_bytes wire_env UDI_RESP_VALID 6 (Some (cbor_map_of 1
       [(''states'', CArray (Suc (Suc 0)) [thread_entry (new_thread 16 (5, 6)), thread_entry (new_thread 17 (8, 9))])]))"
proof -
  let ?s = "sample_req_state [6]"
  have "next_item wire_env (in_data ?s 3) 1 = Item (Ev_uint8 6) []" "type_event (Ev_uint8 6) = Some (request_val UDI_REQ_STATE)"
    by (simp_all add: sample_req_state_simps wire_simps request_vals)
  then have "\<exists>c. handle_process_request wire_env 3 4 0 ?s = Ret ((RESULT_SUCCESS, request_val UDI_REQ_STATE),
    ?s\<lparr>sys_count := c, in_data := (in_data ?s)(3 := []), out_data := (out_data ?s)(4 := out_data ?s 4 @
      response_bytes wire_env UDI_RESP_VALID (request_val UDI_REQ_STATE)
        (Some (cbor_map_of 1 [(''states'', CArray (length [3, 2 :: ptr]) (map (\<lambda>p. thread_entry (thread_obj ?s p)) [3, 2]))])))\<rparr>)"
    by (intro state_request_lists_threads [OF sample_req_state_simps(1) wire_env_ok(3,2) sample_req_state_simps(4), where tev = "Ev_uint8 6"]) simp_all
  moreover have "thread_obj ?s 3 = (new_thread 16 (5, 6))\<lparr>next_thread := 2\<rparr>" "thread_obj ?s 2 = (new_thread 17 (8, 9))\<lparr>dead := True\<rparr>"
    by (simp_all add: thread_obj_def sample_req_state_simps sample_thr_state_simps)
  ultimately show ?thesis by (auto simp: request_vals thread_entry_def sample_req_state_simps)
qed

text \<open>The continue request, in the state after its dispatch.\<close>

lemma continue_request_run:
  assumes "sys_always_ok s" and "serializer_ok E" and "builders_ok E" and "thread_list s ps" and "continue_bp s = NULL"
    and "\<forall>p \<in> set ps. \<not> dead (thread_obj s p)"
    and "stream_items E (in_data s req_fd) [tev, Ev_map_start 1, Ev_string (bytes_of ''sig''), ev] rest"
    and "type_event tev = Some (request_val UDI_REQ_CONTINUE)" and "sig_event ev = Some v"
  shows "\<exists>r s'. handle_process_request E req_fd resp_fd type s = Ret ((r, request_val UDI_REQ_CONTINUE), s') \<and>
    r = (if \<exists>p \<in> set ps. ts (thread_obj s p) = UDI_TS_RUNNING then RESULT_SUCCESS else RESULT_FAILURE) \<and>
    in_data s' = (in_data s)(req_fd := rest) \<and> mem s' = mem s \<and> thr_heap s' = thr_heap s \<and>
    kills s' = (if r = RESULT_SUCCESS \<and> \<not> exiting s then kills s @ [v] else kills s) \<and>
    pass_signal s' = (if r = RESULT_SUCCESS \<and> \<not> exiting s then v else pass_signal s) \<and> req_rest s' = req_rest s \<and>
    (\<forall>f. f \<noteq> resp_fd \<longrightarrow> out_data s' f = out_data s f)"
    (is "\<exists>r s'. _ \<and> ?Q r s'")
proof (rule process_request_run [OF assms(1-3,8,7), where P = ?Q and Q = ?Q])
  fix c d
  assume items: "stream_items E d [Ev_map_start 1, Ev_string (bytes_of ''sig''), ev] rest"
  let ?u = "s\<lparr>sys_count := c, in_data := (in_data s)(req_fd := d)\<rparr>"
  have u: "sys_always_ok ?u" "thread_list ?u ps" "continue_bp ?u = NULL" "\<forall>p \<in> set ps. \<not> dead (thread_obj ?u p)"
    "stream_items E (in_data ?u req_fd) [Ev_map_start 1, Ev_string (bytes_of ''sig''), ev] rest"
    using assms items by simp_all
  from continue_handler_ok [OF u(1) assms(2) u(2-4) assms(9) u(5), of resp_fd]
  show "\<exists>r v. (request_handlers ! request_val UDI_REQ_CONTINUE) E req_fd resp_fd ?u = Ret (r, v) \<and> sys_always_ok v \<and> ?Q r v"
    by (cases "exiting s"; cases "\<exists>p \<in> set ps. ts (thread_obj s p) = UDI_TS_RUNNING") (simp_all add: response_ne)
qed simp_all

text \<open>The first thread alone, which runs.\<close>

definition sample_running_state :: "u8 list \<Rightarrow> req_state" where
  "sample_running_state bs = (sample_req_state bs)\<lparr>thr_heap := [3 \<mapsto> (new_thread 16 (5, 6))\<lparr>event_state :=
     (event_state (new_thread 16 (5, 6)))\<lparr>context_valid := True\<rparr>\<rparr>], num_threads := 1\<rparr>"

lemma sample_running_state_simps:
  "sys_always_ok (sample_running_state bs)" "in_data (sample_running_state bs) 3 = bs" "thread_list (sample_running_state bs) [3]"
  "continue_bp (sample_running_state bs) = NULL" "kills (sample_running_state bs) = []" "exiting (sample_running_state bs) = False"
  "thr_heap (sample_running_state bs) 3 = Some ((new_thread 16 (5, 6))\<lparr>event_state :=
     (event_state (new_thread 16 (5, 6)))\<lparr>context_valid := True\<rparr>\<rparr>)"
  "out_data (sample_running_state bs) = (\<lambda>_. [])"
  using sample_req_state_simps [of bs]
  by (simp_all add: sample_running_state_def thread_list_def new_thread_def sys_always_ok_def)
    (simp add: sample_req_state_def thr_state.defs)

text \<open>
  C18. The continue request, with no breakpoint to put back and no dead thread: it succeeds when some
  thread is in the running state, and then the signal of the request, read at every width, is
  the one that is passed on and the only one sent to the process, unless the process is
  exiting; it fails when every thread is suspended, and then no signal is sent. The request is
  consumed either way, and neither the memory nor a thread is changed.
\<close>

theorem continue_request:
  assumes "sys_always_ok s" and "serializer_ok E" and "builders_ok E" and "thread_list s ps" and "continue_bp s = NULL"
    and "\<forall>p \<in> set ps. \<not> dead (thread_obj s p)"
    and "stream_items E (in_data s req_fd) [tev, Ev_map_start 1, Ev_string (bytes_of ''sig''), ev] rest"
    and "type_event tev = Some (request_val UDI_REQ_CONTINUE)" and "sig_event ev = Some v"
  shows "\<exists>r s'. handle_process_request E req_fd resp_fd type s = Ret ((r, request_val UDI_REQ_CONTINUE), s') \<and>
    r = (if \<exists>p \<in> set ps. ts (thread_obj s p) = UDI_TS_RUNNING then RESULT_SUCCESS else RESULT_FAILURE) \<and>
    in_data s' = (in_data s)(req_fd := rest) \<and> mem s' = mem s \<and> thr_heap s' = thr_heap s \<and>
    kills s' = (if r = RESULT_SUCCESS \<and> \<not> exiting s then kills s @ [v] else kills s) \<and>
    pass_signal s' = (if r = RESULT_SUCCESS \<and> \<not> exiting s then v else pass_signal s)"
  using continue_request_run [OF assms] by blast

theorem continue_request_witness:
  "\<exists>s'. handle_process_request wire_env 3 4 0 (sample_running_state [1, 0xa1, 0x63, 0x73, 0x69, 0x67, 10]) =
      Ret ((RESULT_SUCCESS, 1), s') \<and> kills s' = [10] \<and> pass_signal s' = 10"
proof -
  let ?s = "sample_running_state [1, 0xa1, 0x63, 0x73, 0x69, 0x67, 10]"
  have items: "stream_items wire_env (in_data ?s 3) [Ev_uint8 1, Ev_map_start 1, Ev_string (bytes_of ''sig''), Ev_uint8 10] []"
    by (simp add: sample_running_state_simps wire_simps bytes_of_def)
  have ev: "type_event (Ev_uint8 1) = Some (request_val UDI_REQ_CONTINUE)" "sig_event (Ev_uint8 10) = Some 10"
    by (simp_all add: request_vals)
  have t: "\<forall>p \<in> set [3]. \<not> dead (thread_obj ?s p)" "ts (thread_obj ?s 3) = UDI_TS_RUNNING"
    by (simp_all add: thread_obj_def sample_running_state_simps new_thread_def)
  from continue_request [OF sample_running_state_simps(1) wire_env_ok(3,2) sample_running_state_simps(3,4) t(1) items ev, of 4 0]
  show ?thesis using t(2) by (auto simp: request_vals sample_running_state_simps)
qed

text \<open>
  C17. Writing a register of a stopped thread and reading it back over the wire. For every general
  register, every width of the register number and of the value, a write request followed by
  a read request succeed and are consumed exactly; the only change is that register in the saved
  context of the thread, and the second response carries the value.
\<close>

theorem register_requests_roundtrip:
  assumes "sys_always_ok s" and "serializer_ok E" and "builders_ok E"
    and "thr \<noteq> NULL" and "thr_heap s thr = Some t" and "context_valid (event_state t)" and "general_register r"
    and "stream_items E (in_data s req_fd)
      (wev # Ev_map_start 2 # Ev_string (bytes_of ''reg'') # rg # Ev_string (bytes_of ''value'') # vl #
       rdev # [Ev_map_start 1, Ev_string (bytes_of ''reg''), rg']) rest"
    and "type_event wev = Some (request_val UDI_REQ_WRITE_REGISTER)" and "type_event rdev = Some (request_val UDI_REQ_READ_REGISTER)"
    and "reg_event rg = Some r" and "reg_event rg' = Some r" and "int_event vl = Some v"
  shows "\<exists>s1 s2. handle_thread_request E req_fd resp_fd thr type s = Ret ((RESULT_SUCCESS, request_val UDI_REQ_WRITE_REGISTER), s1) \<and>
    handle_thread_request E req_fd resp_fd thr type s1 = Ret ((RESULT_SUCCESS, request_val UDI_REQ_READ_REGISTER), s2) \<and>
    (\<exists>c. s2 = s\<lparr>sys_count := c, in_data := (in_data s)(req_fd := rest), thr_heap := (thr_heap s)(thr \<mapsto> with_register r v t),
      out_data := (out_data s)(resp_fd := out_data s resp_fd @
        response_bytes E UDI_RESP_VALID (request_val UDI_REQ_WRITE_REGISTER) None @
        response_bytes E UDI_RESP_VALID (request_val UDI_REQ_READ_REGISTER) (Some (cbor_map_of 1 [(''value'', CUint64 v)])))\<rparr>)"
proof -
  let ?wevs = "[Ev_map_start 2, Ev_string (bytes_of ''reg''), rg, Ev_string (bytes_of ''value''), vl]"
  let ?revs = "[Ev_map_start 1, Ev_string (bytes_of ''reg''), rg']"
  obtain mid where w: "stream_items E (in_data s req_fd) (wev # ?wevs) mid" and r: "stream_items E mid (rdev # ?revs) rest"
    using assms(8) stream_items_append [of E "in_data s req_fd" "wev # ?wevs" "rdev # ?revs" rest] by auto
  let ?t = "with_register r v t"
  let ?m = "cbor_map_of 1 [(''value'', CUint64 v)]"
  let ?P1 = "\<lambda>q s'. q = RESULT_SUCCESS \<and> (\<exists>c. s' = s\<lparr>sys_count := c, in_data := (in_data s)(req_fd := mid),
    thr_heap := (thr_heap s)(thr \<mapsto> ?t), out_data := (out_data s)(resp_fd := out_data s resp_fd @
      response_bytes E UDI_RESP_VALID (request_val UDI_REQ_WRITE_REGISTER) None)\<rparr>)"
  have "\<exists>q s'. handle_thread_request E req_fd resp_fd thr type s = Ret ((q, request_val UDI_REQ_WRITE_REGISTER), s') \<and> ?P1 q s'"
  proof (rule thread_request_run [OF assms(1-3,9) w, where P = ?P1 and Q = ?P1])
    fix c d
    assume items: "stream_items E d ?wevs mid"
    let ?u = "s\<lparr>sys_count := c, in_data := (in_data s)(req_fd := d)\<rparr>"
    show "\<exists>q v. (thr_request_handlers ! request_val UDI_REQ_WRITE_REGISTER) E req_fd resp_fd thr ?u = Ret (q, v) \<and> sys_always_ok v \<and> ?P1 q v"
      using write_register_handler_ok [of ?u E thr t r rg vl v req_fd mid resp_fd] assms items by auto
  qed simp_all
  then obtain c1 where s1: "handle_thread_request E req_fd resp_fd thr type s = Ret ((RESULT_SUCCESS, request_val UDI_REQ_WRITE_REGISTER),
      s\<lparr>sys_count := c1, in_data := (in_data s)(req_fd := mid), thr_heap := (thr_heap s)(thr \<mapsto> ?t),
        out_data := (out_data s)(resp_fd := out_data s resp_fd @ response_bytes E UDI_RESP_VALID (request_val UDI_REQ_WRITE_REGISTER) None)\<rparr>)"
      (is "_ = Ret (_, ?s1)") by (elim exE conjE) simp
  have r1: "stream_items E (in_data ?s1 req_fd) (rdev # ?revs) rest" and ok1: "sys_always_ok ?s1" using r assms(1) by simp_all
  have reg: "gregs (st_context (event_state ?t)) (get_udi_reg_context_offset r) = v" "context_valid (event_state ?t)"
    using assms(6) by (simp_all add: with_register_def)
  let ?P2 = "\<lambda>q s'. q = RESULT_SUCCESS \<and> (\<exists>c. s' = s\<lparr>sys_count := c, in_data := (in_data s)(req_fd := rest),
    thr_heap := (thr_heap s)(thr \<mapsto> ?t), out_data := (out_data s)(resp_fd := out_data s resp_fd @
      response_bytes E UDI_RESP_VALID (request_val UDI_REQ_WRITE_REGISTER) None @
      response_bytes E UDI_RESP_VALID (request_val UDI_REQ_READ_REGISTER) (Some ?m))\<rparr>)"
  have "\<exists>q s'. handle_thread_request E req_fd resp_fd thr type ?s1 = Ret ((q, request_val UDI_REQ_READ_REGISTER), s') \<and> ?P2 q s'"
  proof (rule thread_request_run [OF ok1 assms(2,3,10) r1, where P = ?P2 and Q = ?P2])
    fix c d
    assume items: "stream_items E d ?revs rest"
    let ?u = "?s1\<lparr>sys_count := c, in_data := (in_data ?s1)(req_fd := d)\<rparr>"
    have u: "sys_always_ok ?u" "thr_heap ?u thr = Some ?t" "stream_items E (in_data ?u req_fd) ?revs rest" using assms(1) items by simp_all
    have order: "s\<lparr>thr_heap := h, sys_count := c, in_data := j, out_data := w\<rparr> =
        s\<lparr>sys_count := c, in_data := j, thr_heap := h, out_data := w\<rparr>" for h c j w by (cases s) simp
    from read_register_handler_ok [OF u(1) assms(2,3,4) u(2) reg(2) assms(7,12) u(3), of resp_fd]
    show "\<exists>q v. (thr_request_handlers ! request_val UDI_REQ_READ_REGISTER) E req_fd resp_fd thr ?u = Ret (q, v) \<and> sys_always_ok v \<and> ?P2 q v"
      using assms(1) by (auto simp: reg(1) order)
  qed simp_all
  with s1 show ?thesis by blast
qed

text \<open>Register 43 set to 7 and read back.\<close>

definition sample_register_requests :: "u8 list" where
  "sample_register_requests =
     [5, 0xa2, 0x63, 0x72, 0x65, 0x67, 0x18, 43, 0x65, 0x76, 0x61, 0x6c, 0x75, 0x65, 7] @
     [4, 0xa1, 0x63, 0x72, 0x65, 0x67, 0x19, 0, 43]"

theorem register_requests_roundtrip_witness:
  "\<exists>s1 s2. handle_thread_request wire_env 3 4 3 0 (sample_running_state sample_register_requests) = Ret ((RESULT_SUCCESS, 5), s1) \<and>
     handle_thread_request wire_env 3 4 3 0 s1 = Ret ((RESULT_SUCCESS, 4), s2) \<and>
     out_data s2 4 = response_bytes wire_env UDI_RESP_VALID 5 None @
       response_bytes wire_env UDI_RESP_VALID 4 (Some (cbor_map_of 1 [(''value'', CUint64 7)]))"
proof -
  let ?s = "sample_running_state sample_register_requests"
  have items: "stream_items wire_env (in_data ?s 3)
      (Ev_uint8 5 # Ev_map_start 2 # Ev_string (bytes_of ''reg'') # Ev_uint8 43 # Ev_string (bytes_of ''value'') # Ev_uint8 7 #
       Ev_uint8 4 # [Ev_map_start 1, Ev_string (bytes_of ''reg''), Ev_uint16 43]) []"
    by (simp add: sample_running_state_simps wire_simps sample_register_requests_def bytes_of_def)
  have ev: "type_event (Ev_uint8 5) = Some (request_val UDI_REQ_WRITE_REGISTER)" "type_event (Ev_uint8 4) = Some (request_val UDI_REQ_READ_REGISTER)"
    "reg_event (Ev_uint8 43) = Some 43" "reg_event (Ev_uint16 43) = Some 43" "int_event (Ev_uint8 7) = Some 7"
    by (simp_all add: request_vals)
  have three: "(3 :: ptr) \<noteq> NULL" "context_valid (event_state ((new_thread 16 (5, 6))\<lparr>event_state :=
     (event_state (new_thread 16 (5, 6)))\<lparr>context_valid := True\<rparr>\<rparr>))" "general_register 43"
    by (simp_all add: general_register_def)
  from register_requests_roundtrip [OF sample_running_state_simps(1) wire_env_ok(3,2) three(1) sample_running_state_simps(7) three(2,3)
      items ev, of 4 0]
  show ?thesis by (auto simp: request_vals sample_running_state_simps)
qed

subsection \<open>Request types\<close>

text \<open>
  A request type of 16 or more, which the wire format can carry, is not refused: both
  dispatchers index their table of handlers outside its bounds.
\<close>

theorem unknown_request_type:
  assumes "sys_always_ok s" and "next_item E (in_data s req_fd) 1 = Item tev rest" and "type_event tev = Some t" and "16 \<le> t"
  shows "handle_process_request E req_fd resp_fd type s = Stuck \<and> handle_thread_request E req_fd resp_fd thr type s = Stuck"
  using read_request_type_ok [OF assms(1-3), of type] assms(4)
  by (auto simp: handle_process_request_def handle_thread_request_def)

theorem unknown_request_type_witness:
  "handle_process_request wire_env 3 4 0 (sample_req_state [0x19, 1, 0]) = Stuck"
proof -
  have "next_item wire_env (in_data (sample_req_state [0x19, 1, 0]) 3) 1 = Item (Ev_uint16 256) []"
    by (simp add: sample_req_state_simps wire_simps)
  from unknown_request_type [OF sample_req_state_simps(1) this, of 256 4 0] show ?thesis by simp
qed

text \<open>
  The initial handshake around any callback that opens the response file: what the callback promises of
  its state holds of the state in which the response is written.
\<close>

lemma init_handshake_ok:
  assumes "sys_always_ok s" and "serializer_ok E" and "builders_ok E"
    and "next_item E (in_data s req_fd) 1 = Item tev rest" and "type_event tev = Some t"
    and cb: "\<And>c. \<exists>fd v. callback (s\<lparr>sys_count := c, in_data := (in_data s)(req_fd := rest)\<rparr>) = Ret ((RESULT_SUCCESS, fd), v) \<and>
      sys_always_ok v \<and> P fd v"
  shows "\<exists>fd v u c data. P fd v \<and>
    perform_init_handshake E req_fd callback tid s = Ret (if t = request_val UDI_REQ_INIT then RESULT_SUCCESS else RESULT_ERROR,
      u\<lparr>sys_count := c, out_data := (out_data v)(fd := out_data v fd @
        response_bytes E (if t = request_val UDI_REQ_INIT then UDI_RESP_VALID else UDI_RESP_ERROR) t (Some data))\<rparr>) \<and>
    (if t = request_val UDI_REQ_INIT
     then u = v \<and> data = cbor_map_of 4 [(''v'', CUint32 get_protocol_version), (''arch'', CUint16 (of_nat (arch_val get_architecture))),
       (''mt'', CBool (get_multithread_capable v)), (''tid'', CUint64 tid)]
     else u = udi_set_errmsg E ''received invalid request type(%s) as init request'' [ArgStr (request_type_str t)] v \<and>
       data = error_data E u)"
proof -
  obtain c where read: "read_request_type E req_fd (request_val UDI_REQ_INVALID) s =
      Ret ((RESULT_SUCCESS, t), s\<lparr>sys_count := c, in_data := (in_data s)(req_fd := rest)\<rparr>)"
    using read_request_type_ok [OF assms(1,4,5)] by blast
  obtain fd v where call: "callback (s\<lparr>sys_count := c, in_data := (in_data s)(req_fd := rest)\<rparr>) = Ret ((RESULT_SUCCESS, fd), v)"
    and v: "sys_always_ok v" "P fd v" using cb by blast
  show ?thesis
  proof (cases "t = request_val UDI_REQ_INIT")
    case True
    let ?m = "cbor_map_of 4 [(''v'', CUint32 get_protocol_version), (''arch'', CUint16 (of_nat (arch_val get_architecture))),
      (''mt'', CBool (get_multithread_capable v)), (''tid'', CUint64 tid)]"
    have "perform_init_handshake E req_fd callback tid s =
        write_response E fd UDI_RESP_VALID (request_val UDI_REQ_INIT) (Some ?m) v"
      using True assms(3) by (simp add: perform_init_handshake_def read call init_handler_def cbor_build_map_ok)
    then show ?thesis
      using write_response_ok [OF v(1) assms(2), of fd UDI_RESP_VALID "request_val UDI_REQ_INIT" "Some ?m"] True v(2) by auto
  next
    case False
    let ?e = "udi_set_errmsg E ''received invalid request type(%s) as init request'' [ArgStr (request_type_str t)] v"
    have "sys_always_ok ?e" using v(1) by simp
    from finish_request_error_ok [OF this assms(2,3) response_ne(2), of fd t] obtain c' r where
      "write_error_response E fd t ?e = Ret (r, ?e\<lparr>sys_count := c', out_data := (out_data v)(fd := out_data v fd @
        response_bytes E UDI_RESP_ERROR t (Some (error_data E ?e)))\<rparr>)"
      by (auto simp: finish_request_def run_bind_eq_Ret response_ne)
    then have "perform_init_handshake E req_fd callback tid s = Ret (RESULT_ERROR,
        ?e\<lparr>sys_count := c', out_data := (out_data v)(fd := out_data v fd @
          response_bytes E UDI_RESP_ERROR t (Some (error_data E ?e)))\<rparr>)"
      using False by (simp add: perform_init_handshake_def read call)
    then show ?thesis using False v(2) by auto
  qed
qed

end
