(* ===== verification/Events.thy ===== *)
theory Events
  imports Request_Effects
begin

text \<open>
  Events (\<^verbatim>\<open>udirt-msg.c\<close> lines 1547 to 1794, \<^verbatim>\<open>udirt-posix-sys.c\<close> and \<^verbatim>\<open>udirt-posix.c\<close>): the
  messages that report them, the decoding of a trap into a single step, the end of a step over
  a breakpoint, the exit of the process or a user breakpoint, the arming of the next
  single step, and the handshakes that open the streams. Logging is off, so that the arguments of the log calls are not
  evaluated.
\<close>

section \<open>Definitions\<close>

text \<open>
  The descriptor of the events file, the breakpoint at \<^verbatim>\<open>exit\<close>, the descriptors of the process and
  the names of its files, whether debugging is enabled, and the variable of
  \<^verbatim>\<open>handshake_with_debugger\<close> that its callback sets.
\<close>

record evt_state = req_state +
  events_handle :: nat
  exit_bp :: ptr
  proc_request_handle :: nat
  proc_response_handle :: nat
  requestfile_name :: string
  responsefile_name :: string
  eventsfile_name :: string
  udi_enabled :: bool
  init_thr :: ptr

subsection \<open>Messages\<close>

definition write_event ::
    "env \<Rightarrow> nat \<Rightarrow> udi_event_type_e \<Rightarrow> u64 \<Rightarrow> cbor_item option \<Rightarrow> 'z io_state_scheme \<Rightarrow> (int \<times> 'z io_state_scheme) run" where
  "write_event E fd event_type tid data s =
     run_bind (write_cbor_item E fd (CUint16 (of_nat (event_val event_type))) ''event type'' s) (\<lambda>(result, s).
       if result \<noteq> RESULT_SUCCESS then Ret (result, s)
       else run_bind (write_cbor_item E fd (CUint64 tid) ''tid'' s) (\<lambda>(result, s).
         if result \<noteq> RESULT_SUCCESS then Ret (result, s)
         else (case data of
             Some item \<Rightarrow> write_cbor_item E fd item ''event data'' s
           | None \<Rightarrow> Ret (RESULT_SUCCESS, s))))"

definition write_event_no_data ::
    "env \<Rightarrow> nat \<Rightarrow> udi_event_type_e \<Rightarrow> u64 \<Rightarrow> 'z io_state_scheme \<Rightarrow> (int \<times> 'z io_state_scheme) run" where
  "write_event_no_data E fd event_type tid s = write_event E fd event_type tid None s"

definition handle_thread_death_event :: "env \<Rightarrow> u64 \<Rightarrow> 'z evt_state_scheme \<Rightarrow> (int \<times> 'z evt_state_scheme) run" where
  "handle_thread_death_event E tid s = write_event_no_data E (events_handle s) UDI_EVENT_THREAD_DEATH tid s"

text \<open>The sign of the status selects the major type; the payload is the 32-bit pattern of the status in both cases.\<close>

definition handle_exit_event :: "env \<Rightarrow> u64 \<Rightarrow> int \<Rightarrow> 'z evt_state_scheme \<Rightarrow> (int \<times> 'z evt_state_scheme) run" where
  "handle_exit_event E tid status s =
     run_bind (cbor_build_map E 1
         [(''code'', if status \<ge> 0 then CUint32 (word_of_int status) else CNegint32 (word_of_int status))]) (\<lambda>map.
       write_event E (events_handle s) UDI_EVENT_PROCESS_EXIT tid (Some map) s)"

definition handle_fork_event :: "env \<Rightarrow> u64 \<Rightarrow> u32 \<Rightarrow> 'z evt_state_scheme \<Rightarrow> (int \<times> 'z evt_state_scheme) run" where
  "handle_fork_event E tid pid s =
     run_bind (cbor_build_map E 1 [(''pid'', CUint32 pid)]) (\<lambda>map.
       write_event E (events_handle s) UDI_EVENT_PROCESS_FORK tid (Some map) s)"

definition handle_thread_create_event :: "env \<Rightarrow> u64 \<Rightarrow> u64 \<Rightarrow> 'z evt_state_scheme \<Rightarrow> (int \<times> 'z evt_state_scheme) run" where
  "handle_thread_create_event E creator_tid tid s =
     run_bind (cbor_build_map E 1 [(''tid'', CUint64 tid)]) (\<lambda>map.
       write_event E (events_handle s) UDI_EVENT_THREAD_CREATE creator_tid (Some map) s)"

definition handle_unknown_event :: "env \<Rightarrow> u64 \<Rightarrow> 'z evt_state_scheme \<Rightarrow> (int \<times> 'z evt_state_scheme) run" where
  "handle_unknown_event E tid s = write_event_no_data E (events_handle s) UDI_EVENT_UNKNOWN tid s"

definition handle_error_event :: "env \<Rightarrow> u64 \<Rightarrow> 'z evt_state_scheme \<Rightarrow> (int \<times> 'z evt_state_scheme) run" where
  "handle_error_event E tid s =
     run_bind (cbor_build_map E 1 [(''msg'', CString (errmsg_text E s))]) (\<lambda>map.
       write_event E (events_handle s) UDI_EVENT_ERROR tid (Some map) s)"

subsection \<open>The exit breakpoint\<close>

definition install_event_breakpoints :: "env \<Rightarrow> 'z evt_state_scheme \<Rightarrow> (int \<times> 'z evt_state_scheme) run" where
  "install_event_breakpoints E s =
     run_bind (create_breakpoint (env_exit_addr E) s) (\<lambda>(p, s).
       let s = s\<lparr>exit_bp := p\<rparr> in
       if p = NULL then Ret (- 1, s)
       else run_bind (install_breakpoint E p s) (\<lambda>(errnum, s). Ret (if errnum \<noteq> 0 then - 1 else 0, s)))"

definition handle_exit_breakpoint :: "env \<Rightarrow> ucontext \<Rightarrow> 'z evt_state_scheme \<Rightarrow> (int \<times> 'z evt_state_scheme) run" where
  "handle_exit_breakpoint E c s =
     run_bind (get_exit_argument E c 0 s) (\<lambda>(result, status, s).
       if result \<noteq> RESULT_SUCCESS then Ret (result, s)
       else
         let s = s\<lparr>exiting := True\<rparr> in
         handle_exit_event E (get_user_thread_id s) (sint status) s)"

definition is_event_breakpoint :: "ptr \<Rightarrow> 'z evt_state_scheme \<Rightarrow> bool" where
  "is_event_breakpoint bp s \<longleftrightarrow> bp = exit_bp s"

definition handle_event_breakpoint :: "env \<Rightarrow> ptr \<Rightarrow> ucontext \<Rightarrow> 'z evt_state_scheme \<Rightarrow> (int \<times> 'z evt_state_scheme) run" where
  "handle_event_breakpoint E bp c s =
     (if bp = exit_bp s then handle_exit_breakpoint E c s else Ret (RESULT_ERROR, s))"

subsection \<open>Traps\<close>

text \<open>
  The end of a step over a breakpoint: the continue breakpoint is deleted, the one stepped over
  put back. The result is the one that the deletion left.
\<close>

definition reinstall_original :: "env \<Rightarrow> int \<Rightarrow> 'z req_state_scheme \<Rightarrow> (int \<times> 'z req_state_scheme) run" where
  "reinstall_original E result s =
     run_bind (find_breakpoint (last_bp_address s) s) (\<lambda>original_bp.
       if original_bp = NULL then Ret (result, s)
       else
         let s = s\<lparr>last_bp_address := 0\<rparr> in
         run_bind (deref (bp_heap s) original_bp) (\<lambda>b.
           if in_memory b
           then run_bind (set_in_memory original_bp False s) (\<lambda>s.
             run_bind (install_breakpoint E original_bp s) (\<lambda>(install_result, s).
               Ret (if install_result \<noteq> 0 then RESULT_ERROR else result, s)))
           else Ret (result, s)))"

definition continue_breakpoint_hit ::
    "env \<Rightarrow> ptr \<Rightarrow> ptr \<Rightarrow> 'z evt_state_scheme \<Rightarrow> ((int \<times> bool) \<times> 'z evt_state_scheme) run" where
  "continue_breakpoint_hit E thr bp s =
     (let s = s\<lparr>continue_bp := NULL\<rparr> in
      run_bind (delete_breakpoint E bp s) (\<lambda>(delete_result, s).
      run_bind (reinstall_original E (if delete_result \<noteq> 0 then RESULT_ERROR else RESULT_SUCCESS) s) (\<lambda>(result, s).
        if result = RESULT_SUCCESS \<and> thr \<noteq> NULL
        then run_bind (is_single_step thr s) (\<lambda>ss.
          if ss
          then run_bind (get_thread_id thr s) (\<lambda>tid.
            run_bind (write_event_no_data E (events_handle s) UDI_EVENT_SINGLE_STEP tid s) (\<lambda>(result, s).
              Ret ((result, True), s)))
          else Ret ((result, False), s))
        else Ret ((result, False), s))))"

definition single_step_hit :: "env \<Rightarrow> ptr \<Rightarrow> ptr \<Rightarrow> 'z evt_state_scheme \<Rightarrow> (int \<times> 'z evt_state_scheme) run" where
  "single_step_hit E thr bp s =
     run_bind (delete_breakpoint E bp s) (\<lambda>(delete_result, s).
       if delete_result \<noteq> 0
       then run_bind (deref (bp_heap s) bp) (\<lambda>b.
         Ret (RESULT_ERROR, udi_set_errmsg E ''failed to delete breakpoint at %a'' [ArgU64 (address b)] s))
       else run_bind (get_thread_id thr s) (\<lambda>tid.
         run_bind (write_event_no_data E (events_handle s) UDI_EVENT_SINGLE_STEP tid s) (\<lambda>(result, s).
           run_bind (set_single_step_breakpoint thr NULL s) (\<lambda>s. Ret (result, s)))))"

definition user_breakpoint_hit ::
    "env \<Rightarrow> ptr \<Rightarrow> ptr \<Rightarrow> ucontext \<Rightarrow> bool \<Rightarrow> 'z evt_state_scheme \<Rightarrow> ((int \<times> bool) \<times> 'z evt_state_scheme) run" where
  "user_breakpoint_hit E thr bp c wait_for_request s =
     run_bind (deref (bp_heap s) bp) (\<lambda>b.
     run_bind (get_ctf_successor E (address b) c s) (\<lambda>(successor, s).
       if successor = 0 then Ret ((RESULT_ERROR, wait_for_request), s)
       else run_bind (create_breakpoint successor s) (\<lambda>(p, s).
         let s = s\<lparr>continue_bp := p\<rparr> in
         if p = NULL then Ret ((RESULT_ERROR, wait_for_request), s)
         else
           let s = s\<lparr>last_bp_address := address b\<rparr> in
           if is_event_breakpoint bp s
           then run_bind (handle_event_breakpoint E bp c s) (\<lambda>(result, s). Ret ((result, wait_for_request), s))
           else if bp_thread b \<noteq> NULL \<and> bp_thread b \<noteq> thr then Ret ((RESULT_ERROR, False), s)
           else run_bind (cbor_build_map E 1 [(''addr'', CUint64 (address b))]) (\<lambda>map.
             run_bind (get_thread_id thr s) (\<lambda>tid.
             run_bind (write_event E (events_handle s) UDI_EVENT_BREAKPOINT tid (Some map) s) (\<lambda>(result, s).
               Ret ((result, wait_for_request), s)))))))"

text \<open>The context of the signal is returned as changed.\<close>

definition decode_breakpoint ::
    "env \<Rightarrow> ptr \<Rightarrow> ptr \<Rightarrow> ucontext \<Rightarrow> bool \<Rightarrow> 'z evt_state_scheme \<Rightarrow> ((int \<times> bool \<times> ucontext) \<times> 'z evt_state_scheme) run" where
  "decode_breakpoint E thr bp c wait_for_request s =
     (let c = rewind_pc c in
      run_bind
        (if thr \<noteq> NULL
         then run_bind (get_thread_context thr s) (\<lambda>tc. set_thread_context thr (rewind_pc tc) s)
         else Ret s) (\<lambda>s.
      run_bind
        (if thr \<noteq> NULL then run_bind (get_single_step_breakpoint thr s) (\<lambda>p. Ret (p = bp)) else Ret False) (\<lambda>is_step.
        if is_step
        then run_bind (single_step_hit E thr bp s) (\<lambda>(result, s). Ret ((result, wait_for_request, c), s))
        else run_bind (remove_breakpoint_for_continue E bp s) (\<lambda>(remove_result, s).
          if remove_result \<noteq> 0 then Ret ((RESULT_ERROR, wait_for_request, c), s)
          else run_bind
            (if continue_bp s = bp then continue_breakpoint_hit E thr bp s
             else user_breakpoint_hit E thr bp c wait_for_request s)
            (\<lambda>((result, wait_for_request), s). Ret ((result, wait_for_request, c), s))))))"

text \<open>A trap at an address without a breakpoint aborts the process.\<close>

definition decode_trap ::
    "env \<Rightarrow> ptr \<Rightarrow> ucontext \<Rightarrow> bool \<Rightarrow> 'z evt_state_scheme \<Rightarrow> ((int \<times> bool \<times> ucontext) \<times> 'z evt_state_scheme) run" where
  "decode_trap E thr c wait_for_request s =
     run_bind (find_breakpoint (get_trap_address c) s) (\<lambda>bp.
       if bp \<noteq> NULL then decode_breakpoint E thr bp c wait_for_request s else Abort)"

subsection \<open>Arming a single step\<close>

text \<open>The part of \<^verbatim>\<open>signal_entry_impl\<close> after the decoding of the signal.\<close>

definition arm_single_step :: "env \<Rightarrow> ptr \<Rightarrow> ucontext \<Rightarrow> int \<Rightarrow> 'z evt_state_scheme \<Rightarrow> (int \<times> 'z evt_state_scheme) run" where
  "arm_single_step E thr c result s =
     run_bind (if thr \<noteq> NULL then is_single_step thr s else Ret False) (\<lambda>ss.
       if \<not> ss then Ret (result, s)
       else run_bind (get_ctf_successor E (get_pc c) c s) (\<lambda>(successor, s).
         if successor = 0 then Ret (RESULT_ERROR, s)
         else run_bind (find_breakpoint successor s) (\<lambda>existing_bp.
           if existing_bp \<noteq> NULL then Ret (result, s)
           else run_bind (create_breakpoint successor s) (\<lambda>(p, s).
             run_bind (set_single_step_breakpoint thr p s) (\<lambda>s.
               if p = NULL then Ret (RESULT_ERROR, s)
               else run_bind (deref (bp_heap s) p) (\<lambda>b.
                 let s = s\<lparr>bp_heap := (bp_heap s)(p \<mapsto> b\<lparr>bp_thread := thr\<rparr>)\<rparr> in
                 run_bind (install_breakpoint E p s) (\<lambda>(install_result, s).
                   Ret (if install_result \<noteq> 0 then RESULT_ERROR else result, s))))))))"

subsection \<open>Handshakes\<close>

definition thread_create_response_fd_callback ::
    "env \<Rightarrow> ptr \<Rightarrow> string \<Rightarrow> 'z thr_state_scheme \<Rightarrow> ((int \<times> nat) \<times> 'z thr_state_scheme) run" where
  "thread_create_response_fd_callback E thr response_file s =
     (case sys_open response_file s of (r, s) \<Rightarrow>
        run_bind (update_thread thr (\<lambda>t. t\<lparr>response_handle := (case r of Inl _ \<Rightarrow> - 1 | Inr fd \<Rightarrow> fd)\<rparr>) s) (\<lambda>s.
          case r of
            Inl errno \<Rightarrow> Ret ((RESULT_ERROR, 0), udi_set_errmsg E ''failed to open %s: %e'' [ArgStr response_file, ArgInt (int errno)] s)
          | Inr fd \<Rightarrow> Ret ((RESULT_SUCCESS, nat fd), s)))"

text \<open>The steps that need a path end with an error when it cannot be built.\<close>

definition with_file ::
    "(string option \<times> 'z thr_state_scheme) run \<Rightarrow> (string \<Rightarrow> 'z thr_state_scheme \<Rightarrow> (int \<times> 'z thr_state_scheme) run)
       \<Rightarrow> (int \<times> 'z thr_state_scheme) run" where
  "with_file m f = run_bind m (\<lambda>(path, s). case path of None \<Rightarrow> Ret (RESULT_ERROR, s) | Some path \<Rightarrow> f path s)"

definition thread_create_handshake :: "env \<Rightarrow> ptr \<Rightarrow> 'z thr_state_scheme \<Rightarrow> (int \<times> 'z thr_state_scheme) run" where
  "thread_create_handshake E thr s =
     with_file (get_thread_dir E thr s) (\<lambda>thread_dir s.
     with_file (get_thread_file E thread_dir RESPONSE_FILE_NAME s) (\<lambda>response_file s.
     with_file (get_thread_file E thread_dir REQUEST_FILE_NAME s) (\<lambda>request_file s.
       case sys_open request_file s of (r, s) \<Rightarrow>
         run_bind (update_thread thr (\<lambda>t. t\<lparr>request_handle := (case r of Inl _ \<Rightarrow> - 1 | Inr fd \<Rightarrow> fd)\<rparr>) s) (\<lambda>s.
           case r of
             Inl errno \<Rightarrow> Ret (RESULT_ERROR, udi_set_errmsg E ''failed to open %s: %e'' [ArgStr request_file, ArgInt (int errno)] s)
           | Inr fd \<Rightarrow> run_bind (get_thread_id thr s) (\<lambda>tid.
               perform_init_handshake E (nat fd) (thread_create_response_fd_callback E thr response_file) tid s)))))"

definition process_response_fd_callback ::
    "env \<Rightarrow> 'z evt_state_scheme \<Rightarrow> ((int \<times> nat) \<times> 'z evt_state_scheme) run" where
  "process_response_fd_callback E s =
     (case sys_open (responsefile_name s) s of (r, s) \<Rightarrow>
        case r of
          Inl errno \<Rightarrow> Ret ((RESULT_ERROR, 0), udi_set_errmsg E ''error opening response file fifo: %e'' [ArgInt (int errno)] s)
        | Inr fd \<Rightarrow>
            let s = s\<lparr>proc_response_handle := nat fd\<rparr> in
            run_bind (create_initial_thread s) (\<lambda>(thr, s).
              if thr = NULL then Ret ((RESULT_ERROR, 0), udi_set_errmsg E ''failed to create initial thread'' [] s)
              else run_bind (thread_create_callback E thr s) (\<lambda>(result, s).
                if result \<noteq> 0 then Ret ((RESULT_ERROR, 0), s)
                else (case sys_open (eventsfile_name s) s of (r, s) \<Rightarrow>
                  case r of
                    Inl errno \<Rightarrow> Ret ((RESULT_ERROR, 0), udi_set_errmsg E ''error opening response file fifo: %e'' [ArgInt (int errno)] s)
                  | Inr efd \<Rightarrow> Ret ((RESULT_SUCCESS, nat fd), s\<lparr>events_handle := nat efd, init_thr := thr\<rparr>)))))"

definition handshake_with_debugger :: "env \<Rightarrow> 'z evt_state_scheme \<Rightarrow> (int \<times> 'z evt_state_scheme) run" where
  "handshake_with_debugger E s =
     (case sys_open (requestfile_name s) s of (r, s) \<Rightarrow>
        case r of
          Inl errno \<Rightarrow> Ret (RESULT_ERROR, udi_set_errmsg E ''error opening request file fifo: %e'' [ArgInt (int errno)] s)
        | Inr fd \<Rightarrow>
            let s = s\<lparr>proc_request_handle := nat fd, init_thr := NULL\<rparr> in
            run_bind (perform_init_handshake E (nat fd) (process_response_fd_callback E) (get_user_thread_id s) s) (\<lambda>(result, s).
              if result \<noteq> RESULT_SUCCESS then Ret (result, s)
              else run_bind (thread_create_handshake E (init_thr s) s) (\<lambda>(result, s).
                if result \<noteq> RESULT_SUCCESS then Ret (result, s) else Ret (result, s\<lparr>udi_enabled := True\<rparr>))))"

section \<open>Messages and reachability\<close>

text \<open>The bytes of an event, in the order the debugger reads them.\<close>

definition event_bytes :: "env \<Rightarrow> udi_event_type_e \<Rightarrow> u64 \<Rightarrow> cbor_item option \<Rightarrow> u8 list" where
  "event_bytes E event_type tid data =
     env_cbor_serialize E (CUint16 (of_nat (event_val event_type))) @ env_cbor_serialize E (CUint64 tid) @
     (case data of None \<Rightarrow> [] | Some item \<Rightarrow> env_cbor_serialize E item)"

lemma write_event_ok:
  assumes ok: "sys_always_ok s" and ser: "serializer_ok E"
  shows "\<exists>c. write_event E fd event_type tid data s = Ret (RESULT_SUCCESS,
    s\<lparr>sys_count := c, out_data := (out_data s)(fd := out_data s fd @ event_bytes E event_type tid data)\<rparr>)"
proof -
  let ?b1 = "env_cbor_serialize E (CUint16 (of_nat (event_val event_type)))"
  let ?b2 = "env_cbor_serialize E (CUint64 tid)"
  obtain c1 where w1: "write_cbor_item E fd (CUint16 (of_nat (event_val event_type))) ''event type'' s =
      Ret (RESULT_SUCCESS, s\<lparr>sys_count := c1, out_data := (out_data s)(fd := out_data s fd @ ?b1)\<rparr>)"
    using write_cbor_item_ok [OF assms] by blast
  let ?s1 = "s\<lparr>sys_count := c1, out_data := (out_data s)(fd := out_data s fd @ ?b1)\<rparr>"
  have "sys_always_ok ?s1" using ok by simp
  from write_cbor_item_ok [OF this ser, of fd "CUint64 tid" "''tid''"] obtain c2 where
    w2: "write_cbor_item E fd (CUint64 tid) ''tid'' ?s1 =
      Ret (RESULT_SUCCESS, s\<lparr>sys_count := c2, out_data := (out_data s)(fd := out_data s fd @ ?b1 @ ?b2)\<rparr>)"
    by auto
  let ?s2 = "s\<lparr>sys_count := c2, out_data := (out_data s)(fd := out_data s fd @ ?b1 @ ?b2)\<rparr>"
  show ?thesis
  proof (cases data)
    case None
    then show ?thesis using w1 w2 by (auto simp: write_event_def event_bytes_def)
  next
    case (Some item)
    have "sys_always_ok ?s2" using ok by simp
    from write_cbor_item_ok [OF this ser, of fd item "''event data''"] show ?thesis
      using w1 w2 Some by (auto simp: write_event_def event_bytes_def)
  qed
qed

lemma evt_more:
  assumes "bp_state.more s' = bp_state.more s"
  shows "thr_heap s' = thr_heap s" "threads s' = threads s" "continue_bp s' = continue_bp s"
    "last_bp_address s' = last_bp_address s" "exit_bp s' = exit_bp s" "events_handle s' = events_handle s"
    "in_data s' = in_data s" "out_data s' = out_data s"
  using assms by (cases s; cases s'; simp)+

text \<open>Bytes that stay reachable.\<close>

definition keeps_reachable :: "env \<Rightarrow> 'z mem_state_scheme \<Rightarrow> 'z mem_state_scheme \<Rightarrow> bool" where
  "keeps_reachable E s s' \<longleftrightarrow> (\<forall>x. byte_reachable E x s \<longrightarrow> byte_reachable E x s')"

lemma keeps_reachable_refl [simp]: "keeps_reachable E s s"
  by (simp add: keeps_reachable_def)

lemma keeps_reachableD: "keeps_reachable E s s' \<Longrightarrow> byte_reachable E x s \<Longrightarrow> byte_reachable E x s'"
  by (simp add: keeps_reachable_def)

lemma byte_reachable_bp [simp]:
  "byte_reachable E a (s\<lparr>bp_heap := h\<rparr>) = byte_reachable E a s" "byte_reachable E a (s\<lparr>breakpoints := g\<rparr>) = byte_reachable E a s"
  "byte_reachable E a (t\<lparr>out_data := d\<rparr>) = byte_reachable E a t" "byte_reachable E a (u\<lparr>thr_heap := th\<rparr>) = byte_reachable E a u"
  "byte_reachable E a (v\<lparr>continue_bp := p\<rparr>) = byte_reachable E a v" "byte_reachable E a (v\<lparr>last_bp_address := l\<rparr>) = byte_reachable E a v"
  by (simp_all add: byte_reachable_def sys_always_ok_def)

lemma read_memory_reach:
  assumes "byte_reachable E a s"
  shows "\<exists>s'. read_memory E a 1 s = Ret (0, [mem s a], s') \<and> keeps_reachable E s s'"
proof -
  have "hooks_ok s" "accessible E FromDebuggee a 1 s" "\<not> aborting_mem_access s"
    using assms by (auto simp: byte_reachable_def hooks_ok_def sys_ok_def sys_always_ok_def accessible_def access_fault_def)
  from read_memory_ok [OF this] show ?thesis
    by (simp add: keeps_reachable_def byte_reachable_def sys_always_ok_def)
qed

lemma write_memory_reach:
  assumes "byte_reachable E a s"
  shows "\<exists>s'. write_memory E a [x] s = Ret (0, s') \<and> keeps_reachable E s s'"
proof -
  have w: "openable E a (length [x]) s" "\<not> aborting_mem_access s" "length [x] \<le> 2 ^ 64"
    using assms by (auto simp: byte_reachable_def openable_def range_pages_one)
  have ok: "sys_ok s k" for k
    using assms by (simp add: byte_reachable_def sys_ok_def sys_always_ok_def)
  show ?thesis
  proof (cases "accessible E (ToDebuggee [x]) a (length [x]) s")
    case True
    with write_memory_ok [OF _ True w(2,3)] ok show ?thesis
      by (simp add: hooks_ok_def keeps_reachable_def byte_reachable_def sys_always_ok_def)
  next
    case False
    from write_memory_opens [OF ok ok ok ok ok w(1) False w(2,3)] show ?thesis
      by (fastforce simp: keeps_reachable_def byte_reachable_def sys_always_ok_def)
  qed
qed

lemma install_breakpoint_reach:
  assumes t: "bp_table s" and l: "bp_lookup s a = Some p" and r: "byte_reachable E a s"
  shows "\<exists>s'. install_breakpoint E p s = Ret (0, s') \<and> keeps_reachable E s s'"
proof -
  obtain b where b: "p \<noteq> NULL" "bp_heap s p = Some b" "address b = a"
    using bp_lookup_live [OF t l] by blast
  obtain s1 where s1: "read_memory E a 1 s = Ret (0, [mem s a], s1)" "keeps_reachable E s s1"
    using read_memory_reach [OF r] by blast
  let ?s = "s1\<lparr>bp_heap := (bp_heap s1)(p \<mapsto> b\<lparr>saved_bytes := [mem s a] @ drop 1 (saved_bytes b)\<rparr>)\<rparr>"
  have "byte_reachable E a ?s" using keeps_reachableD [OF s1(2) r] by simp
  then obtain s2 where s2: "write_memory E a [BREAKPOINT_INSN] ?s = Ret (0, s2)" "keeps_reachable E ?s s2"
    using write_memory_reach by blast
  have "bp_heap s2 p \<noteq> None"
    using memory.write_client [OF s2(1)] bp_more(1) [of s2 ?s] by simp
  moreover have "keeps_reachable E s s2" using s1(2) s2(2) by (simp add: keeps_reachable_def)
  ultimately show ?thesis
    using b s1(1) s2(1)
    by (auto simp: install_breakpoint_def write_breakpoint_instruction_def set_in_memory_def deref_def Let_def keeps_reachable_def)
qed

lemma saved_byte_reach:
  assumes t: "bp_table s" and l: "bp_lookup s a = Some p" and r: "byte_reachable E a s"
  shows "\<exists>s'. remove_breakpoint_for_continue E p s = Ret (0, s') \<and> keeps_reachable E s s'"
    and "\<exists>s'. remove_breakpoint E p s = Ret (0, s') \<and> keeps_reachable E s s'"
proof -
  obtain b where b: "p \<noteq> NULL" "bp_heap s p = Some b" "address b = a" "length (saved_bytes b) = 8"
    using bp_lookup_live [OF t l] by blast
  obtain s2 where s2: "write_memory E a [hd (saved_bytes b)] s = Ret (0, s2)" "keeps_reachable E s s2"
    using write_memory_reach [OF r] by blast
  have one: "take 1 (saved_bytes b) = [hd (saved_bytes b)]"
    using b(4) by (cases "saved_bytes b") auto
  have h: "bp_heap s2 = bp_heap s"
    using memory.write_client [OF s2(1)] bp_more(1) [of s2 s] by simp
  show "\<exists>s'. remove_breakpoint_for_continue E p s = Ret (0, s') \<and> keeps_reachable E s s'"
    using b s2 one by (auto simp: remove_breakpoint_for_continue_def write_saved_bytes_def deref_def)
  show "\<exists>s'. remove_breakpoint E p s = Ret (0, s') \<and> keeps_reachable E s s'"
    using b s2 one h by (auto simp: remove_breakpoint_def write_saved_bytes_def set_in_memory_def deref_def keeps_reachable_def)
qed

lemma delete_breakpoint_reach:
  assumes t: "bp_table s" and l: "bp_lookup s a = Some p" and r: "byte_reachable E a s"
  shows "\<exists>s'. delete_breakpoint E p s = Ret (0, s') \<and> keeps_reachable E s s' \<and> bp_state.more s' = bp_state.more s"
proof -
  obtain s1 where s1: "remove_breakpoint E p s = Ret (0, s1)" "keeps_reachable E s s1"
    using saved_byte_reach(2) [OF assms] by blast
  have m: "bp_state.more s1 = bp_state.more s" using remove_plain(1) [OF t l s1(1)] by (simp add: bp_frame_def)
  show ?thesis
  proof (rule delete_breakpoint_table [OF t l s1(1)])
    fix s2
    assume d: "delete_breakpoint E p s = Ret (0, s2)" and "\<exists>h bs. s2 = s1\<lparr>bp_heap := h, breakpoints := bs\<rparr>"
    then obtain h bs where "s2 = s1\<lparr>bp_heap := h, breakpoints := bs\<rparr>" by blast
    then show ?thesis using d s1(2) m by (auto simp: keeps_reachable_def)
  qed
qed

section \<open>Stepping over a breakpoint\<close>

text \<open>A thread that is not stepping, with its saved context rewound.\<close>

definition rewound :: "thread \<Rightarrow> thread" where
  "rewound t = t\<lparr>event_state := (event_state t)\<lparr>st_context := rewind_pc (st_context (event_state t))\<rparr>\<rparr>"

lemma decode_breakpoint_start:
  assumes "thr \<noteq> NULL" and "thr_heap s thr = Some t" and "single_step_bp t \<noteq> bp"
  shows "decode_breakpoint E thr bp c w s =
    run_bind (remove_breakpoint_for_continue E bp (s\<lparr>thr_heap := (thr_heap s)(thr \<mapsto> rewound t)\<rparr>)) (\<lambda>(remove_result, s).
      if remove_result \<noteq> 0 then Ret ((RESULT_ERROR, w, rewind_pc c), s)
      else run_bind
        (if continue_bp s = bp then continue_breakpoint_hit E thr bp s else user_breakpoint_hit E thr bp (rewind_pc c) w s)
        (\<lambda>((result, w), s). Ret ((result, w, rewind_pc c), s)))"
  using assms
  by (simp add: decode_breakpoint_def get_thread_context_def set_thread_context_def update_thread_def thread_at_def derefI
      get_single_step_breakpoint_def rewound_def Let_def)

lemma bp_upd_evt [simp]:
  "bp_table (u\<lparr>thr_heap := th\<rparr>) = bp_table u" "bp_lookup (u\<lparr>thr_heap := th\<rparr>) = bp_lookup u"
  "bp_table (v\<lparr>continue_bp := p\<rparr>) = bp_table v" "bp_lookup (v\<lparr>continue_bp := p\<rparr>) = bp_lookup v"
  "bp_table (v\<lparr>last_bp_address := l\<rparr>) = bp_table v" "bp_lookup (v\<lparr>last_bp_address := l\<rparr>) = bp_lookup v"
  by (simp_all add: bp_table_def fun_eq_iff bp_lookup_def)

lemma plain_mem_evt [simp]:
  "plain_mem (u\<lparr>thr_heap := th\<rparr>) = plain_mem u" "plain_mem (v\<lparr>continue_bp := p\<rparr>) = plain_mem v"
  "plain_mem (v\<lparr>last_bp_address := l\<rparr>) = plain_mem v"
  by (simp_all add: fun_eq_iff plain_mem_def split: option.split)

lemma bp_removable_upd [simp]:
  "bp_removable (s\<lparr>sys_count := c\<rparr>) a = bp_removable s a" "bp_removable (t\<lparr>out_data := d\<rparr>) a = bp_removable t a"
  "bp_removable (v\<lparr>continue_bp := p\<rparr>) a = bp_removable v a" "bp_removable (v\<lparr>last_bp_address := l\<rparr>) a = bp_removable v a"
  "bp_removable (u\<lparr>thr_heap := th\<rparr>) a = bp_removable u a"
  by (simp_all add: bp_removable_def)

text \<open>The report of a user breakpoint, from its byte restored to the event sent.\<close>

lemma user_breakpoint_hit_ok:
  assumes ok: "sys_always_ok s" "serializer_ok E" "builders_ok E" and t: "bp_table s" and p: "bp_lookup s a = Some p" "bp_heap s p = Some b"
    and user: "p \<noteq> exit_bp s" "bp_thread b = NULL" and thr: "thr \<noteq> NULL" "thr_heap s thr = Some th"
    and succ: "get_ctf_successor E a c s = Ret (n, s)" "n \<noteq> 0" and new: "bp_lookup s n = None" and fresh: "fresh_alloc (bp_heap s) s"
  shows "\<exists>q s'. user_breakpoint_hit E thr p c w s = Ret ((RESULT_SUCCESS, w), s') \<and> q \<noteq> NULL \<and> continue_bp s' = q \<and>
    last_bp_address s' = a \<and> mem s' = mem s \<and> plain_mem s' = plain_mem s \<and> bp_table s' \<and> bp_lookup s' = (bp_lookup s)(n \<mapsto> q) \<and>
    bp_removable s' n \<and> bp_heap s' q = Some (new_breakpoint n) \<and> (\<exists>m. bp_heap s' p = Some (b\<lparr>next_breakpoint := m\<rparr>)) \<and>
    keeps_reachable E s s' \<and> thr_heap s' = thr_heap s \<and>
    out_data s' = (out_data s)(events_handle s := out_data s (events_handle s) @
      event_bytes E UDI_EVENT_BREAKPOINT (thr_id th) (Some (cbor_map_of 1 [(''addr'', CUint64 a)])))"
proof -
  have addr: "address b = a" using bp_lookup_live [OF t p(1)] p(2) by auto
  obtain q u where create: "create_breakpoint n s = Ret (q, u)" and u: "bp_table u"
      "bp_lookup u = (if q = NULL then bp_lookup s else (bp_lookup s)(n \<mapsto> q))"
    and links: "bp_only_links (bp_heap s) (bp_heap u)"
    and frame: "\<exists>h bs. u = s\<lparr>sys_count := Suc (sys_count s), bp_heap := h, breakpoints := bs\<rparr>"
    and entry: "bp_lookup s n = None \<longrightarrow> q \<noteq> NULL \<longrightarrow> bp_heap u q = Some (new_breakpoint n) \<and> bp_removable u n"
    by (rule create_breakpoint_table [OF t, of n]) simp
  have q: "q \<noteq> NULL" using create_breakpoint_fresh [OF fresh create t new] .
  obtain h bs where uu: "u = s\<lparr>sys_count := Suc (sys_count s), bp_heap := h, breakpoints := bs\<rparr>" using frame by blast
  let ?v = "u\<lparr>continue_bp := q, last_bp_address := a\<rparr>"
  let ?m = "cbor_map_of 1 [(''addr'', CUint64 a)]"
  have "sys_always_ok ?v" using ok(1) by (simp add: uu sys_always_ok_def)
  from write_event_ok [OF this ok(2), of "events_handle s" UDI_EVENT_BREAKPOINT "thr_id th" "Some ?m"] obtain c' where
    ev: "write_event E (events_handle s) UDI_EVENT_BREAKPOINT (thr_id th) (Some ?m) ?v = Ret (RESULT_SUCCESS, ?v\<lparr>sys_count := c',
      out_data := (out_data s)(events_handle s := out_data s (events_handle s) @ event_bytes E UDI_EVENT_BREAKPOINT (thr_id th) (Some ?m))\<rparr>)"
    (is "_ = Ret (_, ?w)") by (auto simp: uu)
  have map: "cbor_build_map E 1 [(''addr'', CUint64 a)] = Ret ?m" using ok(3) by (simp add: cbor_build_map_ok)
  have "user_breakpoint_hit E thr p c w s = Ret ((RESULT_SUCCESS, w), ?w)"
    using p(2) bp_lookup_live [OF t p(1)] user thr succ q ev map
    by (simp add: user_breakpoint_hit_def derefI addr create is_event_breakpoint_def get_thread_id_def thread_at_def uu Let_def)
  moreover have "plain_mem u = plain_mem s" "mem u = mem s" using create_plain [OF t create] by simp_all
  moreover have "\<exists>m. bp_heap u p = Some (b\<lparr>next_breakpoint := m\<rparr>)" using links p(2) by (auto simp: bp_only_links_def)
  moreover have "keeps_reachable E s u" by (simp add: keeps_reachable_def uu)
  ultimately show ?thesis
    using q u entry new by (intro exI [of _ q] exI [of _ ?w]) (simp add: keeps_reachable_def, simp add: uu)
qed

text \<open>The breakpoint stepped over is put back by a new installation.\<close>

lemma reinstall_original_ok:
  assumes t: "bp_table s" and p: "bp_lookup s a = Some p" "bp_heap s p = Some b" "in_memory b" and last: "last_bp_address s = a"
    and plain: "mem s a = plain_mem s a" and reach: "byte_reachable E a s"
  shows "\<exists>s'. reinstall_original E RESULT_SUCCESS s = Ret (RESULT_SUCCESS, s') \<and> mem s' = (mem s)(a := BREAKPOINT_INSN) \<and>
    plain_mem s' = plain_mem s \<and> bp_table s' \<and> bp_lookup s' = bp_lookup s \<and> bp_state.more s' = bp_state.more (s\<lparr>last_bp_address := 0\<rparr>) \<and>
    (\<exists>b'. bp_heap s' p = Some b' \<and> in_memory b')"
proof -
  have live: "p \<noteq> NULL" "address b = a" "length (saved_bytes b) = 8" using bp_lookup_live [OF t p(1)] p(2) by auto
  let ?u = "s\<lparr>last_bp_address := 0, bp_heap := (bp_heap s)(p \<mapsto> b\<lparr>in_memory := False\<rparr>)\<rparr>"
  have "bp_same_links (bp_heap s) (bp_heap ?u)" using p(2) by (simp add: bp_same_links_upd)
  then have f: "bp_frame p (s\<lparr>last_bp_address := 0\<rparr>) ?u" by (simp add: bp_frame_def)
  have u: "bp_table ?u" "bp_lookup ?u = bp_lookup s" using bp_frame_table [OF f] t by simp_all
  have ul: "bp_lookup ?u a = Some p" using u p by simp
  have at: "plain_mem ?u a = plain_mem s a" using plain_mem_entry [OF ul, of "b\<lparr>in_memory := False\<rparr>"] plain by simp
  have "plain_mem ?u = plain_mem (s\<lparr>last_bp_address := 0\<rparr>)"
    by (rule plain_mem_frame [OF _ f]) (use t p at in simp_all)
  then have pm: "plain_mem ?u = plain_mem s" by simp
  obtain v where v: "install_breakpoint E p ?u = Ret (0, v)" "keeps_reachable E ?u v"
    using install_breakpoint_reach [OF u(1) ul] reach by auto
  note i = install_plain [OF u(1) ul v(1)]
  have "mem v = (mem s)(a := BREAKPOINT_INSN)" using i(4) [OF refl, of "b\<lparr>in_memory := False\<rparr>"] by simp
  moreover have "plain_mem v = plain_mem s" using i(2) pm by simp
  moreover have "bp_table v" "bp_lookup v = bp_lookup s" using bp_frame_table [OF i(1) u(1)] u(2) by simp_all
  moreover have "bp_state.more v = bp_state.more (s\<lparr>last_bp_address := 0\<rparr>)" using i(1) f by (simp add: bp_frame_def)
  moreover have "\<exists>b'. bp_heap v p = Some b' \<and> in_memory b'" using i(3) by simp
  moreover have "reinstall_original E RESULT_SUCCESS s = Ret (RESULT_SUCCESS, v)"
    using find_breakpoint_lookup [OF t, of a] p live v(1)
    by (simp add: reinstall_original_def last derefI set_in_memory_def Let_def)
  ultimately show ?thesis by blast
qed

lemma delete_keeps_object:
  assumes t: "bp_table s" and l: "bp_lookup s a = Some p" and run: "delete_breakpoint E p s = Ret (0, s')"
    and q: "q \<noteq> p" "bp_heap s q = Some b"
  shows "\<exists>n. bp_heap s' q = Some (b\<lparr>next_breakpoint := n\<rparr>)"
proof -
  obtain s1 where rem: "remove_breakpoint E p s = Ret (0, s1)"
    using run by (rule delete_removed)
  have "bp_heap s1 q = Some b" using remove_plain(1) [OF t l rem] q by (simp add: bp_frame_def)
  then show ?thesis
    using run q(1) by (auto intro: delete_breakpoint_table [OF t l rem])
qed

text \<open>The end of a step: the continue breakpoint is gone and the original one is back.\<close>

lemma continue_breakpoint_hit_ok:
  assumes t: "bp_table s" and q: "bp_lookup s n = Some q" "bp_removable s n" and reach: "byte_reachable E n s" "byte_reachable E a s"
    and p: "bp_lookup s a = Some p" "bp_heap s p = Some b" "in_memory b" "a \<noteq> n" and last: "last_bp_address s = a"
    and plain: "mem s a = plain_mem s a" and thr: "thr \<noteq> NULL" "thr_heap s thr = Some th" "\<not> single_step th"
  shows "\<exists>s'. continue_breakpoint_hit E thr q s = Ret ((RESULT_SUCCESS, False), s') \<and>
    mem s' = (mem s)(n := plain_mem s n, a := BREAKPOINT_INSN) \<and> plain_mem s' = plain_mem s \<and> bp_table s' \<and>
    bp_lookup s' = (bp_lookup s)(n := None) \<and> continue_bp s' = NULL \<and> last_bp_address s' = 0 \<and> out_data s' = out_data s \<and>
    (\<exists>b'. bp_heap s' p = Some b' \<and> in_memory b')"
proof -
  let ?s = "s\<lparr>continue_bp := NULL\<rparr>"
  have s: "bp_table ?s" "bp_lookup ?s n = Some q" "bp_removable ?s n" "byte_reachable E n ?s" using t q reach by simp_all
  obtain u where u: "delete_breakpoint E q ?s = Ret (0, u)" "keeps_reachable E ?s u" "bp_state.more u = bp_state.more ?s"
    using delete_breakpoint_reach [OF s(1,2,4)] by blast
  note d = delete_plain [OF s(1,2) u(1)] and l = table.remove_lookup [OF u(1) s(1-3)]
  have um: "mem u = (mem s)(n := plain_mem s n)" "plain_mem u = plain_mem s" using d s(3) by simp_all
  have ul: "bp_table u" "bp_lookup u = (bp_lookup s)(n := None)" using l by simp_all
  have "q \<noteq> p" using bp_lookup_inj [OF t q(1), of a] p(1,4) by auto
  then have up: "\<exists>b'. bp_heap u p = Some b' \<and> in_memory b'"
    using delete_keeps_object [OF s(1,2) u(1), of p b] p(2,3) by auto
  then obtain b' where b': "bp_heap u p = Some b'" "in_memory b'" by blast
  note more = evt_more [OF u(3)]
  have r: "bp_lookup u a = Some p" "last_bp_address u = a" "mem u a = plain_mem u a" "byte_reachable E a u"
    using ul p um last plain more keeps_reachableD [OF u(2), of a] reach by simp_all
  from reinstall_original_ok [OF ul(1) r(1) b' r(2-4)] obtain v where
    v: "reinstall_original E RESULT_SUCCESS u = Ret (RESULT_SUCCESS, v)" "mem v = (mem u)(a := BREAKPOINT_INSN)"
      "plain_mem v = plain_mem u" "bp_table v" "bp_lookup v = bp_lookup u" "bp_state.more v = bp_state.more (u\<lparr>last_bp_address := 0\<rparr>)"
      "\<exists>b'. bp_heap v p = Some b' \<and> in_memory b'" by blast
  note vm = evt_more [OF v(6)]
  have "continue_breakpoint_hit E thr q s = Ret ((RESULT_SUCCESS, False), v)"
    using u(1) v(1) thr vm more
    by (simp add: continue_breakpoint_hit_def is_single_step_def thread_at_def derefI Let_def)
  then show ?thesis using v um ul vm more by (intro exI [of _ v]) simp
qed

lemma remove_for_continue_oracle:
  "yields (remove_breakpoint_for_continue E bp s) (\<lambda>(r, s'). sys_oracle s' = sys_oracle s)"
proof -
  have "yields (write_memory E a bs s) (\<lambda>(r, s'). sys_oracle s' = sys_oracle s)" for a bs
    unfolding write_memory_def yields_simps
    by (rule yields_weaken [OF udi_memcpy_oracle]) auto
  then show ?thesis
    by (auto simp: remove_breakpoint_for_continue_def write_saved_bytes_def intro!: yields_deref)
qed

text \<open>The first half of a step: the breakpoint is hit.\<close>

lemma decode_user_breakpoint:
  fixes s :: "'z evt_state_scheme"
  assumes ok: "sys_always_ok s" "serializer_ok E" "builders_ok E" and t: "bp_table s"
    and p: "bp_lookup s a = Some p" "bp_heap s p = Some b"
    and user: "p \<noteq> exit_bp s" "bp_thread b = NULL" "continue_bp s \<noteq> p"
    and thr: "thr \<noteq> NULL" "thr_heap s thr = Some th" "single_step_bp th \<noteq> p"
    and succ: "\<forall>u :: 'z evt_state_scheme. mem u = (mem s)(a := plain_mem s a) \<longrightarrow> get_ctf_successor E a (rewind_pc c) u = Ret (n, u)" "n \<noteq> 0"
    and new: "bp_lookup s n = None" and fresh: "fresh_alloc (bp_heap s) s" and reach: "byte_reachable E a s"
  shows "\<exists>q s'. decode_breakpoint E thr p c w s = Ret ((RESULT_SUCCESS, w, rewind_pc c), s') \<and> q \<noteq> NULL \<and> continue_bp s' = q \<and>
    last_bp_address s' = a \<and> mem s' = (mem s)(a := plain_mem s a) \<and> plain_mem s' = plain_mem s \<and> bp_table s' \<and>
    bp_lookup s' = (bp_lookup s)(n \<mapsto> q) \<and> bp_removable s' n \<and> bp_heap s' q = Some (new_breakpoint n) \<and>
    (\<exists>m. bp_heap s' p = Some (b\<lparr>next_breakpoint := m\<rparr>)) \<and> keeps_reachable E s s' \<and>
    thr_heap s' = (thr_heap s)(thr \<mapsto> rewound th) \<and>
    out_data s' = (out_data s)(events_handle s := out_data s (events_handle s) @
      event_bytes E UDI_EVENT_BREAKPOINT (thr_id th) (Some (cbor_map_of 1 [(''addr'', CUint64 a)])))"
proof -
  let ?s = "s\<lparr>thr_heap := (thr_heap s)(thr \<mapsto> rewound th)\<rparr>"
  have s: "bp_table ?s" "bp_lookup ?s a = Some p" "byte_reachable E a ?s" using t p reach by simp_all
  obtain u where u: "remove_breakpoint_for_continue E p ?s = Ret (0, u)" "keeps_reachable E ?s u"
    using saved_byte_reach(1) [OF s] by blast
  note r = remove_for_continue_plain [OF s(1,2) u(1)]
  have um: "mem u = (mem s)(a := plain_mem s a)" "plain_mem u = plain_mem s" using r(3,4) by simp_all
  have ut: "bp_table u" "bp_lookup u = bp_lookup s" using bp_frame_table [OF r(1) s(1)] by simp_all
  have more: "bp_state.more u = bp_state.more ?s" using r(1) by (simp add: bp_frame_def)
  note m = evt_more [OF more]
  have "byte_reachable E a u" using keeps_reachableD [OF u(2) s(3)] .
  then have uok: "sys_always_ok u" by (simp add: byte_reachable_def)
  have orc: "sys_oracle u = sys_oracle s"
    using u(1) yields_D [OF remove_for_continue_oracle] by fastforce
  have hyps: "bp_lookup u a = Some p" "bp_heap u p = Some b" "p \<noteq> exit_bp u" "thr_heap u thr = Some (rewound th)"
    "get_ctf_successor E a (rewind_pc c) u = Ret (n, u)" "bp_lookup u n = None" "fresh_alloc (bp_heap u) u"
    using ut p r(2) user m thr succ um new fresh orc by (simp_all add: fresh_alloc_def)
  from user_breakpoint_hit_ok [OF uok ok(2,3) ut(1) hyps(1-3) user(2) thr(1) hyps(4,5) succ(2) hyps(6,7), of w]
  obtain q v where hit: "user_breakpoint_hit E thr p (rewind_pc c) w u = Ret ((RESULT_SUCCESS, w), v)"
    and v: "q \<noteq> NULL" "continue_bp v = q" "last_bp_address v = a" "mem v = mem u" "plain_mem v = plain_mem u" "bp_table v"
      "bp_lookup v = (bp_lookup u)(n \<mapsto> q)" "bp_removable v n" "bp_heap v q = Some (new_breakpoint n)"
      "\<exists>m. bp_heap v p = Some (b\<lparr>next_breakpoint := m\<rparr>)" "keeps_reachable E u v" "thr_heap v = thr_heap u"
      "out_data v = (out_data u)(events_handle u := out_data u (events_handle u) @
        event_bytes E UDI_EVENT_BREAKPOINT (thr_id (rewound th)) (Some (cbor_map_of 1 [(''addr'', CUint64 a)])))"
    by blast
  have "decode_breakpoint E thr p c w s = Ret ((RESULT_SUCCESS, w, rewind_pc c), v)"
    using user(3) m u(1) hit by (simp add: decode_breakpoint_start [OF thr])
  moreover have "keeps_reachable E s v" using u(2) v(11) by (simp add: keeps_reachable_def)
  moreover have "thr_id (rewound th) = thr_id th" by (simp add: rewound_def)
  ultimately show ?thesis using v um ut m by (intro exI [of _ q] exI [of _ v]) simp
qed

text \<open>The second half: the continue breakpoint is hit.\<close>

lemma decode_continue_breakpoint:
  assumes t: "bp_table s" and q: "bp_lookup s n = Some q" "bp_removable s n" "continue_bp s = q"
    and reach: "byte_reachable E n s" "byte_reachable E a s"
    and p: "bp_lookup s a = Some p" "bp_heap s p = Some b" "in_memory b" "a \<noteq> n" and last: "last_bp_address s = a"
    and plain: "mem s a = plain_mem s a"
    and thr: "thr \<noteq> NULL" "thr_heap s thr = Some th" "single_step_bp th \<noteq> q" "\<not> single_step th"
  shows "\<exists>s'. decode_breakpoint E thr q c w s = Ret ((RESULT_SUCCESS, False, rewind_pc c), s') \<and>
    mem s' = (mem s)(n := plain_mem s n, a := BREAKPOINT_INSN) \<and> plain_mem s' = plain_mem s \<and> bp_table s' \<and>
    bp_lookup s' = (bp_lookup s)(n := None) \<and> continue_bp s' = NULL \<and> last_bp_address s' = 0 \<and> out_data s' = out_data s \<and>
    (\<exists>b'. bp_heap s' p = Some b' \<and> in_memory b')"
proof -
  let ?s = "s\<lparr>thr_heap := (thr_heap s)(thr \<mapsto> rewound th)\<rparr>"
  have s: "bp_table ?s" "bp_lookup ?s n = Some q" "byte_reachable E n ?s" "bp_removable ?s n" using t q reach by simp_all
  obtain u where u: "remove_breakpoint_for_continue E q ?s = Ret (0, u)" "keeps_reachable E ?s u"
    using saved_byte_reach(1) [OF s(1-3)] by blast
  note r = remove_for_continue_plain [OF s(1,2) u(1)]
  have um: "mem u = (mem s)(n := plain_mem s n)" "plain_mem u = plain_mem s" using r(3,4) by simp_all
  have ut: "bp_table u" "bp_lookup u = bp_lookup s" using bp_frame_table [OF r(1) s(1)] by simp_all
  have more: "bp_state.more u = bp_state.more ?s" using r(1) by (simp add: bp_frame_def)
  note m = evt_more [OF more]
  have "rewound th = th\<lparr>event_state := event_state (rewound th)\<rparr>" by (simp add: rewound_def)
  then have hyps: "bp_lookup u n = Some q" "bp_lookup u a = Some p" "bp_heap u p = Some b" "last_bp_address u = a"
    "mem u a = plain_mem u a" "thr_heap u thr = Some (rewound th)" "\<not> single_step (rewound th)"
    using ut q p r(2) m last um plain thr by (simp_all add: rewound_def)
  have ru: "byte_reachable E n u" "byte_reachable E a u" using keeps_reachableD [OF u(2)] reach by simp_all
  from continue_breakpoint_hit_ok [OF ut(1) hyps(1) bp_removable_frame [OF r(1) s(1,4)] ru hyps(2,3) p(3,4) hyps(4,5) thr(1) hyps(6,7)]
  obtain v where v: "continue_breakpoint_hit E thr q u = Ret ((RESULT_SUCCESS, False), v)"
      "mem v = (mem u)(n := plain_mem u n, a := BREAKPOINT_INSN)" "plain_mem v = plain_mem u" "bp_table v"
      "bp_lookup v = (bp_lookup u)(n := None)" "continue_bp v = NULL" "last_bp_address v = 0" "out_data v = out_data u"
      "\<exists>b'. bp_heap v p = Some b' \<and> in_memory b'"
    by blast
  have "decode_breakpoint E thr q c w s = Ret ((RESULT_SUCCESS, False, rewind_pc c), v)"
    using q(3) m u(1) v(1) by (simp add: decode_breakpoint_start [OF thr(1-3)])
  then show ?thesis using v um ut m by (intro exI [of _ v]) simp
qed

text \<open>The continuation: the continue breakpoint is installed, hit and forgotten.\<close>

lemma continue_over_breakpoint:
  assumes t: "bp_table s" and q: "bp_lookup s n = Some q" "bp_removable s n" "bp_heap s q = Some (new_breakpoint n)" "continue_bp s = q"
    and reach: "byte_reachable E n s" "byte_reachable E a s"
    and p: "bp_lookup s a = Some p" "bp_heap s p = Some b" "in_memory b" "a \<noteq> n" and last: "last_bp_address s = a"
    and plain: "mem s a = plain_mem s a"
    and thr: "thr \<noteq> NULL" "thr_heap s thr = Some th" "single_step_bp th \<noteq> q" "\<not> single_step th"
  shows "\<exists>s2 s3. install_breakpoint E q s = Ret (0, s2) \<and> mem s2 = (mem s)(n := BREAKPOINT_INSN) \<and>
    decode_breakpoint E thr q c w s2 = Ret ((RESULT_SUCCESS, False, rewind_pc c), s3) \<and>
    mem s3 = (mem s)(n := plain_mem s n, a := BREAKPOINT_INSN) \<and> plain_mem s3 = plain_mem s \<and> bp_table s3 \<and>
    bp_lookup s3 = (bp_lookup s)(n := None) \<and> continue_bp s3 = NULL \<and> last_bp_address s3 = 0 \<and> out_data s3 = out_data s \<and>
    (\<exists>b'. bp_heap s3 p = Some b' \<and> in_memory b')"
proof -
  have "q \<noteq> p" using bp_lookup_inj [OF t q(1), of a] p(1,4) by auto
  obtain s2 where s2: "install_breakpoint E q s = Ret (0, s2)" "keeps_reachable E s s2"
    using install_breakpoint_reach [OF t q(1) reach(1)] by blast
  note i = install_plain [OF t q(1) s2(1)]
  have m2: "mem s2 = (mem s)(n := BREAKPOINT_INSN)" "plain_mem s2 = plain_mem s"
    using i(2) i(4) [OF refl q(3)] by (simp_all add: new_breakpoint_def)
  have t2: "bp_table s2" "bp_lookup s2 = bp_lookup s" "bp_removable s2 n"
    using bp_frame_table [OF i(1) t] bp_removable_frame [OF i(1) t q(2)] by simp_all
  have more: "bp_state.more s2 = bp_state.more s" and h2: "bp_heap s2 p = Some b"
    using i(1) \<open>q \<noteq> p\<close> p(2) by (simp_all add: bp_frame_def)
  note e2 = evt_more [OF more]
  have r2: "byte_reachable E n s2" "byte_reachable E a s2" using keeps_reachableD [OF s2(2)] reach by simp_all
  have h: "bp_lookup s2 n = Some q" "continue_bp s2 = q" "bp_lookup s2 a = Some p" "last_bp_address s2 = a"
    "mem s2 a = plain_mem s2 a" "thr_heap s2 thr = Some th"
    using q p t2 e2 m2 last plain thr by simp_all
  from decode_continue_breakpoint [OF t2(1) h(1) t2(3) h(2) r2 h(3) h2 p(3,4) h(4,5) thr(1) h(6) thr(3,4), of c w]
  obtain s3 where "decode_breakpoint E thr q c w s2 = Ret ((RESULT_SUCCESS, False, rewind_pc c), s3)"
      "mem s3 = (mem s2)(n := plain_mem s2 n, a := BREAKPOINT_INSN)" "plain_mem s3 = plain_mem s2" "bp_table s3"
      "bp_lookup s3 = (bp_lookup s2)(n := None)" "continue_bp s3 = NULL" "last_bp_address s3 = 0" "out_data s3 = out_data s2"
      "\<exists>b'. bp_heap s3 p = Some b' \<and> in_memory b'"
    by blast
  then show ?thesis using s2(1) m2 t2 e2 by (intro exI [of _ s2] exI [of _ s3]) simp
qed

text \<open>The successor of an instruction that does not read the memory.\<close>

lemma get_ctf_successor_state:
  assumes "disassembler_ok E" and "env_disassemble E (mem s) pc = Some insn" and "known_successor insn c" and "ud_mnemonic insn \<noteq> UD_Iret"
    and "x86_next insn pc c (mem s) \<noteq> 0"
  shows "get_ctf_successor E pc c s = Ret (x86_next insn pc c (mem s), s)"
proof -
  have "ud_pc insn = pc + of_nat (ud_insn_len insn)"
    using assms(1,2) by (simp add: disassembler_ok_def)
  from get_ctf_successor_near [OF assms(2) this assms(3,4)] show ?thesis
    using assms(5) by (simp add: successor_or_error_def)
qed




section \<open>Properties\<close>

text \<open>
  C9. Stepping over a user breakpoint. When an installed breakpoint is hit by a thread, the trap is decoded into
  the breakpoint event on the events descriptor, the original byte is back in memory and a continue
  breakpoint is registered at the instruction that the processor executes next. When the debuggee is continued,
  which installs the continue breakpoint, and hits it, the trap is decoded without an event and without
  waiting for a request: the memory, the registered breakpoints and the memory that the debuggee would have without
  breakpoints are again those of the start, and the breakpoint is installed.

  Covered are instructions whose next address the code finds without reading memory, as \<open>known_successor\<close> says: all that are not transfers of control,
  and jumps and calls to a displacement or through a register, with a condition that the code computes right. Left out are a return,
  a far transfer, a target in memory, and the jumps on signed conditions and on the
  count register in the states where the code decides them wrongly. No breakpoint is registered at the next instruction: were there one, the code would
  take it for its continue breakpoint and delete it when it is hit. The thread is not single-stepping.
\<close>

theorem step_over_breakpoint:
  fixes s :: "'z evt_state_scheme"
  assumes ok: "sys_always_ok s" "serializer_ok E" "builders_ok E" "disassembler_ok E" and t: "bp_table s"
    and p: "bp_lookup s a = Some p" "bp_heap s p = Some b" "in_memory b" "mem s a = BREAKPOINT_INSN"
    and user: "p \<noteq> exit_bp s" "bp_thread b = NULL" "continue_bp s = NULL"
    and thr: "thr \<noteq> NULL" "thr_heap s thr = Some th" "single_step_bp th = NULL" "\<not> single_step th"
    and insn: "env_disassemble E ((mem s)(a := plain_mem s a)) a = Some insn"
      "known_successor insn (rewind_pc c)" "ud_mnemonic insn \<noteq> UD_Iret"
    and n: "n = x86_next insn a (rewind_pc c) ((mem s)(a := plain_mem s a))" "n \<noteq> 0" "bp_lookup s n = None"
    and fresh: "fresh_alloc (bp_heap s) s" and reach: "byte_reachable E a s" "byte_reachable E n s"
  shows "\<exists>s1 s2 s3.
    decode_breakpoint E thr p c True s = Ret ((RESULT_SUCCESS, True, rewind_pc c), s1) \<and>
    out_data s1 = (out_data s)(events_handle s := out_data s (events_handle s) @
      event_bytes E UDI_EVENT_BREAKPOINT (thr_id th) (Some (cbor_map_of 1 [(''addr'', CUint64 a)]))) \<and>
    mem s1 = (mem s)(a := plain_mem s a) \<and> bp_lookup s1 = (bp_lookup s)(n \<mapsto> continue_bp s1) \<and>
    install_breakpoint E (continue_bp s1) s1 = Ret (0, s2) \<and> mem s2 = (mem s1)(n := BREAKPOINT_INSN) \<and>
    decode_breakpoint E thr (continue_bp s1) c' True s2 = Ret ((RESULT_SUCCESS, False, rewind_pc c'), s3) \<and>
    out_data s3 = out_data s1 \<and> mem s3 = mem s \<and> plain_mem s3 = plain_mem s \<and> bp_table s3 \<and> bp_lookup s3 = bp_lookup s \<and>
    continue_bp s3 = NULL \<and> (\<exists>b'. bp_heap s3 p = Some b' \<and> in_memory b')"
proof -
  have pn: "p \<noteq> NULL" "a \<noteq> n" using bp_lookup_live [OF t p(1)] p(1) n(3) by auto
  have "get_ctf_successor E a (rewind_pc c) u = Ret (n, u)" if "mem u = (mem s)(a := plain_mem s a)" for u :: "'z evt_state_scheme"
    using get_ctf_successor_state [OF ok(4), of u a insn "rewind_pc c"] insn n that by simp
  then have succ: "\<forall>u :: 'z evt_state_scheme. mem u = (mem s)(a := plain_mem s a) \<longrightarrow> get_ctf_successor E a (rewind_pc c) u = Ret (n, u)"
    by blast
  have other: "continue_bp s \<noteq> p" "single_step_bp th \<noteq> p" using pn user(3) thr(3) by simp_all
  from decode_user_breakpoint [OF ok(1-3) t p(1,2) user(1,2) other(1) thr(1,2) other(2) succ n(2,3) fresh reach(1), of True]
  obtain q s1 m where
    d1: "decode_breakpoint E thr p c True s = Ret ((RESULT_SUCCESS, True, rewind_pc c), s1)" and
    s1: "q \<noteq> NULL" "continue_bp s1 = q" "last_bp_address s1 = a" "mem s1 = (mem s)(a := plain_mem s a)" "plain_mem s1 = plain_mem s"
      "bp_table s1" "bp_lookup s1 = (bp_lookup s)(n \<mapsto> q)" "bp_removable s1 n" "bp_heap s1 q = Some (new_breakpoint n)"
      "bp_heap s1 p = Some (b\<lparr>next_breakpoint := m\<rparr>)" "keeps_reachable E s s1" "thr_heap s1 = (thr_heap s)(thr \<mapsto> rewound th)" and
    out: "out_data s1 = (out_data s)(events_handle s := out_data s (events_handle s) @
      event_bytes E UDI_EVENT_BREAKPOINT (thr_id th) (Some (cbor_map_of 1 [(''addr'', CUint64 a)])))"
    by blast
  have l1: "bp_lookup s1 n = Some q" "bp_lookup s1 a = Some p" using s1(7) p(1) pn by simp_all
  have r1: "byte_reachable E n s1" "byte_reachable E a s1" using keeps_reachableD [OF s1(11)] reach by simp_all
  have h: "in_memory (b\<lparr>next_breakpoint := m\<rparr>)" "mem s1 a = plain_mem s1 a" "thr_heap s1 thr = Some (rewound th)"
    "single_step_bp (rewound th) \<noteq> q" "\<not> single_step (rewound th)"
    using s1 p thr by (simp_all add: rewound_def)
  from continue_over_breakpoint [OF s1(6) l1(1) s1(8,9,2) r1 l1(2) s1(10) h(1) pn(2) s1(3) h(2) thr(1) h(3-5), of c' True]
  obtain s2 s3 where s2: "install_breakpoint E q s1 = Ret (0, s2)" "mem s2 = (mem s1)(n := BREAKPOINT_INSN)"
    and d3: "decode_breakpoint E thr q c' True s2 = Ret ((RESULT_SUCCESS, False, rewind_pc c'), s3)"
    and s3: "mem s3 = (mem s1)(n := plain_mem s1 n, a := BREAKPOINT_INSN)" "plain_mem s3 = plain_mem s1" "bp_table s3"
      "bp_lookup s3 = (bp_lookup s1)(n := None)" "continue_bp s3 = NULL" "out_data s3 = out_data s1"
      "\<exists>b'. bp_heap s3 p = Some b' \<and> in_memory b'"
    by blast
  have "plain_mem s n = mem s n" using n(3) by (simp add: plain_mem_def)
  then have "mem s3 = mem s" using s3(1) s1(4,5) p(4) pn(2) by (auto simp: fun_eq_iff)
  moreover have "bp_lookup s3 = bp_lookup s" using s3(4) s1(7) n(3) by (auto simp: fun_eq_iff)
  ultimately show ?thesis
    using d1 out s1 s2 d3 s3 by (intro exI [of _ s1] exI [of _ s2] exI [of _ s3]) simp
qed

text \<open>A process with an installed breakpoint on a one-byte instruction, stopped in its first thread.\<close>

definition sample_evt_state :: evt_state where
  "sample_evt_state = req_state.extend
     ((sample_req_state [])\<lparr>mem := (\<lambda>_. 0)(0x400010 := BREAKPOINT_INSN),
        bp_heap := [1 \<mapsto> (new_breakpoint 0x400010)\<lparr>next_breakpoint := 2, in_memory := True, saved_bytes := replicate 8 0x90\<rparr>,
          2 \<mapsto> new_breakpoint 0x400110]\<rparr>)
     \<lparr>events_handle = 5, exit_bp = 2, proc_request_handle = 3, proc_response_handle = 4, requestfile_name = ''request'',
      responsefile_name = ''response'', eventsfile_name = ''events'', udi_enabled = True, init_thr = NULL\<rparr>"

lemmas sample_evt_defs = sample_evt_state_def req_state.defs sample_req_state_def thr_state.defs sample_thr_state_def io_state.defs
  sample_io_state_def bp_state.defs sample_bp_state_def mem_state.defs sample_mem_state_def

lemma sample_evt_table: "bp_table sample_evt_state"
proof -
  have "\<exists>qs. bp_bucket (bp_heap sample_evt_state) k (breakpoints sample_evt_state k) qs" for k
    by (cases "k = 16")
      (auto simp: sample_evt_defs bp_bucket_def new_breakpoint_def breakpoint_hash_def
        BREAKPOINT_HASH_SIZE_def bp_addr_def intro: exI [of _ "[1, 2]"])
  then show ?thesis
    by (auto simp: bp_table_def) (auto simp: sample_evt_defs new_breakpoint_def split: if_splits)
qed

lemma sample_evt_lookup:
  "bp_lookup sample_evt_state 0x400010 = Some 1" "bp_lookup sample_evt_state 0x400110 = Some 2" "bp_lookup sample_evt_state 0x400011 = None"
  by (simp_all add: bp_lookup_def sample_evt_defs new_breakpoint_def breakpoint_hash_def
      BREAKPOINT_HASH_SIZE_def find_loop.simps)

lemma sample_evt_simps:
  "sys_always_ok sample_evt_state" "mem sample_evt_state = (\<lambda>_. 0)(0x400010 := BREAKPOINT_INSN)"
  "bp_heap sample_evt_state 1 = Some ((new_breakpoint 0x400010)\<lparr>next_breakpoint := 2, in_memory := True, saved_bytes := replicate 8 0x90\<rparr>)"
  "fresh_alloc (bp_heap sample_evt_state) sample_evt_state" "exit_bp sample_evt_state = 2" "continue_bp sample_evt_state = NULL"
  "thr_heap sample_evt_state 3 = Some ((new_thread 16 (5, 6))\<lparr>next_thread := 2\<rparr>)" "events_handle sample_evt_state = 5"
  "out_data sample_evt_state = (\<lambda>_. [])"
  by (simp_all add: sample_evt_defs sys_always_ok_def fresh_alloc_def)

lemma sample_evt_reachable:
  "byte_reachable jump_env 0x400010 sample_evt_state" "byte_reachable jump_env 0x400011 sample_evt_state"
  by (simp_all add: byte_reachable_def sample_evt_defs jump_env_def sample_env_ok page_align_def sys_always_ok_def)

lemma jump_env_wire: "serializer_ok jump_env" "builders_ok jump_env"
  using sample_env_ok by (simp_all add: jump_env_def serializer_ok_def builders_ok_def)

theorem step_over_breakpoint_witness:
  "\<exists>s1 s2 s3. decode_breakpoint jump_env 3 1 \<lparr>gregs = (\<lambda>_. 0x40), uc_sigmask = {}\<rparr> True sample_evt_state =
       Ret ((RESULT_SUCCESS, True, rewind_pc \<lparr>gregs = (\<lambda>_. 0x40), uc_sigmask = {}\<rparr>), s1) \<and>
     bp_lookup s1 0x400011 = Some (continue_bp s1) \<and> install_breakpoint jump_env (continue_bp s1) s1 = Ret (0, s2) \<and>
     decode_breakpoint jump_env 3 (continue_bp s1) \<lparr>gregs = (\<lambda>_. 0x41), uc_sigmask = {}\<rparr> True s2 =
       Ret ((RESULT_SUCCESS, False, rewind_pc \<lparr>gregs = (\<lambda>_. 0x41), uc_sigmask = {}\<rparr>), s3) \<and> mem s3 0x400010 = 0xcc"
proof -
  let ?s = sample_evt_state
  let ?c = "\<lparr>gregs = (\<lambda>_. 0x40), uc_sigmask = {}\<rparr>" and ?c' = "\<lparr>gregs = (\<lambda>_. 0x41), uc_sigmask = {}\<rparr>"
  let ?i = "\<lparr>ud_mnemonic = UD_Iother, ud_operand0 = \<lparr>op_type = UD_OP_other, op_size = 0, op_base = UD_NONE, op_index = UD_NONE,
     op_scale = 0, op_offset = 0, op_lval = 0\<rparr>, ud_insn_len = 1, ud_pc = 0x400011\<rparr>"
  let ?m = "(mem ?s)(0x400010 := plain_mem ?s 0x400010)"
  have "plain_mem ?s 0x400010 = 0x90"
    using plain_mem_entry [OF sample_evt_lookup(1) sample_evt_simps(3)] by (simp add: numeral_eq_Suc)
  then have d: "env_disassemble jump_env ?m 0x400010 = Some ?i" by (simp add: jump_env_def)
  have n: "0x400011 = x86_next ?i 0x400010 (rewind_pc ?c) ?m" by (simp add: x86_next_def)
  have k: "known_successor ?i (rewind_pc ?c)" by (simp add: known_successor_def)
  note step = step_over_breakpoint [OF sample_evt_simps(1) jump_env_wire jump_env_ok sample_evt_table sample_evt_lookup(1) sample_evt_simps(3)
      _ _ _ _ sample_evt_simps(6) _ sample_evt_simps(7) _ _ d k _ n _ sample_evt_lookup(3) sample_evt_simps(4) sample_evt_reachable, of ?c']
  show ?thesis
    using step by (fastforce simp: sample_evt_simps new_breakpoint_def new_thread_def BREAKPOINT_INSN_def)
qed




end
