(* ===== verification/Wait_Loop.thy ===== *)
theory Wait_Loop
  imports Events
begin

text \<open>
  Waiting for requests (\<^verbatim>\<open>udirt-posix.c\<close> lines 199 to 308): the set of descriptors that are
  watched, the choice of the one to serve, and the loop that executes requests until
  the debugger continues the process. The loop is related to an inductive relation of the
  requests that are served, from which the order of the responses follows.
\<close>

section \<open>Definitions\<close>

text \<open>
  A descriptor outside the range of \<^verbatim>\<open>fd_set\<close> makes \<^verbatim>\<open>FD_SET\<close> and \<^verbatim>\<open>FD_ISSET\<close> undefined.
\<close>

definition FD_SETSIZE :: int where
  "FD_SETSIZE = 1024"

definition fd_in_range :: "int \<Rightarrow> bool" where
  "fd_in_range fd \<longleftrightarrow> 0 \<le> fd \<and> fd < FD_SETSIZE"

text \<open>
  The answer of \<^verbatim>\<open>select\<close>: an error number, or the descriptors that are ready among the watched ones
  below the bound, whose number is its result. The bits of the value that the system answers
  choose them, so that every subset can be the answer.
\<close>

definition sys_select :: "int \<Rightarrow> int list \<Rightarrow> 'z sys_state_scheme \<Rightarrow> (nat + int list) \<times> 'z sys_state_scheme" where
  "sys_select nfds read_set s =
     (case sys_call s of
        (SysErr e, s) \<Rightarrow> (Inl (max 1 e), s)
      | (SysOk v, s) \<Rightarrow> (Inr (filter (\<lambda>fd. fd < nfds \<and> bit v (nat fd)) read_set), s))"

partial_function (option) read_set_loop ::
    "(ptr \<rightharpoonup> thread) \<Rightarrow> ptr \<Rightarrow> int \<Rightarrow> int list \<Rightarrow> (int \<times> int list) option" where
  "read_set_loop h iter max_fd read_set =
     (if iter = NULL then Some (max_fd, read_set)
      else (case h iter of
        None \<Rightarrow> None
      | Some t \<Rightarrow>
          if dead t then read_set_loop h (next_thread t) max_fd read_set
          else if fd_in_range (request_handle t)
          then read_set_loop h (next_thread t)
                 (if request_handle t > max_fd then request_handle t else max_fd) (read_set @ [request_handle t])
          else None))"

partial_function (option) ready_loop :: "(ptr \<rightharpoonup> thread) \<Rightarrow> ptr \<Rightarrow> int list \<Rightarrow> ptr option" where
  "ready_loop h iter changed_set =
     (if iter = NULL then Some NULL
      else (case h iter of
        None \<Rightarrow> None
      | Some t \<Rightarrow>
          if \<not> fd_in_range (request_handle t) then None
          else if request_handle t \<in> set changed_set then Some iter
          else ready_loop h (next_thread t) changed_set))"

text \<open>The output parameter of the thread keeps its value when the wait fails.\<close>

partial_function (option) select_loop ::
    "int \<Rightarrow> int \<Rightarrow> int list \<Rightarrow> ptr \<Rightarrow> 'z thr_state_scheme \<Rightarrow> ((int \<times> ptr) \<times> 'z thr_state_scheme) option" where
  "select_loop fd max_fd read_set thr s =
     (case sys_select (max_fd + 1) read_set s of
        (Inl errno, s') \<Rightarrow>
          if errno = EINTR then select_loop fd max_fd read_set thr s' else Some ((RESULT_ERROR, thr), s')
      | (Inr changed_set, s') \<Rightarrow>
          if changed_set = [] then Some ((RESULT_ERROR, thr), s')
          else if fd \<in> set changed_set then Some ((RESULT_SUCCESS, NULL), s')
          else (case ready_loop (thr_heap s') (get_thread_list s') changed_set of
              None \<Rightarrow> None
            | Some p \<Rightarrow> Some (if p \<noteq> NULL then (RESULT_SUCCESS, p) else (RESULT_ERROR, thr), s')))"

definition block_for_request :: "ptr \<Rightarrow> 'z evt_state_scheme \<Rightarrow> ((int \<times> ptr) \<times> 'z evt_state_scheme) run" where
  "block_for_request thr s =
     (let fd = int (proc_request_handle s) in
      if \<not> fd_in_range fd then Stuck
      else run_bind (of_option (read_set_loop (thr_heap s) (get_thread_list s) fd [fd])) (\<lambda>(max_fd, read_set).
        of_option (select_loop fd max_fd read_set thr s)))"

text \<open>
  The request is handled for the process or for the thread whose descriptor was
  ready. The descriptors of a thread that is served are open; a negative one has no meaning here.
\<close>

definition execute_request :: "env \<Rightarrow> ptr \<Rightarrow> 'z evt_state_scheme \<Rightarrow> ((int \<times> nat) \<times> 'z evt_state_scheme) run" where
  "execute_request E thr s =
     (let type = request_val UDI_REQ_INVALID in
      if thr = NULL then handle_process_request E (proc_request_handle s) (proc_response_handle s) type s
      else run_bind (deref (thr_heap s) thr) (\<lambda>t.
        if request_handle t < 0 \<or> response_handle t < 0 then Stuck
        else handle_thread_request E (nat (request_handle t)) (nat (response_handle t)) thr type s))"

text \<open>The loop goes on after a success or a failure, but not after an error or a continue request.\<close>

definition more_reqs :: "int \<Rightarrow> nat \<Rightarrow> bool" where
  "more_reqs result type \<longleftrightarrow> result \<noteq> RESULT_ERROR \<and> type \<noteq> request_val UDI_REQ_CONTINUE"

partial_function (option) wait_loop ::
    "env \<Rightarrow> ptr \<Rightarrow> 'z evt_state_scheme \<Rightarrow> ((int \<times> ptr) \<times> 'z evt_state_scheme) run option" where
  "wait_loop E thr s =
     (case block_for_request thr s of
        Abort \<Rightarrow> Some Abort
      | Stuck \<Rightarrow> None
      | Ret ((result, thr), s) \<Rightarrow>
          if result \<noteq> 0
          then Some (Ret ((RESULT_ERROR, thr), udi_set_errmsg E ''failed to wait for request'' [] s))
          else (case execute_request E thr s of
              Abort \<Rightarrow> Some Abort
            | Stuck \<Rightarrow> None
            | Ret ((result, type), s) \<Rightarrow>
                if more_reqs result type then wait_loop E thr s else Some (Ret ((result, thr), s))))"

definition wait_and_execute_command ::
    "env \<Rightarrow> ptr \<Rightarrow> 'z evt_state_scheme \<Rightarrow> ((int \<times> ptr) \<times> 'z evt_state_scheme) run" where
  "wait_and_execute_command E thr s = run_bind (of_option (wait_loop E thr s)) (\<lambda>r. r)"

section \<open>The requests that are served\<close>

text \<open>
  What a run of the loop serves, request by request: the thread (null for the process), the descriptor of
  its responses, the result and the type of each one, and the result of the whole. The relation says itself which requests end the wait:
  those with an error, and the continue requests.
\<close>

definition response_fd :: "ptr \<Rightarrow> 'z evt_state_scheme \<Rightarrow> nat" where
  "response_fd thr s = (if thr = NULL then proc_response_handle s else nat (response_handle (thread_obj s thr)))"

inductive served ::
    "env \<Rightarrow> ptr \<Rightarrow> 'z evt_state_scheme \<Rightarrow> (ptr \<times> nat \<times> int \<times> nat) list \<Rightarrow> int \<times> ptr \<Rightarrow> 'z evt_state_scheme \<Rightarrow> bool" for E where
  served_wait_failed:
    "block_for_request thr s = Ret ((r, thr'), s1) \<Longrightarrow> r \<noteq> 0 \<Longrightarrow>
     served E thr s [] (RESULT_ERROR, thr') (udi_set_errmsg E ''failed to wait for request'' [] s1)"
| served_last:
    "block_for_request thr s = Ret ((0, thr'), s1) \<Longrightarrow> execute_request E thr' s1 = Ret ((r, t), s2) \<Longrightarrow>
     r = RESULT_ERROR \<or> t = request_val UDI_REQ_CONTINUE \<Longrightarrow>
     served E thr s [(thr', response_fd thr' s1, r, t)] (r, thr') s2"
| served_more:
    "block_for_request thr s = Ret ((0, thr'), s1) \<Longrightarrow> execute_request E thr' s1 = Ret ((r, t), s2) \<Longrightarrow>
     r \<noteq> RESULT_ERROR \<Longrightarrow> t \<noteq> request_val UDI_REQ_CONTINUE \<Longrightarrow>
     served E thr' s2 reqs res s' \<Longrightarrow> served E thr s ((thr', response_fd thr' s1, r, t) # reqs) res s'"

lemma served_wait_loop: "served E thr s reqs res s' \<Longrightarrow> wait_loop E thr s = Some (Ret (res, s'))"
  by (induction rule: served.induct; subst wait_loop.simps; auto simp: more_reqs_def)

lemma wait_loop_served:
  fixes s :: "'z evt_state_scheme"
  assumes returns: "wait_loop E thr s = Some (Ret (res, s'))"
  shows "\<exists>reqs. served E thr s reqs res s'"
proof -
  define P where "P = (\<lambda>E thr (s :: 'z evt_state_scheme) x. \<forall>r p s'. x = Ret ((r :: int, p :: ptr), s') \<longrightarrow> (\<exists>reqs. served E thr s reqs (r, p) s'))"
  have "P E thr s (Ret (res, s'))"
  proof (rule wait_loop.raw_induct [where P = P, OF _ returns])
    fix loop E thr x and s :: "'z evt_state_scheme"
    assume IH: "\<And>E thr s x. loop E thr s = Some x \<Longrightarrow> P E thr s x"
      and body: "(case block_for_request thr s of
        Abort \<Rightarrow> Some Abort
      | Stuck \<Rightarrow> None
      | Ret ((result, thr), s) \<Rightarrow>
          if result \<noteq> 0
          then Some (Ret ((RESULT_ERROR, thr), udi_set_errmsg E ''failed to wait for request'' [] s))
          else (case execute_request E thr s of
              Abort \<Rightarrow> Some Abort
            | Stuck \<Rightarrow> None
            | Ret ((result, type), s) \<Rightarrow>
                if more_reqs result type then loop E thr s else Some (Ret ((result, thr), s)))) = Some x"
    show "P E thr s x"
      unfolding P_def using body
      by (auto split: run.splits if_splits prod.splits simp: P_def more_reqs_def dest!: IH intro: served.intros)
        (blast intro: served.intros)+
  qed
  then show ?thesis by (cases res) (simp add: P_def)
qed

lemma wait_and_execute_served:
  "wait_and_execute_command E thr s = Ret (res, s') \<longleftrightarrow> (\<exists>reqs. served E thr s reqs res s')"
proof -
  have "wait_and_execute_command E thr s = Ret (res, s') \<longleftrightarrow> wait_loop E thr s = Some (Ret (res, s'))"
    by (auto simp: wait_and_execute_command_def run_bind_eq_Ret)
  then show ?thesis using wait_loop_served served_wait_loop by blast
qed

section \<open>Waiting\<close>

lemma select_loop_count:
  fixes s :: "'z thr_state_scheme"
  assumes returns: "select_loop fd max_fd read_set thr s = Some (r, s')"
  shows "\<exists>c. s' = s\<lparr>sys_count := c\<rparr>"
proof -
  define P where "P = (\<lambda>(fd :: int) (max_fd :: int) (read_set :: int list) (thr :: ptr) (s :: 'z thr_state_scheme) (x :: (int \<times> ptr) \<times> 'z thr_state_scheme).
    \<exists>c. snd x = s\<lparr>sys_count := c\<rparr>)"
  have "P fd max_fd read_set thr s (r, s')"
  proof (rule select_loop.raw_induct [where P = P, OF _ returns])
    fix loop fd max_fd read_set thr x and s :: "'z thr_state_scheme"
    assume IH: "\<And>fd max_fd read_set thr s x. loop fd max_fd read_set thr s = Some x \<Longrightarrow> P fd max_fd read_set thr s x"
      and body: "(case sys_select (max_fd + 1) read_set s of
        (Inl errno, s') \<Rightarrow>
          if errno = EINTR then loop fd max_fd read_set thr s' else Some ((RESULT_ERROR, thr), s')
      | (Inr changed_set, s') \<Rightarrow>
          if changed_set = [] then Some ((RESULT_ERROR, thr), s')
          else if fd \<in> set changed_set then Some ((RESULT_SUCCESS, NULL), s')
          else (case ready_loop (thr_heap s') (get_thread_list s') changed_set of
              None \<Rightarrow> None
            | Some p \<Rightarrow> Some (if p \<noteq> NULL then (RESULT_SUCCESS, p) else (RESULT_ERROR, thr), s'))) = Some x"
    show "P fd max_fd read_set thr s x"
      using body
      by (auto simp: sys_select_def sys_call_def P_def split: sysret.splits if_splits option.splits dest!: IH)
  qed
  then show ?thesis by (simp add: P_def)
qed

lemma block_for_request_count:
  "block_for_request thr s = Ret (x, s') \<Longrightarrow> \<exists>c. s' = s\<lparr>sys_count := c\<rparr>"
  by (auto simp: block_for_request_def Let_def split: if_splits elim!: run_bind_Ret_E dest: select_loop_count)

text \<open>The watched descriptors of the threads, and the first thread whose descriptor is ready.\<close>

lemma read_set_loop_chain:
  assumes "obj_chain next_thread h p qs" and "\<forall>q \<in> set qs. fd_in_range (request_handle (the (h q)))"
  shows "read_set_loop h p m fds = Some (fold max (map (\<lambda>q. request_handle (the (h q))) (filter (\<lambda>q. \<not> dead (the (h q))) qs)) m,
    fds @ map (\<lambda>q. request_handle (the (h q))) (filter (\<lambda>q. \<not> dead (the (h q))) qs))"
  using assms
proof (induction qs arbitrary: p m fds)
  case (Cons q qs)
  then obtain t where "h q = Some t" "p = q" "q \<noteq> NULL" "obj_chain next_thread h (next_thread t) qs" by auto
  moreover have "(if x > m then x else m) = max x m" for x m :: int by simp
  ultimately show ?case using Cons by (subst read_set_loop.simps) auto
qed (simp add: read_set_loop.simps)

lemma ready_loop_chain:
  assumes "obj_chain next_thread h p qs" and "\<forall>q \<in> set qs. fd_in_range (request_handle (the (h q)))"
  shows "ready_loop h p fds = Some (case find (\<lambda>q. request_handle (the (h q)) \<in> set fds) qs of None \<Rightarrow> NULL | Some q \<Rightarrow> q)"
  using assms
proof (induction qs arbitrary: p)
  case (Cons q qs)
  then obtain t where "h q = Some t" "p = q" "q \<noteq> NULL" "obj_chain next_thread h (next_thread t) qs" by auto
  then show ?case using Cons by (subst ready_loop.simps) auto
qed (simp add: ready_loop.simps)

lemma select_loop_retry:
  assumes "sys_oracle s (sys_count s) = SysErr EINTR"
  shows "select_loop fd max_fd read_set thr s = select_loop fd max_fd read_set thr (s\<lparr>sys_count := Suc (sys_count s)\<rparr>)"
  using assms by (subst select_loop.simps) (simp add: sys_select_def sys_call_def EINTR_def)

lemma select_loop_retries:
  assumes "\<forall>i < k. sys_oracle s (sys_count s + i) = SysErr EINTR"
  shows "select_loop fd max_fd read_set thr s = select_loop fd max_fd read_set thr (s\<lparr>sys_count := sys_count s + k\<rparr>)"
  using assms
proof (induction k)
  case (Suc k)
  then show ?case using select_loop_retry [of "s\<lparr>sys_count := sys_count s + k\<rparr>"] by simp
qed simp

lemma fold_max_ge: "(x :: int) = m \<or> x \<in> set xs \<Longrightarrow> x \<le> fold max xs m"
proof (induction xs arbitrary: m x)
  case (Cons y ys)
  have "max y m \<le> fold max ys (max y m)" using Cons.IH [of "max y m" "max y m"] by simp
  then show ?case using Cons.prems Cons.IH [of x "max y m"] by (cases "x \<in> set ys") auto
qed simp

section \<open>Answers\<close>

text \<open>The answer to a request: for the process or a thread, with its result, type and data.\<close>

definition answer_bytes :: "env \<Rightarrow> ptr \<Rightarrow> int \<Rightarrow> nat \<Rightarrow> cbor_item option \<Rightarrow> u8 list" where
  "answer_bytes E thr r t data =
     (if r = RESULT_SUCCESS then response_bytes E UDI_RESP_VALID (if thr = NULL then process_code t else t) data
      else response_bytes E UDI_RESP_ERROR t data)"

definition answer_all ::
    "env \<Rightarrow> ((ptr \<times> nat \<times> int \<times> nat) \<times> cbor_item option) list \<Rightarrow> (nat \<Rightarrow> u8 list) \<Rightarrow> nat \<Rightarrow> u8 list" where
  "answer_all E = fold (\<lambda>((thr, fd, r, t), data) out. out(fd := out fd @ answer_bytes E thr r t data))"

lemma execute_request_answer:
  assumes "sys_always_ok s" "serializer_ok E" and run: "execute_request E thr s = Ret ((r, t), s')"
  shows "\<exists>data. sent (response_fd thr s) (answer_bytes E thr r t data) s s'"
proof (cases "thr = NULL")
  case True
  then show ?thesis
    using run yields_D [OF process_dispatch [OF assms(1,2)]]
    by (fastforce simp: execute_request_def answer_bytes_def response_fd_def one_response_def split: if_splits)
next
  case False
  then obtain th where th: "thr_heap s thr = Some th"
      "handle_thread_request E (nat (request_handle th)) (nat (response_handle th)) thr (request_val UDI_REQ_INVALID) s = Ret ((r, t), s')"
    using run by (auto simp: execute_request_def split: if_splits elim!: run_bind_Ret_E)
  then show ?thesis
    using False yields_D [OF thread_dispatch [OF assms(1,2)] th(2)]
    by (auto simp: answer_bytes_def response_fd_def thread_obj_def one_response_def split: if_splits)
qed

lemma served_answers:
  assumes "served E thr s reqs res s'" and "sys_always_ok s" and ser: "serializer_ok E"
  shows "\<exists>datas. length datas = length reqs \<and> out_data s' = answer_all E (zip reqs datas) (out_data s)"
  using assms(1,2)
proof (induction rule: served.induct)
  case (served_wait_failed thr s r thr' s1)
  then show ?case using block_for_request_count by (fastforce simp: answer_all_def)
next
  case (served_last thr s thr' s1 r t s2)
  then obtain c where c: "s1 = s\<lparr>sys_count := c\<rparr>" using block_for_request_count by blast
  then have ok: "sys_always_ok s1" using served_last by simp
  obtain data where "sent (response_fd thr' s1) (answer_bytes E thr' r t data) s1 s2"
    using execute_request_answer [OF ok ser served_last(2)] by blast
  then show ?case using c by (intro exI [of _ "[data]"]) (simp add: answer_all_def sent_def)
next
  case (served_more thr s thr' s1 r t s2 reqs res s')
  then obtain c where c: "s1 = s\<lparr>sys_count := c\<rparr>" using block_for_request_count by blast
  then have ok: "sys_always_ok s1" using served_more by simp
  obtain data where d: "sent (response_fd thr' s1) (answer_bytes E thr' r t data) s1 s2"
    using execute_request_answer [OF ok ser served_more(2)] by blast
  then have "sys_always_ok s2" using ok by (simp add: sent_def sys_always_ok_def)
  from served_more.IH [OF this] obtain datas where
    "length datas = length reqs" "out_data s' = answer_all E (zip reqs datas) (out_data s2)" by blast
  then show ?case using c d by (intro exI [of _ "data # datas"]) (simp add: answer_all_def sent_def)
qed

text \<open>Only the last request can end the loop, and it then gives the result.\<close>

lemma served_shape:
  assumes "served E thr s reqs (r, p) s'"
  shows "(\<forall>(q, fd, x, t) \<in> set (butlast reqs). x \<noteq> RESULT_ERROR \<and> t \<noteq> request_val UDI_REQ_CONTINUE) \<and>
    (if reqs = [] then r = RESULT_ERROR
     else case last reqs of (q, fd, x, t) \<Rightarrow> if x \<noteq> RESULT_ERROR \<and> t \<noteq> request_val UDI_REQ_CONTINUE then r = RESULT_ERROR else r = x \<and> p = q)"
proof -
  have "(\<forall>(q, fd, x, t) \<in> set (butlast reqs). x \<noteq> RESULT_ERROR \<and> t \<noteq> request_val UDI_REQ_CONTINUE) \<and>
    (if reqs = [] then fst res = RESULT_ERROR
     else case last reqs of (q, fd, x, t) \<Rightarrow> if x \<noteq> RESULT_ERROR \<and> t \<noteq> request_val UDI_REQ_CONTINUE then fst res = RESULT_ERROR else fst res = x \<and> snd res = q)"
    if "served E thr s reqs res s'" for res
    using that by (induction rule: served.induct) (auto split: if_splits)
  from this [OF assms] show ?thesis by (simp split: prod.splits if_splits)
qed

section \<open>Properties\<close>

text \<open>The ready descriptors of the threads that are not dead.\<close>

definition ready_handles :: "'z thr_state_scheme \<Rightarrow> ptr list \<Rightarrow> nat \<Rightarrow> int set" where
  "ready_handles s ps v =
     (\<lambda>p. request_handle (thread_obj s p)) ` {p \<in> set ps. \<not> dead (thread_obj s p) \<and> bit v (nat (request_handle (thread_obj s p)))}"

lemma block_for_request_run:
  assumes "thread_list s ps" and "\<forall>p \<in> set ps. fd_in_range (request_handle (thread_obj s p))"
    and "proc_request_handle s < 1024"
    and "\<forall>i < k. sys_oracle s (sys_count s + i) = SysErr EINTR" and "sys_oracle s (sys_count s + k) = SysOk v"
  shows "block_for_request thr s = Ret (
    (if bit v (proc_request_handle s) then (RESULT_SUCCESS, NULL)
     else case find (\<lambda>p. request_handle (thread_obj s p) \<in> ready_handles s ps v) ps of
         None \<Rightarrow> (RESULT_ERROR, thr)
       | Some p \<Rightarrow> (RESULT_SUCCESS, p)), s\<lparr>sys_count := Suc (sys_count s + k)\<rparr>)"
proof -
  let ?fd = "int (proc_request_handle s)" and ?live = "filter (\<lambda>q. \<not> dead (thread_obj s q)) ps"
  let ?h = "\<lambda>q. request_handle (thread_obj s q)"
  let ?fds = "?fd # map ?h ?live" and ?m = "fold max (map ?h ?live) ?fd"
  let ?s = "s\<lparr>sys_count := Suc (sys_count s + k)\<rparr>"
  define changed where "changed = filter (\<lambda>fd. fd < ?m + 1 \<and> bit v (nat fd)) ?fds"
  have chain: "obj_chain next_thread (thr_heap s) (threads s) ps" using assms(1) by (simp add: thread_list_def)
  have fd: "fd_in_range ?fd" using assms(3) by (simp add: fd_in_range_def FD_SETSIZE_def)
  note range = assms(2) [unfolded thread_obj_def]
  have rs: "read_set_loop (thr_heap s) (get_thread_list s) ?fd [?fd] = Some (?m, ?fds)"
    using read_set_loop_chain [OF chain range] by (simp add: get_thread_list_def thread_obj_def)
  have "x < ?m + 1" if "x \<in> set ?fds" for x using fold_max_ge [of x ?fd "map ?h ?live"] that by auto
  then have ch: "set changed = (if bit v (proc_request_handle s) then insert ?fd (ready_handles s ps v) else ready_handles s ps v)"
    unfolding changed_def ready_handles_def by auto
  have ready: "ready_loop (thr_heap s) (threads s) changed = Some (case find (\<lambda>q. ?h q \<in> set changed) ps of None \<Rightarrow> NULL | Some q \<Rightarrow> q)"
    using ready_loop_chain [OF chain range] by (simp add: thread_obj_def)
  have null: "NULL \<notin> set ps" using obj_chain_live [OF chain] by fastforce
  have body: "select_loop ?fd ?m ?fds thr s = (if changed = [] then Some ((RESULT_ERROR, thr), ?s)
      else if ?fd \<in> set changed then Some ((RESULT_SUCCESS, NULL), ?s)
      else (case ready_loop (thr_heap s) (threads s) changed of None \<Rightarrow> None
            | Some p \<Rightarrow> Some (if p \<noteq> NULL then (RESULT_SUCCESS, p) else (RESULT_ERROR, thr), ?s)))"
    unfolding select_loop_retries [OF assms(4)] changed_def
    by (subst select_loop.simps) (simp add: sys_select_def sys_call_def assms(5) get_thread_list_def)
  have run: "block_for_request thr s = of_option (select_loop ?fd ?m ?fds thr s)"
    using fd rs by (simp add: block_for_request_def Let_def)
  show ?thesis
  proof (cases "bit v (proc_request_handle s)")
    case True
    then have "changed \<noteq> []" "?fd \<in> set changed" using ch by auto
    then show ?thesis using True run body by simp
  next
    case False
    then have f: "?fd \<notin> set changed" "set changed = ready_handles s ps v"
      using ch by (auto simp: ready_handles_def) (metis nat_int)
    show ?thesis
    proof (cases "find (\<lambda>p. ?h p \<in> ready_handles s ps v) ps")
      case None
      then have "set changed = {}" using f(2) by (auto simp: find_None_iff ready_handles_def)
      then show ?thesis using False None run body by simp
    next
      case (Some q)
      then have "q \<noteq> NULL" "changed \<noteq> []" using null f(2) by (auto simp: find_Some_iff in_set_conv_nth)
      then show ?thesis using False Some f run body ready by simp
    qed
  qed
qed

text \<open>
  Choice of the request. The descriptors watched are that of the process and those of the threads that
  are not dead. After any number of interruptions, when the system reports some of them ready, the
  process comes first, then the first thread of the list with a ready descriptor; when it reports none, the wait is an
  error and the thread is not written. Only the number of system calls changes.
\<close>

theorem block_for_request_selects:
  assumes "thread_list s ps" and "\<forall>p \<in> set ps. fd_in_range (request_handle (thread_obj s p))"
    and "proc_request_handle s < 1024"
    and "\<forall>i < k. sys_oracle s (sys_count s + i) = SysErr EINTR" and "sys_oracle s (sys_count s + k) = SysOk v"
  shows "block_for_request thr s = Ret (
    (if bit v (proc_request_handle s) then (RESULT_SUCCESS, NULL)
     else case find (\<lambda>p. request_handle (thread_obj s p) \<in> ready_handles s ps v) ps of
         None \<Rightarrow> (RESULT_ERROR, thr)
       | Some p \<Rightarrow> (RESULT_SUCCESS, p)), s\<lparr>sys_count := Suc (sys_count s + k)\<rparr>)"
  by (rule block_for_request_run [OF assms])

text \<open>A process with two threads, whose first wait is interrupted.\<close>

definition sample_wait_state :: "nat \<Rightarrow> evt_state" where
  "sample_wait_state v = sample_evt_state\<lparr>sys_oracle := (\<lambda>k. if k = 0 then SysErr EINTR else SysOk v),
     thr_heap := [3 \<mapsto> (new_thread 16 (5, 6))\<lparr>request_handle := 7, response_handle := 8, next_thread := 2\<rparr>,
       2 \<mapsto> (new_thread 17 (8, 9))\<lparr>request_handle := 10, response_handle := 11\<rparr>]\<rparr>"

lemma sample_wait_simps:
  "thread_list (sample_wait_state v) [3, 2]" "proc_request_handle (sample_wait_state v) = 3"
  "sys_oracle (sample_wait_state v) = (\<lambda>k. if k = 0 then SysErr EINTR else SysOk v)" "sys_count (sample_wait_state v) = 0"
  "thread_obj (sample_wait_state v) 3 = (new_thread 16 (5, 6))\<lparr>request_handle := 7, response_handle := 8, next_thread := 2\<rparr>"
  "thread_obj (sample_wait_state v) 2 = (new_thread 17 (8, 9))\<lparr>request_handle := 10, response_handle := 11\<rparr>"
  by (simp_all add: sample_wait_state_def sample_evt_defs thread_list_def thread_obj_def new_thread_def)

theorem block_for_request_selects_witness:
  "block_for_request NULL (sample_wait_state 1024) =
     Ret ((RESULT_SUCCESS, 2), (sample_wait_state 1024)\<lparr>sys_count := Suc 1\<rparr>)"
proof -
  have b: "bit (1024 :: nat) 10" "\<not> bit (1024 :: nat) 7" "\<not> bit (1024 :: nat) 3" by (simp_all add: bit_iff_odd)
  then have "ready_handles (sample_wait_state 1024) [3, 2] 1024 = {10}"
    by (auto simp: ready_handles_def sample_wait_simps new_thread_def intro!: image_eqI [of _ _ 2])
  moreover have "\<forall>p \<in> set [3, 2]. fd_in_range (request_handle (thread_obj (sample_wait_state 1024) p))"
    by (simp add: sample_wait_simps fd_in_range_def FD_SETSIZE_def)
  ultimately show ?thesis
    using b block_for_request_selects [OF sample_wait_simps(1), of 1024 1 1024 NULL]
    by (simp add: sample_wait_simps new_thread_def)
qed

text \<open>
  C14. The wait loop serves and answers in order. When the system reports no error and the loop returns, the requests it
  has served are known: before the last one none had an error and none was a continue request; the last one is either such a request, and
  then its result is the result of the loop, or the wait after it failed, which is an error. The bytes written are exactly one answer for
  each request, in order, on the descriptor of its thread or of the process. The loop returns whenever such a sequence of requests exists.
\<close>

theorem wait_loop_answers:
  assumes "sys_always_ok s" and "serializer_ok E"
  shows "wait_and_execute_command E thr s = Ret ((r, p), s') \<longleftrightarrow>
    (\<exists>reqs datas. served E thr s reqs (r, p) s' \<and>
      length datas = length reqs \<and> out_data s' = answer_all E (zip reqs datas) (out_data s) \<and>
      (\<forall>(q, fd, x, t) \<in> set (butlast reqs). x \<noteq> RESULT_ERROR \<and> t \<noteq> request_val UDI_REQ_CONTINUE) \<and>
      (if reqs = [] then r = RESULT_ERROR
       else case last reqs of (q, fd, x, t) \<Rightarrow> if x \<noteq> RESULT_ERROR \<and> t \<noteq> request_val UDI_REQ_CONTINUE then r = RESULT_ERROR else r = x \<and> p = q))"
proof
  assume "wait_and_execute_command E thr s = Ret ((r, p), s')"
  then obtain reqs where reqs: "served E thr s reqs (r, p) s'" by (auto simp: wait_and_execute_served)
  obtain datas where "length datas = length reqs \<and> out_data s' = answer_all E (zip reqs datas) (out_data s)"
    using served_answers [OF reqs assms] by blast
  with reqs served_shape [OF reqs] show "\<exists>reqs datas. served E thr s reqs (r, p) s' \<and>
      length datas = length reqs \<and> out_data s' = answer_all E (zip reqs datas) (out_data s) \<and>
      (\<forall>(q, fd, x, t) \<in> set (butlast reqs). x \<noteq> RESULT_ERROR \<and> t \<noteq> request_val UDI_REQ_CONTINUE) \<and>
      (if reqs = [] then r = RESULT_ERROR
       else case last reqs of (q, fd, x, t) \<Rightarrow> if x \<noteq> RESULT_ERROR \<and> t \<noteq> request_val UDI_REQ_CONTINUE then r = RESULT_ERROR else r = x \<and> p = q)"
    by (intro exI [of _ reqs] exI [of _ datas]) simp
qed (use wait_and_execute_served in blast)

text \<open>A process without further threads that finds a request of a type for threads on its descriptor.\<close>

definition sample_invalid_request :: evt_state where
  "sample_invalid_request = sample_evt_state\<lparr>sys_oracle := (\<lambda>_. SysOk 8), in_data := (\<lambda>_. [])(3 := [5]), threads := NULL, num_threads := 0\<rparr>"

theorem wait_loop_answers_witness:
  "\<exists>s' reqs datas. wait_and_execute_command wire_env NULL sample_invalid_request = Ret ((RESULT_ERROR, NULL), s') \<and>
     served wire_env NULL sample_invalid_request reqs (RESULT_ERROR, NULL) s' \<and> out_data s' = answer_all wire_env (zip reqs datas) (\<lambda>_. [])"
proof -
  let ?s = sample_invalid_request and ?s1 = "sample_invalid_request\<lparr>sys_count := 1\<rparr>"
  have s: "sys_always_ok ?s" "sys_always_ok ?s1" "in_data ?s 3 = [5]" "proc_request_handle ?s = 3" "proc_response_handle ?s = 4"
    "out_data ?s = (\<lambda>_. [])"
    by (simp_all add: sample_invalid_request_def sample_evt_defs sys_always_ok_def)
  have b: "block_for_request NULL ?s = Ret ((0, NULL), ?s1)"
    by (simp add: block_for_request_def sample_invalid_request_def sample_evt_defs get_thread_list_def read_set_loop.simps select_loop.simps
        sys_select_def sys_call_def fd_in_range_def FD_SETSIZE_def RESULT_SUCCESS_def bit_iff_odd)
  have "next_item wire_env (in_data ?s1 3) 1 = Item (Ev_uint8 5) []" by (simp add: s wire_simps)
  from read_request_type_ok [OF s(2) this, of 5 0] obtain c where
    t: "read_request_type wire_env 3 0 ?s1 = Ret ((RESULT_SUCCESS, 5), ?s1\<lparr>sys_count := c, in_data := (in_data ?s1)(3 := [])\<rparr>)"
    by auto
  have "\<exists>s'. finish_request wire_env 4 5 RESULT_ERROR u = Ret ((RESULT_ERROR, 5), s')" if "sys_always_ok u" for u :: evt_state
    using finish_request_error_ok [OF that wire_env_ok(3,2) response_ne(2), of 4 5] by blast
  moreover have "sys_always_ok (udi_set_errmsg wire_env fmt args u)" if "sys_always_ok u" for fmt args and u :: evt_state
    using that by (simp add: sys_always_ok_def)
  ultimately obtain s' where run: "execute_request wire_env NULL ?s1 = Ret ((RESULT_ERROR, 5), s')"
    using t s(2) by (fastforce simp: execute_request_def handle_process_request_def s request_handlers_def invalid_handler_def request_vals)
  have sv: "served wire_env NULL ?s [(NULL, 4, RESULT_ERROR, 5)] (RESULT_ERROR, NULL) s'"
    using served_last [OF b run] by (simp add: response_fd_def s)
  then have w: "wait_and_execute_command wire_env NULL ?s = Ret ((RESULT_ERROR, NULL), s')"
    using wait_and_execute_served by blast
  from wait_loop_answers [OF s(1) wire_env_ok(3), THEN iffD1, OF w] w show ?thesis
    unfolding s(6) by blast
qed

lemma continue_wait_served:
  assumes "block_for_request thr s = Ret ((RESULT_SUCCESS, NULL), s1)"
    and "sys_always_ok s" and "serializer_ok E" and "builders_ok E" and "thread_list s ps" and "continue_bp s = NULL"
    and "\<forall>p \<in> set ps. \<not> dead (thread_obj s p)"
    and "stream_items E (in_data s (proc_request_handle s)) [tev, Ev_map_start 1, Ev_string (bytes_of ''sig''), ev] rest"
    and "type_event tev = Some (request_val UDI_REQ_CONTINUE)" and "sig_event ev = Some v"
  shows "\<exists>s'. served E thr s [(NULL, proc_response_handle s,
        if \<exists>p \<in> set ps. ts (thread_obj s p) = UDI_TS_RUNNING then RESULT_SUCCESS else RESULT_FAILURE, request_val UDI_REQ_CONTINUE)]
      (if \<exists>p \<in> set ps. ts (thread_obj s p) = UDI_TS_RUNNING then RESULT_SUCCESS else RESULT_FAILURE, NULL) s' \<and>
    in_data s' = (in_data s)(proc_request_handle s := rest) \<and>
    kills s' = (if (\<exists>p \<in> set ps. ts (thread_obj s p) = UDI_TS_RUNNING) \<and> \<not> exiting s then kills s @ [v] else kills s) \<and>
    pass_signal s' = (if (\<exists>p \<in> set ps. ts (thread_obj s p) = UDI_TS_RUNNING) \<and> \<not> exiting s then v else pass_signal s) \<and>
    req_rest s' = req_rest s \<and> (\<forall>f. f \<noteq> proc_response_handle s \<longrightarrow> out_data s' f = out_data s f)"
proof -
  obtain c where c: "s1 = s\<lparr>sys_count := c\<rparr>" using block_for_request_count [OF assms(1)] by blast
  have s1: "sys_always_ok s1" "thread_list s1 ps" "continue_bp s1 = NULL" "\<forall>p \<in> set ps. \<not> dead (thread_obj s1 p)"
    "stream_items E (in_data s1 (proc_request_handle s1)) [tev, Ev_map_start 1, Ev_string (bytes_of ''sig''), ev] rest"
    using assms by (simp_all add: c)
  let ?r = "if \<exists>p \<in> set ps. ts (thread_obj s p) = UDI_TS_RUNNING then RESULT_SUCCESS else RESULT_FAILURE"
  from continue_request_run [OF s1(1) assms(3,4) s1(2-5) assms(9,10), of "proc_response_handle s1" "request_val UDI_REQ_INVALID"]
  obtain r s' where "handle_process_request E (proc_request_handle s1) (proc_response_handle s1) (request_val UDI_REQ_INVALID) s1 =
      Ret ((r, request_val UDI_REQ_CONTINUE), s')" and r: "r = ?r"
    and s': "in_data s' = (in_data s)(proc_request_handle s := rest)" "kills s' = (if r = RESULT_SUCCESS \<and> \<not> exiting s then kills s @ [v] else kills s)"
      "pass_signal s' = (if r = RESULT_SUCCESS \<and> \<not> exiting s then v else pass_signal s)" "req_rest s' = req_rest s"
      "\<forall>f. f \<noteq> proc_response_handle s \<longrightarrow> out_data s' f = out_data s f"
    by (auto simp: c)
  then have "execute_request E NULL s1 = Ret ((?r, request_val UDI_REQ_CONTINUE), s')" by (simp add: execute_request_def Let_def)
  from served_last [OF assms(1) [unfolded RESULT_SUCCESS_def] this]
  have "served E thr s [(NULL, proc_response_handle s, ?r, request_val UDI_REQ_CONTINUE)] (?r, NULL) s'" by (simp add: response_fd_def c)
  then show ?thesis using s' r by (intro exI [of _ s']) (simp add: result_defs)
qed

text \<open>The descriptor of the process is the first that the system reports.\<close>

lemma block_for_request_ready:
  assumes "sys_oracle s (sys_count s) = SysOk v" and "bit v (proc_request_handle s)" and "thread_list s ps"
    and "\<forall>p \<in> set ps. fd_in_range (request_handle (thread_obj s p))" and "proc_request_handle s < 1024"
  shows "block_for_request thr s = Ret ((RESULT_SUCCESS, NULL), s\<lparr>sys_count := Suc (sys_count s)\<rparr>)"
  using block_for_request_run [OF assms(3-5), of 0 v thr] assms(1,2) by simp

text \<open>
  A process that serves requests for some time, none of which has an error or is a continue request; and then finds a continue
  request with the signal \<open>v\<close> for the process next.
\<close>

inductive serves ::
    "env \<Rightarrow> ptr \<Rightarrow> 'z evt_state_scheme \<Rightarrow> (ptr \<times> nat \<times> int \<times> nat) list \<Rightarrow> ptr \<Rightarrow> 'z evt_state_scheme \<Rightarrow> bool" for E where
  serves_none: "serves E thr s [] thr s"
| serves_more:
    "block_for_request thr s = Ret ((0, thr'), s1) \<Longrightarrow> execute_request E thr' s1 = Ret ((r, t), s2) \<Longrightarrow>
     r \<noteq> RESULT_ERROR \<Longrightarrow> t \<noteq> request_val UDI_REQ_CONTINUE \<Longrightarrow>
     serves E thr' s2 reqs p s' \<Longrightarrow> serves E thr s ((thr', response_fd thr' s1, r, t) # reqs) p s'"

lemma serves_served: "serves E thr s reqs p u \<Longrightarrow> served E p u reqs' res s' \<Longrightarrow> served E thr s (reqs @ reqs') res s'"
  by (induction rule: serves.induct) (auto intro: served_more)

definition continue_pending :: "env \<Rightarrow> 'z evt_state_scheme \<Rightarrow> ptr list \<Rightarrow> u32 \<Rightarrow> u8 list \<Rightarrow> bool" where
  "continue_pending E s ps v rest \<longleftrightarrow>
     thread_list s ps \<and> continue_bp s = NULL \<and> proc_request_handle s < 1024 \<and>
     (\<forall>p \<in> set ps. \<not> dead (thread_obj s p) \<and> fd_in_range (request_handle (thread_obj s p))) \<and>
     (\<exists>x. sys_oracle s (sys_count s) = SysOk x \<and> bit x (proc_request_handle s)) \<and>
     (\<exists>tev ev. stream_items E (in_data s (proc_request_handle s)) [tev, Ev_map_start 1, Ev_string (bytes_of ''sig''), ev] rest \<and>
        type_event tev = Some (request_val UDI_REQ_CONTINUE) \<and> sig_event ev = Some v)"

definition some_running :: "'z thr_state_scheme \<Rightarrow> ptr list \<Rightarrow> bool" where
  "some_running s ps \<longleftrightarrow> (\<exists>p \<in> set ps. ts (thread_obj s p) = UDI_TS_RUNNING)"

text \<open>The requests that a wait serves up to and with the continue request.\<close>

definition requests_to_continue ::
    "'z evt_state_scheme \<Rightarrow> ptr list \<Rightarrow> (ptr \<times> nat \<times> int \<times> nat) list \<Rightarrow> (ptr \<times> nat \<times> int \<times> nat) list" where
  "requests_to_continue u ps reqs = reqs @ [(NULL, proc_response_handle u,
     if some_running u ps then RESULT_SUCCESS else RESULT_FAILURE, request_val UDI_REQ_CONTINUE)]"

lemma serves_oracle:
  assumes "serves E thr s reqs p u" and "sys_always_ok s" and "serializer_ok E"
  shows "sys_oracle u = sys_oracle s"
  using assms(1,2)
proof (induction rule: serves.induct)
  case (serves_more thr s thr' s1 r t s2 reqs p s')
  then obtain c where c: "s1 = s\<lparr>sys_count := c\<rparr>" using block_for_request_count by blast
  then have ok: "sys_always_ok s1" using serves_more by simp
  obtain data where "sent (response_fd thr' s1) (answer_bytes E thr' r t data) s1 s2"
    using execute_request_answer [OF ok assms(3) serves_more(2)] by blast
  then have "sys_oracle s2 = sys_oracle s" using c by (simp add: sent_def)
  then show ?case using serves_more.IH serves_more.prems by (simp add: sys_always_ok_def)
qed simp

lemma continue_after_requests:
  assumes serves: "serves E thr s reqs p u" and ok: "sys_always_ok s" and env: "serializer_ok E" "builders_ok E"
    and pending: "continue_pending E u ps v rest"
  shows "\<exists>s' datas. wait_and_execute_command E thr s = Ret ((if some_running u ps then RESULT_SUCCESS else RESULT_FAILURE, NULL), s') \<and>
    length datas = Suc (length reqs) \<and> out_data s' = answer_all E (zip (requests_to_continue u ps reqs) datas) (out_data s) \<and>
    in_data s' = (in_data u)(proc_request_handle u := rest) \<and>
    kills s' = (if some_running u ps \<and> \<not> exiting u then kills u @ [v] else kills u) \<and>
    pass_signal s' = (if some_running u ps \<and> \<not> exiting u then v else pass_signal u) \<and> req_rest s' = req_rest u"
proof -
  have orc: "sys_oracle u = sys_oracle s" using serves_oracle [OF serves ok env(1)] .
  then have uok: "sys_always_ok u" using ok by (simp add: sys_always_ok_def)
  from pending obtain x tev ev where u: "thread_list u ps" "continue_bp u = NULL" "proc_request_handle u < 1024"
      "\<forall>p \<in> set ps. \<not> dead (thread_obj u p)" "\<forall>p \<in> set ps. fd_in_range (request_handle (thread_obj u p))"
      "sys_oracle u (sys_count u) = SysOk x" "bit x (proc_request_handle u)"
      "stream_items E (in_data u (proc_request_handle u)) [tev, Ev_map_start 1, Ev_string (bytes_of ''sig''), ev] rest"
      "type_event tev = Some (request_val UDI_REQ_CONTINUE)" "sig_event ev = Some v"
    by (auto simp: continue_pending_def)
  note block = block_for_request_ready [OF u(6,7,1,5,3), of p]
  from continue_wait_served [OF block uok env u(1,2,4,8-10)] obtain s' where
    s': "served E p u [(NULL, proc_response_handle u, if some_running u ps then RESULT_SUCCESS else RESULT_FAILURE, request_val UDI_REQ_CONTINUE)]
        (if some_running u ps then RESULT_SUCCESS else RESULT_FAILURE, NULL) s'"
      "in_data s' = (in_data u)(proc_request_handle u := rest)"
      "kills s' = (if some_running u ps \<and> \<not> exiting u then kills u @ [v] else kills u)"
      "pass_signal s' = (if some_running u ps \<and> \<not> exiting u then v else pass_signal u)" "req_rest s' = req_rest u"
    by (auto simp: some_running_def)
  have served: "served E thr s (requests_to_continue u ps reqs) (if some_running u ps then RESULT_SUCCESS else RESULT_FAILURE, NULL) s'"
    using serves_served [OF serves s'(1)] by (simp add: requests_to_continue_def)
  moreover obtain datas where "length datas = Suc (length reqs)" "out_data s' = answer_all E (zip (requests_to_continue u ps reqs) datas) (out_data s)"
    using served_answers [OF served ok env(1)] by (auto simp: requests_to_continue_def)
  ultimately show ?thesis using s' wait_and_execute_served by blast
qed

text \<open>
  A continue request ends the wait. When the process has a continue request to serve, the loop returns with its
  result and the rest of the stream is left: with success, and the signal passed on unless the process is exiting, when
  some thread runs. When all threads are suspended, the request is refused with a failure, but the loop
  ends as well, so that the caller goes back to the program without a request that continues it.
\<close>

theorem continue_ends_wait:
  assumes "block_for_request thr s = Ret ((RESULT_SUCCESS, NULL), s1)"
    and "sys_always_ok s" and "serializer_ok E" and "builders_ok E" and "thread_list s ps" and "continue_bp s = NULL"
    and "\<forall>p \<in> set ps. \<not> dead (thread_obj s p)"
    and "stream_items E (in_data s (proc_request_handle s)) [tev, Ev_map_start 1, Ev_string (bytes_of ''sig''), ev] rest"
    and "type_event tev = Some (request_val UDI_REQ_CONTINUE)" and "sig_event ev = Some v"
  shows "\<exists>s'. wait_and_execute_command E thr s =
      Ret ((if \<exists>p \<in> set ps. ts (thread_obj s p) = UDI_TS_RUNNING then RESULT_SUCCESS else RESULT_FAILURE, NULL), s') \<and>
    in_data s' = (in_data s)(proc_request_handle s := rest) \<and>
    kills s' = (if (\<exists>p \<in> set ps. ts (thread_obj s p) = UDI_TS_RUNNING) \<and> \<not> exiting s then kills s @ [v] else kills s)"
  using continue_wait_served [OF assms] wait_and_execute_served by blast

text \<open>A process whose only thread is suspended, with a continue request on its descriptor.\<close>

definition sample_suspended_continue :: evt_state where
  "sample_suspended_continue = sample_evt_state\<lparr>sys_oracle := (\<lambda>_. SysOk 8),
     in_data := (\<lambda>_. [])(3 := [1, 0xa1, 0x63, 0x73, 0x69, 0x67, 10]),
     thr_heap := [3 \<mapsto> (new_thread 16 (5, 6))\<lparr>ts := UDI_TS_SUSPENDED, request_handle := 7, response_handle := 8\<rparr>], num_threads := 1\<rparr>"

theorem continue_ends_wait_witness:
  "\<exists>s'. wait_and_execute_command wire_env NULL sample_suspended_continue = Ret ((RESULT_FAILURE, NULL), s') \<and>
     in_data s' 3 = [] \<and> kills s' = []"
proof -
  let ?s = sample_suspended_continue
  have s: "sys_always_ok ?s" "thread_list ?s [3]" "continue_bp ?s = NULL" "in_data ?s 3 = [1, 0xa1, 0x63, 0x73, 0x69, 0x67, 10]"
    "proc_request_handle ?s = 3" "thr_heap ?s 3 = Some ((new_thread 16 (5, 6))\<lparr>ts := UDI_TS_SUSPENDED, request_handle := 7, response_handle := 8\<rparr>)"
    "kills ?s = []"
    by (simp_all add: sample_suspended_continue_def sample_evt_defs sys_always_ok_def thread_list_def new_thread_def)
  have b: "block_for_request NULL ?s = Ret ((RESULT_SUCCESS, NULL), ?s\<lparr>sys_count := 1\<rparr>)"
    by (simp add: block_for_request_def sample_suspended_continue_def sample_evt_defs get_thread_list_def read_set_loop.simps select_loop.simps
        sys_select_def sys_call_def fd_in_range_def FD_SETSIZE_def bit_iff_odd new_thread_def)
  have items: "stream_items wire_env (in_data ?s (proc_request_handle ?s)) [Ev_uint8 1, Ev_map_start 1, Ev_string (bytes_of ''sig''), Ev_uint8 10] []"
    by (simp add: s wire_simps bytes_of_def)
  have ev: "type_event (Ev_uint8 1) = Some (request_val UDI_REQ_CONTINUE)" "sig_event (Ev_uint8 10) = Some 10"
    by (simp_all add: request_vals)
  have t: "\<forall>p \<in> set [3]. \<not> dead (thread_obj ?s p)" "ts (thread_obj ?s 3) = UDI_TS_SUSPENDED"
    by (simp_all add: thread_obj_def s new_thread_def)
  from continue_ends_wait [OF b s(1) wire_env_ok(3,2) s(2,3) t(1) items ev] show ?thesis
    using t(2) by (auto simp: s)
qed

end
