(* ===== verification/Signals.thy ===== *)
theory Signals
  imports Wait_Loop
begin

text \<open>
  The signal actions of the process (\<^verbatim>\<open>udirt-posix-sys.c\<close>): the library installs its own handler for every
  signal and keeps the actions of the application in a table, which the wrappers of
  \<^verbatim>\<open>sigaction\<close> and \<^verbatim>\<open>signal\<close> read and write and from which signals are passed on.
\<close>

section \<open>Definitions\<close>

text \<open>The handlers an action can name: the two special values, the value for an error, the entry point of the library, and functions of the application.\<close>

datatype sig_handler = SIG_DFL | SIG_IGN | SIG_ERR | Lib_entry | App_handler nat

record sig_action =
  sa_sigaction :: sig_handler
  sa_mask :: "nat set"
  sa_flags :: nat

record app_sigaction =
  app_signal :: nat
  app_action :: sig_action

text \<open>The array \<^verbatim>\<open>signals\<close> with the numbers of Linux on x86.\<close>

definition signals :: "nat list" where
  "signals = [1, 2, 3, 4, 5, 6, 7, 8, 10, 11, 12, 13, 14, 15, 16, 17, 18, 20, 21, 22, 23, 24, 25, 26, 27, 28, 29, 30, 31]"

definition SIGPIPE :: nat where
  "SIGPIPE = 13"

definition SIGABRT :: nat where
  "SIGABRT = 6"

definition EINVAL :: int where
  "EINVAL = 22"

definition SA_SIGINFO :: nat where
  "SA_SIGINFO = 4"

definition SA_NODEFER :: nat where
  "SA_NODEFER = 0x40000000"

definition full_set :: "nat set" where
  "full_set = {1..64}"

text \<open>
  The table of the application and the action of the library, the actions that are in force in the kernel, and
  the calls of handlers of the application with the mask they run under, and the functions of the C library that were located.
\<close>

record sig_state = evt_state +
  app_actions :: "app_sigaction list"
  default_lib_action :: sig_action
  dispositions :: "nat \<Rightarrow> sig_action"
  app_calls :: "(nat \<times> sig_handler \<times> nat set) list"
  located :: "string set"

text \<open>
  The \<^verbatim>\<open>sigaction\<close> of the C library: an error number, or the action that was in force; the new action, when there is one, is then in force.
\<close>

definition real_sigaction :: "nat \<Rightarrow> sig_action option \<Rightarrow> 'z sig_state_scheme \<Rightarrow> (nat + sig_action) \<times> 'z sig_state_scheme" where
  "real_sigaction signum act s =
     (case sys_call s of (r, s) \<Rightarrow>
        if sys_failed r then (Inl (sys_errno r), s)
        else (Inr (dispositions s signum),
              case act of None \<Rightarrow> s | Some a \<Rightarrow> s\<lparr>dispositions := (dispositions s)(signum := a)\<rparr>))"

subsection \<open>Locating the wrapped functions\<close>

text \<open>
  A lookup by \<^verbatim>\<open>dlsym\<close> succeeds or leaves a message, which is copied to the message of the error. The texts
  of the dynamic loader are an argument.
\<close>

primrec locate_symbols :: "(string \<Rightarrow> string) \<Rightarrow> string list \<Rightarrow> 'z sig_state_scheme \<Rightarrow> int \<times> 'z sig_state_scheme" where
  "locate_symbols dlerr [] s = (0, s)"
| "locate_symbols dlerr (name # names) s =
     (case sys_call s of (r, s) \<Rightarrow>
        if sys_failed r then (- 1, s\<lparr>errmsg := Some (take (ERRMSG_SIZE - 1) (c_str (dlerr name)))\<rparr>)
        else locate_symbols dlerr names (s\<lparr>located := insert name (located s)\<rparr>))"

definition locate_wrapper_functions :: "(string \<Rightarrow> string) \<Rightarrow> 'z sig_state_scheme \<Rightarrow> int \<times> 'z sig_state_scheme" where
  "locate_wrapper_functions dlerr s = locate_symbols dlerr [''sigaction'', ''fork'', ''execve'', ''signal''] s"

definition locate_thread_wrapper_functions :: "(string \<Rightarrow> string) \<Rightarrow> 'z sig_state_scheme \<Rightarrow> int \<times> 'z sig_state_scheme" where
  "locate_thread_wrapper_functions dlerr s = locate_symbols dlerr [''pthread_create'', ''pthread_exit''] s"

subsection \<open>Setting up\<close>

primrec install_loop :: "(nat \<times> nat) list \<Rightarrow> 'z sig_state_scheme \<Rightarrow> nat \<times> 'z sig_state_scheme" where
  "install_loop [] s = (0, s)"
| "install_loop (x # xs) s =
     (case x of (i, signum) \<Rightarrow>
        if signum = 0 then install_loop xs s
        else (case real_sigaction signum (Some (default_lib_action s)) s of
            (Inl errno, s) \<Rightarrow> (errno, s)
          | (Inr old, s) \<Rightarrow>
              install_loop xs (s\<lparr>app_actions := (app_actions s)[i := (app_actions s ! i)\<lparr>app_action := old\<rparr>]\<rparr>)))"

definition setup_signal_handlers :: "'z sig_state_scheme \<Rightarrow> nat \<times> 'z sig_state_scheme" where
  "setup_signal_handlers s =
     (let s = s\<lparr>default_lib_action := \<lparr>sa_sigaction = Lib_entry, sa_mask = full_set, sa_flags = SA_SIGINFO + SA_NODEFER\<rparr>,
               app_actions := map (\<lambda>signum. \<lparr>app_signal = signum,
                 app_action = \<lparr>sa_sigaction = SIG_DFL, sa_mask = {}, sa_flags = 0\<rparr>\<rparr>) signals\<rparr>
      in install_loop (List.enumerate 0 signals) s)"

primrec uninstall_loop :: "(nat \<times> nat) list \<Rightarrow> 'z sig_state_scheme \<Rightarrow> nat \<times> 'z sig_state_scheme" where
  "uninstall_loop [] s = (0, s)"
| "uninstall_loop (x # xs) s =
     (case x of (i, signum) \<Rightarrow>
        if signum = 0 \<or> signum = SIGPIPE \<and> pipe_write_failure s then uninstall_loop xs s
        else (case real_sigaction signum (Some (app_action (app_actions s ! i))) s of
            (Inl errno, s) \<Rightarrow> (errno, s)
          | (Inr old, s) \<Rightarrow> uninstall_loop xs s))"

definition uninstall_signal_handlers :: "'z sig_state_scheme \<Rightarrow> nat \<times> 'z sig_state_scheme" where
  "uninstall_signal_handlers s = uninstall_loop (List.enumerate 0 signals) s"

definition disable_debugging :: "'z sig_state_scheme \<Rightarrow> 'z sig_state_scheme" where
  "disable_debugging s = snd (uninstall_signal_handlers (s\<lparr>udi_enabled := False\<rparr>))"

text \<open>The state in which \<^verbatim>\<open>abort\<close> is called.\<close>

definition udi_abort_file_line :: "'z sig_state_scheme \<Rightarrow> 'z sig_state_scheme" where
  "udi_abort_file_line s =
     (if ''sigaction'' \<in> located s
      then disable_debugging (snd (real_sigaction SIGABRT (Some \<lparr>sa_sigaction = SIG_DFL, sa_mask = {}, sa_flags = 0\<rparr>) s))
      else s)"

subsection \<open>The wrappers\<close>

text \<open>
  The loop over the table: whether the signal was found, what is written to the old action, and the table.
\<close>

primrec find_action ::
    "nat \<Rightarrow> sig_action option \<Rightarrow> app_sigaction list \<Rightarrow> sig_action option \<Rightarrow> sig_action option \<times> app_sigaction list" where
  "find_action signum act [] old = (old, [])"
| "find_action signum act (a # as) old =
     (if app_signal a = signum
      then (case find_action signum act as (Some (app_action a)) of (old, as) \<Rightarrow>
        (old, (case act of None \<Rightarrow> a | Some x \<Rightarrow> a\<lparr>app_action := x\<rparr>) # as))
      else (case find_action signum act as old of (old, as) \<Rightarrow> (old, a # as)))"

text \<open>
  The result and the old action, as far as it was written. The variable \<^verbatim>\<open>result\<close> inside the loop is not the one that is returned,
  and a signal that is not in the table returns at once. The two pointers of the caller are taken to be different: a call that
  passes one object for both has its new action overwritten by the first call of the system before the library stores it.
\<close>

definition wrapped_sigaction ::
    "nat \<Rightarrow> sig_action option \<Rightarrow> 'z sig_state_scheme \<Rightarrow> (int \<times> sig_action option) \<times> 'z sig_state_scheme" where
  "wrapped_sigaction signum act s =
     (let orig_set = sig_mask s;
          unblock = (\<lambda>oldact s. case setsigmask orig_set s of (ok, s) \<Rightarrow> ((if ok then 0 else EINVAL, oldact), s))
      in case setsigmask full_set s of (ok, s) \<Rightarrow>
        if \<not> ok then ((EINVAL, None), s)
        else (case real_sigaction signum act s of
            (Inl errno, s) \<Rightarrow> unblock None s
          | (Inr old, s) \<Rightarrow> (case real_sigaction signum (Some (default_lib_action s)) s of
                (Inl errno, s) \<Rightarrow> unblock (Some old) s
              | (Inr _, s) \<Rightarrow> (case find_action signum act (app_actions s) None of
                    (None, _) \<Rightarrow> ((EINVAL, Some old), s)
                  | (Some oldact, actions) \<Rightarrow> unblock (Some oldact) (s\<lparr>app_actions := actions\<rparr>)))))"

text \<open>The mask and the flags of the action that \<^verbatim>\<open>signal\<close> passes are not initialised; they are an argument here.\<close>

definition wrapped_signal ::
    "sig_action \<Rightarrow> nat \<Rightarrow> sig_handler \<Rightarrow> 'z sig_state_scheme \<Rightarrow> sig_handler \<times> 'z sig_state_scheme" where
  "wrapped_signal garbage signum handler s =
     (case wrapped_sigaction signum (Some (garbage\<lparr>sa_sigaction := handler\<rparr>)) s of ((result, oldact), s) \<Rightarrow>
        (if result \<noteq> 0 then SIG_ERR else (case oldact of Some a \<Rightarrow> sa_sigaction a | None \<Rightarrow> sa_sigaction garbage), s))"

text \<open>
  Passing a signal on. Only the test for ignored signals uses the entry of the signal; what is tested,
  masked and called afterwards is the first entry of the table. A handler that is not a function cannot be called. When the
  mask cannot be set, the variable for the old one stays uninitialised; its value is an argument.
\<close>

definition app_signal_handler :: "nat set \<Rightarrow> nat \<Rightarrow> 'z sig_state_scheme \<Rightarrow> 'z sig_state_scheme run" where
  "app_signal_handler junk signum s =
     (case List.find (\<lambda>a. app_signal a = signum) (rev (app_actions s)) of
        None \<Rightarrow> Ret s
      | Some a \<Rightarrow>
          let first = app_action (hd (app_actions s)) in
          if sa_sigaction (app_action a) = SIG_IGN \<or> sa_sigaction first = SIG_DFL then Ret s
          else
            let orig_set = sig_mask s in
            (case setsigmask (sa_mask first) s of (ok, s) \<Rightarrow>
              let cur_set = (if ok then orig_set else junk) in
              (case sa_sigaction first of
                 App_handler h \<Rightarrow> Ret (snd (setsigmask cur_set
                   (s\<lparr>app_calls := app_calls s @ [(signum, sa_sigaction first, sig_mask s)]\<rparr>)))
               | _ \<Rightarrow> Stuck)))"

section \<open>The loops over the table\<close>

definition lib_action :: sig_action where
  "lib_action = \<lparr>sa_sigaction = Lib_entry, sa_mask = full_set, sa_flags = SA_SIGINFO + SA_NODEFER\<rparr>"

text \<open>The action that the application has for a signal: what the table says, or what is in force when the table has no entry.\<close>

definition app_view :: "'z sig_state_scheme \<Rightarrow> nat \<Rightarrow> sig_action" where
  "app_view s n =
     (case map_of (map (\<lambda>a. (app_signal a, app_action a)) (app_actions s)) n of
        None \<Rightarrow> dispositions s n | Some a \<Rightarrow> a)"

lemma signals_distinct: "distinct signals"
  by (simp add: signals_def)

lemma signals_nonzero: "0 \<notin> set signals"
  by (simp add: signals_def)

lemma sys_always_ok_count [simp]: "sys_always_ok (sys_count_update f s) = sys_always_ok s"
  by (simp add: sys_always_ok_def)

text \<open>The actions after a call.\<close>

definition action_after :: "nat \<Rightarrow> sig_action option \<Rightarrow> (nat \<Rightarrow> sig_action) \<Rightarrow> nat \<Rightarrow> sig_action" where
  "action_after n act d = (case act of None \<Rightarrow> d | Some a \<Rightarrow> d(n := a))"

lemma action_after_simps [simp]:
  "action_after n None d = d"
  "action_after n (Some a) d = d(n := a)"
  by (simp_all add: action_after_def)

lemma real_sigaction_ok:
  "sys_always_ok s \<Longrightarrow> real_sigaction n act s =
     (Inr (dispositions s n), s\<lparr>sys_count := Suc (sys_count s),
        dispositions := action_after n act (dispositions s)\<rparr>)"
  by (simp add: real_sigaction_def sys_call_def sys_always_ok_def split: option.split)

lemma setsigmask_ok:
  "sys_always_ok s \<Longrightarrow> setsigmask m s = (True, s\<lparr>sys_count := Suc (sys_count s), sig_mask := m\<rparr>)"
  by (simp add: setsigmask_def sys_call_def sys_always_ok_def)

lemma install_loop_ok:
  assumes "sys_always_ok s" and "0 \<notin> set sigs" and "distinct sigs"
    and "length (app_actions s) = k + length sigs" and "default_lib_action s = lib_action"
  shows "install_loop (List.enumerate k sigs) s =
    (0, s\<lparr>sys_count := sys_count s + length sigs,
          dispositions := (\<lambda>n. if n \<in> set sigs then lib_action else dispositions s n),
          app_actions := take k (app_actions s) @
            map2 (\<lambda>a n. a\<lparr>app_action := dispositions s n\<rparr>) (drop k (app_actions s)) sigs\<rparr>)"
  using assms
proof (induction sigs arbitrary: k s)
  case (Cons x xs)
  let ?a = "(app_actions s ! k)\<lparr>app_action := dispositions s x\<rparr>"
  let ?s = "s\<lparr>sys_count := Suc (sys_count s), dispositions := (dispositions s)(x := lib_action),
              app_actions := (app_actions s)[k := ?a]\<rparr>"
  have k: "k < length (app_actions s)" using Cons.prems by simp
  have split: "drop k (app_actions s) = app_actions s ! k # drop (Suc k) (app_actions s)"
    using k by (rule Cons_nth_drop_Suc [symmetric])
  have tk: "take (Suc k) ((app_actions s)[k := ?a]) = take k (app_actions s) @ [?a]"
    using k by (simp add: take_Suc_conv_app_nth)
  have "install_loop (List.enumerate k (x # xs)) s = install_loop (List.enumerate (Suc k) xs) ?s"
    using Cons.prems by (simp add: real_sigaction_ok)
  also have "\<dots> = (0, ?s\<lparr>sys_count := sys_count ?s + length xs,
      dispositions := (\<lambda>n. if n \<in> set xs then lib_action else dispositions ?s n),
      app_actions := take (Suc k) (app_actions ?s) @
        map2 (\<lambda>a n. a\<lparr>app_action := dispositions ?s n\<rparr>) (drop (Suc k) (app_actions ?s)) xs\<rparr>)"
    using Cons.prems by (intro Cons.IH) (simp_all add: sys_always_ok_def)
  also have "map2 (\<lambda>a n. a\<lparr>app_action := dispositions ?s n\<rparr>) (drop (Suc k) (app_actions ?s)) xs =
      map2 (\<lambda>a n. a\<lparr>app_action := dispositions s n\<rparr>) (drop (Suc k) (app_actions s)) xs"
    using Cons.prems by (auto dest: set_zip_rightD)
  finally show ?case
    using split tk by (auto simp: fun_eq_iff)
qed simp

lemma uninstall_loop_ok:
  assumes "sys_always_ok s" and "0 \<notin> set sigs" and "\<not> pipe_write_failure s"
    and "\<And>i. i < length sigs \<Longrightarrow> app_action (app_actions s ! (k + i)) = f (sigs ! i)"
  shows "uninstall_loop (List.enumerate k sigs) s =
    (0, s\<lparr>sys_count := sys_count s + length sigs,
          dispositions := (\<lambda>n. if n \<in> set sigs then f n else dispositions s n)\<rparr>)"
  using assms
proof (induction sigs arbitrary: k s)
  case (Cons x xs)
  let ?s = "s\<lparr>sys_count := Suc (sys_count s), dispositions := (dispositions s)(x := f x)\<rparr>"
  have hd: "app_action (app_actions s ! k) = f x"
    using Cons.prems(4) [of 0] by simp
  have "app_action (app_actions s ! (Suc k + i)) = f (xs ! i)" if "i < length xs" for i
    using Cons.prems(4) [of "Suc i"] that by simp
  then have "uninstall_loop (List.enumerate (Suc k) xs) ?s =
      (0, ?s\<lparr>sys_count := sys_count ?s + length xs,
             dispositions := (\<lambda>n. if n \<in> set xs then f n else dispositions ?s n)\<rparr>)"
    using Cons.prems by (intro Cons.IH) (simp_all add: sys_always_ok_def)
  then show ?case
    using Cons.prems hd by (auto simp: real_sigaction_ok fun_eq_iff)
qed simp

lemma find_action_absent:
  "n \<notin> app_signal ` set as \<Longrightarrow> find_action n act as old = (old, as)"
  by (induction as arbitrary: old) auto

lemma find_action_present:
  assumes "distinct (map app_signal as)" and "map_of (map (\<lambda>a. (app_signal a, app_action a)) as) n = Some x"
  shows "find_action n act as old =
    (Some x, map (\<lambda>a. if app_signal a = n then (case act of None \<Rightarrow> a | Some y \<Rightarrow> a\<lparr>app_action := y\<rparr>) else a) as)"
  using assms
proof (induction as)
  case (Cons a as)
  show ?case
  proof (cases "app_signal a = n")
    case True
    then have "n \<notin> app_signal ` set as" using Cons.prems by auto
    moreover from this have "map (\<lambda>a. if app_signal a = n then (case act of None \<Rightarrow> a | Some y \<Rightarrow> a\<lparr>app_action := y\<rparr>) else a) as = as"
      by (intro map_idI) auto
    ultimately show ?thesis using True Cons.prems by (simp add: find_action_absent)
  next
    case False
    then show ?thesis using Cons by simp
  qed
qed simp

section \<open>Interposition\<close>

text \<open>
  What an interface to signal actions promises: a call answers with the action before it, and the
  new action, when there is one, is the action after it. The kernel offers the interface, and the wrapper offers it again over
  its table.
\<close>

primrec run_calls :: "(nat \<Rightarrow> sig_action option \<Rightarrow> 's \<Rightarrow> 'r \<times> 's) \<Rightarrow> (nat \<times> sig_action option) list \<Rightarrow> 's \<Rightarrow> 'r list \<times> 's" where
  "run_calls f [] s = ([], s)"
| "run_calls f (c # cs) s =
     (case f (fst c) (snd c) s of (r, s) \<Rightarrow> case run_calls f cs s of (rs, s) \<Rightarrow> (r # rs, s))"

primrec actions_spec :: "(nat \<times> sig_action option) list \<Rightarrow> (nat \<Rightarrow> sig_action) \<Rightarrow> sig_action list \<times> (nat \<Rightarrow> sig_action)" where
  "actions_spec [] d = ([], d)"
| "actions_spec (c # cs) d =
     (case actions_spec cs (action_after (fst c) (snd c) d) of (olds, d') \<Rightarrow> (d (fst c) # olds, d'))"

locale signal_actions =
  fixes ready :: "'s \<Rightarrow> bool"
    and view :: "'s \<Rightarrow> nat \<Rightarrow> sig_action"
    and known :: "nat \<Rightarrow> bool"
    and call :: "nat \<Rightarrow> sig_action option \<Rightarrow> 's \<Rightarrow> 'r \<times> 's"
    and reply :: "sig_action \<Rightarrow> 'r"
  assumes call_reply: "ready s \<Longrightarrow> known n \<Longrightarrow> fst (call n act s) = reply (view s n)"
    and call_view: "ready s \<Longrightarrow> known n \<Longrightarrow> view (snd (call n act s)) = action_after n act (view s)"
    and call_ready: "ready s \<Longrightarrow> known n \<Longrightarrow> ready (snd (call n act s))"
begin

lemma calls_refine:
  assumes "ready s" and "list_all (known \<circ> fst) cs" and "run_calls call cs s = (rs, s')"
  shows "ready s' \<and> (rs, view s') = apfst (map reply) (actions_spec cs (view s))"
  using assms
proof (induction cs arbitrary: s rs)
  case (Cons c cs)
  let ?s = "snd (call (fst c) (snd c) s)"
  obtain rs' where rest: "run_calls call cs ?s = (rs', s')" and rs: "rs = fst (call (fst c) (snd c) s) # rs'"
    using Cons.prems(3) by (auto split: prod.splits)
  have "ready s' \<and> (rs', view s') = apfst (map reply) (actions_spec cs (view ?s))"
    using Cons.prems rest by (intro Cons.IH) (auto intro: call_ready)
  then show ?case
    using Cons.prems rs by (auto simp: call_reply call_view split: prod.splits)
qed simp

end

interpretation kernel: signal_actions sys_always_ok dispositions "\<lambda>_. True"
    "real_sigaction :: nat \<Rightarrow> sig_action option \<Rightarrow> 'z sig_state_scheme \<Rightarrow> (nat + sig_action) \<times> 'z sig_state_scheme" Inr
  by unfold_locales (auto simp: real_sigaction_ok sys_always_ok_def)

text \<open>
  The library is in place over the actions \<open>d\<close> of the process and with the signal mask \<open>m\<close>: it handles exactly the signals of the table.
\<close>

definition interposed :: "(nat \<Rightarrow> sig_action) \<Rightarrow> nat set \<Rightarrow> 'z sig_state_scheme \<Rightarrow> bool" where
  "interposed d m s \<longleftrightarrow> sys_always_ok s \<and> \<not> pipe_write_failure s \<and> sig_mask s = m \<and>
     map app_signal (app_actions s) = signals \<and> default_lib_action s = lib_action \<and>
     dispositions s = (\<lambda>n. if n \<in> set signals then lib_action else d n)"

lemma interposed_entry:
  assumes "interposed d m s" and "n \<in> set signals"
  shows "map_of (map (\<lambda>a. (app_signal a, app_action a)) (app_actions s)) n = Some (app_view s n)"
proof -
  from assms(1) have "set (map app_signal (app_actions s)) = set signals"
    by (simp only: interposed_def)
  with assms(2) have "n \<in> app_signal ` set (app_actions s)" by simp
  then have "map_of (map (\<lambda>a. (app_signal a, app_action a)) (app_actions s)) n \<noteq> None"
    by (simp add: map_of_eq_None_iff image_image)
  then show ?thesis by (auto simp: app_view_def)
qed

text \<open>The table after a call.\<close>

definition table_after :: "nat \<Rightarrow> sig_action option \<Rightarrow> app_sigaction list \<Rightarrow> app_sigaction list" where
  "table_after n act as =
     map (\<lambda>a. if app_signal a = n then (case act of None \<Rightarrow> a | Some y \<Rightarrow> a\<lparr>app_action := y\<rparr>) else a) as"

lemma table_after_signals [simp]: "map app_signal (table_after n act as) = map app_signal as"
  by (auto simp: table_after_def split: option.split)

lemma table_after_lookup:
  "map_of (map (\<lambda>a. (app_signal a, app_action a)) (table_after n act as)) k =
     (case act of
        None \<Rightarrow> map_of (map (\<lambda>a. (app_signal a, app_action a)) as) k
      | Some y \<Rightarrow> if k = n \<and> n \<in> app_signal ` set as then Some y
                else map_of (map (\<lambda>a. (app_signal a, app_action a)) as) k)"
  by (induction as) (auto simp: table_after_def split: option.split)

lemma wrapped_sigaction_ok:
  assumes ready: "interposed d m s" and n: "n \<in> set signals"
  shows "wrapped_sigaction n act s =
    ((0, Some (app_view s n)), s\<lparr>sys_count := sys_count s + 4, app_actions := table_after n act (app_actions s)\<rparr>)"
proof -
  have "distinct (map app_signal (app_actions s))"
    using ready signals_distinct by (simp add: interposed_def)
  from find_action_present [OF this interposed_entry [OF ready n], of act None]
  have found: "find_action n act (app_actions s) None = (Some (app_view s n), table_after n act (app_actions s))"
    by (simp add: table_after_def)
  have disp: "(action_after n act (dispositions s))(n := lib_action) = dispositions s"
    using ready n by (cases act) (auto simp: interposed_def)
  from ready have ok: "sys_always_ok s" and lib: "default_lib_action s = lib_action" and m: "sig_mask s = m"
    by (simp_all only: interposed_def)
  let ?s1 = "s\<lparr>sys_count := Suc (sys_count s), sig_mask := full_set\<rparr>"
  let ?s2 = "s\<lparr>sig_mask := full_set, sys_count := Suc (Suc (sys_count s)), dispositions := action_after n act (dispositions s)\<rparr>"
  let ?s3 = "s\<lparr>sig_mask := full_set, sys_count := Suc (Suc (Suc (sys_count s)))\<rparr>"
  let ?s4 = "?s3\<lparr>app_actions := table_after n act (app_actions s)\<rparr>"
  have oks: "sys_always_ok ?s1" "sys_always_ok ?s2" "sys_always_ok ?s4"
    using ok by (simp_all add: sys_always_ok_def)
  have r1: "real_sigaction n act ?s1 = (Inr (dispositions s n), ?s2)"
    using real_sigaction_ok [OF oks(1)] by simp
  have r2: "real_sigaction n (Some lib_action) ?s2 = (Inr (dispositions ?s2 n), ?s3)"
    using real_sigaction_ok [OF oks(2), of n "Some lib_action"] disp by simp
  have m4: "setsigmask (sig_mask s) ?s4 = (True, s\<lparr>sys_count := sys_count s + 4, app_actions := table_after n act (app_actions s)\<rparr>)"
    using setsigmask_ok [OF oks(3)] by simp
  show ?thesis
    unfolding wrapped_sigaction_def Let_def setsigmask_ok [OF ok]
    by (simp add: r1 r2 lib found m4)
qed

interpretation wrapped: signal_actions "interposed d m :: 'z sig_state_scheme \<Rightarrow> bool" app_view "\<lambda>n. n \<in> set signals"
    wrapped_sigaction "\<lambda>a. (0, Some a)" for d m
proof
  fix s :: "'z sig_state_scheme" and n act
  assume ready: "interposed d m s" and n: "n \<in> set signals"
  note call = wrapped_sigaction_ok [OF ready n, of act]
  show "fst (wrapped_sigaction n act s) = (0, Some (app_view s n))"
    by (simp add: call)
  show "interposed d m (snd (wrapped_sigaction n act s))"
    using ready by (simp add: call interposed_def sys_always_ok_def)
  have "n \<in> app_signal ` set (app_actions s)"
    using interposed_entry [OF ready n] by (auto dest!: map_of_SomeD)
  then have "app_view (s\<lparr>sys_count := c, app_actions := table_after n act (app_actions s)\<rparr>) k =
      action_after n act (app_view s) k" for c k
    by (cases act) (simp_all add: app_view_def table_after_lookup split: option.split)
  then show "app_view (snd (wrapped_sigaction n act s)) = action_after n act (app_view s)"
    by (simp add: call fun_eq_iff)
qed

lemma map_app_action_table:
  assumes "distinct (map app_signal as)" and "i < length as"
  shows "map_of (map (\<lambda>a. (app_signal a, app_action a)) as) (app_signal (as ! i)) = Some (app_action (as ! i))"
  using assms by (intro map_of_is_SomeI) (auto simp: comp_def)

lemma interposed_nth:
  assumes "interposed d m s" and "i < length signals"
  shows "app_action (app_actions s ! i) = app_view s (signals ! i)"
proof -
  from assms(1) have sigs: "map app_signal (app_actions s) = signals" by (simp only: interposed_def)
  then have len: "i < length (app_actions s)" using assms(2) by (metis length_map)
  then have "app_signal (app_actions s ! i) = signals ! i" using sigs by (metis nth_map)
  moreover have "distinct (map app_signal (app_actions s))" using sigs signals_distinct by simp
  ultimately show ?thesis
    using map_app_action_table [OF _ len] by (simp add: app_view_def)
qed

lemma uninstall_interposed:
  assumes "interposed d m s"
  shows "uninstall_signal_handlers s =
    (0, s\<lparr>sys_count := sys_count s + 29, dispositions := (\<lambda>n. if n \<in> set signals then app_view s n else d n)\<rparr>)"
proof -
  have "uninstall_loop (List.enumerate 0 signals) s =
    (0, s\<lparr>sys_count := sys_count s + length signals,
          dispositions := (\<lambda>n. if n \<in> set signals then app_view s n else dispositions s n)\<rparr>)"
    using assms interposed_nth [OF assms] signals_nonzero
    by (intro uninstall_loop_ok) (auto simp: interposed_def)
  moreover have "(\<lambda>n. if n \<in> set signals then app_view s n else dispositions s n) =
      (\<lambda>n. if n \<in> set signals then app_view s n else d n)"
    using assms by (auto simp: interposed_def fun_eq_iff)
  moreover have "length signals = 29" by (simp add: signals_def)
  ultimately show ?thesis by (simp add: uninstall_signal_handlers_def)
qed

lemma setup_interposes:
  assumes "sys_always_ok s" and "\<not> pipe_write_failure s"
  shows "\<exists>s1. setup_signal_handlers s = (0, s1) \<and> interposed (dispositions s) (sig_mask s) s1 \<and>
    app_view s1 = dispositions s \<and>
    (\<exists>c a d as. s1 = s\<lparr>default_lib_action := a, sys_count := c, dispositions := d, app_actions := as\<rparr>)"
proof -
  define blank where "blank = (\<lambda>signum. \<lparr>app_signal = signum,
    app_action = \<lparr>sa_sigaction = SIG_DFL, sa_mask = {}, sa_flags = 0\<rparr>\<rparr>)"
  define s0 where "s0 = s\<lparr>default_lib_action := lib_action, app_actions := map blank signals\<rparr>"
  define tab where "tab = map2 (\<lambda>a n. a\<lparr>app_action := dispositions s n\<rparr>) (map blank signals) signals"
  define s1 where "s1 = s0\<lparr>sys_count := sys_count s0 + length signals,
    dispositions := (\<lambda>n. if n \<in> set signals then lib_action else dispositions s n), app_actions := tab\<rparr>"
  have disp: "dispositions s0 = dispositions s" and acts: "app_actions s0 = map blank signals"
    by (simp_all add: s0_def)
  have "setup_signal_handlers s = install_loop (List.enumerate 0 signals) s0"
    unfolding setup_signal_handlers_def Let_def s0_def blank_def lib_action_def ..
  also have "\<dots> = (0, s0\<lparr>sys_count := sys_count s0 + length signals,
      dispositions := (\<lambda>n. if n \<in> set signals then lib_action else dispositions s0 n),
      app_actions := take 0 (app_actions s0) @
        map2 (\<lambda>a n. a\<lparr>app_action := dispositions s0 n\<rparr>) (drop 0 (app_actions s0)) signals\<rparr>)"
    using assms signals_nonzero signals_distinct
    by (intro install_loop_ok) (simp_all add: s0_def sys_always_ok_def)
  also have "\<dots> = (0, s1)"
    unfolding s1_def tab_def disp acts take_0 drop_0 append_Nil ..
  finally have "setup_signal_handlers s = (0, s1)" .
  moreover have tab: "map app_signal tab = signals" "map app_action tab = map (dispositions s) signals"
    by (auto simp: tab_def blank_def list_eq_iff_nth_eq)
  then have "interposed (dispositions s) (sig_mask s) s1"
    using assms by (simp add: interposed_def s1_def s0_def sys_always_ok_def)
  moreover have "app_view s1 = dispositions s"
  proof
    fix n
    have *: "map (\<lambda>a. (app_signal a, app_action a)) tab = map (\<lambda>n. (n, dispositions s n)) signals"
      using tab by (auto simp: list_eq_iff_nth_eq)
    show "app_view s1 n = dispositions s n"
      by (auto simp: app_view_def s1_def s0_def * map_of_map_restrict restrict_map_def)
  qed
  moreover have "\<exists>c a d as. s1 = s\<lparr>default_lib_action := a, sys_count := c, dispositions := d, app_actions := as\<rparr>"
    by (auto simp: s1_def s0_def)
  ultimately show ?thesis by blast
qed

lemma actions_spec_unknown:
  "list_all (\<lambda>c. fst c \<in> A) cs \<Longrightarrow> n \<notin> A \<Longrightarrow> snd (actions_spec cs d) n = d n"
proof (induction cs arbitrary: d)
  case (Cons c cs)
  then have "snd (actions_spec cs (action_after (fst c) (snd c) d)) n = d n"
    by (auto simp: action_after_def split: option.split)
  then show ?case by (simp add: case_prod_beta)
qed simp

section \<open>Properties\<close>

text \<open>
  C13. The library is transparent for signal actions. When the system reports no error, setting up puts the handler of the library in
  force for every signal of the table and leaves the others alone. Whatever sequence of calls of the wrapped \<^verbatim>\<open>sigaction\<close> for signals
  of the table follows, every call succeeds and answers with the same old action that the kernel would have given without the library, and
  the handler of the library and the signal mask stay in place. Removing the handlers leaves exactly the actions that the calls would have left without the library.
\<close>

theorem signal_actions_transparent:
  assumes "sys_always_ok s" and "\<not> pipe_write_failure s" and "list_all (\<lambda>c. fst c \<in> set signals) calls"
  shows "\<exists>olds s1 s2 s3. setup_signal_handlers s = (0, s1) \<and>
    run_calls wrapped_sigaction calls s1 = (map (\<lambda>a. (0, Some a)) olds, s2) \<and>
    uninstall_signal_handlers s2 = (0, s3) \<and>
    fst (run_calls real_sigaction calls s) = map Inr olds \<and>
    dispositions s2 = (\<lambda>n. if n \<in> set signals then lib_action else dispositions s n) \<and> sig_mask s2 = sig_mask s \<and>
    dispositions s3 = dispositions (snd (run_calls real_sigaction calls s))"
proof -
  obtain s1 where s1: "setup_signal_handlers s = (0, s1)" and inter: "interposed (dispositions s) (sig_mask s) s1"
    and view: "app_view s1 = dispositions s"
    using setup_interposes [OF assms(1,2)] by blast
  obtain rs s2 where w: "run_calls wrapped_sigaction calls s1 = (rs, s2)" by fastforce
  obtain ks k where kr: "run_calls real_sigaction calls s = (ks, k)" by fastforce
  obtain olds d where spec: "actions_spec calls (dispositions s) = (olds, d)" by fastforce
  have "interposed (dispositions s) (sig_mask s) s2 \<and>
      (rs, app_view s2) = apfst (map (\<lambda>a. (0, Some a))) (actions_spec calls (app_view s1))"
    using assms(3) by (intro wrapped.calls_refine [OF inter _ w]) (simp add: comp_def)
  then have inter2: "interposed (dispositions s) (sig_mask s) s2" and rs: "rs = map (\<lambda>a. (0, Some a)) olds" and view2: "app_view s2 = d"
    by (simp_all add: view spec)
  have ks: "ks = map Inr olds" and k: "dispositions k = d"
    using kernel.calls_refine [OF assms(1) _ kr] by (simp_all add: spec comp_def list.pred_True)
  have "(\<lambda>n. if n \<in> set signals then d n else dispositions s n) = d"
    using actions_spec_unknown [OF assms(3), of _ "dispositions s"] by (auto simp: spec fun_eq_iff)
  then have un: "uninstall_signal_handlers s2 = (0, s2\<lparr>sys_count := sys_count s2 + 29, dispositions := d\<rparr>)"
    by (simp only: uninstall_interposed [OF inter2] view2)
  have lib: "dispositions s2 = (\<lambda>n. if n \<in> set signals then lib_action else dispositions s n)" "sig_mask s2 = sig_mask s"
    using inter2 by (simp_all add: interposed_def)
  have "fst (run_calls real_sigaction calls s) = map Inr olds" "d = dispositions (snd (run_calls real_sigaction calls s))"
    using kr ks k by simp_all
  moreover have "run_calls wrapped_sigaction calls s1 = (map (\<lambda>a. (0, Some a)) olds, s2)" using w rs by simp
  ultimately show ?thesis using s1 un lib by fastforce
qed

text \<open>The process of the earlier examples, with a handler of its own for one signal.\<close>

definition sample_sig_state :: sig_state where
  "sample_sig_state = evt_state.extend sample_evt_state
     \<lparr>app_actions = [], default_lib_action = lib_action,
      dispositions = (\<lambda>_. \<lparr>sa_sigaction = SIG_DFL, sa_mask = {}, sa_flags = 0\<rparr>)(SIGABRT := \<lparr>sa_sigaction = App_handler 1, sa_mask = {}, sa_flags = 0\<rparr>),
      app_calls = [], located = {''sigaction''}\<rparr>"

lemma sample_sig_simps:
  "sys_always_ok sample_sig_state" "\<not> pipe_write_failure sample_sig_state"
  "dispositions sample_sig_state = (\<lambda>_. \<lparr>sa_sigaction = SIG_DFL, sa_mask = {}, sa_flags = 0\<rparr>)(SIGABRT := \<lparr>sa_sigaction = App_handler 1, sa_mask = {}, sa_flags = 0\<rparr>)"
  "app_calls sample_sig_state = []" "located sample_sig_state = {''sigaction''}"
  by (simp_all add: sample_sig_state_def evt_state.defs sample_evt_defs sys_always_ok_def)

theorem signal_actions_transparent_witness:
  "\<exists>s1 s2 s3. setup_signal_handlers sample_sig_state = (0, s1) \<and>
     run_calls wrapped_sigaction [(10, Some \<lparr>sa_sigaction = SIG_IGN, sa_mask = {}, sa_flags = 0\<rparr>), (10, None)] s1 =
       ([(0, Some \<lparr>sa_sigaction = SIG_DFL, sa_mask = {}, sa_flags = 0\<rparr>), (0, Some \<lparr>sa_sigaction = SIG_IGN, sa_mask = {}, sa_flags = 0\<rparr>)], s2) \<and>
     uninstall_signal_handlers s2 = (0, s3) \<and> dispositions s2 10 = lib_action \<and>
     dispositions s3 10 = \<lparr>sa_sigaction = SIG_IGN, sa_mask = {}, sa_flags = 0\<rparr>"
proof -
  let ?calls = "[(10, Some \<lparr>sa_sigaction = SIG_IGN, sa_mask = {}, sa_flags = 0\<rparr>), (10, None)]"
  have n: "10 \<in> set signals" by (simp add: signals_def)
  have ok: "sys_always_ok (sample_sig_state\<lparr>sys_count := c, dispositions := d\<rparr>)" for c d
    using sample_sig_simps(1) by (simp add: sys_always_ok_def)
  have kr: "run_calls real_sigaction ?calls sample_sig_state =
      ([Inr (dispositions sample_sig_state 10), Inr \<lparr>sa_sigaction = SIG_IGN, sa_mask = {}, sa_flags = 0\<rparr>],
       sample_sig_state\<lparr>sys_count := Suc (Suc (sys_count sample_sig_state)),
         dispositions := (dispositions sample_sig_state)(10 := \<lparr>sa_sigaction = SIG_IGN, sa_mask = {}, sa_flags = 0\<rparr>)\<rparr>)"
    using sample_sig_simps(1) ok by (simp add: real_sigaction_ok)
  show ?thesis
    using signal_actions_transparent [OF sample_sig_simps(1,2), of ?calls] n
    unfolding kr by (fastforce simp: sample_sig_simps(3) SIGABRT_def map_eq_Cons_conv)
qed

text \<open>
  C27. Two errors of the wrapped \<^verbatim>\<open>sigaction\<close> go wrong. For a signal that is not in the table, such as a real-time signal, the call
  fails although nothing is wrong, and it leaves behind the handler of the library for that signal and all signals blocked. And when the system refuses the
  action, the wrapper reports success, because the result of the call is stored in a variable that hides the one that is returned.
\<close>

theorem sigaction_error_paths:
  assumes "sys_always_ok s" and "signum \<notin> app_signal ` set (app_actions s)"
    and "sys_oracle t (sys_count t) = SysOk v" and "sys_oracle t (Suc (sys_count t)) = SysErr e"
    and "sys_oracle t (Suc (Suc (sys_count t))) = SysOk w"
  shows "(\<exists>s'. wrapped_sigaction signum act s = ((EINVAL, Some (dispositions s signum)), s') \<and>
      sig_mask s' = full_set \<and> dispositions s' signum = default_lib_action s \<and> app_actions s' = app_actions s) \<and>
    (\<exists>t'. wrapped_sigaction n a t = ((0, None), t') \<and>
      sig_mask t' = sig_mask t \<and> dispositions t' = dispositions t \<and> app_actions t' = app_actions t)"
proof (rule conjI)
  let ?s1 = "s\<lparr>sys_count := Suc (sys_count s), sig_mask := full_set\<rparr>"
  let ?s2 = "s\<lparr>sig_mask := full_set, sys_count := Suc (Suc (sys_count s)), dispositions := action_after signum act (dispositions s)\<rparr>"
  have oks: "sys_always_ok ?s1" "sys_always_ok ?s2" using assms(1) by (simp_all add: sys_always_ok_def)
  have r1: "real_sigaction signum act ?s1 = (Inr (dispositions s signum), ?s2)"
    using real_sigaction_ok [OF oks(1)] by simp
  show "\<exists>s'. wrapped_sigaction signum act s = ((EINVAL, Some (dispositions s signum)), s') \<and>
      sig_mask s' = full_set \<and> dispositions s' signum = default_lib_action s \<and> app_actions s' = app_actions s"
    unfolding wrapped_sigaction_def Let_def setsigmask_ok [OF assms(1)]
    by (simp add: r1 real_sigaction_ok [OF oks(2)] find_action_absent [OF assms(2)])
next
  show "\<exists>t'. wrapped_sigaction n a t = ((0, None), t') \<and>
      sig_mask t' = sig_mask t \<and> dispositions t' = dispositions t \<and> app_actions t' = app_actions t"
    using assms(3-5) by (simp add: wrapped_sigaction_def setsigmask_def real_sigaction_def sys_call_def)
qed

theorem sigaction_error_paths_witness:
  "\<exists>s' t'. wrapped_sigaction 34 None sample_sig_state = ((EINVAL, Some \<lparr>sa_sigaction = SIG_DFL, sa_mask = {}, sa_flags = 0\<rparr>), s') \<and>
     sig_mask s' = full_set \<and> dispositions s' 34 = lib_action \<and>
     wrapped_sigaction 9 None (sample_sig_state\<lparr>sys_oracle := (\<lambda>k. if k = 1 then SysErr 22 else SysOk 0)\<rparr>) = ((0, None), t')"
proof -
  have "34 \<notin> app_signal ` set (app_actions sample_sig_state)" "sys_count sample_sig_state = 0" "default_lib_action sample_sig_state = lib_action"
    by (simp_all add: sample_sig_state_def evt_state.defs sample_evt_defs)
  then show ?thesis
    using sigaction_error_paths [OF sample_sig_simps(1), of 34 "sample_sig_state\<lparr>sys_oracle := (\<lambda>k. if k = 1 then SysErr 22 else SysOk 0)\<rparr>" 0 22 0 None 9 None]
    by (auto simp: sample_sig_simps SIGABRT_def)
qed

lemma find_unique:
  assumes "x \<in> set xs" and "P x" and "\<And>y. y \<in> set xs \<Longrightarrow> P y \<Longrightarrow> y = x"
  shows "List.find P xs = Some x"
  using assms
proof (induction xs)
  case (Cons y ys)
  show ?case
  proof (cases "P y")
    case True
    then have "y = x" by (intro Cons.prems(3)) simp
    then show ?thesis using True by simp
  next
    case False
    then have "x \<in> set ys" using Cons.prems(1,2) by auto
    then have "List.find P ys = Some x" using Cons.prems(2,3) by (intro Cons.IH) (simp_all del: split_paired_All)
    then show ?thesis using False by simp
  qed
qed simp

lemma interposed_find:
  assumes "interposed d m s" and "n \<in> set signals"
  shows "\<exists>a. List.find (\<lambda>a. app_signal a = n) (rev (app_actions s)) = Some a \<and> app_action a = app_view s n"
proof -
  from interposed_entry [OF assms] obtain a where a: "a \<in> set (app_actions s)" "app_signal a = n" "app_action a = app_view s n"
    by (auto dest!: map_of_SomeD)
  have "distinct (map app_signal (app_actions s))"
    using assms(1) signals_distinct by (simp add: interposed_def)
  then have "List.find (\<lambda>a. app_signal a = n) (rev (app_actions s)) = Some a"
    using a by (intro find_unique) (auto simp: distinct_map inj_on_def)
  then show ?thesis using a by blast
qed

text \<open>
  C26. Passing a signal to the application uses the wrong entry. When the application does not ignore a signal,
  what happens does not depend on the action that the application has for it but on its action for the first signal of the table,
  \<^verbatim>\<open>SIGHUP\<close>: when that is the default, no handler is called at all; when it is a function, this function is called, with its mask in force; and
  otherwise there is nothing that can be called.
\<close>

theorem signal_passed_to_first_entry:
  assumes "interposed d m s" and "n \<in> set signals" and "sa_sigaction (app_view s n) \<noteq> SIG_IGN"
  shows "app_signal_handler junk n s =
    (case sa_sigaction (app_view s 1) of
       SIG_DFL \<Rightarrow> Ret s
     | App_handler h \<Rightarrow> Ret (s\<lparr>sys_count := Suc (Suc (sys_count s)), app_calls := app_calls s @ [(n, App_handler h, sa_mask (app_view s 1))]\<rparr>)
     | _ \<Rightarrow> Stuck)"
proof -
  from interposed_find [OF assms(1,2)] obtain a where
    a: "List.find (\<lambda>a. app_signal a = n) (rev (app_actions s)) = Some a" "app_action a = app_view s n" by blast
  have "app_actions s \<noteq> []" using assms(1) by (auto simp: interposed_def signals_def)
  then have first: "app_action (hd (app_actions s)) = app_view s 1"
    using interposed_nth [OF assms(1), of 0] by (simp add: hd_conv_nth signals_def)
  have ok: "sys_always_ok s" "sys_always_ok (s\<lparr>sys_count := i, sig_mask := j, app_calls := k\<rparr>)" for i j k
    using assms(1) by (simp_all add: interposed_def sys_always_ok_def)
  show ?thesis
    using assms(3)
    by (cases "sa_sigaction (app_view s 1)")
      (simp_all add: app_signal_handler_def a first Let_def setsigmask_ok [OF ok(1)] setsigmask_ok [OF ok(2)])
qed

theorem signal_passed_to_first_entry_witness:
  "\<exists>s1. setup_signal_handlers sample_sig_state = (0, s1) \<and> app_view s1 SIGABRT = \<lparr>sa_sigaction = App_handler 1, sa_mask = {}, sa_flags = 0\<rparr> \<and>
     app_signal_handler {} SIGABRT s1 = Ret s1 \<and> app_calls s1 = []"
proof -
  obtain s1 where s1: "setup_signal_handlers sample_sig_state = (0, s1)"
    "interposed (dispositions sample_sig_state) (sig_mask sample_sig_state) s1"
    "app_view s1 = dispositions sample_sig_state" "app_calls s1 = []"
    using setup_interposes [OF sample_sig_simps(1,2)] by (elim exE conjE) (simp add: sample_sig_simps)
  have "SIGABRT \<in> set signals" by (simp add: SIGABRT_def signals_def)
  from signal_passed_to_first_entry [OF s1(2) this, of "{}"] show ?thesis
    using s1 by (simp add: sample_sig_simps SIGABRT_def)
qed

text \<open>
  C25. The clean-up before an abort undoes itself. The default action is put in force for \<^verbatim>\<open>SIGABRT\<close> so that no handler of the application runs, but
  then removing the handlers of the library puts the actions of the application back, the one for \<^verbatim>\<open>SIGABRT\<close> too: the abort runs the handler
  of the application. Debugging is disabled and every other signal has its action of before.
\<close>

theorem abort_runs_application_handler:
  assumes "interposed d m s" and "''sigaction'' \<in> located s"
  shows "udi_enabled (udi_abort_file_line s) = False \<and>
    dispositions (udi_abort_file_line s) = (\<lambda>n. if n \<in> set signals then app_view s n else d n)"
proof -
  let ?a = "\<lparr>sa_sigaction = SIG_DFL, sa_mask = {}, sa_flags = 0\<rparr>"
  let ?s = "s\<lparr>sys_count := Suc (sys_count s), dispositions := (dispositions s)(SIGABRT := ?a), udi_enabled := False\<rparr>"
  have ok: "sys_always_ok s" using assms(1) by (simp add: interposed_def)
  have abrt: "SIGABRT \<in> set signals" by (simp add: SIGABRT_def signals_def)
  have abort: "udi_abort_file_line s = snd (uninstall_loop (List.enumerate 0 signals) ?s)"
    using assms(2) by (simp add: udi_abort_file_line_def disable_debugging_def uninstall_signal_handlers_def real_sigaction_ok [OF ok])
  have un: "uninstall_loop (List.enumerate 0 signals) ?s = (0, ?s\<lparr>sys_count := sys_count ?s + length signals,
      dispositions := (\<lambda>n. if n \<in> set signals then app_view s n else dispositions ?s n)\<rparr>)"
    using assms(1) interposed_nth [OF assms(1)] signals_nonzero
    by (intro uninstall_loop_ok) (auto simp: interposed_def sys_always_ok_def)
  show ?thesis
    using assms(1) abrt unfolding abort un by (auto simp: interposed_def fun_eq_iff)
qed

theorem abort_runs_application_handler_witness:
  "\<exists>s1. setup_signal_handlers sample_sig_state = (0, s1) \<and>
     dispositions (udi_abort_file_line (s1\<lparr>located := {''sigaction''}\<rparr>)) SIGABRT = \<lparr>sa_sigaction = App_handler 1, sa_mask = {}, sa_flags = 0\<rparr>"
proof -
  obtain s1 where s1: "setup_signal_handlers sample_sig_state = (0, s1)"
    "interposed (dispositions sample_sig_state) (sig_mask sample_sig_state) s1" "app_view s1 = dispositions sample_sig_state"
    using setup_interposes [OF sample_sig_simps(1,2)] by blast
  let ?s = "s1\<lparr>located := {''sigaction''}\<rparr>"
  have "interposed (dispositions sample_sig_state) (sig_mask sample_sig_state) ?s"
    using s1(2) by (simp add: interposed_def sys_always_ok_def)
  from abort_runs_application_handler [OF this]
  have "dispositions (udi_abort_file_line ?s) SIGABRT = app_view ?s SIGABRT"
    by (simp add: SIGABRT_def signals_def)
  moreover have "app_view ?s = app_view s1" by (simp add: app_view_def fun_eq_iff split: option.split)
  ultimately show ?thesis using s1 by (simp add: sample_sig_simps)
qed

end
