(* ===== verification/Thread_Barrier.thy ===== *)
theory Thread_Barrier
  imports Threads
begin

text \<open>
  The protocol by which the thread that handles an event stops the other threads and releases them
  (\<^verbatim>\<open>block_other_threads\<close> and \<^verbatim>\<open>release_other_threads\<close> of \<^verbatim>\<open>udirt-posix.c\<close> with the part of
  \<^verbatim>\<open>signal_entry_impl\<close> around them), as an interleaving of the threads on their shared
  state. Each thread has a location in this code; every access to shared state is a step of its own.
  The invariant is by phases: nobody is in control, a thread gathers the others, a thread is in control
  with the others stopped, or it hands the control over.

  The threads of the list are fixed here, and there is more than one. Signals are blocked in the handler, so that
  a thread is interrupted only in the program. The handler ends with a successful continue request.
  A failing system call aborts the process in this code, so that it has no step. A pipe holds only sentinels and is modelled by their number.
  Two pairs of accesses are one step: taking the barrier with the flag of the control thread, which nobody reads before the first signal is sent, and the two flags of a hand-over,
  which are written while all others are stopped. The suspend signal comes from this protocol only: an event on the same number from outside, which the code cannot tell from its own signal
  (\<^verbatim>\<open>udirt-posix.c\<close> line 896), is left out.
\<close>

section \<open>Definitions\<close>

definition THREAD_SUSPEND_SIGNAL :: nat where
  "THREAD_SUSPEND_SIGNAL = 31"

text \<open>
  Locations. \<open>User\<close> is the code of the program; \<open>Alone\<close> is the same while the others stay stopped, because
  a continue breakpoint is pending. \<open>Entered\<close>
  is the call of \<^verbatim>\<open>block_other_threads\<close>; \<open>Suspending\<close> is its loop over the list, with
  the threads left and the number of signals sent; \<open>Collecting\<close> is the wait for that many sentinels.
  \<open>Lost\<close> and \<open>Wrote\<close> are the branch of a thread that is not the first, before and after it writes its sentinel,
  \<open>WaitRelease\<close> its wait. \<open>Handling\<close> is the decoding of the event and the service of requests. The other
  locations are those of \<^verbatim>\<open>release_other_threads\<close>.
\<close>

datatype bar_loc =
    User | Alone | Entered | Suspending "ptr list" nat | Collecting nat | Lost | Wrote | WaitRelease
  | Handling | Searching "ptr list" | Transferring ptr | HandingOver ptr | WaitTransfer
  | Unlocking | Releasing "ptr list" | WaitSuspended

text \<open>
  The list of threads and their structures, the barrier (its variable and the sentinels in its pipe), the
  sentinels in the control pipe of each thread, whether the suspend signal is pending for a thread
  (it is not queued), and the locations.
\<close>

record bar_state =
  bar_threads :: "ptr list"
  bar_thr :: "ptr \<Rightarrow> thread"
  sync_var :: nat
  barrier_bytes :: nat
  control_bytes :: "ptr \<Rightarrow> nat"
  suspend_sent :: "ptr \<Rightarrow> bool"
  loc :: "ptr \<Rightarrow> bar_loc"

definition goto :: "ptr \<Rightarrow> bar_loc \<Rightarrow> bar_state \<Rightarrow> bar_state" where
  "goto t l s = s\<lparr>loc := (loc s)(t := l)\<rparr>"

definition upd_thr :: "ptr \<Rightarrow> (thread \<Rightarrow> thread) \<Rightarrow> bar_state \<Rightarrow> bar_state" where
  "upd_thr t f s = s\<lparr>bar_thr := (bar_thr s)(t := f (bar_thr s t))\<rparr>"

definition event_signal :: "bar_state \<Rightarrow> ptr \<Rightarrow> nat" where
  "event_signal s t = st_signal (event_state (bar_thr s t))"

definition set_signal :: "ptr \<Rightarrow> nat \<Rightarrow> bar_state \<Rightarrow> bar_state" where
  "set_signal t g = upd_thr t (\<lambda>x. x\<lparr>event_state := (event_state x)\<lparr>st_signal := g\<rparr>\<rparr>)"

definition put_control :: "ptr \<Rightarrow> bar_state \<Rightarrow> bar_state" where
  "put_control t s = s\<lparr>control_bytes := (control_bytes s)(t := Suc (control_bytes s t))\<rparr>"

definition take_control :: "ptr \<Rightarrow> bar_state \<Rightarrow> bar_state option" where
  "take_control t s =
     (if control_bytes s t = 0 then None else Some (s\<lparr>control_bytes := (control_bytes s)(t := control_bytes s t - 1)\<rparr>))"

definition set_control :: "ptr \<Rightarrow> bool \<Rightarrow> bar_state \<Rightarrow> bar_state" where
  "set_control t b = upd_thr t (\<lambda>x. x\<lparr>control_thread := b\<rparr>)"

subsection \<open>The signal handler\<close>

text \<open>
  What the scheduler and the debugger choose: the next step of a thread, an event in the program (a signal
  other than the suspend signal), a request that sets the state of a thread, or a continuation with a continue breakpoint.
\<close>

datatype bar_input = Go | Event nat | SetState ptr udi_thread_state_e | KeepOthers

text \<open>
  A signal in the program: the suspend signal is ignored when it was announced as pending; otherwise the signal is
  stored and the others are to be blocked. In single-thread mode the event is handled at once.
  The thread in control clears its signal, serves requests, and then releases
  the others or keeps them stopped.
\<close>

definition handle_event :: "ptr \<Rightarrow> bar_state \<Rightarrow> bar_state" where
  "handle_event t s = goto t Handling (set_signal t 0 s)"

definition signal_entry_step :: "ptr \<Rightarrow> bar_input \<Rightarrow> bar_state \<Rightarrow> bar_state option" where
  "signal_entry_step t inp s =
     (let accept = (\<lambda>g s. if loc s t = Alone then handle_event t s else goto t Entered (set_signal t g s)) in
      case inp of
        Event g \<Rightarrow>
          if loc s t \<noteq> Handling \<and> g \<noteq> 0 \<and> g \<noteq> THREAD_SUSPEND_SIGNAL then Some (accept g s) else None
      | Go \<Rightarrow>
          if loc s t = Handling then Some (goto t (Searching (bar_threads s)) s)
          else if \<not> suspend_sent s t then None
          else
            let s = s\<lparr>suspend_sent := (suspend_sent s)(t := False)\<rparr> in
            Some (if suspend_pending (bar_thr s t) then upd_thr t (\<lambda>x. x\<lparr>suspend_pending := False\<rparr>) s
                  else accept THREAD_SUSPEND_SIGNAL s)
      | SetState i st \<Rightarrow>
          if loc s t = Handling \<and> i \<in> set (bar_threads s) then Some (upd_thr i (\<lambda>x. x\<lparr>ts := st\<rparr>) s) else None
      | KeepOthers \<Rightarrow> if loc s t = Handling then Some (goto t Alone s) else None)"

subsection \<open>Blocking and releasing\<close>

text \<open>The result of \<^verbatim>\<open>block_other_threads\<close>: the control thread handles its event, another one returns to the program.\<close>

definition block_result :: "ptr \<Rightarrow> bar_state \<Rightarrow> bar_state" where
  "block_result t s = (if control_thread (bar_thr s t) then handle_event t s else goto t User s)"

definition suspend_thread :: "ptr \<Rightarrow> ptr \<Rightarrow> ptr list \<Rightarrow> nat \<Rightarrow> bar_state \<Rightarrow> bar_state" where
  "suspend_thread t i rest n s =
     (if i = t then goto t (Suspending rest n) s
      else
        let s = set_control i False s in
        if ts (bar_thr s i) \<noteq> UDI_TS_SUSPENDED
        then goto t (Suspending rest (Suc n)) (s\<lparr>suspend_sent := (suspend_sent s)(i := True)\<rparr>)
        else goto t (Suspending rest n) s)"

definition block_other_threads :: "ptr \<Rightarrow> bar_state \<Rightarrow> bar_state option" where
  "block_other_threads t s =
     (case loc s t of
        Entered \<Rightarrow>
          if sync_var s = 0
          then Some (goto t (Suspending (bar_threads s) 0) (set_control t True (s\<lparr>sync_var := 1\<rparr>)))
          else Some (goto t Lost s)
      | Suspending (i # rest) n \<Rightarrow> Some (suspend_thread t i rest n s)
      | Suspending [] n \<Rightarrow> Some (goto t (Collecting n) s)
      | Collecting 0 \<Rightarrow> Some (block_result t s)
      | Collecting (Suc n) \<Rightarrow>
          if barrier_bytes s = 0 then None
          else Some (goto t (Collecting n) (s\<lparr>barrier_bytes := barrier_bytes s - 1\<rparr>))
      | Lost \<Rightarrow> Some (goto t Wrote (s\<lparr>barrier_bytes := Suc (barrier_bytes s)\<rparr>))
      | Wrote \<Rightarrow>
          Some (goto t WaitRelease
            (upd_thr t (\<lambda>x. x\<lparr>suspend_pending := event_signal s t \<noteq> THREAD_SUSPEND_SIGNAL\<rparr>) s))
      | WaitRelease \<Rightarrow> map_option (block_result t) (take_control t s)
      | _ \<Rightarrow> None)"

definition event_pending :: "bar_state \<Rightarrow> ptr \<Rightarrow> bool" where
  "event_pending s i \<longleftrightarrow>
     event_signal s i \<noteq> THREAD_SUSPEND_SIGNAL \<and> event_signal s i \<noteq> 0 \<or> stack_event_pending (bar_thr s i)"

definition release_other_threads :: "ptr \<Rightarrow> bar_state \<Rightarrow> bar_state option" where
  "release_other_threads t s =
     (case loc s t of
        Searching (i # rest) \<Rightarrow>
          Some (goto t (if i \<noteq> t \<and> event_pending s i then Transferring i else Searching rest) s)
      | Searching [] \<Rightarrow> Some (goto t Unlocking s)
      | Transferring i \<Rightarrow> Some (goto t (HandingOver i) (set_control i True (set_control t False s)))
      | HandingOver i \<Rightarrow> Some (goto t WaitTransfer (put_control i s))
      | WaitTransfer \<Rightarrow> map_option (goto t User) (take_control t s)
      | Unlocking \<Rightarrow> Some (goto t (Releasing (bar_threads s)) (s\<lparr>sync_var := 0\<rparr>))
      | Releasing (i # rest) \<Rightarrow>
          Some (goto t (Releasing rest) (if i \<noteq> t \<and> ts (bar_thr s i) = UDI_TS_RUNNING then put_control i s else s))
      | Releasing [] \<Rightarrow> Some (goto t (if ts (bar_thr s t) = UDI_TS_SUSPENDED then WaitSuspended else User) s)
      | WaitSuspended \<Rightarrow> map_option (goto t User) (take_control t s)
      | _ \<Rightarrow> None)"

definition bar_next :: "ptr \<Rightarrow> bar_input \<Rightarrow> bar_state \<Rightarrow> bar_state option" where
  "bar_next t inp s =
     (if loc s t \<in> {User, Alone, Handling} then signal_entry_step t inp s
      else if inp \<noteq> Go then None
      else (case block_other_threads t s of None \<Rightarrow> release_other_threads t s | Some s' \<Rightarrow> Some s'))"

section \<open>Runs\<close>

inductive bar_step :: "bar_state \<Rightarrow> bar_state \<Rightarrow> bool" where
  bar_stepI: "t \<in> set (bar_threads s) \<Longrightarrow> bar_next t inp s = Some s' \<Longrightarrow> bar_step s s'"

text \<open>All threads run the program; no event, signal or sentinel is pending.\<close>

definition bar_init :: "bar_state \<Rightarrow> bool" where
  "bar_init s \<longleftrightarrow> distinct (bar_threads s) \<and> sync_var s = 0 \<and> barrier_bytes s = 0 \<and>
     (\<forall>t. control_bytes s t = 0 \<and> \<not> suspend_sent s t \<and> loc s t = User \<and> ts (bar_thr s t) = UDI_TS_RUNNING \<and>
       event_signal s t = 0 \<and> \<not> stack_event_pending (bar_thr s t))"

inductive bar_run :: "bar_state \<Rightarrow> bool" where
  bar_run_init: "bar_init s \<Longrightarrow> bar_run s"
| bar_run_step: "bar_run s \<Longrightarrow> bar_step s s' \<Longrightarrow> bar_run s'"

text \<open>Runs in which no suspended thread releases the others.\<close>

definition releaser_running :: "bar_state \<Rightarrow> bool" where
  "releaser_running s \<longleftrightarrow> (\<forall>t \<in> set (bar_threads s). loc s t = Releasing (bar_threads s) \<longrightarrow> ts (bar_thr s t) = UDI_TS_RUNNING)"

inductive bar_fair :: "bar_state \<Rightarrow> bool" where
  bar_fair_init: "bar_init s \<Longrightarrow> bar_fair s"
| bar_fair_step: "bar_fair s \<Longrightarrow> bar_step s s' \<Longrightarrow> releaser_running s' \<Longrightarrow> bar_fair s'"

text \<open>A schedule, executed from a state as long as the states satisfy a condition.\<close>

fun bar_exec :: "(bar_state \<Rightarrow> bool) \<Rightarrow> (ptr \<times> bar_input) list \<Rightarrow> bar_state \<Rightarrow> bar_state option" where
  "bar_exec P [] s = Some s"
| "bar_exec P ((t, inp) # acts) s =
     (if t \<in> set (bar_threads s)
      then (case bar_next t inp s of None \<Rightarrow> None | Some s' \<Rightarrow> if P s' then bar_exec P acts s' else None)
      else None)"

lemma bar_exec_run: "bar_exec P acts s = Some s' \<Longrightarrow> bar_run s \<Longrightarrow> bar_run s'"
  by (induction P acts s rule: bar_exec.induct) (auto split: if_splits option.splits intro: bar_run_step bar_stepI)

lemma bar_exec_fair: "bar_exec releaser_running acts s = Some s' \<Longrightarrow> bar_fair s \<Longrightarrow> bar_fair s'"
  by (induction releaser_running acts s rule: bar_exec.induct)
    (auto split: if_splits option.splits intro: bar_fair_step bar_stepI)

definition sample_bar :: "ptr list \<Rightarrow> bar_state" where
  "sample_bar ps = \<lparr>bar_threads = ps, bar_thr = (\<lambda>t. new_thread (of_nat t) (0, 0)), sync_var = 0, barrier_bytes = 0,
     control_bytes = (\<lambda>_. 0), suspend_sent = (\<lambda>_. False), loc = (\<lambda>_. User)\<rparr>"

lemma sample_bar_init: "distinct ps \<Longrightarrow> bar_init (sample_bar ps)"
  by (simp add: bar_init_def sample_bar_def new_thread_def event_signal_def)

section \<open>The invariant\<close>

text \<open>
  A waiting thread is due when the thread that releases the others has not come to it yet. The releases
  available to a thread are the sentinels in its pipe and the one that is due. A quiet thread waits and has none; a thread
  outside runs, is about to wait, or is going to be released.
\<close>

definition running :: "bar_state \<Rightarrow> ptr \<Rightarrow> bool" where
  "running s i \<longleftrightarrow> ts (bar_thr s i) = UDI_TS_RUNNING"

definition in_control :: "bar_state \<Rightarrow> ptr \<Rightarrow> bool" where
  "in_control s i \<longleftrightarrow> control_thread (bar_thr s i)"

definition waiting :: "bar_loc \<Rightarrow> bool" where
  "waiting l \<longleftrightarrow> l = Wrote \<or> l = WaitRelease \<or> l = WaitTransfer \<or> l = WaitSuspended"

definition due :: "bar_state \<Rightarrow> ptr \<Rightarrow> bool" where
  "due s i \<longleftrightarrow> running s i \<and> (\<exists>b rest. loc s b = Releasing rest \<and> i \<in> set rest \<and> i \<noteq> b)"

definition avail :: "bar_state \<Rightarrow> ptr \<Rightarrow> nat" where
  "avail s i = control_bytes s i + (if due s i then 1 else 0)"

definition outside_loc :: "bar_loc \<Rightarrow> bool" where
  "outside_loc l \<longleftrightarrow> l = User \<or> l = Entered \<or> l = Lost \<or> (\<exists>rest. l = Releasing rest)"

definition outside :: "bar_state \<Rightarrow> ptr \<Rightarrow> bool" where
  "outside s i \<longleftrightarrow> (if waiting (loc s i) then avail s i = 1 else outside_loc (loc s i) \<and> avail s i = 0)"

definition quiet :: "bar_state \<Rightarrow> ptr \<Rightarrow> bool" where
  "quiet s i \<longleftrightarrow> waiting (loc s i) \<and> avail s i = 0"

definition others :: "bar_state \<Rightarrow> ptr \<Rightarrow> ptr set" where
  "others s h = {i \<in> set (bar_threads s). i \<noteq> h \<and> running s i}"

text \<open>The phases: nobody in control, a thread that stops the others, a thread in control, a thread that hands the control to another one.\<close>

datatype bar_phase = Free | Gather ptr | Stop ptr | Pass ptr ptr

fun phase_inv :: "bar_phase \<Rightarrow> bar_state \<Rightarrow> bool" where
  "phase_inv Free s \<longleftrightarrow> sync_var s = 0 \<and> barrier_bytes s = 0 \<and>
     (\<forall>i \<in> set (bar_threads s). if running s i then outside s i \<and> loc s i \<noteq> Lost else quiet s i)"
| "phase_inv (Gather h) s \<longleftrightarrow> h \<in> set (bar_threads s) \<and> sync_var s = 1 \<and> avail s h = 0 \<and> in_control s h \<and>
     (\<forall>i \<in> set (bar_threads s). i \<noteq> h \<longrightarrow> quiet s i \<or> running s i \<and> outside s i) \<and>
     (case loc s h of
        Suspending rest n \<Rightarrow> distinct rest \<and> set rest \<subseteq> set (bar_threads s) \<and>
          n + card (others s h \<inter> set rest) = card (others s h) \<and>
          barrier_bytes s + card {i \<in> others s h. \<not> quiet s i} = card (others s h) \<and>
          (\<forall>i \<in> set (bar_threads s). i \<noteq> h \<and> i \<notin> set rest \<longrightarrow> \<not> in_control s i)
      | Collecting n \<Rightarrow> barrier_bytes s + card {i \<in> others s h. \<not> quiet s i} = n \<and>
          (\<forall>i \<in> set (bar_threads s). i \<noteq> h \<longrightarrow> \<not> in_control s i)
      | _ \<Rightarrow> False)"
| "phase_inv (Stop h) s \<longleftrightarrow> h \<in> set (bar_threads s) \<and> sync_var s = 1 \<and> barrier_bytes s = 0 \<and> in_control s h \<and>
     (\<forall>i \<in> set (bar_threads s). i \<noteq> h \<longrightarrow> quiet s i \<and> \<not> in_control s i) \<and>
     (case loc s h of
        Handling \<Rightarrow> avail s h = 0
      | Alone \<Rightarrow> avail s h = 0
      | Searching rest \<Rightarrow> avail s h = 0 \<and> set rest \<subseteq> set (bar_threads s) \<and>
          (\<forall>i \<in> set (bar_threads s). i \<noteq> h \<and> i \<notin> set rest \<longrightarrow> \<not> event_pending s i)
      | Transferring i \<Rightarrow> avail s h = 0 \<and> i \<in> set (bar_threads s) \<and> i \<noteq> h \<and> event_pending s i
      | Unlocking \<Rightarrow> avail s h = 0 \<and> (\<forall>i \<in> set (bar_threads s). i \<noteq> h \<longrightarrow> \<not> event_pending s i)
      | Wrote \<Rightarrow> avail s h = 1
      | WaitRelease \<Rightarrow> avail s h = 1
      | _ \<Rightarrow> False)"
| "phase_inv (Pass t h) s \<longleftrightarrow> t \<in> set (bar_threads s) \<and> h \<in> set (bar_threads s) \<and> t \<noteq> h \<and> sync_var s = 1 \<and> barrier_bytes s = 0 \<and>
     loc s t = HandingOver h \<and> avail s t = 0 \<and> event_pending s h \<and> in_control s h \<and>
     (\<forall>i \<in> set (bar_threads s). i \<noteq> t \<longrightarrow> quiet s i) \<and> (\<forall>i \<in> set (bar_threads s). i \<noteq> h \<longrightarrow> \<not> in_control s i)"

definition may_have_event :: "bar_loc \<Rightarrow> bool" where
  "may_have_event l \<longleftrightarrow> (case l of
     Entered \<Rightarrow> True | Lost \<Rightarrow> True | Wrote \<Rightarrow> True | WaitRelease \<Rightarrow> True | Suspending _ _ \<Rightarrow> True | Collecting _ \<Rightarrow> True | _ \<Rightarrow> False)"

definition common_inv :: "bar_phase \<Rightarrow> bar_state \<Rightarrow> bool" where
  "common_inv ph s \<longleftrightarrow> distinct (bar_threads s) \<and>
     (\<forall>b rest. loc s b = Releasing rest \<longrightarrow>
        b \<in> set (bar_threads s) \<and> running s b \<and> distinct rest \<and> set rest \<subseteq> set (bar_threads s)) \<and>
     (\<forall>b b' rest rest'. loc s b = Releasing rest \<and> loc s b' = Releasing rest' \<longrightarrow> b = b') \<and>
     (\<forall>i. \<not> stack_event_pending (bar_thr s i)) \<and>
     (\<forall>i \<in> set (bar_threads s). event_pending s i \<longrightarrow> may_have_event (loc s i)) \<and>
     (\<forall>i \<in> set (bar_threads s). (loc s i = Wrote \<or> loc s i = WaitRelease) \<and> avail s i = 1 \<and>
        (in_control s i \<or> event_pending s i) \<longrightarrow> ph = Stop i)"

definition bar_inv :: "bar_phase \<Rightarrow> bar_state \<Rightarrow> bool" where
  "bar_inv ph s \<longleftrightarrow> common_inv ph s \<and> phase_inv ph s"

subsection \<open>The primitives\<close>

text \<open>What the derived notions depend on.\<close>

lemma view_cong:
  assumes "loc s' = loc s" and "running s' = running s"
  shows "due s' = due s" and "bar_threads s' = bar_threads s \<Longrightarrow> others s' = others s"
    and "control_bytes s' = control_bytes s \<Longrightarrow> avail s' = avail s"
    and "control_bytes s' = control_bytes s \<Longrightarrow> quiet s' = quiet s"
    and "control_bytes s' = control_bytes s \<Longrightarrow> outside s' = outside s"
  using assms by (simp_all add: fun_eq_iff due_def others_def avail_def quiet_def outside_def)

lemma goto_simps [simp]:
  "loc (goto t l s) = (loc s)(t := l)" "bar_threads (goto t l s) = bar_threads s" "bar_thr (goto t l s) = bar_thr s"
  "sync_var (goto t l s) = sync_var s" "barrier_bytes (goto t l s) = barrier_bytes s" "control_bytes (goto t l s) = control_bytes s"
  "suspend_sent (goto t l s) = suspend_sent s" "running (goto t l s) = running s" "in_control (goto t l s) = in_control s"
  "event_pending (goto t l s) = event_pending s" "event_signal (goto t l s) = event_signal s" "others (goto t l s) = others s"
  by (simp_all add: goto_def running_def in_control_def event_pending_def event_signal_def others_def fun_eq_iff)

lemma upd_thr_simps [simp]:
  "loc (upd_thr t f s) = loc s" "bar_threads (upd_thr t f s) = bar_threads s" "bar_thr (upd_thr t f s) = (bar_thr s)(t := f (bar_thr s t))"
  "sync_var (upd_thr t f s) = sync_var s" "barrier_bytes (upd_thr t f s) = barrier_bytes s" "control_bytes (upd_thr t f s) = control_bytes s"
  "suspend_sent (upd_thr t f s) = suspend_sent s"
  by (simp_all add: upd_thr_def)

lemma upd_thr_view [simp]:
  assumes "\<And>x. ts (f x) = ts x"
  shows "running (upd_thr t f s) = running s" "due (upd_thr t f s) = due s" "avail (upd_thr t f s) = avail s"
    "quiet (upd_thr t f s) = quiet s" "outside (upd_thr t f s) = outside s" "others (upd_thr t f s) = others s"
proof -
  show "running (upd_thr t f s) = running s" using assms by (simp add: fun_eq_iff running_def)
  note v = view_cong [of "upd_thr t f s" s, OF _ this]
  show "due (upd_thr t f s) = due s" "avail (upd_thr t f s) = avail s" "quiet (upd_thr t f s) = quiet s"
    "outside (upd_thr t f s) = outside s" "others (upd_thr t f s) = others s" using v by simp_all
qed

lemma set_control_simps [simp]:
  "in_control (set_control t b s) = (in_control s)(t := b)" "event_pending (set_control t b s) = event_pending s"
  "loc (set_control t b s) = loc s" "bar_threads (set_control t b s) = bar_threads s"
  "sync_var (set_control t b s) = sync_var s" "barrier_bytes (set_control t b s) = barrier_bytes s" "control_bytes (set_control t b s) = control_bytes s"
  "suspend_sent (set_control t b s) = suspend_sent s" "running (set_control t b s) = running s" "due (set_control t b s) = due s"
  "avail (set_control t b s) = avail s" "quiet (set_control t b s) = quiet s" "outside (set_control t b s) = outside s"
  "others (set_control t b s) = others s" "stack_event_pending (bar_thr (set_control t b s) i) = stack_event_pending (bar_thr s i)"
  "ts (bar_thr (set_control t b s) i) = ts (bar_thr s i)"
  by (simp_all add: set_control_def in_control_def event_pending_def event_signal_def fun_eq_iff)

lemma set_signal_simps [simp]:
  "in_control (set_signal t g s) = in_control s" "event_signal (set_signal t g s) = (event_signal s)(t := g)"
  "loc (set_signal t g s) = loc s" "bar_threads (set_signal t g s) = bar_threads s"
  "sync_var (set_signal t g s) = sync_var s" "barrier_bytes (set_signal t g s) = barrier_bytes s" "control_bytes (set_signal t g s) = control_bytes s"
  "suspend_sent (set_signal t g s) = suspend_sent s" "running (set_signal t g s) = running s" "due (set_signal t g s) = due s"
  "avail (set_signal t g s) = avail s" "quiet (set_signal t g s) = quiet s" "outside (set_signal t g s) = outside s"
  "others (set_signal t g s) = others s" "stack_event_pending (bar_thr (set_signal t g s) i) = stack_event_pending (bar_thr s i)"
  by (simp_all add: set_signal_def in_control_def event_signal_def fun_eq_iff)

lemma put_control_simps [simp]:
  "loc (put_control t s) = loc s" "bar_threads (put_control t s) = bar_threads s" "bar_thr (put_control t s) = bar_thr s"
  "sync_var (put_control t s) = sync_var s" "barrier_bytes (put_control t s) = barrier_bytes s"
  "control_bytes (put_control t s) = (control_bytes s)(t := Suc (control_bytes s t))" "running (put_control t s) = running s"
  "in_control (put_control t s) = in_control s" "event_pending (put_control t s) = event_pending s" "due (put_control t s) = due s"
  by (simp_all add: put_control_def fun_eq_iff running_def in_control_def event_pending_def event_signal_def due_def)

lemma set_pending_simps [simp]:
  "in_control (upd_thr t (\<lambda>x. x\<lparr>suspend_pending := b\<rparr>) s) = in_control s"
  "event_pending (upd_thr t (\<lambda>x. x\<lparr>suspend_pending := b\<rparr>) s) = event_pending s"
  by (simp_all add: in_control_def event_pending_def event_signal_def fun_eq_iff)

lemma update_simps [simp]:
  "running (s\<lparr>sync_var := v\<rparr>) = running s" "running (s\<lparr>barrier_bytes := v\<rparr>) = running s"
  "running (s\<lparr>suspend_sent := w\<rparr>) = running s" "running (s\<lparr>control_bytes := c\<rparr>) = running s"
  "in_control (s\<lparr>sync_var := v\<rparr>) = in_control s" "in_control (s\<lparr>barrier_bytes := v\<rparr>) = in_control s"
  "in_control (s\<lparr>suspend_sent := w\<rparr>) = in_control s" "in_control (s\<lparr>control_bytes := c\<rparr>) = in_control s"
  "event_pending (s\<lparr>sync_var := v\<rparr>) = event_pending s" "event_pending (s\<lparr>barrier_bytes := v\<rparr>) = event_pending s"
  "event_pending (s\<lparr>suspend_sent := w\<rparr>) = event_pending s" "event_pending (s\<lparr>control_bytes := c\<rparr>) = event_pending s"
  by (simp_all add: running_def in_control_def event_pending_def event_signal_def fun_eq_iff)

lemma update_views [simp]:
  "due (s\<lparr>sync_var := v\<rparr>) = due s" "due (s\<lparr>barrier_bytes := v\<rparr>) = due s" "due (s\<lparr>suspend_sent := w\<rparr>) = due s" "due (s\<lparr>control_bytes := c\<rparr>) = due s"
  "avail (s\<lparr>sync_var := v\<rparr>) = avail s" "avail (s\<lparr>barrier_bytes := v\<rparr>) = avail s" "avail (s\<lparr>suspend_sent := w\<rparr>) = avail s"
  "quiet (s\<lparr>sync_var := v\<rparr>) = quiet s" "quiet (s\<lparr>barrier_bytes := v\<rparr>) = quiet s" "quiet (s\<lparr>suspend_sent := w\<rparr>) = quiet s"
  "outside (s\<lparr>sync_var := v\<rparr>) = outside s" "outside (s\<lparr>barrier_bytes := v\<rparr>) = outside s" "outside (s\<lparr>suspend_sent := w\<rparr>) = outside s"
  "others (s\<lparr>sync_var := v\<rparr>) = others s" "others (s\<lparr>barrier_bytes := v\<rparr>) = others s" "others (s\<lparr>suspend_sent := w\<rparr>) = others s" "others (s\<lparr>control_bytes := c\<rparr>) = others s"
  by (rule view_cong; simp)+

text \<open>A step between locations that are not those of a release keeps the releases that are due.\<close>

lemma goto_avail:
  assumes "\<forall>rest. loc s t \<noteq> Releasing rest" and "\<forall>rest. l \<noteq> Releasing rest"
  shows "due (goto t l s) = due s" "avail (goto t l s) = avail s"
proof -
  have "due (goto t l s) i = due s i" for i
    using assms by (auto simp: due_def)
  then show "due (goto t l s) = due s" "avail (goto t l s) = avail s" by (auto simp: avail_def fun_eq_iff)
qed

subsection \<open>Locations and phases\<close>

lemmas loc_defs = quiet_def outside_def waiting_def outside_loc_def

text \<open>A thread outside moves only while nobody is in control or another thread gathers.\<close>

definition outsider :: "bar_phase \<Rightarrow> ptr \<Rightarrow> bool" where
  "outsider ph t \<longleftrightarrow> ph = Free \<or> (\<exists>h. ph = Gather h \<and> h \<noteq> t)"

fun holder :: "bar_phase \<Rightarrow> ptr option" where
  "holder Free = None" | "holder (Gather h) = Some h" | "holder (Stop h) = Some h" | "holder (Pass t h) = Some t"

lemma holder_loc:
  assumes "phase_inv ph s" and "holder ph = Some t"
  shows "(\<exists>rest n. loc s t = Suspending rest n \<and> ph = Gather t) \<or> (\<exists>n. loc s t = Collecting n \<and> ph = Gather t) \<or>
    (\<exists>h. loc s t = HandingOver h \<and> ph = Pass t h) \<or>
    ph = Stop t \<and> (loc s t = Handling \<or> loc s t = Alone \<or> (\<exists>rest. loc s t = Searching rest) \<or> (\<exists>i. loc s t = Transferring i) \<or>
      loc s t = Unlocking \<or> (loc s t = Wrote \<or> loc s t = WaitRelease) \<and> avail s t = 1)"
  using assms by (cases ph) (auto split: bar_loc.splits)

lemma other_loc:
  assumes "phase_inv ph s" and "t \<in> set (bar_threads s)" and "holder ph \<noteq> Some t"
  shows "quiet s t \<or> outsider ph t \<and> running s t \<and> outside s t \<and> (loc s t = Lost \<longrightarrow> ph \<noteq> Free)"
  using assms by (cases ph) (auto simp: outsider_def split: if_splits)

lemma inv_loc_control:
  assumes "bar_inv ph s" and "t \<in> set (bar_threads s)"
  shows "loc s t = Suspending rest n \<Longrightarrow> ph = Gather t" "loc s t = Collecting n \<Longrightarrow> ph = Gather t"
    "loc s t = Handling \<Longrightarrow> ph = Stop t" "loc s t = Alone \<Longrightarrow> ph = Stop t" "loc s t = Searching rest \<Longrightarrow> ph = Stop t"
    "loc s t = Transferring i \<Longrightarrow> ph = Stop t" "loc s t = Unlocking \<Longrightarrow> ph = Stop t" "loc s t = HandingOver i \<Longrightarrow> ph = Pass t i"
proof -
  have p: "phase_inv ph s" using assms by (simp add: bar_inv_def)
  note h = holder_loc [OF p, of t] and o = other_loc [OF p assms(2)]
  have "holder ph = Some t" if "\<not> waiting (loc s t)" "\<not> outside_loc (loc s t)"
    using o that by (auto simp: quiet_def outside_def)
  note h = h [OF this]
  show "loc s t = Suspending rest n \<Longrightarrow> ph = Gather t" "loc s t = Collecting n \<Longrightarrow> ph = Gather t"
    "loc s t = Handling \<Longrightarrow> ph = Stop t" "loc s t = Alone \<Longrightarrow> ph = Stop t" "loc s t = Searching rest \<Longrightarrow> ph = Stop t"
    "loc s t = Transferring i \<Longrightarrow> ph = Stop t" "loc s t = Unlocking \<Longrightarrow> ph = Stop t" "loc s t = HandingOver i \<Longrightarrow> ph = Pass t i"
    using h by (simp_all add: waiting_def outside_loc_def)
qed

lemma inv_loc_outside:
  assumes "bar_inv ph s" and "t \<in> set (bar_threads s)"
  shows "outside_loc (loc s t) \<Longrightarrow> outsider ph t \<and> outside s t \<and> avail s t = 0 \<and> running s t"
    and "loc s t = Lost \<Longrightarrow> ph \<noteq> Free"
    and "waiting (loc s t) \<Longrightarrow> avail s t \<noteq> 0 \<Longrightarrow> avail s t = 1 \<and> (ph = Stop t \<or> outsider ph t \<and> outside s t \<and> running s t)"
    and "loc s t = WaitTransfer \<or> loc s t = WaitSuspended \<Longrightarrow> ph \<noteq> Stop t"
proof -
  have p: "phase_inv ph s" using assms by (simp add: bar_inv_def)
  note h = holder_loc [OF p, of t] and o = other_loc [OF p assms(2)]
  have nw: "\<not> waiting l" if "outside_loc l" for l using that by (auto simp: waiting_def outside_loc_def)
  have out: "outsider ph t \<and> running s t \<and> outside s t \<and> (loc s t = Lost \<longrightarrow> ph \<noteq> Free)" if l: "outside_loc (loc s t)"
  proof -
    have "holder ph \<noteq> Some t" using h l by (auto simp: outside_loc_def)
    then show ?thesis using o nw [OF l] by (auto simp: quiet_def)
  qed
  then show "outside_loc (loc s t) \<Longrightarrow> outsider ph t \<and> outside s t \<and> avail s t = 0 \<and> running s t"
    using nw by (simp add: outside_def)
  show "loc s t = Lost \<Longrightarrow> ph \<noteq> Free" using out by (simp add: outside_loc_def)
  assume l: "waiting (loc s t)" and a: "avail s t \<noteq> 0"
  show "avail s t = 1 \<and> (ph = Stop t \<or> outsider ph t \<and> outside s t \<and> running s t)"
  proof (cases "holder ph = Some t")
    case True
    then show ?thesis using h l by (auto simp: waiting_def)
  next
    case False
    then show ?thesis using o l a by (auto simp: quiet_def outside_def)
  qed
next
  have "phase_inv ph s" using assms by (simp add: bar_inv_def)
  note h = holder_loc [OF this, of t]
  show "loc s t = WaitTransfer \<or> loc s t = WaitSuspended \<Longrightarrow> ph \<noteq> Stop t" using h by auto
qed

lemma common_step:
  assumes c: "common_inv ph s" and l: "\<forall>rest. l \<noteq> Releasing rest"
    and s': "loc s' = (loc s)(t := l)" "bar_threads s' = bar_threads s" "running s' = running s"
      "\<forall>i. stack_event_pending (bar_thr s' i) = stack_event_pending (bar_thr s i)"
    and e: "\<And>i. i \<noteq> t \<Longrightarrow> event_pending s' i = event_pending s i" "event_pending s' t \<Longrightarrow> may_have_event l"
    and w: "\<And>i. i \<in> set (bar_threads s) \<Longrightarrow> loc s' i = Wrote \<or> loc s' i = WaitRelease \<Longrightarrow> avail s' i = 1 \<Longrightarrow>
      in_control s' i \<or> event_pending s' i \<Longrightarrow> ph' = Stop i"
  shows "common_inv ph' s'"
  unfolding common_inv_def
proof (intro conjI allI impI ballI)
  show "distinct (bar_threads s')" using c s'(2) by (simp add: common_inv_def)
  show "b \<in> set (bar_threads s')" "running s' b" "distinct rest" "set rest \<subseteq> set (bar_threads s')" if "loc s' b = Releasing rest" for b rest
    using c that s' l by (auto simp: common_inv_def split: if_splits)
  show "b = b'" if "loc s' b = Releasing rest \<and> loc s' b' = Releasing rest'" for b b' rest rest'
    using c that s' l by (auto simp: common_inv_def split: if_splits)
  show "\<not> stack_event_pending (bar_thr s' i)" for i using c s'(4) by (simp add: common_inv_def)
  show "may_have_event (loc s' i)" if "i \<in> set (bar_threads s')" "event_pending s' i" for i
    using c that s' e by (cases "i = t") (auto simp: common_inv_def)
  show "ph' = Stop i" if "i \<in> set (bar_threads s')" "(loc s' i = Wrote \<or> loc s' i = WaitRelease) \<and> avail s' i = 1 \<and> (in_control s' i \<or> event_pending s' i)" for i
    using that s'(2) w by auto
qed

lemma common_waiting:
  assumes "common_inv ph s" and "i \<in> set (bar_threads s)" and "loc s i = Wrote \<or> loc s i = WaitRelease" and "avail s i = 1"
    and "in_control s i \<or> event_pending s i"
  shows "ph = Stop i"
  using assms by (simp add: common_inv_def)

lemma common_no_event: "common_inv ph s \<Longrightarrow> i \<in> set (bar_threads s) \<Longrightarrow> \<not> may_have_event (loc s i) \<Longrightarrow> \<not> event_pending s i"
  by (auto simp: common_inv_def)

lemma outside_move:
  assumes inv: "bar_inv ph s" and t: "t \<in> set (bar_threads s)" and o: "outsider ph t" "outside s t" "running s t"
    and l: "l = User \<or> l = Entered \<or> l = Lost" "l = Lost \<Longrightarrow> ph \<noteq> Free"
    and s': "loc s' = (loc s)(t := l)" "bar_threads s' = bar_threads s" "sync_var s' = sync_var s" "barrier_bytes s' = barrier_bytes s"
      "running s' = running s" "in_control s' = in_control s" "avail s' = (avail s)(t := 0)"
      "\<forall>i. stack_event_pending (bar_thr s' i) = stack_event_pending (bar_thr s i)"
    and e: "\<And>i. i \<noteq> t \<Longrightarrow> event_pending s' i = event_pending s i" "event_pending s' t \<Longrightarrow> l \<noteq> User"
  shows "bar_inv ph s'"
proof -
  have nl: "\<not> waiting l" "outside_loc l" using l(1) by (auto simp: waiting_def outside_loc_def)
  have q: "quiet s' = quiet s" using o(2) nl s'(1,7) by (auto simp: fun_eq_iff quiet_def outside_def)
  have out: "outside s' i = outside s i" for i using o(2) nl s'(1,7) by (auto simp: outside_def)
  have oth: "others s' = others s" using s'(2,5) by (simp add: others_def fun_eq_iff)
  have c: "common_inv ph s" and p: "phase_inv ph s" using inv by (simp_all add: bar_inv_def)
  have "common_inv ph s'"
  proof (rule common_step [OF c _ s'(1,2,5,8)])
    show "ph = Stop i" if "i \<in> set (bar_threads s)" "loc s' i = Wrote \<or> loc s' i = WaitRelease" "avail s' i = 1"
        "in_control s' i \<or> event_pending s' i" for i
      using common_waiting [OF c that(1)] that l(1) s' e(1) by (cases "i = t") auto
  qed (use l(1) e in \<open>auto simp: may_have_event_def\<close>)
  moreover have "phase_inv ph s'"
  proof (cases ph)
    case Free
    then show ?thesis using p s' q out l by auto
  next
    case (Gather h)
    then have "loc s' h = loc s h" "avail s' h = avail s h" using o(1) s' by (auto simp: outsider_def)
    then show ?thesis using p Gather s' q out oth by (simp split: bar_loc.splits)
  qed (use o(1) in \<open>auto simp: outsider_def\<close>)
  ultimately show ?thesis by (simp add: bar_inv_def)
qed

text \<open>The locations of the thread in control, with what is known there of the events of the others.\<close>

definition control_loc :: "bar_state \<Rightarrow> ptr \<Rightarrow> bar_loc \<Rightarrow> bool" where
  "control_loc s h l \<longleftrightarrow> (case l of
     Handling \<Rightarrow> True
   | Alone \<Rightarrow> True
   | Searching rest \<Rightarrow> set rest \<subseteq> set (bar_threads s) \<and>
       (\<forall>i \<in> set (bar_threads s). i \<noteq> h \<and> i \<notin> set rest \<longrightarrow> \<not> event_pending s i)
   | Transferring i \<Rightarrow> i \<in> set (bar_threads s) \<and> i \<noteq> h \<and> event_pending s i
   | Unlocking \<Rightarrow> (\<forall>i \<in> set (bar_threads s). i \<noteq> h \<longrightarrow> \<not> event_pending s i)
   | _ \<Rightarrow> False)"

text \<open>A thread that comes into control or moves in it.\<close>

lemma control_move:
  assumes c: "common_inv ph s" and t: "t \<in> set (bar_threads s)" and sync: "sync_var s = 1" "barrier_bytes s = 0" "in_control s t"
    and q: "\<And>i. i \<in> set (bar_threads s) \<Longrightarrow> i \<noteq> t \<Longrightarrow> quiet s i \<and> \<not> in_control s i"
    and l: "control_loc s' t l"
    and s': "loc s' = (loc s)(t := l)" "bar_threads s' = bar_threads s" "sync_var s' = sync_var s" "barrier_bytes s' = barrier_bytes s"
      "running s' = running s" "in_control s' = in_control s" "avail s' = (avail s)(t := 0)"
      "\<forall>i. stack_event_pending (bar_thr s' i) = stack_event_pending (bar_thr s i)"
    and e: "\<And>i. i \<noteq> t \<Longrightarrow> event_pending s' i = event_pending s i" "\<not> event_pending s' t"
  shows "bar_inv (Stop t) s'"
proof -
  have l': "l \<noteq> Wrote" "l \<noteq> WaitRelease" "\<forall>rest. l \<noteq> Releasing rest" using l by (auto simp: control_loc_def)
  have qs: "quiet s' i" if "i \<in> set (bar_threads s)" "i \<noteq> t" for i using q [OF that] that s'(1,7) by (simp add: quiet_def)
  have "common_inv (Stop t) s'"
  proof (rule common_step [OF c l'(3) s'(1,2,5,8) e(1)])
    show "Stop t = Stop i" if "i \<in> set (bar_threads s)" "loc s' i = Wrote \<or> loc s' i = WaitRelease" "avail s' i = 1" for i
      using that qs l' s'(1) by (cases "i = t") (auto simp: quiet_def)
  qed (use e in auto)
  moreover have "phase_inv (Stop t) s'" using t sync q qs l s' by (auto simp: control_loc_def split: bar_loc.splits)
  ultimately show ?thesis by (simp add: bar_inv_def)
qed

lemma stop_move:
  assumes inv: "bar_inv (Stop t) s" and t: "t \<in> set (bar_threads s)" and f: "\<not> may_have_event (loc s t)" and l: "control_loc s t l"
  shows "bar_inv (Stop t) (goto t l s)"
proof -
  have c: "common_inv (Stop t) s" and p: "phase_inv (Stop t) s" using inv by (simp_all add: bar_inv_def)
  have a: "avail s t = 0" "\<forall>rest. loc s t \<noteq> Releasing rest" using p f by (auto simp: may_have_event_def split: bar_loc.splits)
  have "\<forall>rest. l \<noteq> Releasing rest" using l by (auto simp: control_loc_def)
  note av = goto_avail(2) [OF a(2) this]
  have "control_loc (goto t l s) t l" using l by (simp add: control_loc_def split: bar_loc.splits)
  then show ?thesis
    by (rule control_move [OF c t, rotated 4]) (use p a av common_no_event [OF c t f] in \<open>auto simp: fun_eq_iff\<close>)
qed

subsection \<open>Steps of the signal handler\<close>

text \<open>In control, no thread releases others.\<close>

lemma stop_no_release:
  assumes "bar_inv (Stop t) s"
  shows "loc s b \<noteq> Releasing rest"
proof
  assume b: "loc s b = Releasing rest"
  then have "b \<in> set (bar_threads s)" using assms by (simp add: bar_inv_def common_inv_def)
  then show False using assms b by (cases "b = t") (auto simp: bar_inv_def loc_defs)
qed

lemma event_pending_signal:
  "event_pending (set_signal t g s) i =
    (if i = t then g \<noteq> THREAD_SUSPEND_SIGNAL \<and> g \<noteq> 0 \<or> stack_event_pending (bar_thr s t) else event_pending s i)"
  by (simp add: event_pending_def)

lemma enter_step:
  assumes inv: "bar_inv ph s" and t: "t \<in> set (bar_threads s)" and u: "loc s t = User"
  shows "bar_inv ph (goto t Entered (set_signal t g s))"
proof -
  have o: "outsider ph t" "outside s t" "avail s t = 0" "running s t"
    using inv_loc_outside(1) [OF inv t] u by (simp_all add: outside_loc_def)
  have "avail (goto t Entered (set_signal t g s)) = avail s" using u by (subst goto_avail(2)) simp_all
  then show ?thesis
    by (intro outside_move [OF inv t o(1,2,4)]) (use o(3) in \<open>auto simp: event_pending_signal fun_eq_iff\<close>)
qed

lemma stop_facts:
  assumes "bar_inv (Stop t) s"
  shows "common_inv (Stop t) s" "sync_var s = 1" "barrier_bytes s = 0" "in_control s t" "\<not> stack_event_pending (bar_thr s i)"
    "i \<in> set (bar_threads s) \<Longrightarrow> i \<noteq> t \<Longrightarrow> quiet s i \<and> \<not> in_control s i"
proof -
  have c: "common_inv (Stop t) s" and p: "phase_inv (Stop t) s" using assms by (simp_all add: bar_inv_def)
  show "common_inv (Stop t) s" by (rule c)
  show "\<not> stack_event_pending (bar_thr s i)" using c by (simp only: common_inv_def not_False_eq_True)
  show "sync_var s = 1" "barrier_bytes s = 0" "in_control s t" using p by simp_all
  show "i \<in> set (bar_threads s) \<Longrightarrow> i \<noteq> t \<Longrightarrow> quiet s i \<and> \<not> in_control s i" using p by simp
qed

text \<open>The begin of the handling, for the thread that is in control.\<close>

lemma handle_event_control:
  assumes c: "common_inv ph s" and t: "t \<in> set (bar_threads s)" and sync: "sync_var s = 1" "barrier_bytes s = 0" "in_control s t"
    and q: "\<And>i. i \<in> set (bar_threads s) \<Longrightarrow> i \<noteq> t \<Longrightarrow> quiet s i \<and> \<not> in_control s i"
    and a: "avail s t = 0" and r: "\<forall>rest. loc s t \<noteq> Releasing rest"
  shows "bar_inv (Stop t) (handle_event t s)"
proof -
  have av: "avail (handle_event t s) = avail s" using r unfolding handle_event_def by (subst goto_avail(2)) simp_all
  have ns: "\<not> stack_event_pending (bar_thr s t)" using c by (simp add: common_inv_def)
  have "control_loc (handle_event t s) t Handling" by (simp add: control_loc_def)
  from control_move [OF c t sync q this] av a ns show ?thesis
    by (simp add: handle_event_def event_pending_signal fun_upd_idem)
qed

lemma handle_event_stop:
  assumes inv: "bar_inv (Stop t) s" and t: "t \<in> set (bar_threads s)" and f: "\<not> may_have_event (loc s t)"
  shows "bar_inv (Stop t) (handle_event t s)"
proof -
  have "avail s t = 0" using inv f by (auto simp: bar_inv_def may_have_event_def split: bar_loc.splits)
  then show ?thesis using handle_event_control [OF stop_facts(1) [OF inv] t stop_facts(2-4) [OF inv] stop_facts(6) [OF inv]] stop_no_release [OF inv] by blast
qed

lemma set_state_step:
  assumes inv: "bar_inv (Stop t) s" and h: "loc s t = Handling"
  shows "bar_inv (Stop t) (upd_thr i (\<lambda>x. x\<lparr>ts := st\<rparr>) s)"
proof -
  let ?s = "upd_thr i (\<lambda>x. x\<lparr>ts := st\<rparr>) s"
  have "due s = (\<lambda>_. False)" "due ?s = (\<lambda>_. False)" using stop_no_release [OF inv] by (auto simp: due_def)
  then have v: "avail ?s = avail s" "quiet ?s = quiet s" by (auto simp: avail_def quiet_def fun_eq_iff)
  have e: "event_pending ?s = event_pending s" "in_control ?s = in_control s" "stack_event_pending (bar_thr ?s j) = stack_event_pending (bar_thr s j)" for j
    by (auto simp: event_pending_def event_signal_def in_control_def fun_eq_iff)
  show ?thesis
    using inv stop_no_release [OF inv] h v e by (simp add: bar_inv_def common_inv_def)
qed

text \<open>Anything that changes neither locations nor the parts of threads that the invariant reads.\<close>

lemma inv_cong:
  assumes "bar_inv ph s" and "loc s' = loc s" and "bar_threads s' = bar_threads s" and "sync_var s' = sync_var s"
    and "barrier_bytes s' = barrier_bytes s" and "control_bytes s' = control_bytes s" and "running s' = running s"
    and "in_control s' = in_control s" and "event_pending s' = event_pending s"
    and "\<forall>i. stack_event_pending (bar_thr s' i) = stack_event_pending (bar_thr s i)"
  shows "bar_inv ph s'"
proof -
  note v = view_cong [OF assms(2,7)]
  have w: "avail s' = avail s" "quiet s' = quiet s" "outside s' = outside s" "others s' = others s" using v assms by simp_all
  have "common_inv ph s' = common_inv ph s" using assms(10) unfolding common_inv_def assms(2-9) w by simp
  moreover have "phase_inv ph s' = phase_inv ph s" by (cases ph) (simp_all only: phase_inv.simps assms(2-9) w)
  ultimately show ?thesis using assms(1) by (simp add: bar_inv_def)
qed

lemma signal_entry_inv:
  assumes inv: "bar_inv ph s" and t: "t \<in> set (bar_threads s)" and l: "loc s t \<in> {User, Alone, Handling}"
    and run: "signal_entry_step t inp s = Some s'"
  shows "bar_inv ph s'"
proof -
  have keep: "bar_inv ph (s\<lparr>suspend_sent := w\<rparr>)" "bar_inv ph (upd_thr t (\<lambda>x. x\<lparr>suspend_pending := b\<rparr>) (s\<lparr>suspend_sent := w\<rparr>))" for w b
    by (rule inv_cong [OF inv]; simp add: fun_eq_iff running_def in_control_def event_pending_def event_signal_def)+
  consider (user) "loc s t = User" | (alone) "loc s t = Alone" "ph = Stop t" | (handling) "loc s t = Handling" "ph = Stop t"
    using l inv_loc_control(3,4) [OF inv t] by auto
  then show ?thesis
  proof cases
    case user
    then show ?thesis using run keep enter_step [OF inv t user] enter_step [OF keep(1) _ , of t]
      by (auto simp: signal_entry_step_def Let_def t split: bar_input.splits if_splits)
  next
    case alone
    then show ?thesis using run keep handle_event_stop [of t s] handle_event_stop [of t "s\<lparr>suspend_sent := w\<rparr>" for w] inv t
      by (auto simp: signal_entry_step_def Let_def may_have_event_def split: bar_input.splits if_splits)
  next
    case handling
    then show ?thesis using run set_state_step [of t s] stop_move [of t s] inv t
      by (auto simp: signal_entry_step_def Let_def may_have_event_def control_loc_def split: bar_input.splits if_splits)
  qed
qed

subsection \<open>Steps of blocking\<close>

lemma finite_others [simp]: "finite (others s h)"
  by (simp add: others_def)

lemma outside_not_quiet: "outside s i \<Longrightarrow> \<not> quiet s i"
  by (auto simp: outside_def quiet_def)

text \<open>The first thread of an epoch: nobody is quiet among the running ones.\<close>

lemma win_step:
  assumes inv: "bar_inv ph s" and t: "t \<in> set (bar_threads s)" and l: "loc s t = Entered" and z: "sync_var s = 0"
  shows "bar_inv (Gather t) (goto t (Suspending (bar_threads s) 0) (set_control t True (s\<lparr>sync_var := 1\<rparr>)))"
    (is "bar_inv _ ?s")
proof -
  have ph: "ph = Free" and o: "outside s t" "avail s t = 0" "running s t"
    using inv_loc_outside(1) [OF inv t] l z inv by (cases ph; simp add: outside_loc_def outsider_def bar_inv_def)+
  have c: "common_inv ph s" and p: "phase_inv Free s" using inv ph by (simp_all add: bar_inv_def)
  have av: "avail ?s = avail s" using l by (subst goto_avail(2)) simp_all
  have out: "outside ?s i = outside s i" "quiet ?s i = quiet s i" if "i \<noteq> t" for i
    using that av by (simp_all add: outside_def quiet_def)
  have "common_inv (Gather t) ?s"
  proof (rule common_step [OF c, where t = t and l = "Suspending (bar_threads s) 0"])
    show "Gather t = Stop i" if "i \<in> set (bar_threads s)" "loc ?s i = Wrote \<or> loc ?s i = WaitRelease" "avail ?s i = 1"
        "in_control ?s i \<or> event_pending ?s i" for i
      using common_waiting [OF c that(1)] that ph av by (cases "i = t") auto
  qed (simp_all add: may_have_event_def)
  moreover have "{i \<in> others s t. \<not> quiet ?s i} = others s t"
    using p out outside_not_quiet [of s] by (auto simp: others_def split: if_splits)
  moreover have "others s t \<inter> set (bar_threads s) = others s t" by (auto simp: others_def)
  moreover have "quiet ?s i \<or> running s i \<and> outside ?s i" if "i \<in> set (bar_threads s)" "i \<noteq> t" for i
    using p that out by (auto split: if_splits)
  moreover have "distinct (bar_threads s)" "barrier_bytes s = 0" using c p by (simp_all only: common_inv_def phase_inv.simps)
  ultimately show ?thesis using t o av by (simp add: bar_inv_def)
qed

text \<open>A gathering thread moves, and changes nothing but the control flags of the others.\<close>

lemma gather_move:
  assumes inv: "bar_inv (Gather t) s" and t: "t \<in> set (bar_threads s)" and l: "\<forall>rest. loc s t \<noteq> Releasing rest"
    and s': "loc s' = (loc s)(t := l)" "bar_threads s' = bar_threads s" "sync_var s' = sync_var s"
      "running s' = running s" "avail s' = avail s" "event_pending s' = event_pending s"
      "\<forall>i. stack_event_pending (bar_thr s' i) = stack_event_pending (bar_thr s i)"
    and ctl: "in_control s' t" "\<And>i. in_control s' i \<Longrightarrow> in_control s i"
    and l': "case l of
        Suspending rest n \<Rightarrow> distinct rest \<and> set rest \<subseteq> set (bar_threads s) \<and>
          n + card (others s t \<inter> set rest) = card (others s t) \<and>
          barrier_bytes s' + card {i \<in> others s t. \<not> quiet s i} = card (others s t) \<and>
          (\<forall>i \<in> set (bar_threads s). i \<noteq> t \<and> i \<notin> set rest \<longrightarrow> \<not> in_control s' i)
      | Collecting n \<Rightarrow> barrier_bytes s' + card {i \<in> others s t. \<not> quiet s i} = n \<and>
          (\<forall>i \<in> set (bar_threads s). i \<noteq> t \<longrightarrow> \<not> in_control s' i)
      | _ \<Rightarrow> False"
  shows "bar_inv (Gather t) s'"
proof -
  have c: "common_inv (Gather t) s" and p: "phase_inv (Gather t) s" using inv by (simp_all add: bar_inv_def)
  have nl: "may_have_event l" "\<forall>rest. l \<noteq> Releasing rest" "l \<noteq> Wrote" "l \<noteq> WaitRelease"
    using l' by (auto simp: may_have_event_def split: bar_loc.splits)
  have out: "outside s' i = outside s i" "quiet s' i = quiet s i" if "i \<noteq> t" for i
    using that s'(1,5) by (simp_all add: outside_def quiet_def)
  have oth: "others s' = others s" using s'(2,4) by (simp add: others_def fun_eq_iff)
  then have qo: "{i \<in> others s' t. \<not> quiet s' i} = {i \<in> others s t. \<not> quiet s i}" using out by (auto simp: others_def)
  have "common_inv (Gather t) s'"
  proof (rule common_step [OF c nl(2) s'(1,2,4,7)])
    show "Gather t = Stop i" if "i \<in> set (bar_threads s)" "loc s' i = Wrote \<or> loc s' i = WaitRelease" "avail s' i = 1"
        "in_control s' i \<or> event_pending s' i" for i
      using common_waiting [OF c that(1)] that nl s' ctl(2) by (cases "i = t") auto
  qed (use nl s'(6) in auto)
  moreover have "phase_inv (Gather t) s'"
    using p l' s' ctl(1) out qo oth by (simp split: bar_loc.splits)
  ultimately show ?thesis by (simp add: bar_inv_def)
qed

lemma gather_facts:
  assumes "bar_inv (Gather t) s" and "t \<in> set (bar_threads s)"
  shows "in_control s t" "avail s t = 0" "sync_var s = 1"
    and "loc s t = Suspending rest n \<Longrightarrow> distinct rest \<and> set rest \<subseteq> set (bar_threads s) \<and>
          n + card (others s t \<inter> set rest) = card (others s t) \<and>
          barrier_bytes s + card {i \<in> others s t. \<not> quiet s i} = card (others s t) \<and>
          (\<forall>i \<in> set (bar_threads s). i \<noteq> t \<and> i \<notin> set rest \<longrightarrow> \<not> in_control s i)"
    and "loc s t = Collecting n \<Longrightarrow> barrier_bytes s + card {i \<in> others s t. \<not> quiet s i} = n \<and>
          (\<forall>i \<in> set (bar_threads s). i \<noteq> t \<longrightarrow> \<not> in_control s i)"
  using assms by (simp_all add: bar_inv_def)

lemma suspend_step:
  assumes inv: "bar_inv (Gather t) s" and t: "t \<in> set (bar_threads s)" and l: "loc s t = Suspending (i # rest) n"
  shows "bar_inv (Gather t) (suspend_thread t i rest n s)"
proof -
  note g = gather_facts [OF inv t]
  have f: "distinct (i # rest)" "set (i # rest) \<subseteq> set (bar_threads s)" "n + card (others s t \<inter> set (i # rest)) = card (others s t)"
    "barrier_bytes s + card {i \<in> others s t. \<not> quiet s i} = card (others s t)"
    "\<forall>j \<in> set (bar_threads s). j \<noteq> t \<and> j \<notin> set (i # rest) \<longrightarrow> \<not> in_control s j"
    using g(4) [OF l] by simp_all
  have "i \<in> others s t \<longleftrightarrow> i \<noteq> t \<and> running s i" using f(2) by (auto simp: others_def)
  moreover have "card (others s t \<inter> set (i # rest)) = (if i \<in> others s t then Suc (card (others s t \<inter> set rest)) else card (others s t \<inter> set rest))"
    using f(1) by (simp add: Int_insert_right)
  ultimately have n: "(if i \<noteq> t \<and> running s i then Suc n else n) + card (others s t \<inter> set rest) = card (others s t)"
    using f(3) by (auto split: if_splits)
  have r: "\<forall>r. loc s t \<noteq> Releasing r" using l by simp
  have av: "avail (goto t (Suspending rest m) u) = avail u" if "loc u = loc s" for m u using goto_avail(2) [of u t] that r by simp
  have e: "set rest \<subseteq> set (bar_threads s)" "distinct rest" "\<forall>j \<in> set (bar_threads s). j \<noteq> t \<and> j \<noteq> i \<and> j \<notin> set rest \<longrightarrow> \<not> in_control s j"
    using f by auto
  have st: "ts (bar_thr s i) \<noteq> UDI_TS_SUSPENDED \<longleftrightarrow> running s i" by (cases "ts (bar_thr s i)") (simp_all add: running_def)
  note move = gather_move [OF inv t r]
  show ?thesis
  proof (cases "i = t")
    case True
    with n have "n + card (others s t \<inter> set rest) = card (others s t)" by simp
    moreover have "bar_inv (Gather t) (goto t (Suspending rest n) s)"
      by (rule move [where l = "Suspending rest n"]) (use True e f(4) n g(1) av in simp_all)
    ultimately show ?thesis using True by (simp add: suspend_thread_def)
  next
    case False
    have "bar_inv (Gather t) (goto t (Suspending rest (Suc n)) ((set_control i False s)\<lparr>suspend_sent := w\<rparr>))" if "running s i" for w
      by (rule move [where l = "Suspending rest (Suc n)"]) (use that False e f(4) n g(1) av in \<open>auto split: if_splits\<close>)
    moreover have "bar_inv (Gather t) (goto t (Suspending rest n) (set_control i False s))" if "\<not> running s i"
      by (rule move [where l = "Suspending rest n"]) (use that False e f(4) n g(1) av in \<open>auto split: if_splits\<close>)
    ultimately show ?thesis using False st by (auto simp: suspend_thread_def Let_def)
  qed
qed

lemma collect_start_step:
  assumes inv: "bar_inv (Gather t) s" and t: "t \<in> set (bar_threads s)" and l: "loc s t = Suspending [] n"
  shows "bar_inv (Gather t) (goto t (Collecting n) s)"
proof -
  note g = gather_facts [OF inv t]
  show ?thesis
    by (rule gather_move [OF inv t, where l = "Collecting n"]) (use g(1) g(4) [OF l] l goto_avail(2) [of s t "Collecting n"] in simp_all)
qed

lemma collect_step:
  assumes inv: "bar_inv (Gather t) s" and t: "t \<in> set (bar_threads s)" and l: "loc s t = Collecting (Suc n)" and b: "barrier_bytes s \<noteq> 0"
  shows "bar_inv (Gather t) (goto t (Collecting n) (s\<lparr>barrier_bytes := barrier_bytes s - 1\<rparr>))"
proof -
  note g = gather_facts [OF inv t]
  show ?thesis
    by (rule gather_move [OF inv t, where l = "Collecting n"])
      (use b g(1) g(5) [OF l] l goto_avail(2) [of "s\<lparr>barrier_bytes := barrier_bytes s - 1\<rparr>" t "Collecting n"] in auto)
qed

text \<open>All sentinels are in: the others are quiet and the thread is in control.\<close>

lemma collected_step:
  assumes inv: "bar_inv (Gather t) s" and t: "t \<in> set (bar_threads s)" and l: "loc s t = Collecting 0"
  shows "bar_inv (Stop t) (block_result t s)"
proof -
  note g = gather_facts [OF inv t]
  have c: "common_inv (Gather t) s" and p: "phase_inv (Gather t) s" using inv by (simp_all add: bar_inv_def)
  have b: "barrier_bytes s = 0" "{i \<in> others s t. \<not> quiet s i} = {}" "\<forall>i \<in> set (bar_threads s). i \<noteq> t \<longrightarrow> \<not> in_control s i"
    using g(5) [OF l] by auto
  have "quiet s i" if "i \<in> set (bar_threads s)" "i \<noteq> t" for i using p b(2) that by (auto simp: others_def)
  then have "bar_inv (Stop t) (handle_event t s)"
    using b by (intro handle_event_control [OF c t g(3) b(1) g(1) _ g(2)]) (auto simp: l)
  then show ?thesis using g(1) by (simp add: block_result_def in_control_def)
qed

text \<open>A thread that is not the first writes its sentinel and becomes quiet.\<close>

lemma lost_step:
  assumes inv: "bar_inv ph s" and t: "t \<in> set (bar_threads s)" and l: "loc s t = Lost"
  shows "bar_inv ph (goto t Wrote (s\<lparr>barrier_bytes := Suc (barrier_bytes s)\<rparr>))" (is "bar_inv _ ?s")
proof -
  have o: "outsider ph t" "outside s t" "avail s t = 0" "running s t" "ph \<noteq> Free"
    using inv_loc_outside(1,2) [OF inv t] l by (simp_all add: outside_loc_def)
  then obtain h where h: "ph = Gather h" "h \<noteq> t" by (auto simp: outsider_def)
  have c: "common_inv ph s" and p: "phase_inv (Gather h) s" using inv h(1) by (simp_all add: bar_inv_def)
  have av: "avail ?s = avail s" using l by (subst goto_avail(2)) simp_all
  have out: "outside ?s i = outside s i" "quiet ?s i = quiet s i" if "i \<noteq> t" for i
    using that av by (simp_all add: outside_def quiet_def)
  have q: "quiet ?s t" "\<not> quiet s t" using av o(3) l by (simp_all add: quiet_def waiting_def)
  have "{i \<in> others s h. \<not> quiet s i} = insert t {i \<in> others s h. \<not> quiet ?s i}"
    using q out(2) t o(4) h(2) by (auto simp: others_def) (metis out(2))
  then have n: "card {i \<in> others s h. \<not> quiet s i} = Suc (card {i \<in> others s h. \<not> quiet ?s i})" using q(1) by simp
  have "common_inv ph ?s"
  proof (rule common_step [OF c, where t = t and l = Wrote])
    show "ph = Stop i" if "i \<in> set (bar_threads s)" "loc ?s i = Wrote \<or> loc ?s i = WaitRelease" "avail ?s i = 1"
        "in_control ?s i \<or> event_pending ?s i" for i
      using common_waiting [OF c that(1)] that av o(3) by (cases "i = t") auto
  qed (simp_all add: may_have_event_def)
  moreover have "quiet ?s i \<or> running s i \<and> outside ?s i" if "i \<in> set (bar_threads s)" "i \<noteq> h" for i
    using p that out q(1) by (cases "i = t") auto
  moreover have "loc ?s h = loc s h" using h(2) by simp
  ultimately show ?thesis using p h(1) n av by (simp add: bar_inv_def split: bar_loc.splits)
qed

text \<open>A waiting thread notes whether a suspend signal is still to come.\<close>

lemma wrote_step:
  assumes inv: "bar_inv ph s" and t: "t \<in> set (bar_threads s)" and l: "loc s t = Wrote"
  shows "bar_inv ph (goto t WaitRelease (upd_thr t (\<lambda>x. x\<lparr>suspend_pending := b\<rparr>) s))" (is "bar_inv _ ?s")
proof -
  have c: "common_inv ph s" and p: "phase_inv ph s" using inv by (simp_all add: bar_inv_def)
  have av: "avail ?s = avail s" using l by (subst goto_avail(2)) simp_all
  have v: "quiet ?s = quiet s" "outside ?s = outside s" using av l by (auto simp: quiet_def outside_def waiting_def fun_eq_iff)
  have "common_inv ph ?s"
  proof (rule common_step [OF c, where t = t and l = WaitRelease])
    show "ph = Stop i" if "i \<in> set (bar_threads s)" "loc ?s i = Wrote \<or> loc ?s i = WaitRelease" "avail ?s i = 1"
        "in_control ?s i \<or> event_pending ?s i" for i
      using common_waiting [OF c that(1)] that av l by (cases "i = t") auto
  qed (simp_all add: may_have_event_def)
  moreover have "phase_inv ph ?s" using p v av l by (cases ph) (auto split: bar_loc.splits)
  ultimately show ?thesis by (simp add: bar_inv_def)
qed

text \<open>A sentinel taken from the control pipe: the thread was in control, or was released.\<close>

lemma take_control_avail:
  assumes "take_control t s = Some s1"
  shows "avail s1 = (avail s)(t := avail s t - 1)" "avail s t \<noteq> 0" "loc s1 = loc s" "bar_threads s1 = bar_threads s" "bar_thr s1 = bar_thr s"
    "sync_var s1 = sync_var s" "barrier_bytes s1 = barrier_bytes s" "running s1 = running s" "in_control s1 = in_control s"
    "event_pending s1 = event_pending s"
  using assms by (auto simp: take_control_def avail_def fun_eq_iff split: if_splits)

lemma wake_step:
  assumes inv: "bar_inv ph s" and t: "t \<in> set (bar_threads s)" and l: "waiting (loc s t)" and take: "take_control t s = Some s1"
    and o: "ph \<noteq> Stop t" and e: "\<not> event_pending s t"
  shows "bar_inv ph (goto t User s1)"
proof -
  note k = take_control_avail [OF take]
  have w: "avail s t = 1" "outsider ph t" "outside s t" "running s t" using inv_loc_outside(3) [OF inv t l k(2)] o by simp_all
  have "avail (goto t User s1) = avail s1" using l k(3) by (subst goto_avail(2)) (auto simp: waiting_def)
  then show ?thesis
    by (intro outside_move [OF inv t w(2-4)]) (use k w(1) e in \<open>auto simp: fun_eq_iff\<close>)
qed

lemma released_step:
  assumes inv: "bar_inv ph s" and t: "t \<in> set (bar_threads s)" and l: "loc s t = WaitRelease" and take: "take_control t s = Some s1"
  shows "\<exists>ph'. bar_inv ph' (block_result t s1)"
proof -
  note k = take_control_avail [OF take]
  have c: "common_inv ph s" using inv by (simp add: bar_inv_def)
  have a: "avail s t = 1" using inv_loc_outside(3) [OF inv t _ k(2)] l by (simp add: waiting_def)
  show ?thesis
  proof (cases "ph = Stop t")
    case True
    note f = stop_facts [OF inv [unfolded True]]
    have c1: "common_inv (Stop t) s1"
    proof (rule common_step [OF c, where t = t and l = WaitRelease])
      show "Stop t = Stop i" if "i \<in> set (bar_threads s)" "avail s1 i = 1" for i
        using f(6) [of i] that k(1) by (cases "i = t") (auto simp: quiet_def)
    qed (use k l in \<open>auto simp: may_have_event_def\<close>)
    have "quiet s1 i \<and> \<not> in_control s1 i" if "i \<in> set (bar_threads s1)" "i \<noteq> t" for i
      using f(6) [of i] that k by (simp add: quiet_def)
    with c1 have "bar_inv (Stop t) (handle_event t s1)"
      using t f(2-4) k a l by (intro handle_event_control) simp_all
    moreover have "in_control s1 t" using f(4) k by simp
    ultimately show ?thesis by (auto simp: block_result_def in_control_def)
  next
    case False
    then have e: "\<not> in_control s t" "\<not> event_pending s t" using common_waiting [OF c t _ a] l by auto
    then have "\<not> control_thread (bar_thr s1 t)" using k(9) by (simp add: in_control_def fun_eq_iff)
    then show ?thesis using wake_step [OF inv t _ take False e(2)] l by (auto simp: block_result_def waiting_def)
  qed
qed

lemma block_inv:
  assumes inv: "bar_inv ph s" and t: "t \<in> set (bar_threads s)" and run: "block_other_threads t s = Some s'"
  shows "\<exists>ph'. bar_inv ph' s'"
proof (cases "loc s t")
  case Entered
  have "outsider ph t" "outside s t" "avail s t = 0" "running s t" using inv_loc_outside(1) [OF inv t] Entered by (simp_all add: outside_loc_def)
  moreover have "ph \<noteq> Free" if "sync_var s \<noteq> 0" using that inv by (auto simp: bar_inv_def)
  moreover have "avail (goto t Lost s) = avail s" using Entered by (subst goto_avail(2)) simp_all
  moreover have "bar_inv ph (goto t Lost s)" if "sync_var s \<noteq> 0"
    by (rule outside_move [OF inv t, where l = Lost]) (use that calculation in \<open>auto simp: fun_eq_iff\<close>)
  ultimately show ?thesis using run Entered win_step [OF inv t Entered] by (auto simp: block_other_threads_def split: if_splits)
next
  case (Suspending rest n)
  then have "bar_inv (Gather t) s" using inv inv_loc_control(1) [OF inv t] by blast
  then show ?thesis using run t Suspending suspend_step [of t s] collect_start_step [of t s]
    by (auto simp: block_other_threads_def split: list.splits)
next
  case (Collecting n)
  then have "bar_inv (Gather t) s" using inv inv_loc_control(2) [OF inv t] by blast
  then show ?thesis using run t Collecting collect_step [of t s] collected_step [of t s]
    by (auto simp: block_other_threads_def split: nat.splits if_splits)
next
  case Lost
  then show ?thesis using run lost_step [OF inv t] by (auto simp: block_other_threads_def)
next
  case Wrote
  then show ?thesis using run wrote_step [OF inv t] by (auto simp: block_other_threads_def)
next
  case WaitRelease
  then show ?thesis using run released_step [OF inv t] by (auto simp: block_other_threads_def)
qed (use run in \<open>simp_all add: block_other_threads_def\<close>)

subsection \<open>Steps of releasing\<close>

lemma transfer_step:
  assumes inv: "bar_inv (Stop t) s" and t: "t \<in> set (bar_threads s)" and l: "loc s t = Transferring i"
  shows "bar_inv (Pass t i) (goto t (HandingOver i) (set_control i True (set_control t False s)))" (is "bar_inv _ ?s")
proof -
  note f = stop_facts [OF inv]
  have i: "i \<in> set (bar_threads s)" "i \<noteq> t" "event_pending s i" "avail s t = 0" using inv l by (simp_all add: bar_inv_def)
  have av: "avail ?s = avail s" using l by (subst goto_avail(2)) simp_all
  have q: "quiet ?s j" if "j \<in> set (bar_threads s)" "j \<noteq> t" for j using f(6) [OF that] that av by (simp add: quiet_def)
  have "common_inv (Pass t i) ?s"
  proof (rule common_step [OF f(1), where t = t and l = "HandingOver i"])
    show "Pass t i = Stop j" if "j \<in> set (bar_threads s)" "loc ?s j = Wrote \<or> loc ?s j = WaitRelease" "avail ?s j = 1" for j
      using q [OF that(1)] that by (cases "j = t") (auto simp: quiet_def)
    show "event_pending ?s t \<Longrightarrow> may_have_event (HandingOver i)"
      using common_no_event [OF f(1) t] l by (simp add: may_have_event_def)
  qed simp_all
  moreover have "\<not> in_control ?s j" if "j \<in> set (bar_threads s)" "j \<noteq> i" for j using f(6) [OF that(1)] that by auto
  ultimately show ?thesis using t i q av f(2,3) by (simp add: bar_inv_def)
qed

lemma hand_over_step:
  assumes inv: "bar_inv (Pass t i) s" and t: "t \<in> set (bar_threads s)"
  shows "bar_inv (Stop i) (goto t WaitTransfer (put_control i s))" (is "bar_inv _ ?s")
proof -
  have c: "common_inv (Pass t i) s" and p: "phase_inv (Pass t i) s" using inv by (simp_all add: bar_inv_def)
  have l: "loc s t = HandingOver i" and i: "i \<in> set (bar_threads s)" "i \<noteq> t" "event_pending s i" "quiet s i" "avail s t = 0"
    using p by auto
  have "avail (put_control i s) = (avail s)(i := Suc (avail s i))" by (auto simp: avail_def fun_eq_iff)
  then have av: "avail ?s = (avail s)(i := 1)" using l i(4) by (subst goto_avail(2)) (simp_all add: quiet_def)
  have q: "quiet ?s j" if "j \<in> set (bar_threads s)" "j \<noteq> i" for j
  proof (cases "j = t")
    case False
    then have "quiet s j" using p that by simp
    then show ?thesis using False that av by (simp add: quiet_def)
  qed (use that av i(5) in \<open>simp add: quiet_def waiting_def\<close>)
  have "may_have_event (loc s i)" using common_no_event [OF c i(1)] i(3) by blast
  then have li: "loc s i = Wrote \<or> loc s i = WaitRelease" using i(4) by (auto simp: quiet_def waiting_def may_have_event_def)
  have "common_inv (Stop i) ?s"
  proof (rule common_step [OF c, where t = t and l = WaitTransfer])
    show "Stop i = Stop j" if "j \<in> set (bar_threads s)" "avail ?s j = 1" for j using q [OF that(1)] that by (auto simp: quiet_def)
    show "event_pending ?s t \<Longrightarrow> may_have_event WaitTransfer" using common_no_event [OF c t] l by (simp add: may_have_event_def)
  qed simp_all
  moreover have "case loc ?s i of Wrote \<Rightarrow> avail ?s i = 1 | WaitRelease \<Rightarrow> avail ?s i = 1 | _ \<Rightarrow> False" using li i(2) av by auto
  ultimately show ?thesis using i p q by (auto simp: bar_inv_def split: bar_loc.splits)
qed

text \<open>The lock is given back: the running threads are released or due, the suspended ones stay quiet.\<close>

lemma unlock_step:
  assumes inv: "bar_inv (Stop t) s" and t: "t \<in> set (bar_threads s)" and l: "loc s t = Unlocking" and r: "running s t"
  shows "bar_inv Free (goto t (Releasing (bar_threads s)) (s\<lparr>sync_var := 0\<rparr>))" (is "bar_inv _ ?s")
proof -
  note f = stop_facts [OF inv] and nr = stop_no_release [OF inv]
  have e: "\<not> event_pending s i" "avail s t = 0" if "i \<in> set (bar_threads s)" "i \<noteq> t" for i using inv l that by (simp_all add: bar_inv_def)
  have at: "avail s t = 0" using inv l by (simp add: bar_inv_def)
  have "due s i = False" for i using nr by (simp add: due_def)
  moreover have "due ?s i \<longleftrightarrow> running s i \<and> i \<in> set (bar_threads s) \<and> i \<noteq> t" for i using nr by (auto simp: due_def)
  ultimately have av: "avail ?s i = (if running s i \<and> i \<in> set (bar_threads s) \<and> i \<noteq> t then Suc (avail s i) else avail s i)" for i
    by (simp add: avail_def)
  have d: "distinct (bar_threads s)" using f(1) by (simp only: common_inv_def)
  have et: "\<not> event_pending s t" using common_no_event [OF f(1) t] l by (simp add: may_have_event_def)
  have w: "waiting (loc s i)" "avail s i = 0" if "i \<in> set (bar_threads s)" "i \<noteq> t" for i using f(6) [OF that] by (simp_all add: quiet_def)
  have "common_inv Free ?s"
    unfolding common_inv_def using d f(5) nr t r e et f(6) by (auto split: if_splits)
  moreover have "\<forall>i \<in> set (bar_threads s). if running s i then outside ?s i \<and> loc ?s i \<noteq> Lost else quiet ?s i"
  proof
    fix i assume "i \<in> set (bar_threads s)"
    then show "if running s i then outside ?s i \<and> loc ?s i \<noteq> Lost else quiet ?s i"
      using w [of i] av [of i] at r by (cases "i = t") (auto simp: loc_defs)
  qed
  ultimately show ?thesis using f(3) unfolding bar_inv_def phase_inv.simps by simp
qed

text \<open>There is one releasing thread, and what is due is what it has left.\<close>

lemma due_unique:
  assumes "\<And>b r. loc s b = Releasing r \<longleftrightarrow> b = t \<and> r = rest"
  shows "due s j \<longleftrightarrow> running s j \<and> j \<in> set rest \<and> j \<noteq> t"
  using assms by (auto simp: due_def)

lemma releasing_unique:
  assumes "common_inv ph s" and "loc s t = Releasing rest"
  shows "loc s b = Releasing r \<longleftrightarrow> b = t \<and> r = rest"
proof -
  have "loc s b = Releasing r \<Longrightarrow> b = t" using assms unfolding common_inv_def by blast
  then show ?thesis using assms(2) by auto
qed

text \<open>The release of one thread moves a release that was due into its pipe.\<close>

lemma release_one_avail:
  assumes c: "common_inv ph s" and l: "loc s t = Releasing (i # rest)"
  shows "avail (goto t (Releasing rest) (if i \<noteq> t \<and> ts (bar_thr s i) = UDI_TS_RUNNING then put_control i s else s)) = avail s"
    (is "avail ?s = _")
proof
  fix j
  have d: "i \<notin> set rest" using c l unfolding common_inv_def by fastforce
  have "due s j \<longleftrightarrow> running s j \<and> j \<in> set (i # rest) \<and> j \<noteq> t" by (rule due_unique [OF releasing_unique [OF c l]])
  moreover have "loc ?s b = Releasing r \<longleftrightarrow> b = t \<and> r = rest" for b r using releasing_unique [OF c l, of b r] by auto
  from due_unique [of ?s, OF this] have "due ?s j \<longleftrightarrow> running s j \<and> j \<in> set rest \<and> j \<noteq> t" by simp
  moreover have "control_bytes ?s j = (if j = i \<and> i \<noteq> t \<and> running s i then Suc (control_bytes s j) else control_bytes s j)"
    by (simp add: running_def)
  ultimately show "avail ?s j = avail s j" using d by (auto simp: avail_def)
qed

lemma release_one_step:
  assumes inv: "bar_inv ph s" and t: "t \<in> set (bar_threads s)" and l: "loc s t = Releasing (i # rest)"
  shows "bar_inv ph (goto t (Releasing rest) (if i \<noteq> t \<and> ts (bar_thr s i) = UDI_TS_RUNNING then put_control i s else s))"
proof -
  define s' where "s' = goto t (Releasing rest) (if i \<noteq> t \<and> ts (bar_thr s i) = UDI_TS_RUNNING then put_control i s else s)"
  have c: "common_inv ph s" and p: "phase_inv ph s" using inv by (simp_all add: bar_inv_def)
  have av: "avail s' = avail s" unfolding s'_def by (rule release_one_avail [OF c l])
  have o: "outsider ph t" using inv_loc_outside(1) [OF inv t] l by (simp add: outside_loc_def)
  have s: "loc s' = (loc s)(t := Releasing rest)" "bar_threads s' = bar_threads s" "bar_thr s' = bar_thr s" "sync_var s' = sync_var s"
    "barrier_bytes s' = barrier_bytes s" "running s' = running s" "in_control s' = in_control s" "event_pending s' = event_pending s"
    "others s' = others s"
    by (simp_all add: s'_def others_def fun_eq_iff)
  have v: "quiet s' = quiet s" "outside s' = outside s" using av l s(1) by (auto simp: loc_defs fun_eq_iff)
  have r: "t \<in> set (bar_threads s)" "running s t" "distinct (i # rest)" "set (i # rest) \<subseteq> set (bar_threads s)"
    and u: "\<And>b r. loc s b = Releasing r \<Longrightarrow> b = t" using c l unfolding common_inv_def by blast+
  have "common_inv ph s'"
    unfolding common_inv_def s av
  proof (intro conjI allI impI ballI)
    show "b \<in> set (bar_threads s)" "running s b" "distinct r'" "set r' \<subseteq> set (bar_threads s)"
      if "((loc s)(t := Releasing rest)) b = Releasing r'" for b r' using that r u [of b] by (auto split: if_splits)
    show "b = b'" if "((loc s)(t := Releasing rest)) b = Releasing r' \<and> ((loc s)(t := Releasing rest)) b' = Releasing r''" for b b' r' r''
      using that u [of b] u [of b'] by (auto split: if_splits)
    show "may_have_event (((loc s)(t := Releasing rest)) j)" if "j \<in> set (bar_threads s)" "event_pending s j" for j
      using common_no_event [OF c that(1)] that l by (cases "j = t") (auto simp: may_have_event_def)
    show "ph = Stop j" if "j \<in> set (bar_threads s)" "(((loc s)(t := Releasing rest)) j = Wrote \<or> ((loc s)(t := Releasing rest)) j = WaitRelease) \<and>
        avail s j = 1 \<and> (in_control s j \<or> event_pending s j)" for j
      using common_waiting [OF c that(1)] that by (auto split: if_splits)
    show "distinct (bar_threads s)" "\<not> stack_event_pending (bar_thr s j)" for j using c unfolding common_inv_def by blast+
  qed
  moreover have "phase_inv ph s'"
  proof (cases ph)
    case Free
    with p have "phase_inv Free s'" unfolding Free phase_inv.simps s v by (auto split: if_splits)
    then show ?thesis using Free by simp
  next
    case (Gather h)
    then have "loc s' h = loc s h" using o s(1) by (auto simp: outsider_def)
    with p have "phase_inv (Gather h) s'" unfolding Gather phase_inv.simps s(2-) v av by simp
    then show ?thesis using Gather by simp
  qed (use o in \<open>auto simp: outsider_def\<close>)
  ultimately show ?thesis by (simp add: bar_inv_def s'_def)
qed

lemma release_done_step:
  assumes inv: "bar_inv ph s" and t: "t \<in> set (bar_threads s)" and l: "loc s t = Releasing []"
  shows "bar_inv ph (goto t User s)" "running s t"
proof -
  have c: "common_inv ph s" using inv by (simp_all add: bar_inv_def)
  have o: "outsider ph t" "outside s t" "avail s t = 0" "running s t" using inv_loc_outside(1) [OF inv t] l by (simp_all add: outside_loc_def)
  have e: "\<not> event_pending s t" using common_no_event [OF c t] l by (simp add: may_have_event_def)
  have "due (goto t User s) i = due s i" for i
    using due_unique [OF releasing_unique [OF c l], of i] releasing_unique [OF c l] by (auto simp: due_def)
  then have "avail (goto t User s) = avail s" by (simp add: avail_def fun_eq_iff)
  then show "bar_inv ph (goto t User s)"
    by (intro outside_move [OF inv t o(1,2,4)]) (use o(3) e in \<open>auto simp: fun_eq_iff\<close>)
  show "running s t" by (rule o(4))
qed

lemma release_inv:
  assumes inv: "bar_inv ph s" and t: "t \<in> set (bar_threads s)" and run: "release_other_threads t s = Some s'" and r: "releaser_running s'"
  shows "\<exists>ph'. bar_inv ph' s'"
proof (cases "loc s t")
  case (Searching rest)
  then have st: "bar_inv (Stop t) s" using inv inv_loc_control(5) [OF inv t] by blast
  have "set rest \<subseteq> set (bar_threads s) \<and> (\<forall>i \<in> set (bar_threads s). i \<noteq> t \<and> i \<notin> set rest \<longrightarrow> \<not> event_pending s i)"
    using st Searching by (simp add: bar_inv_def)
  moreover have "bar_inv (Stop t) (goto t l s)" if "control_loc s t l" for l
    using stop_move [OF st t _ that] Searching by (simp add: may_have_event_def)
  note this [of Unlocking] this [of "Transferring (hd rest)"] this [of "Searching (tl rest)"]
  ultimately show ?thesis using run Searching
    by (cases rest) (auto simp: release_other_threads_def control_loc_def split: if_splits)
next
  case (Transferring i)
  then have "bar_inv (Stop t) s" using inv inv_loc_control(6) [OF inv t] by blast
  then show ?thesis using run Transferring transfer_step t by (auto simp: release_other_threads_def)
next
  case (HandingOver i)
  then have "bar_inv (Pass t i) s" using inv inv_loc_control(8) [OF inv t] by blast
  then show ?thesis using run HandingOver hand_over_step t by (auto simp: release_other_threads_def)
next
  case Unlocking
  then have st: "bar_inv (Stop t) s" using inv inv_loc_control(7) [OF inv t] by blast
  have "running s t" using run r t Unlocking by (auto simp: release_other_threads_def releaser_running_def running_def)
  then show ?thesis using run Unlocking unlock_step [OF st t Unlocking] by (auto simp: release_other_threads_def)
next
  case (Releasing rest)
  then show ?thesis using run release_one_step [OF inv t] release_done_step [OF inv t]
    by (cases rest) (auto simp: release_other_threads_def running_def)
next
  case WaitTransfer
  have "\<not> event_pending s t" using common_no_event [of ph s t] inv t WaitTransfer by (simp add: bar_inv_def may_have_event_def)
  then show ?thesis using run WaitTransfer wake_step [OF inv t] inv_loc_outside(4) [OF inv t] by (auto simp: release_other_threads_def waiting_def)
next
  case WaitSuspended
  have "\<not> event_pending s t" using common_no_event [of ph s t] inv t WaitSuspended by (simp add: bar_inv_def may_have_event_def)
  then show ?thesis using run WaitSuspended wake_step [OF inv t] inv_loc_outside(4) [OF inv t] by (auto simp: release_other_threads_def waiting_def)
qed (use run in \<open>simp_all add: release_other_threads_def\<close>)

lemma bar_init_inv: "bar_init s \<Longrightarrow> bar_inv Free s"
  by (auto simp: bar_init_def bar_inv_def common_inv_def loc_defs avail_def due_def running_def event_pending_def)

lemma bar_fair_inv: "bar_fair s \<Longrightarrow> \<exists>ph. bar_inv ph s"
proof (induction rule: bar_fair.induct)
  case (bar_fair_init s)
  then show ?case using bar_init_inv by blast
next
  case (bar_fair_step s s')
  then obtain ph t inp where inv: "bar_inv ph s" and t: "t \<in> set (bar_threads s)" and run: "bar_next t inp s = Some s'"
    by (auto elim: bar_step.cases)
  show ?case
  proof (cases "loc s t \<in> {User, Alone, Handling}")
    case True
    then show ?thesis using run signal_entry_inv [OF inv t True] by (auto simp: bar_next_def)
  next
    case False
    then show ?thesis using run block_inv [OF inv t] release_inv [OF inv t _ bar_fair_step(3)]
      by (auto simp: bar_next_def split: option.splits if_splits)
  qed
qed

section \<open>Properties\<close>

text \<open>
  C12. The world is stopped. While a thread handles an event, or runs alone over a breakpoint, every
  other thread is inside the handler, waits for its control pipe and finds no sentinel there; no other thread can become
  the first one of a new epoch, and no sentinel is left in the barrier. This holds for all interleavings in which no
  suspended thread releases the others.
\<close>

theorem stop_the_world:
  assumes "bar_fair s" and "h \<in> set (bar_threads s)" and "loc s h = Handling \<or> loc s h = Alone"
    and "i \<in> set (bar_threads s)" and "i \<noteq> h"
  shows "loc s i \<in> {Wrote, WaitRelease, WaitTransfer, WaitSuspended} \<and> control_bytes s i = 0 \<and> sync_var s = 1 \<and> barrier_bytes s = 0"
proof -
  obtain ph where inv: "bar_inv ph s" using bar_fair_inv [OF assms(1)] by blast
  have "ph = Stop h" using inv_loc_control(3,4) [OF inv assms(2)] assms(3) by blast
  note f = stop_facts [OF inv [unfolded this]]
  show ?thesis using f(2,3) f(6) [OF assms(4,5)] by (auto simp: quiet_def waiting_def avail_def)
qed

text \<open>Two threads; the first one has an event, the second one is stopped by the suspend signal.\<close>

definition go :: "ptr \<Rightarrow> nat \<Rightarrow> (ptr \<times> bar_input) list" where
  "go t n = replicate n (t, Go)"

definition stop_schedule :: "(ptr \<times> bar_input) list" where
  "stop_schedule = [(1, Event 5)] @ go 1 4 @ go 2 3 @ go 1 2"

theorem stop_the_world_witness:
  "case bar_exec releaser_running stop_schedule (sample_bar [1, 2]) of
     None \<Rightarrow> False
   | Some s \<Rightarrow> loc s 1 = Handling \<and> loc s 2 \<in> {Wrote, WaitRelease, WaitTransfer, WaitSuspended} \<and> control_bytes s 2 = 0"
proof -
  have "case bar_exec releaser_running stop_schedule (sample_bar [1, 2]) of None \<Rightarrow> False
    | Some s \<Rightarrow> loc s 1 = Handling \<and> bar_threads s = [1, 2]" by code_simp
  then obtain s where s: "bar_exec releaser_running stop_schedule (sample_bar [1, 2]) = Some s" "loc s 1 = Handling" "bar_threads s = [1, 2]"
    by (auto split: option.splits)
  have "bar_fair s" using bar_exec_fair [OF s(1)] bar_fair_init [OF sample_bar_init] by simp
  from stop_the_world [OF this, of 1 2] s show ?thesis by simp
qed

text \<open>
  C29. No event is lost when no suspended thread releases the others. In all interleavings with this condition, a thread that runs the program has no event that was stored for it and not handled:
  the signal stored for a thread is cleared or the suspend signal whenever it is outside the handler. Without the condition the race of the suspended releaser leaves a stray sentinel that lets a thread
  with a stored event go; events on the number of the suspend signal that come from outside are not part of the protocol.
\<close>

theorem no_event_lost:
  assumes "bar_fair s" and "i \<in> set (bar_threads s)" and "loc s i = User \<or> loc s i = Alone"
  shows "event_signal s i = 0 \<or> event_signal s i = THREAD_SUSPEND_SIGNAL"
proof -
  obtain ph where inv: "bar_inv ph s" using bar_fair_inv [OF assms(1)] by blast
  then have "\<not> event_pending s i"
    using common_no_event [of ph s i] assms by (auto simp: bar_inv_def may_have_event_def)
  then show ?thesis by (auto simp: event_pending_def)
qed

text \<open>Both threads have an event; the second one gets the control after the first one, and handles it.\<close>

definition transfer_schedule :: "(ptr \<times> bar_input) list" where
  "transfer_schedule = [(1, Event 5)] @ go 1 2 @ [(2, Event 11)] @ go 2 3 @ go 1 9 @ go 2 7 @ go 1 1"

theorem no_event_lost_witness:
  "case bar_exec releaser_running (transfer_schedule @ go 2 2) (sample_bar [1, 2]) of
     None \<Rightarrow> False
   | Some s \<Rightarrow> loc s 2 = User \<and> (event_signal s 2 = 0 \<or> event_signal s 2 = THREAD_SUSPEND_SIGNAL)"
proof -
  have "case bar_exec releaser_running (transfer_schedule @ go 2 2) (sample_bar [1, 2]) of None \<Rightarrow> False
    | Some s \<Rightarrow> loc s 2 = User \<and> bar_threads s = [1, 2]" by code_simp
  then obtain s where s: "bar_exec releaser_running (transfer_schedule @ go 2 2) (sample_bar [1, 2]) = Some s" "loc s 2 = User" "bar_threads s = [1, 2]"
    by (auto split: option.splits)
  have "bar_fair s" using bar_exec_fair [OF s(1)] bar_fair_init [OF sample_bar_init] by simp
  from no_event_lost [OF this, of 2] s show ?thesis by simp
qed

text \<open>
  A state in which the control thread waits for the sentinel of a thread that runs the program and has
  no suspend signal pending moves only when that thread has an event of its own.
\<close>

lemma collecting_stuck:
  assumes "bar_threads s = [1, 2]" and "loc s 1 = Collecting (Suc n)" and "barrier_bytes s = 0" and "loc s 2 = User" and "\<not> suspend_sent s 2"
    and step: "bar_step s s'"
  shows "\<exists>g. s' = goto 2 Entered (set_signal 2 g s)"
  using step
proof cases
  case (bar_stepI t inp)
  then consider "t = 1" | "t = 2" using assms(1) by auto
  then show ?thesis
  proof cases
    case 1
    then show ?thesis using bar_stepI assms by (simp add: bar_next_def block_other_threads_def release_other_threads_def split: if_splits)
  next
    case 2
    then show ?thesis using bar_stepI assms
      by (auto simp: bar_next_def signal_entry_step_def Let_def split: bar_input.splits if_splits)
  qed
qed

text \<open>
  C30. A suspend signal can be lost. There is an interleaving, without suspended threads, after which the
  control thread waits for one more sentinel, while the only other thread runs the program and no suspend signal is
  pending for it: the signal was merged with an earlier one that was still pending, and the handler ignored it as
  the extraneous one. From there no thread moves unless the program itself raises an event in that thread.
\<close>

theorem suspend_signal_lost:
  "\<exists>s. bar_fair s \<and> bar_threads s = [1, 2] \<and> loc s 1 = Collecting 1 \<and> loc s 2 = User \<and>
     Collect (bar_step s) \<subseteq> range (\<lambda>g. goto 2 Entered (set_signal 2 g s))"
proof -
  let ?acts = "transfer_schedule @ [(1, Event 5)] @ go 1 4 @ go 2 3"
  have "case bar_exec releaser_running ?acts (sample_bar [1, 2]) of None \<Rightarrow> False
    | Some s \<Rightarrow> bar_threads s = [1, 2] \<and> loc s 1 = Collecting 1 \<and> barrier_bytes s = 0 \<and> loc s 2 = User \<and> \<not> suspend_sent s 2"
    by code_simp
  then obtain s where s: "bar_exec releaser_running ?acts (sample_bar [1, 2]) = Some s" "bar_threads s = [1, 2]" "loc s 1 = Collecting 1"
    "barrier_bytes s = 0" "loc s 2 = User" "\<not> suspend_sent s 2"
    by (auto split: option.splits)
  have "bar_fair s" using bar_exec_fair [OF s(1)] bar_fair_init [OF sample_bar_init] by simp
  moreover have "s' \<in> range (\<lambda>g. goto 2 Entered (set_signal 2 g s))" if "bar_step s s'" for s'
    using collecting_stuck [OF s(2) _ s(4-6) that] s(3) by auto
  ultimately show ?thesis using s by blast
qed

text \<open>
  C31. A suspended thread that releases the others can run on while another thread is in control. The debugger suspends the
  thread in control and continues the process: the released thread becomes the control thread of a new epoch without waiting for
  the suspended one, and when the debugger resumes that one before it has tested its own state, it returns to the program.
\<close>

theorem suspended_releaser_race:
  "\<exists>s. bar_run s \<and> bar_threads s = [1, 2] \<and> loc s 2 = Handling \<and> loc s 1 = User"
proof -
  let ?acts = "stop_schedule @ [(1, SetState 1 UDI_TS_SUSPENDED)] @ go 1 7 @ go 2 2 @ [(2, Event 11)] @ go 2 5 @
    [(2, SetState 1 UDI_TS_RUNNING)] @ go 1 1"
  have "case bar_exec (\<lambda>_. True) ?acts (sample_bar [1, 2]) of None \<Rightarrow> False
    | Some s \<Rightarrow> bar_threads s = [1, 2] \<and> loc s 2 = Handling \<and> loc s 1 = User"
    by code_simp
  then obtain s where s: "bar_exec (\<lambda>_. True) ?acts (sample_bar [1, 2]) = Some s" "bar_threads s = [1, 2]" "loc s 2 = Handling" "loc s 1 = User"
    by (auto split: option.splits)
  have "bar_run s" using bar_exec_run [OF s(1)] bar_run_init [OF sample_bar_init] by simp
  then show ?thesis using s by blast
qed

end
