(* ===== verification/Signal_Entry.thy ===== *)
theory Signal_Entry
  imports Signals Thread_Barrier
begin

text \<open>
  The signal handler of the library (\<^verbatim>\<open>signal_entry_impl\<close> of \<^verbatim>\<open>udirt-posix.c\<close>) as one thread executes it, from the
  signal to the return to the program, with the functions that stop and release the other threads. Where the thread blocks
  on a pipe the other threads run; what they do until its sentinel arrives is an argument. How the threads
  interleave there is the subject of \<open>Thread_Barrier\<close>. Logging is off.
\<close>

section \<open>Definitions\<close>

text \<open>
  The variable and the pipe of the barrier of the threads, the root directory of the library, and the signals sent with
  \<^verbatim>\<open>pthread_kill\<close>: the thread and the number.
\<close>

record proc_state = sig_state +
  barrier_var :: nat
  barrier_read :: int
  barrier_write :: int
  udi_root_dir :: string
  thread_kills :: "(u64 \<times> nat) list"

text \<open>What the handler uses of the information on a signal.\<close>

record siginfo =
  si_code :: nat
  si_addr :: u64

definition SIGTRAP :: nat where
  "SIGTRAP = 5"

definition sentinel :: u8 where
  "sentinel = 0x21"

text \<open>
  The points at which a thread waits for a sentinel: the pipe of the barrier, and its own control pipe. The others answer with the state in
  which the sentinel was read, with an abort when the read fails, or never.
\<close>

datatype wait_point = At_barrier | At_control ptr

type_synonym 's others_run = "wait_point \<Rightarrow> 's \<Rightarrow> 's run"

definition single_thread_executing :: "'z req_state_scheme \<Rightarrow> bool" where
  "single_thread_executing s \<longleftrightarrow> performing_mem_access s \<or> continue_bp s \<noteq> NULL"

text \<open>Writing a sentinel, and the writes whose failure aborts the process.\<close>

definition put_sentinel :: "int \<Rightarrow> 'z io_state_scheme \<Rightarrow> bool \<times> 'z io_state_scheme" where
  "put_sentinel fd s =
     (case sys_call s of (r, s) \<Rightarrow>
        if fd < 0 \<or> sys_failed r then (False, s)
        else (True, s\<lparr>out_data := (out_data s)(nat fd := out_data s (nat fd) @ [sentinel])\<rparr>))"

definition write_sentinel :: "int \<Rightarrow> 'z io_state_scheme \<Rightarrow> 'z io_state_scheme run" where
  "write_sentinel fd s = (case put_sentinel fd s of (ok, s) \<Rightarrow> if ok then Ret s else Abort)"

subsection \<open>Blocking the other threads\<close>

text \<open>\<^verbatim>\<open>pthread_kill\<close>: whether the signal was sent.\<close>

definition sys_pthread_kill :: "u64 \<Rightarrow> nat \<Rightarrow> 'z proc_state_scheme \<Rightarrow> bool \<times> 'z proc_state_scheme" where
  "sys_pthread_kill tid signum s =
     (case sys_call s of (r, s) \<Rightarrow>
        if sys_failed r then (False, s) else (True, s\<lparr>thread_kills := thread_kills s @ [(tid, signum)]\<rparr>))"

text \<open>The loop that sends the suspend signal, with the number of threads it was sent to.\<close>

partial_function (option) suspend_loop :: "ptr \<Rightarrow> ptr \<Rightarrow> nat \<Rightarrow> 'z proc_state_scheme \<Rightarrow> (nat \<times> 'z proc_state_scheme) run option" where
  "suspend_loop thr iter num_suspended s =
     (if iter = NULL then Some (Ret (num_suspended, s))
      else (case thr_heap s iter of
        None \<Rightarrow> None
      | Some t \<Rightarrow>
          if iter = thr then suspend_loop thr (next_thread t) num_suspended s
          else
            let s = s\<lparr>thr_heap := (thr_heap s)(iter \<mapsto> t\<lparr>control_thread := False\<rparr>)\<rparr> in
            if ts t = UDI_TS_SUSPENDED then suspend_loop thr (next_thread t) num_suspended s
            else (case sys_pthread_kill (thr_id t) THREAD_SUSPEND_SIGNAL s of (ok, s) \<Rightarrow>
              if \<not> ok then Some Abort else suspend_loop thr (next_thread t) (Suc num_suspended) s)))"

primrec collect_sentinels :: "'s others_run \<Rightarrow> nat \<Rightarrow> 's \<Rightarrow> 's run" where
  "collect_sentinels sched 0 s = Ret s"
| "collect_sentinels sched (Suc n) s = run_bind (sched At_barrier s) (collect_sentinels sched n)"

definition block_threads :: "'z proc_state_scheme others_run \<Rightarrow> 'z proc_state_scheme \<Rightarrow> (int \<times> 'z proc_state_scheme) run" where
  "block_threads sched s =
     (if \<not> get_multithreaded s then Ret (0, s)
      else run_bind (get_current_thread s) (\<lambda>thr.
        if thr = NULL then Ret (- 1, s)
        else run_bind
          (if barrier_var s = 0
           then run_bind (update_thread thr (\<lambda>t. t\<lparr>control_thread := True\<rparr>) (s\<lparr>barrier_var := 1\<rparr>)) (\<lambda>s.
             run_bind (of_option (suspend_loop thr (get_thread_list s) 0 s)) (\<lambda>m.
             run_bind m (\<lambda>(num_suspended, s). collect_sentinels sched num_suspended s)))
           else run_bind (write_sentinel (barrier_write s) s) (\<lambda>s.
             run_bind (update_thread thr (\<lambda>t. t\<lparr>suspend_pending := st_signal (event_state t) \<noteq> THREAD_SUSPEND_SIGNAL\<rparr>) s) (\<lambda>s.
             sched (At_control thr) s)))
          (\<lambda>s. run_bind (thread_at thr s) (\<lambda>t. Ret (if control_thread t then 0 else 1, s)))))"

subsection \<open>Releasing the other threads\<close>

definition pending_event :: "thread \<Rightarrow> bool" where
  "pending_event t \<longleftrightarrow>
     st_signal (event_state t) \<noteq> THREAD_SUSPEND_SIGNAL \<and> st_signal (event_state t) \<noteq> 0 \<or> stack_event_pending t"

partial_function (option) pending_loop :: "(ptr \<rightharpoonup> thread) \<Rightarrow> ptr \<Rightarrow> ptr \<Rightarrow> ptr option" where
  "pending_loop h thr iter =
     (if iter = NULL then Some NULL
      else (case h iter of
        None \<Rightarrow> None
      | Some t \<Rightarrow> if iter \<noteq> thr \<and> pending_event t then Some iter else pending_loop h thr (next_thread t)))"

partial_function (option) release_loop :: "ptr \<Rightarrow> ptr \<Rightarrow> 'z thr_state_scheme \<Rightarrow> 'z thr_state_scheme run option" where
  "release_loop thr iter s =
     (if iter = NULL then Some (Ret s)
      else (case thr_heap s iter of
        None \<Rightarrow> None
      | Some t \<Rightarrow>
          if iter \<noteq> thr \<and> ts t = UDI_TS_RUNNING
          then (case write_sentinel (control_write t) s of
              Ret s \<Rightarrow> release_loop thr (next_thread t) s
            | Abort \<Rightarrow> Some Abort
            | Stuck \<Rightarrow> None)
          else release_loop thr (next_thread t) s))"

definition release_threads :: "'z proc_state_scheme others_run \<Rightarrow> 'z proc_state_scheme \<Rightarrow> (int \<times> 'z proc_state_scheme) run" where
  "release_threads sched s =
     (if \<not> get_multithread_capable s then Ret (0, s)
      else run_bind (get_current_thread s) (\<lambda>thr.
        run_bind (of_option (pending_loop (thr_heap s) thr (get_thread_list s))) (\<lambda>iter.
          if iter \<noteq> thr \<and> iter \<noteq> NULL
          then run_bind (if thr \<noteq> NULL then update_thread thr (\<lambda>t. t\<lparr>control_thread := False\<rparr>) s else Ret s) (\<lambda>s.
            run_bind (update_thread iter (\<lambda>t. t\<lparr>control_thread := True\<rparr>) s) (\<lambda>s.
            run_bind (thread_at iter s) (\<lambda>t.
            run_bind (write_sentinel (control_write t) s) (\<lambda>s.
            run_bind (if thr \<noteq> NULL then sched (At_control thr) s else Ret s) (\<lambda>s. Ret (0, s))))))
          else
            let s = s\<lparr>barrier_var := (if barrier_var s = 1 then 0 else barrier_var s)\<rparr> in
            run_bind (of_option (release_loop thr (get_thread_list s) s)) (\<lambda>m.
            run_bind m (\<lambda>s.
            run_bind (if thr \<noteq> NULL then run_bind (get_thread_state thr s) (\<lambda>state. Ret (state = UDI_TS_SUSPENDED)) else Ret False)
              (\<lambda>suspended. run_bind (if suspended then sched (At_control thr) s else Ret s) (\<lambda>s. Ret (0, s))))))))"

subsection \<open>The handler\<close>

text \<open>Saving the state of the event in the structure of the thread, completely or only the context.\<close>

definition save_event :: "nat \<Rightarrow> siginfo \<Rightarrow> ucontext \<Rightarrow> ptr \<Rightarrow> 'z thr_state_scheme \<Rightarrow> 'z thr_state_scheme run" where
  "save_event signum info c thr s =
     update_thread thr (\<lambda>t. t\<lparr>event_state := (copy_context c
       \<lparr>st_signal = signum, st_si_code = si_code info, st_si_addr = si_addr info,
        st_context = st_context (event_state t), context_valid = context_valid (event_state t)\<rparr>)\<lparr>context_valid := True\<rparr>\<rparr>) s"

definition save_context :: "ucontext \<Rightarrow> ptr \<Rightarrow> 'z thr_state_scheme \<Rightarrow> 'z thr_state_scheme run" where
  "save_context c thr s =
     update_thread thr (\<lambda>t. t\<lparr>event_state := (copy_context c (event_state t))\<lparr>context_valid := True\<rparr>\<rparr>) s"

definition invalidate_context :: "ptr \<Rightarrow> 'z thr_state_scheme \<Rightarrow> 'z thr_state_scheme run" where
  "invalidate_context thr s = update_thread thr (\<lambda>t. t\<lparr>event_state := (event_state t)\<lparr>context_valid := False\<rparr>\<rparr>) s"

definition clear_signal :: "ptr \<Rightarrow> 'z thr_state_scheme \<Rightarrow> 'z thr_state_scheme run" where
  "clear_signal thr s = update_thread thr (\<lambda>t. t\<lparr>event_state := (event_state t)\<lparr>st_signal := 0\<rparr>\<rparr>) s"

text \<open>
  The event by the number of the signal: the result, whether to wait for requests, and the context as changed. The
  label that an aborted memory access goes to is an argument.
\<close>

definition decode_event ::
    "env \<Rightarrow> u64 \<Rightarrow> ptr \<Rightarrow> nat \<Rightarrow> siginfo \<Rightarrow> ucontext \<Rightarrow> 'z evt_state_scheme \<Rightarrow> ((int \<times> bool \<times> ucontext) \<times> 'z evt_state_scheme) run" where
  "decode_event E abort_label thr signum info c s =
     (if signum = SIGBUS \<or> signum = SIGSEGV
      then (case decode_memory_access_event E (si_code info) s of ((result, no_wait, aborted), s) \<Rightarrow>
        Ret ((result, \<not> no_wait, if aborted then set_pc c abort_label else c), s))
      else if signum = SIGTRAP then decode_trap E thr c True s
      else run_bind (handle_unknown_event E (get_user_thread_id s) s) (\<lambda>(result, s). Ret ((result, True, c), s)))"

text \<open>After the event: the next single step, the report of an error, the requests, and the release of the other threads.\<close>

definition serve_event ::
    "env \<Rightarrow> u64 \<Rightarrow> 'z proc_state_scheme others_run \<Rightarrow> ptr \<Rightarrow> nat \<Rightarrow> siginfo \<Rightarrow> ucontext \<Rightarrow> 'z proc_state_scheme \<Rightarrow>
       (ucontext \<times> 'z proc_state_scheme) run" where
  "serve_event E abort_label sched thr signum info c s =
     run_bind (decode_event E abort_label thr signum info c s) (\<lambda>((result, wait_for_request, c), s).
     run_bind (arm_single_step E thr c result s) (\<lambda>(result, s).
     run_bind
       (if result \<noteq> RESULT_SUCCESS
        then run_bind (handle_error_event E (get_user_thread_id s) s) (\<lambda>(error_result, s).
          if error_result \<noteq> RESULT_SUCCESS then Abort else Ret s)
        else Ret s) (\<lambda>s.
     run_bind
       (if wait_for_request
        then run_bind (wait_and_execute_command E NULL s) (\<lambda>((result, request_thr), s). Ret (result, s))
        else Ret (RESULT_SUCCESS, s)) (\<lambda>(result, s).
     run_bind
       (if result = RESULT_ERROR then Abort
        else if result = RESULT_SUCCESS \<and> \<not> single_thread_executing s
        then run_bind (release_threads sched s) (\<lambda>(r, s). Ret s)
        else Ret s) (\<lambda>s.
     run_bind (if thr \<noteq> NULL then invalidate_context thr s else Ret s) (\<lambda>s. Ret (c, s)))))))"

definition signal_entry_impl ::
    "env \<Rightarrow> u64 \<Rightarrow> nat set \<Rightarrow> 'z proc_state_scheme others_run \<Rightarrow> nat \<Rightarrow> siginfo \<Rightarrow> ucontext \<Rightarrow> 'z proc_state_scheme \<Rightarrow>
       (ucontext \<times> 'z proc_state_scheme) run" where
  "signal_entry_impl E abort_label junk sched signum info c s =
     (let s = s\<lparr>errmsg := None\<rparr> in
      if pipe_write_failure s \<and> signum = SIGPIPE
      then run_bind (app_signal_handler junk signum (s\<lparr>pipe_write_failure := False\<rparr>)) (\<lambda>s. Ret (c, s))
      else if pass_signal s \<noteq> 0
      then run_bind (app_signal_handler junk signum s) (\<lambda>s. Ret (c, s\<lparr>pass_signal := 0\<rparr>))
      else if \<not> udi_enabled s \<and> \<not> performing_mem_access s then Ret (c, s)
      else run_bind (get_current_thread s) (\<lambda>thr.
        run_bind (if thr = NULL then Ret True else run_bind (thread_at thr s) (\<lambda>t. Ret (suspend_pending t))) (\<lambda>ignored.
          if signum = THREAD_SUSPEND_SIGNAL \<and> ignored
          then (if thr \<noteq> NULL
                then run_bind (update_thread thr (\<lambda>t. t\<lparr>suspend_pending := False\<rparr>) s) (\<lambda>s. Ret (c, s))
                else Ret (c, s))
          else run_bind
            (if \<not> single_thread_executing s
             then run_bind (save_event signum info c thr s) (block_threads sched)
             else if continue_bp s \<noteq> NULL \<and> thr \<noteq> NULL then run_bind (save_context c thr s) (\<lambda>s. Ret (0, s))
             else Ret (0, s)) (\<lambda>(block_result, s).
            if block_result = - 1 then Abort
            else if block_result > 0 then run_bind (invalidate_context thr s) (\<lambda>s. Ret (c, s))
            else run_bind (if thr \<noteq> NULL then clear_signal thr s else Ret s)
              (serve_event E abort_label sched thr signum info c)))))"

section \<open>The context\<close>

lemma decode_trap_context:
  assumes "decode_trap E thr c w s = Ret ((r, w', c'), s')"
  shows "c' = rewind_pc c"
  using assms
  by (auto simp: decode_trap_def decode_breakpoint_def Let_def split: if_splits elim!: run_bind_Ret_E)

lemma decode_event_context:
  assumes "decode_event E abort_label thr signum info c s = Ret ((r, w, c'), s')"
  shows "c' \<in> {c, rewind_pc c, set_pc c abort_label}"
  using assms
  by (auto simp: decode_event_def split: if_splits prod.splits elim!: run_bind_Ret_E dest!: decode_trap_context)

lemma serve_event_context:
  assumes "serve_event E abort_label sched thr signum info c s = Ret (c', s')"
  shows "c' \<in> {c, rewind_pc c, set_pc c abort_label}"
  using assms decode_event_context [of E abort_label thr signum info c s]
  by (fastforce simp: serve_event_def elim!: run_bind_Ret_E)

lemma signal_entry_context:
  assumes "signal_entry_impl E abort_label junk sched signum info c s = Ret (c', s')"
  shows "c' \<in> {c, rewind_pc c, set_pc c abort_label}"
  using assms
  by (auto simp: signal_entry_impl_def Let_def split: if_splits elim!: run_bind_Ret_E dest!: serve_event_context)

section \<open>The loops over the other threads\<close>

text \<open>The structures after the loop that sends the suspend signal.\<close>

definition uncontrolled :: "ptr \<Rightarrow> ptr list \<Rightarrow> (ptr \<rightharpoonup> thread) \<Rightarrow> ptr \<rightharpoonup> thread" where
  "uncontrolled thr ps h q = (if q \<in> set ps \<and> q \<noteq> thr then map_option (\<lambda>t. t\<lparr>control_thread := False\<rparr>) (h q) else h q)"

lemma obj_chain_uncontrol:
  "obj_chain next_thread h p qs \<Longrightarrow> h q = Some t \<Longrightarrow> obj_chain next_thread (h(q \<mapsto> t\<lparr>control_thread := b\<rparr>)) p qs"
  by (rule obj_chain_field) simp_all

text \<open>The threads that are signalled, and the signals they get.\<close>

definition signalled :: "'z thr_state_scheme \<Rightarrow> ptr \<Rightarrow> ptr list \<Rightarrow> ptr list" where
  "signalled s thr ps = filter (\<lambda>q. q \<noteq> thr \<and> ts (thread_obj s q) \<noteq> UDI_TS_SUSPENDED) ps"

definition suspend_signals :: "'z thr_state_scheme \<Rightarrow> ptr list \<Rightarrow> (u64 \<times> nat) list" where
  "suspend_signals s qs = map (\<lambda>q. (thr_id (thread_obj s q), THREAD_SUSPEND_SIGNAL)) qs"

lemma signalled_cong:
  assumes "\<And>q. q \<in> set ps \<Longrightarrow> ts (thread_obj s' q) = ts (thread_obj s q) \<and> thr_id (thread_obj s' q) = thr_id (thread_obj s q)"
  shows "signalled s' thr ps = signalled s thr ps" "suspend_signals s' (signalled s thr ps) = suspend_signals s (signalled s thr ps)"
  using assms by (auto simp: signalled_def suspend_signals_def intro!: filter_cong)

lemma suspend_loop_chain:
  assumes "obj_chain next_thread (thr_heap s) iter ps" and "distinct ps" and "sys_always_ok s"
  shows "\<exists>c. suspend_loop thr iter n s = Some (Ret (n + length (signalled s thr ps),
    s\<lparr>thr_heap := uncontrolled thr ps (thr_heap s), sys_count := c, thread_kills := thread_kills s @ suspend_signals s (signalled s thr ps)\<rparr>))"
  using assms
proof (induction ps arbitrary: iter n s)
  case Nil
  then have "uncontrolled thr [] (thr_heap s) = thr_heap s" by (simp add: uncontrolled_def fun_eq_iff)
  then show ?case using Nil by (intro exI [of _ "sys_count s"]) (simp add: suspend_loop.simps signalled_def suspend_signals_def)
next
  case (Cons q qs)
  then obtain t where q: "iter = q" "q \<noteq> NULL" "thr_heap s q = Some t" "obj_chain next_thread (thr_heap s) (next_thread t) qs" by auto
  have obj: "thread_obj s q = t" using q(3) by (simp add: thread_obj_def)
  show ?case
  proof (cases "q = thr")
    case True
    have "uncontrolled thr (q # qs) (thr_heap s) = uncontrolled thr qs (thr_heap s)" using True by (auto simp: uncontrolled_def fun_eq_iff)
    moreover have "suspend_loop thr iter n s = suspend_loop thr (next_thread t) n s"
      using q True by (subst suspend_loop.simps) simp
    ultimately show ?thesis using Cons.IH [OF q(4), of n] Cons.prems True by (simp add: signalled_def)
  next
    case False
    define u where "u = s\<lparr>thr_heap := (thr_heap s)(q \<mapsto> t\<lparr>control_thread := False\<rparr>)\<rparr>"
    have un: "uncontrolled thr qs (thr_heap u) = uncontrolled thr (q # qs) (thr_heap s)"
      using False q(3) Cons.prems(2) by (auto simp: u_def uncontrolled_def fun_eq_iff)
    have chain: "obj_chain next_thread (thr_heap u) (next_thread t) qs" using obj_chain_uncontrol [OF q(4,3)] by (simp add: u_def)
    have sg: "signalled u thr qs = signalled s thr qs" "suspend_signals u (signalled s thr qs) = suspend_signals s (signalled s thr qs)"
      using Cons.prems(2) by (auto simp: u_def thread_obj_def intro!: signalled_cong)
    have ok: "sys_always_ok u" "distinct qs" "thread_kills u = thread_kills s" using Cons.prems by (simp_all add: u_def)
    show ?thesis
    proof (cases "ts t = UDI_TS_SUSPENDED")
      case True
      have "suspend_loop thr iter n s = suspend_loop thr (next_thread t) n u"
        using q False True by (subst suspend_loop.simps) (simp add: u_def)
      then show ?thesis using Cons.IH [OF chain ok(2,1), of n] True obj unfolding un sg ok(3) by (simp add: signalled_def u_def)
    next
      case running: False
      let ?v = "u\<lparr>sys_count := Suc (sys_count s), thread_kills := thread_kills s @ [(thr_id t, THREAD_SUSPEND_SIGNAL)]\<rparr>"
      have v: "thr_heap ?v = thr_heap u" "signalled ?v = signalled u" "suspend_signals ?v = suspend_signals u"
        "thread_kills ?v = thread_kills s @ [(thr_id t, THREAD_SUSPEND_SIGNAL)]" "sys_always_ok ?v"
        using ok(1) by (simp_all add: signalled_def suspend_signals_def thread_obj_def fun_eq_iff sys_always_ok_def)
      have "suspend_loop thr iter n s = suspend_loop thr (next_thread t) (Suc n) ?v"
        using q False running Cons.prems(3)
        by (subst suspend_loop.simps) (simp add: sys_pthread_kill_def sys_call_def sys_always_ok_def u_def)
      moreover have "obj_chain next_thread (thr_heap ?v) (next_thread t) qs" using chain by simp
      note IH = Cons.IH [OF this ok(2) v(5), of "Suc n", unfolded v(1-4) sg un]
      ultimately show ?thesis using IH running obj False by (simp add: signalled_def suspend_signals_def u_def)
    qed
  qed
qed

text \<open>Blocking as the first thread to enter: the exact state in which it waits for the sentinels.\<close>

definition gathering :: "ptr \<Rightarrow> ptr list \<Rightarrow> nat \<Rightarrow> 'z proc_state_scheme \<Rightarrow> 'z proc_state_scheme" where
  "gathering thr ps c s = s\<lparr>barrier_var := 1,
     thr_heap := uncontrolled thr ps ((thr_heap s)(thr := map_option (\<lambda>t. t\<lparr>control_thread := True\<rparr>) (thr_heap s thr))),
     sys_count := c, thread_kills := thread_kills s @ suspend_signals s (signalled s thr ps)\<rparr>"

lemma block_threads_first:
  assumes "thread_list s ps" and "get_current_thread s = Ret thr" and "thr \<in> set ps" and "1 < length ps" and "get_multithread_capable s"
    and "barrier_var s = 0" and "sys_always_ok s"
  shows "\<exists>c. block_threads sched s = run_bind (collect_sentinels sched (length (signalled s thr ps)) (gathering thr ps c s))
        (\<lambda>u. run_bind (thread_at thr u) (\<lambda>t. Ret (if control_thread t then 0 else 1, u)))"
proof -
  have chain: "obj_chain next_thread (thr_heap s) (threads s) ps" and d: "distinct ps" and multi: "get_multithreaded s"
    using assms(1,4,5) by (simp_all add: thread_list_def get_multithreaded_def get_num_threads_def)
  obtain t where t: "thr \<noteq> NULL" "thr_heap s thr = Some t" using obj_chain_live [OF chain assms(3)] by auto
  define u where "u = s\<lparr>barrier_var := 1, thr_heap := (thr_heap s)(thr \<mapsto> t\<lparr>control_thread := True\<rparr>)\<rparr>"
  have up: "update_thread thr (\<lambda>t. t\<lparr>control_thread := True\<rparr>) (s\<lparr>barrier_var := 1\<rparr>) = Ret u"
    using t by (simp add: update_thread_def derefI u_def)
  have cu: "obj_chain next_thread (thr_heap u) (threads s) ps" "sys_always_ok u" "get_thread_list u = threads s"
    using obj_chain_uncontrol [OF chain t(2)] assms(7) by (simp_all add: u_def get_thread_list_def sys_always_ok_def)
  have sg: "signalled u thr ps = signalled s thr ps" "suspend_signals u (signalled s thr ps) = suspend_signals s (signalled s thr ps)"
    using t(2) by (auto simp: u_def thread_obj_def intro!: signalled_cong)
  obtain c where loop: "suspend_loop thr (threads s) 0 u = Some (Ret (length (signalled s thr ps), gathering thr ps c s))"
    using suspend_loop_chain [OF cu(1) d cu(2), of thr 0] t(2) unfolding sg by (auto simp: gathering_def u_def)
  show ?thesis
    using multi assms(2,6) t(1) up loop cu(3) by (intro exI [of _ c]) (simp add: block_threads_def run_bind_assoc)
qed

text \<open>When the sentinels come without more, the thread goes on as the control thread.\<close>

lemma block_threads_served:
  assumes "thread_list s ps" and "get_current_thread s = Ret thr" and "thr \<in> set ps" and "1 < length ps" and "get_multithread_capable s"
    and "barrier_var s = 0" and "sys_always_ok s"
  shows "\<exists>k. block_threads (\<lambda>_ u. Ret u) s = Ret (0, gathering thr ps k s)"
proof -
  obtain t where t: "thr \<noteq> NULL" "thr_heap s thr = Some t"
    using obj_chain_live [of next_thread "thr_heap s" "threads s" ps thr] assms(1,3) by (auto simp: thread_list_def)
  obtain k where run: "block_threads (\<lambda>_ u. Ret u) s = run_bind (collect_sentinels (\<lambda>_ u. Ret u) (length (signalled s thr ps)) (gathering thr ps k s))
      (\<lambda>u. run_bind (thread_at thr u) (\<lambda>t. Ret (if control_thread t then 0 else 1, u)))"
    using block_threads_first [OF assms] by blast
  have "collect_sentinels (\<lambda>_ u. Ret u) m u = Ret u" for m and u :: "'a proc_state_scheme" by (induction m) simp_all
  moreover have "thread_at thr (gathering thr ps k s) = Ret (t\<lparr>control_thread := True\<rparr>)"
    using t by (simp add: thread_at_def gathering_def uncontrolled_def)
  ultimately show ?thesis unfolding run by (intro exI [of _ k]) simp
qed

lemma pending_loop_chain:
  "obj_chain next_thread h p qs \<Longrightarrow>
     pending_loop h thr p = Some (case find (\<lambda>q. q \<noteq> thr \<and> pending_event (the (h q))) qs of None \<Rightarrow> NULL | Some q \<Rightarrow> q)"
proof (induction qs arbitrary: p)
  case (Cons q qs)
  then obtain t where "p = q" "q \<noteq> NULL" "h q = Some t" "obj_chain next_thread h (next_thread t) qs" by auto
  then show ?case using Cons.IH by (subst pending_loop.simps) auto
qed (simp add: pending_loop.simps)

text \<open>The sentinels written to the control pipes of a list of threads.\<close>

primrec sentinels_to :: "'z thr_state_scheme \<Rightarrow> ptr list \<Rightarrow> (nat \<Rightarrow> u8 list) \<Rightarrow> nat \<Rightarrow> u8 list" where
  "sentinels_to s [] d = d"
| "sentinels_to s (q # qs) d = (let fd = nat (control_write (thread_obj s q)) in sentinels_to s qs (d(fd := d fd @ [sentinel])))"

lemma sentinels_to_cong: "thread_obj s' = thread_obj s \<Longrightarrow> sentinels_to s' qs d = sentinels_to s qs d"
  by (induction qs arbitrary: d) (simp_all add: Let_def)

lemma release_loop_chain:
  assumes "obj_chain next_thread (thr_heap s) iter ps" and "sys_always_ok s" and "\<forall>q \<in> set ps. 0 \<le> control_write (thread_obj s q)"
  shows "\<exists>c. release_loop thr iter s = Some (Ret (s\<lparr>sys_count := c,
    out_data := sentinels_to s (filter (\<lambda>q. q \<noteq> thr \<and> ts (thread_obj s q) = UDI_TS_RUNNING) ps) (out_data s)\<rparr>))"
  using assms
proof (induction ps arbitrary: iter s)
  case Nil
  then show ?case by (intro exI [of _ "sys_count s"]) (simp add: release_loop.simps)
next
  case (Cons q qs)
  then obtain t where q: "iter = q" "q \<noteq> NULL" "thr_heap s q = Some t" "obj_chain next_thread (thr_heap s) (next_thread t) qs" by auto
  have obj: "thread_obj s q = t" using q(3) by (simp add: thread_obj_def)
  show ?case
  proof (cases "q \<noteq> thr \<and> ts t = UDI_TS_RUNNING")
    case True
    let ?fd = "nat (control_write t)"
    let ?u = "s\<lparr>sys_count := Suc (sys_count s), out_data := (out_data s)(?fd := out_data s ?fd @ [sentinel])\<rparr>"
    have w: "write_sentinel (control_write t) s = Ret ?u"
      using Cons.prems(2,3) obj by (simp add: write_sentinel_def put_sentinel_def sys_call_def sys_always_ok_def)
    have u: "thread_obj ?u = thread_obj s" by (simp add: thread_obj_def [abs_def])
    have chain: "obj_chain next_thread (thr_heap ?u) (next_thread t) qs" and ok: "sys_always_ok ?u" using q(4) Cons.prems(2) by simp_all
    have "release_loop thr iter s = release_loop thr (next_thread t) ?u"
      using q True w by (subst release_loop.simps) simp
    then show ?thesis
      using Cons.IH [OF chain ok] Cons.prems(3) True obj unfolding u sentinels_to_cong [OF u] by (simp add: Let_def)
  next
    case False
    then have "release_loop thr iter s = release_loop thr (next_thread t) s"
      using q by (subst release_loop.simps) auto
    then show ?thesis using Cons.IH [OF q(4)] Cons.prems False obj by auto
  qed
qed

text \<open>
  Releasing when no other thread has an event pending: the state after the sentinels, in which a thread that is not suspended returns and a
  suspended one waits for its own sentinel.
\<close>

definition freed :: "ptr \<Rightarrow> ptr list \<Rightarrow> nat \<Rightarrow> 'z proc_state_scheme \<Rightarrow> 'z proc_state_scheme" where
  "freed thr ps c s = s\<lparr>barrier_var := (if barrier_var s = 1 then 0 else barrier_var s), sys_count := c,
     out_data := sentinels_to s (filter (\<lambda>q. q \<noteq> thr \<and> ts (thread_obj s q) = UDI_TS_RUNNING) ps) (out_data s)\<rparr>"

lemma freed_simps [simp]: "thr_heap (freed thr ps c s) = thr_heap s" "thread_obj (freed thr ps c s) = thread_obj s"
  by (simp_all add: freed_def thread_obj_def [abs_def])

lemma release_threads_free:
  assumes "thread_list s ps" and "get_current_thread s = Ret thr" and "thr \<in> set ps" and "get_multithread_capable s" and "sys_always_ok s"
    and "\<forall>q \<in> set ps. 0 \<le> control_write (thread_obj s q)" and none: "find (\<lambda>q. q \<noteq> thr \<and> pending_event (thread_obj s q)) ps = None"
  shows "\<exists>c. release_threads sched s =
    run_bind (if ts (thread_obj s thr) = UDI_TS_SUSPENDED then sched (At_control thr) (freed thr ps c s) else Ret (freed thr ps c s)) (\<lambda>u. Ret (0, u))"
proof -
  have chain: "obj_chain next_thread (thr_heap s) (threads s) ps" using assms(1) by (simp add: thread_list_def)
  obtain t where t: "thr \<noteq> NULL" "thr_heap s thr = Some t" using obj_chain_live [OF chain assms(3)] by auto
  have loop: "pending_loop (thr_heap s) thr (threads s) = Some NULL"
    using pending_loop_chain [OF chain, of thr] none by (simp add: thread_obj_def)
  define u where "u = s\<lparr>barrier_var := (if barrier_var s = 1 then 0 else barrier_var s)\<rparr>"
  have u: "thread_obj u = thread_obj s" "out_data u = out_data s" "obj_chain next_thread (thr_heap u) (threads s) ps" "sys_always_ok u" "get_thread_list u = threads s"
    using chain assms(5) by (simp_all add: u_def thread_obj_def [abs_def] sys_always_ok_def get_thread_list_def)
  have "\<forall>q \<in> set ps. 0 \<le> control_write (thread_obj u q)" using assms(6) by (simp add: u(1))
  from release_loop_chain [OF u(3,4) this, of thr] obtain c where rel: "release_loop thr (threads s) u = Some (Ret (freed thr ps c s))"
    unfolding u(1,2) sentinels_to_cong [OF u(1)] by (auto simp: u_def freed_def)
  have "get_thread_state thr (freed thr ps c s) = Ret (ts (thread_obj s thr))"
    using t by (simp add: get_thread_state_def thread_at_def derefI thread_obj_def)
  then show ?thesis
    using assms(2,4) t loop rel u(5) u_def by (intro exI [of _ c]) (simp add: release_threads_def get_thread_list_def Let_def)
qed

text \<open>The same as the code of a process that need not be able to have several threads runs it.\<close>

definition released :: "ptr \<Rightarrow> ptr list \<Rightarrow> nat \<Rightarrow> 'z proc_state_scheme \<Rightarrow> 'z proc_state_scheme" where
  "released thr ps c s = (if get_multithread_capable s then freed thr ps c s else s)"

lemma released_simps [simp]:
  "thr_heap (released thr ps c s) = thr_heap s" "thread_obj (released thr ps c s) = thread_obj s" "in_data (released thr ps c s) = in_data s"
  "kills (released thr ps c s) = kills s" "pass_signal (released thr ps c s) = pass_signal s" "mem (released thr ps c s) = mem s"
  "barrier_var (released thr ps c s) = (if get_multithread_capable s \<and> barrier_var s = 1 then 0 else barrier_var s)"
  by (simp_all add: released_def) (simp_all add: freed_def)

text \<open>
  The state in which a stopped thread lets the process go on: it is the current thread, no other thread has an event
  pending, and it runs if any thread does.
\<close>

definition may_release :: "'z proc_state_scheme \<Rightarrow> ptr \<Rightarrow> ptr list \<Rightarrow> bool" where
  "may_release s thr ps \<longleftrightarrow> get_current_thread s = Ret thr \<and> thr \<in> set ps \<and> (some_running s ps \<longrightarrow> ts (thread_obj s thr) = UDI_TS_RUNNING) \<and>
     (\<forall>q \<in> set ps. 0 \<le> control_write (thread_obj s q) \<and> (q \<noteq> thr \<longrightarrow> \<not> pending_event (thread_obj s q)))"

lemma release_threads_running:
  assumes "thread_list s ps" and "may_release s thr ps" and "some_running s ps" and "sys_always_ok s"
  shows "\<exists>c. release_threads sched s = Ret (0, released thr ps c s)"
proof (cases "get_multithread_capable s")
  case True
  have "find (\<lambda>q. q \<noteq> thr \<and> pending_event (thread_obj s q)) ps = None" "ts (thread_obj s thr) = UDI_TS_RUNNING"
    using assms(2,3) by (auto simp: may_release_def find_None_iff)
  moreover have "\<exists>c. release_threads sched s =
      run_bind (if ts (thread_obj s thr) = UDI_TS_SUSPENDED then sched (At_control thr) (freed thr ps c s) else Ret (freed thr ps c s)) (\<lambda>u. Ret (0, u))"
    using assms(2) by (intro release_threads_free [OF assms(1) _ _ True assms(4)] calculation(1)) (simp_all add: may_release_def)
  ultimately show ?thesis using True by (auto simp: released_def)
next
  case False
  then show ?thesis by (simp add: release_threads_def released_def)
qed

section \<open>A stop and its continuation\<close>

lemma get_current_thread_upd [simp]:
  "get_current_thread (s\<lparr>errmsg := m\<rparr>) = get_current_thread s" "get_current_thread (s\<lparr>sys_count := n\<rparr>) = get_current_thread s"
  "get_current_thread (u\<lparr>out_data := d\<rparr>) = get_current_thread u"
  by (simp_all add: get_current_thread_def find_thread_def get_user_thread_id_def get_multithread_capable_def)

lemma req_rest_threads:
  assumes "req_rest s' = req_rest s"
  shows "get_current_thread s' = get_current_thread s" "thread_list s' = thread_list s" "thread_obj s' = thread_obj s"
    "get_multithread_capable s' = get_multithread_capable s" "single_thread_executing s' = single_thread_executing s" "sys_always_ok s' = sys_always_ok s"
  using req_restD [OF assms]
  by (simp_all add: get_current_thread_def find_thread_def get_user_thread_id_def get_multithread_capable_def thread_list_def [abs_def]
      thread_obj_def [abs_def] single_thread_executing_def sys_always_ok_def)

lemma req_rest_barrier: "req_rest s' = req_rest s \<Longrightarrow> barrier_var s' = barrier_var s" for s :: "'z proc_state_scheme"
  using req_restD(12) [of s' s] by (cases s; cases s') simp

lemma may_release_rest:
  assumes "req_rest s' = req_rest s"
  shows "may_release s' thr ps = may_release s thr ps" "some_running s' ps = some_running s ps"
  using req_rest_threads [OF assms] by (simp_all add: may_release_def some_running_def)

text \<open>The structure of a thread with its event, and after the handler has taken the event.\<close>

definition with_event :: "nat \<Rightarrow> siginfo \<Rightarrow> ucontext \<Rightarrow> thread \<Rightarrow> thread" where
  "with_event signum info c t = t\<lparr>event_state := \<lparr>st_signal = signum, st_si_code = si_code info, st_si_addr = si_addr info,
     st_context = c, context_valid = True\<rparr>\<rparr>"

definition event_taken :: "thread \<Rightarrow> thread" where
  "event_taken t = t\<lparr>event_state := (event_state t)\<lparr>st_signal := 0\<rparr>\<rparr>"

definition context_dropped :: "thread \<Rightarrow> thread" where
  "context_dropped t = t\<lparr>event_state := (event_state t)\<lparr>context_valid := False\<rparr>\<rparr>"

lemma signal_entry_blocked:
  assumes "get_current_thread s = Ret thr" and "thr \<noteq> NULL" and "thr_heap s thr = Some t"
    and "pass_signal s = 0" and "udi_enabled s" and "\<not> single_thread_executing s" and "\<not> (pipe_write_failure s \<and> signum = SIGPIPE)"
    and "signum \<noteq> THREAD_SUSPEND_SIGNAL"
    and "block_threads sched (s\<lparr>errmsg := None, thr_heap := (thr_heap s)(thr \<mapsto> with_event signum info c t)\<rparr>) = Ret (0, v)"
    and "thr_heap v thr = Some tv"
  shows "signal_entry_impl E abort_label junk sched signum info c s =
    serve_event E abort_label sched thr signum info c (v\<lparr>thr_heap := (thr_heap v)(thr \<mapsto> event_taken tv)\<rparr>)"
proof -
  have save: "save_event signum info c thr (s\<lparr>errmsg := None\<rparr>) = Ret (s\<lparr>errmsg := None, thr_heap := (thr_heap s)(thr \<mapsto> with_event signum info c t)\<rparr>)"
    using assms(2,3) by (simp add: save_event_def update_thread_def derefI with_event_def)
  have clear: "clear_signal thr v = Ret (v\<lparr>thr_heap := (thr_heap v)(thr \<mapsto> event_taken tv)\<rparr>)"
    using assms(2,10) by (simp add: clear_signal_def update_thread_def derefI event_taken_def)
  have "thread_at thr (s\<lparr>errmsg := None\<rparr>) = Ret t" using assms(2,3) by (simp add: thread_at_def)
  moreover have "\<not> single_thread_executing (s\<lparr>errmsg := None\<rparr>)" using assms(6) by (simp add: single_thread_executing_def)
  ultimately show ?thesis
    unfolding signal_entry_impl_def Let_def using assms(1,2,4,5,7,8,9) save clear by auto
qed

text \<open>Serving an event that the library does not decode, up to the wait for requests.\<close>

definition event_written :: "env \<Rightarrow> nat \<Rightarrow> udi_event_type_e \<Rightarrow> cbor_item option \<Rightarrow> 'z evt_state_scheme \<Rightarrow> 'z evt_state_scheme" where
  "event_written E c event_type data s = s\<lparr>sys_count := c,
     out_data := (out_data s)(events_handle s := out_data s (events_handle s) @ event_bytes E event_type (get_user_thread_id s) data)\<rparr>"

lemma serve_unknown_event:
  fixes s :: "'z proc_state_scheme"
  assumes ok: "sys_always_ok s" and ser: "serializer_ok E" and t: "thr \<noteq> NULL" "thr_heap s thr = Some t" "\<not> single_step t"
    and signum: "signum \<notin> {SIGBUS, SIGSEGV, SIGTRAP}"
  shows "\<exists>n. serve_event E abort_label sched thr signum info c s =
    run_bind (wait_and_execute_command E NULL (event_written E n UDI_EVENT_UNKNOWN None s)) (\<lambda>((r, q), s).
      run_bind
        (if r = RESULT_ERROR then Abort
         else if r = RESULT_SUCCESS \<and> \<not> single_thread_executing s then run_bind (release_threads sched s) (\<lambda>(r, s). Ret s)
         else Ret s) (\<lambda>s. run_bind (invalidate_context thr s) (\<lambda>s. Ret (c, s))))"
proof -
  obtain n where w: "write_event E (events_handle s) UDI_EVENT_UNKNOWN (get_user_thread_id s) None s = Ret (RESULT_SUCCESS,
      event_written E n UDI_EVENT_UNKNOWN None s)"
    using write_event_ok [OF ok ser, of "events_handle s" UDI_EVENT_UNKNOWN "get_user_thread_id s" None] by (auto simp: event_written_def)
  have decode: "decode_event E abort_label thr signum info c s = Ret ((RESULT_SUCCESS, True, c), event_written E n UDI_EVENT_UNKNOWN None s)"
    using signum w by (simp add: decode_event_def handle_unknown_event_def write_event_no_data_def)
  have step: "arm_single_step E thr c RESULT_SUCCESS (event_written E n UDI_EVENT_UNKNOWN None s) = Ret (RESULT_SUCCESS, event_written E n UDI_EVENT_UNKNOWN None s)"
    using t by (simp add: arm_single_step_def is_single_step_def thread_at_def derefI event_written_def)
  show ?thesis
    using t(1) by (intro exI [of _ n]) (simp add: serve_event_def decode step run_bind_assoc case_prod_beta' cong: if_cong)
qed

text \<open>After the wait: the release of the other threads when the continue request was granted, and the end of the handler.\<close>

lemma finish_after_wait:
  fixes s :: "'z proc_state_scheme"
  assumes "req_rest s = req_rest u" and "sys_always_ok u" and "thread_list u ps" and "may_release u thr ps" and "\<not> single_thread_executing u"
    and r: "r = (if some_running u ps then RESULT_SUCCESS else RESULT_FAILURE)"
  shows "\<exists>n. run_bind
        (if r = RESULT_ERROR then Abort
         else if r = RESULT_SUCCESS \<and> \<not> single_thread_executing s then run_bind (release_threads sched s) (\<lambda>(r, s). Ret s)
         else Ret s) (\<lambda>s. run_bind (invalidate_context thr s) (\<lambda>s. Ret (c, s))) =
      Ret (c, (if some_running u ps then released thr ps n s else s)\<lparr>thr_heap := (thr_heap u)(thr \<mapsto> context_dropped (thread_obj u thr))\<rparr>)"
proof -
  note rest = req_rest_threads [OF assms(1)] may_release_rest [OF assms(1)] req_restD(1) [OF assms(1)]
  have thr: "thr \<noteq> NULL" "thr_heap u thr = Some (thread_obj u thr)"
    using assms(3,4) obj_chain_live [of next_thread "thr_heap u" "threads u" ps thr] by (auto simp: thread_list_def may_release_def thread_obj_def)
  have inv: "invalidate_context thr x = Ret (x\<lparr>thr_heap := (thr_heap u)(thr \<mapsto> context_dropped (thread_obj u thr))\<rparr>)"
    if "thr_heap x = thr_heap u" for x :: "'z proc_state_scheme"
    using thr that by (simp add: invalidate_context_def update_thread_def derefI context_dropped_def)
  show ?thesis
  proof (cases "some_running u ps")
    case True
    then obtain n where "release_threads sched s = Ret (0, released thr ps n s)"
      using release_threads_running [of s ps thr sched] rest assms(2-4) by auto
    then show ?thesis using True r rest assms(5) inv [of "released thr ps n s"] by (intro exI [of _ n]) (simp add: result_defs)
  next
    case False
    then show ?thesis using r rest inv [of s] by (simp add: result_defs)
  qed
qed

text \<open>What the release writes to the control pipes of the other threads.\<close>

definition woken :: "'z thr_state_scheme \<Rightarrow> ptr \<Rightarrow> ptr list \<Rightarrow> (nat \<Rightarrow> u8 list) \<Rightarrow> nat \<Rightarrow> u8 list" where
  "woken s thr ps d =
     (if get_multithread_capable s then sentinels_to s (filter (\<lambda>q. q \<noteq> thr \<and> ts (thread_obj s q) = UDI_TS_RUNNING) ps) d else d)"

lemma released_out: "req_rest x = req_rest u \<Longrightarrow> out_data (released thr ps m x) = woken u thr ps (out_data x)" for x :: "'z proc_state_scheme"
  using req_rest_threads(3,4) [of x u] sentinels_to_cong [of x u] by (auto simp: released_def freed_def woken_def)

lemma stop_and_continue_run:
  fixes s :: "'z proc_state_scheme"
  assumes "serializer_ok E" and "builders_ok E" and "get_current_thread s = Ret thr" and "thr \<noteq> NULL" and "thr_heap s thr = Some t"
    and "pass_signal s = 0" and "udi_enabled s" and "\<not> single_thread_executing s" and "\<not> (pipe_write_failure s \<and> signum = SIGPIPE)"
    and "signum \<notin> {SIGBUS, SIGSEGV, SIGTRAP, THREAD_SUSPEND_SIGNAL}"
    and "block_threads sched (s\<lparr>errmsg := None, thr_heap := (thr_heap s)(thr \<mapsto> with_event signum info c t)\<rparr>) = Ret (0, v)"
    and "sys_always_ok v" and "thr_heap v thr = Some tv" and "\<not> single_step tv"
  shows "\<exists>n. \<forall>reqs p u ps g rest.
    serves E NULL (event_written E n UDI_EVENT_UNKNOWN None (v\<lparr>thr_heap := (thr_heap v)(thr \<mapsto> event_taken tv)\<rparr>)) reqs p u \<and>
    continue_pending E u ps g rest \<and> may_release u thr ps \<and> \<not> single_thread_executing u \<longrightarrow>
    (\<exists>s' datas. signal_entry_impl E abort_label junk sched signum info c s = Ret (c, s') \<and> length datas = Suc (length reqs) \<and>
      out_data s' = (if some_running u ps then woken u thr ps else id) (answer_all E (zip (requests_to_continue u ps reqs) datas)
        ((out_data v)(events_handle v := out_data v (events_handle v) @ event_bytes E UDI_EVENT_UNKNOWN (get_user_thread_id v) None))) \<and>
      in_data s' = (in_data u)(proc_request_handle u := rest) \<and>
      kills s' = (if some_running u ps \<and> \<not> exiting u then kills u @ [g] else kills u) \<and>
      pass_signal s' = (if some_running u ps \<and> \<not> exiting u then g else pass_signal u) \<and>
      barrier_var s' = (if some_running u ps \<and> get_multithread_capable u \<and> barrier_var u = 1 then 0 else barrier_var u) \<and>
      thr_heap s' = (thr_heap u)(thr \<mapsto> context_dropped (thread_obj u thr)) \<and> mem s' = mem u)"
proof -
  define w where "w = v\<lparr>thr_heap := (thr_heap v)(thr \<mapsto> event_taken tv)\<rparr>"
  have entry: "signal_entry_impl E abort_label junk sched signum info c s = serve_event E abort_label sched thr signum info c w"
    unfolding w_def using assms(10) by (intro signal_entry_blocked [OF assms(3-9) _ assms(11,13)]) simp
  have w: "sys_always_ok w" "thr_heap w thr = Some (event_taken tv)" "\<not> single_step (event_taken tv)" "get_user_thread_id w = get_user_thread_id v"
    using assms(12,14) by (simp_all add: w_def event_taken_def get_user_thread_id_def get_multithread_capable_def)
  have sg: "signum \<notin> {SIGBUS, SIGSEGV, SIGTRAP}" using assms(10) by simp
  obtain n where serve: "serve_event E abort_label sched thr signum info c w =
    run_bind (wait_and_execute_command E NULL (event_written E n UDI_EVENT_UNKNOWN None w)) (\<lambda>((r, q), s).
      run_bind
        (if r = RESULT_ERROR then Abort
         else if r = RESULT_SUCCESS \<and> \<not> single_thread_executing s then run_bind (release_threads sched s) (\<lambda>(r, s). Ret s)
         else Ret s) (\<lambda>s. run_bind (invalidate_context thr s) (\<lambda>s. Ret (c, s))))"
    using serve_unknown_event [OF w(1) assms(1,4) w(2,3) sg] by blast
  let ?e = "event_written E n UDI_EVENT_UNKNOWN None w"
  let ?d = "(out_data v)(events_handle v := out_data v (events_handle v) @ event_bytes E UDI_EVENT_UNKNOWN (get_user_thread_id v) None)"
  have e: "sys_always_ok ?e" "out_data ?e = ?d"
    using w(1,4) by (simp_all add: event_written_def) (simp add: w_def)
  show ?thesis
    unfolding w_def [symmetric]
  proof (intro exI [of _ n] allI impI; (elim conjE)?)
    fix reqs p u ps g rest
    assume a: "serves E NULL ?e reqs p u" "continue_pending E u ps g rest" "may_release u thr ps" "\<not> single_thread_executing u"
    let ?r = "if some_running u ps then RESULT_SUCCESS else RESULT_FAILURE"
    from continue_after_requests [OF a(1) e(1) assms(1,2) a(2)] obtain x datas where
      wait: "wait_and_execute_command E NULL ?e = Ret ((?r, NULL), x)" and
      x: "length datas = Suc (length reqs)" "out_data x = answer_all E (zip (requests_to_continue u ps reqs) datas) (out_data ?e)"
        "in_data x = (in_data u)(proc_request_handle u := rest)"
        "kills x = (if some_running u ps \<and> \<not> exiting u then kills u @ [g] else kills u)"
        "pass_signal x = (if some_running u ps \<and> \<not> exiting u then g else pass_signal u)" and rest: "req_rest x = req_rest u" by blast
    have u: "sys_always_ok u" "thread_list u ps"
      using serves_oracle [OF a(1) e(1) assms(1)] e(1) a(2) by (simp_all add: sys_always_ok_def continue_pending_def)
    from finish_after_wait [OF rest u a(3,4) refl, of sched c] obtain m where
      "run_bind
        (if ?r = RESULT_ERROR then Abort
         else if ?r = RESULT_SUCCESS \<and> \<not> single_thread_executing x then run_bind (release_threads sched x) (\<lambda>(r, s). Ret s)
         else Ret x) (\<lambda>s. run_bind (invalidate_context thr s) (\<lambda>s. Ret (c, s))) =
      Ret (c, (if some_running u ps then released thr ps m x else x)\<lparr>thr_heap := (thr_heap u)(thr \<mapsto> context_dropped (thread_obj u thr))\<rparr>)"
      (is "_ = Ret (c, ?s')") by blast
    then have run: "signal_entry_impl E abort_label junk sched signum info c s = Ret (c, ?s')"
      unfolding entry serve wait by simp
    have "barrier_var x = barrier_var u" "get_multithread_capable x = get_multithread_capable u" "mem x = mem u"
      using req_rest_barrier [OF rest] req_rest_threads(4) [OF rest] req_restD(11) [OF rest] by simp_all
    then have s': "out_data ?s' = (if some_running u ps then woken u thr ps else id) (out_data x)" "in_data ?s' = in_data x" "kills ?s' = kills x"
      "pass_signal ?s' = pass_signal x" "mem ?s' = mem u"
      "thr_heap ?s' = (thr_heap u)(thr \<mapsto> context_dropped (thread_obj u thr))"
      "barrier_var ?s' = (if some_running u ps \<and> get_multithread_capable u \<and> barrier_var u = 1 then 0 else barrier_var u)"
      using released_out [OF rest, of thr ps m] by simp_all
    show "\<exists>s' datas. signal_entry_impl E abort_label junk sched signum info c s = Ret (c, s') \<and> length datas = Suc (length reqs) \<and>
      out_data s' = (if some_running u ps then woken u thr ps else id) (answer_all E (zip (requests_to_continue u ps reqs) datas) ?d) \<and>
      in_data s' = (in_data u)(proc_request_handle u := rest) \<and>
      kills s' = (if some_running u ps \<and> \<not> exiting u then kills u @ [g] else kills u) \<and>
      pass_signal s' = (if some_running u ps \<and> \<not> exiting u then g else pass_signal u) \<and>
      barrier_var s' = (if some_running u ps \<and> get_multithread_capable u \<and> barrier_var u = 1 then 0 else barrier_var u) \<and>
      thr_heap s' = (thr_heap u)(thr \<mapsto> context_dropped (thread_obj u thr)) \<and> mem s' = mem u"
      by (rule exI [of _ ?s'], rule exI [of _ datas]) (simp only: run s' x e(2) simp_thms)
  qed
qed

section \<open>Properties\<close>

text \<open>
  C11. A stop and its continuation, from the signal to the return to the program. A thread of a process with any number of threads receives a signal
  that the library does not decode (not a memory fault, not a trap, not the suspend signal) and becomes the control thread, once the other threads are blocked. The handler reports the
  event on the events pipe and serves requests in order, one answer for each, as many as come before the first continue request for the process. That request ends the
  wait, and the handler returns with the context unchanged; the state that was saved for the debugger is no longer valid. When a thread runs, this one does and no
  other has an event pending, the signal of the request is sent to the process and remembered to be passed on, the barrier is free again, and each other running thread gets one sentinel. When all threads
  are suspended, the request is refused and nothing of this happens, but the handler returns to the program all the same. Other events and the other ways of
  releasing are the subject of the properties of the breakpoints and of the release.
\<close>

theorem signal_stop_and_continue:
  fixes s :: "'z proc_state_scheme"
  assumes "serializer_ok E" and "builders_ok E" and "get_current_thread s = Ret thr" and "thr \<noteq> NULL" and "thr_heap s thr = Some t"
    and "pass_signal s = 0" and "udi_enabled s" and "\<not> single_thread_executing s" and "\<not> (pipe_write_failure s \<and> signum = SIGPIPE)"
    and "signum \<notin> {SIGBUS, SIGSEGV, SIGTRAP, THREAD_SUSPEND_SIGNAL}"
    and "block_threads sched (s\<lparr>errmsg := None, thr_heap := (thr_heap s)(thr \<mapsto> with_event signum info c t)\<rparr>) = Ret (0, v)"
    and "sys_always_ok v" and "thr_heap v thr = Some tv" and "\<not> single_step tv"
  shows "\<exists>n. \<forall>reqs p u ps g rest.
    serves E NULL (event_written E n UDI_EVENT_UNKNOWN None (v\<lparr>thr_heap := (thr_heap v)(thr \<mapsto> event_taken tv)\<rparr>)) reqs p u \<and>
    continue_pending E u ps g rest \<and> may_release u thr ps \<and> \<not> single_thread_executing u \<longrightarrow>
    (\<exists>s' datas. signal_entry_impl E abort_label junk sched signum info c s = Ret (c, s') \<and> length datas = Suc (length reqs) \<and>
      out_data s' = (if some_running u ps then woken u thr ps else id) (answer_all E (zip (requests_to_continue u ps reqs) datas)
        ((out_data v)(events_handle v := out_data v (events_handle v) @ event_bytes E UDI_EVENT_UNKNOWN (get_user_thread_id v) None))) \<and>
      in_data s' = (in_data u)(proc_request_handle u := rest) \<and>
      kills s' = (if some_running u ps \<and> \<not> exiting u then kills u @ [g] else kills u) \<and>
      pass_signal s' = (if some_running u ps \<and> \<not> exiting u then g else pass_signal u) \<and>
      barrier_var s' = (if some_running u ps \<and> get_multithread_capable u \<and> barrier_var u = 1 then 0 else barrier_var u) \<and>
      thr_heap s' = (thr_heap u)(thr \<mapsto> context_dropped (thread_obj u thr)) \<and> mem s' = mem u)"
  by (rule stop_and_continue_run [OF assms])

text \<open>A process whose only thread runs, with a continue request for signal 10 on its descriptor.\<close>

definition sample_proc_state :: proc_state where
  "sample_proc_state = sig_state.extend
     (evt_state.extend (sample_suspended_continue\<lparr>self := 16, has_pthread_self := True, has_pthread_sigmask := True,
        thr_heap := [3 \<mapsto> (new_thread 16 (5, 6))\<lparr>request_handle := 7, response_handle := 8\<rparr>]\<rparr>)
      \<lparr>app_actions = [], default_lib_action = lib_action, dispositions = (\<lambda>_. lib_action), app_calls = [], located = {}\<rparr>)
     \<lparr>barrier_var = 1, barrier_read = 20, barrier_write = 21, udi_root_dir = ''/tmp/udi'', thread_kills = []\<rparr>"

lemmas sample_proc_defs = sample_proc_state_def sig_state.defs evt_state.defs sample_suspended_continue_def sample_evt_defs

lemma sample_proc_simps:
  "sys_always_ok sample_proc_state" "thread_list sample_proc_state [3]"
  "pass_signal sample_proc_state = 0" "udi_enabled sample_proc_state" "\<not> single_thread_executing sample_proc_state" "\<not> pipe_write_failure sample_proc_state"
  "thr_heap sample_proc_state 3 = Some ((new_thread 16 (5, 6))\<lparr>request_handle := 7, response_handle := 8\<rparr>)"
  "get_user_thread_id sample_proc_state = 16"
  by (simp_all add: sample_proc_defs sys_always_ok_def thread_list_def single_thread_executing_def get_user_thread_id_def
      get_multithread_capable_def new_thread_def)

lemma sample_proc_current: "get_current_thread sample_proc_state = Ret 3"
  unfolding get_current_thread_find find_thread_list [OF sample_proc_simps(2)] by (simp add: id_at_def sample_proc_simps new_thread_def)

text \<open>The request that its descriptor holds, whatever system calls are made.\<close>

lemma continue_pending_sample:
  assumes "thread_list s ps" and "continue_bp s = NULL" and "\<forall>p \<in> set ps. \<not> dead (thread_obj s p) \<and> fd_in_range (request_handle (thread_obj s p))"
    and "proc_request_handle s = 3" and "sys_oracle s = (\<lambda>_. SysOk 8)" and "in_data s 3 = [1, 0xa1, 0x63, 0x73, 0x69, 0x67, 10]"
  shows "continue_pending wire_env s ps 10 []"
proof -
  have "stream_items wire_env (in_data s (proc_request_handle s)) [Ev_uint8 1, Ev_map_start 1, Ev_string (bytes_of ''sig''), Ev_uint8 10] []"
    "type_event (Ev_uint8 1) = Some (request_val UDI_REQ_CONTINUE)" "sig_event (Ev_uint8 10) = Some 10" "bit (8 :: nat) 3"
    by (simp_all add: assms wire_simps bytes_of_def request_vals bit_iff_odd)
  then show ?thesis unfolding continue_pending_def using assms by auto
qed

text \<open>Two threads, the second of which has a signal pending, or has none.\<close>

definition sample_two_threads :: "nat \<Rightarrow> proc_state" where
  "sample_two_threads g = sample_proc_state\<lparr>num_threads := 2, barrier_var := 0,
     thr_heap := [3 \<mapsto> (new_thread 16 (5, 6))\<lparr>request_handle := 7, response_handle := 8, next_thread := 2\<rparr>,
       2 \<mapsto> (new_thread 17 (8, 9))\<lparr>request_handle := 10, response_handle := 11,
         event_state := (event_state (new_thread 17 (8, 9)))\<lparr>st_signal := g\<rparr>\<rparr>]\<rparr>"

lemma sample_two_simps:
  "thread_list (sample_two_threads g) [3, 2]" "get_current_thread (sample_two_threads g) = Ret 3" "get_multithread_capable (sample_two_threads g)"
  "barrier_var (sample_two_threads g) = 0" "sys_always_ok (sample_two_threads g)" "out_data (sample_two_threads g) = (\<lambda>_. [])"
  "thread_obj (sample_two_threads g) 3 = (new_thread 16 (5, 6))\<lparr>request_handle := 7, response_handle := 8, next_thread := 2\<rparr>"
  "thread_obj (sample_two_threads g) 2 = (new_thread 17 (8, 9))\<lparr>request_handle := 10, response_handle := 11,
         event_state := (event_state (new_thread 17 (8, 9)))\<lparr>st_signal := g\<rparr>\<rparr>"
proof -
  show l: "thread_list (sample_two_threads g) [3, 2]"
    by (simp add: sample_two_threads_def thread_list_def sample_proc_defs new_thread_def)
  show "get_multithread_capable (sample_two_threads g)" "barrier_var (sample_two_threads g) = 0" "sys_always_ok (sample_two_threads g)"
    "out_data (sample_two_threads g) = (\<lambda>_. [])"
    by (simp_all add: sample_two_threads_def sample_proc_defs get_multithread_capable_def sys_always_ok_def)
  show "thread_obj (sample_two_threads g) 3 = (new_thread 16 (5, 6))\<lparr>request_handle := 7, response_handle := 8, next_thread := 2\<rparr>"
    "thread_obj (sample_two_threads g) 2 = (new_thread 17 (8, 9))\<lparr>request_handle := 10, response_handle := 11,
         event_state := (event_state (new_thread 17 (8, 9)))\<lparr>st_signal := g\<rparr>\<rparr>"
    by (simp_all add: sample_two_threads_def thread_obj_def)
  show "get_current_thread (sample_two_threads g) = Ret 3"
    unfolding get_current_thread_find find_thread_list [OF l]
    by (simp add: id_at_def sample_two_threads_def sample_proc_defs get_user_thread_id_def get_multithread_capable_def new_thread_def)
qed

definition sample_stopped :: "siginfo \<Rightarrow> ucontext \<Rightarrow> proc_state" where
  "sample_stopped info c = (sample_two_threads 0)\<lparr>errmsg := None, thr_heap := (thr_heap (sample_two_threads 0))(3 \<mapsto>
     with_event 10 info c ((new_thread 16 (5, 6))\<lparr>request_handle := 7, response_handle := 8, next_thread := 2\<rparr>))\<rparr>"

lemma sample_stopped_blocks:
  "\<exists>k. block_threads (\<lambda>_ u. Ret u) (sample_stopped info c) = Ret (0, gathering 3 [3, 2] k (sample_stopped info c))"
proof -
  have l: "thread_list (sample_stopped info c) [3, 2]"
    by (simp add: sample_stopped_def sample_two_threads_def thread_list_def sample_proc_defs new_thread_def with_event_def)
  have cur: "get_current_thread (sample_stopped info c) = Ret 3"
    unfolding get_current_thread_find find_thread_list [OF l]
    by (simp add: id_at_def sample_stopped_def sample_two_threads_def sample_proc_defs get_user_thread_id_def get_multithread_capable_def
        new_thread_def with_event_def)
  have "get_multithread_capable (sample_stopped info c)" "barrier_var (sample_stopped info c) = 0" "sys_always_ok (sample_stopped info c)"
    by (simp_all add: sample_stopped_def sample_two_threads_def sample_proc_defs get_multithread_capable_def sys_always_ok_def)
  from block_threads_served [OF l cur _ _ this] show ?thesis by simp
qed

theorem signal_stop_and_continue_witness:
  "\<exists>s'. signal_entry_impl wire_env 0 {} (\<lambda>_ u. Ret u) 10 \<lparr>si_code = 0, si_addr = 0\<rparr> \<lparr>gregs = (\<lambda>_. 7), uc_sigmask = {}\<rparr> (sample_two_threads 0) =
       Ret (\<lparr>gregs = (\<lambda>_. 7), uc_sigmask = {}\<rparr>, s') \<and>
     kills s' = [10] \<and> pass_signal s' = 10 \<and> in_data s' 3 = [] \<and> barrier_var s' = 0 \<and>
     out_data s' 5 = event_bytes wire_env UDI_EVENT_UNKNOWN 16 None \<and> out_data s' 9 = [sentinel]"
proof -
  let ?c = "\<lparr>gregs = (\<lambda>_. 7), uc_sigmask = {}\<rparr>" and ?i = "\<lparr>si_code = 0, si_addr = 0\<rparr>"
  let ?t = "(new_thread 16 (5, 6))\<lparr>request_handle := 7, response_handle := 8, next_thread := 2\<rparr>"
  let ?s = "sample_two_threads 0"
  obtain k where block: "block_threads (\<lambda>_ u. Ret u) (sample_stopped ?i ?c) = Ret (0, gathering 3 [3, 2] k (sample_stopped ?i ?c))"
    using sample_stopped_blocks by blast
  define v where "v = gathering 3 [3, 2] k (sample_stopped ?i ?c)"
  define tv where "tv = (with_event 10 ?i ?c ?t)\<lparr>control_thread := True\<rparr>"
  have s: "thr_heap ?s 3 = Some ?t" "pass_signal ?s = 0" "udi_enabled ?s" "\<not> single_thread_executing ?s" "\<not> (pipe_write_failure ?s \<and> 10 = SIGPIPE)"
    "10 \<notin> {SIGBUS, SIGSEGV, SIGTRAP, THREAD_SUSPEND_SIGNAL}"
    by (simp_all add: sample_two_threads_def sample_proc_simps SIGBUS_def SIGSEGV_def SIGTRAP_def THREAD_SUSPEND_SIGNAL_def)
      (simp add: single_thread_executing_def sample_proc_defs)
  have v: "sys_always_ok v" "thr_heap v 3 = Some tv" "\<not> single_step tv"
    by (simp_all add: v_def gathering_def sample_stopped_def sample_two_threads_def sample_proc_defs sys_always_ok_def uncontrolled_def tv_def
        with_event_def new_thread_def)
  have three: "(3 :: ptr) \<noteq> NULL" by simp
  have block': "block_threads (\<lambda>_ u. Ret u) (?s\<lparr>errmsg := None, thr_heap := (thr_heap ?s)(3 \<mapsto> with_event 10 ?i ?c ?t)\<rparr>) = Ret (0, v)"
    using block unfolding v_def sample_stopped_def .
  from signal_stop_and_continue [OF wire_env_ok(3,2) sample_two_simps(2) three s block' v, of 0 "{}"] obtain n where
    run: "\<And>reqs p u ps g rest.
      serves wire_env NULL (event_written wire_env n UDI_EVENT_UNKNOWN None (v\<lparr>thr_heap := (thr_heap v)(3 \<mapsto> event_taken tv)\<rparr>)) reqs p u \<and>
      continue_pending wire_env u ps g rest \<and> may_release u 3 ps \<and> \<not> single_thread_executing u \<Longrightarrow>
      \<exists>s' datas. signal_entry_impl wire_env 0 {} (\<lambda>_ u. Ret u) 10 ?i ?c ?s = Ret (?c, s') \<and> length datas = Suc (length reqs) \<and>
        out_data s' = (if some_running u ps then woken u 3 ps else id) (answer_all wire_env (zip (requests_to_continue u ps reqs) datas)
          ((out_data v)(events_handle v := out_data v (events_handle v) @ event_bytes wire_env UDI_EVENT_UNKNOWN (get_user_thread_id v) None))) \<and>
        in_data s' = (in_data u)(proc_request_handle u := rest) \<and>
        kills s' = (if some_running u ps \<and> \<not> exiting u then kills u @ [g] else kills u) \<and>
        pass_signal s' = (if some_running u ps \<and> \<not> exiting u then g else pass_signal u) \<and>
        barrier_var s' = (if some_running u ps \<and> get_multithread_capable u \<and> barrier_var u = 1 then 0 else barrier_var u)"
    by blast
  define u where "u = event_written wire_env n UDI_EVENT_UNKNOWN None (v\<lparr>thr_heap := (thr_heap v)(3 \<mapsto> event_taken tv)\<rparr>)"
  let ?t2 = "(new_thread 17 (8, 9))\<lparr>request_handle := 10, response_handle := 11\<rparr>"
  have u: "thr_heap u 3 = Some (event_taken tv)" "thr_heap u 2 = Some ?t2" "thread_list u [3, 2]" "continue_bp u = NULL" "proc_request_handle u = 3"
    "proc_response_handle u = 4" "sys_oracle u = (\<lambda>_. SysOk 8)" "in_data u 3 = [1, 0xa1, 0x63, 0x73, 0x69, 0x67, 10]" "\<not> single_thread_executing u"
    "kills u = []" "\<not> exiting u" "get_multithread_capable u" "barrier_var u = 1" "get_user_thread_id u = 16"
    by (simp_all add: u_def event_written_def v_def gathering_def sample_stopped_def sample_two_threads_def sample_proc_defs uncontrolled_def tv_def
        event_taken_def with_event_def new_thread_def thread_list_def single_thread_executing_def get_multithread_capable_def get_user_thread_id_def)
  have vo: "out_data v = (\<lambda>_. [])" "events_handle v = 5" "get_user_thread_id v = 16"
    by (simp_all add: v_def gathering_def sample_stopped_def sample_two_threads_def sample_proc_defs get_multithread_capable_def get_user_thread_id_def)
  have obj: "thread_obj u 3 = event_taken tv" "thread_obj u 2 = ?t2" by (simp_all add: thread_obj_def u)
  have cur: "get_current_thread u = Ret 3"
    unfolding get_current_thread_find find_thread_list [OF u(3)] by (simp add: id_at_def u event_taken_def tv_def with_event_def new_thread_def)
  have c1: "continue_pending wire_env u [3, 2] 10 []"
    by (rule continue_pending_sample [OF u(3,4) _ u(5,7,8)])
      (simp add: obj tv_def event_taken_def with_event_def new_thread_def fd_in_range_def FD_SETSIZE_def)
  have r: "some_running u [3, 2]" by (simp add: some_running_def obj new_thread_def)
  have c2: "may_release u 3 [3, 2]"
    by (simp add: may_release_def cur obj tv_def event_taken_def with_event_def new_thread_def pending_event_def)
  have wk: "woken u 3 [3, 2] d = d(9 := d 9 @ [sentinel])" for d by (simp add: woken_def u obj new_thread_def Let_def)
  from run [OF conjI [OF serves_none conjI [OF c1 [unfolded u_def] conjI [OF c2 [unfolded u_def] u(9) [unfolded u_def]]]], folded u_def]
  obtain s' datas where "signal_entry_impl wire_env 0 {} (\<lambda>_ u. Ret u) 10 ?i ?c ?s = Ret (?c, s')" "length datas = Suc 0"
      "in_data s' = (in_data u)(3 := [])" "kills s' = [10]" "pass_signal s' = 10" "barrier_var s' = 0"
    and out: "out_data s' = woken u 3 [3, 2] (answer_all wire_env (zip (requests_to_continue u [3, 2] []) datas)
      ((\<lambda>_. [])(5 := event_bytes wire_env UDI_EVENT_UNKNOWN 16 None)))"
    by (auto simp: r u vo)
  moreover from \<open>length datas = Suc 0\<close> obtain d where "datas = [d]" by (cases datas) auto
  then have "out_data s' 5 = event_bytes wire_env UDI_EVENT_UNKNOWN 16 None" "out_data s' 9 = [sentinel]"
    using out by (simp_all add: wk answer_all_def requests_to_continue_def u)
  ultimately show ?thesis by simp
qed

text \<open>The same of the process with one thread, whatever other threads would do.\<close>

lemma sample_stop_run:
  fixes c :: ucontext and info :: siginfo
  shows "\<exists>s'. signal_entry_impl wire_env 0 {} sched 10 info c sample_proc_state = Ret (c, s')"
proof -
  let ?t = "(new_thread 16 (5, 6))\<lparr>request_handle := 7, response_handle := 8\<rparr>"
  let ?s = sample_proc_state
  define v where "v = ?s\<lparr>errmsg := None, thr_heap := (thr_heap ?s)(3 \<mapsto> with_event 10 info c ?t)\<rparr>"
  have three: "(3 :: ptr) \<noteq> NULL" by simp
  have block: "block_threads sched (?s\<lparr>errmsg := None, thr_heap := (thr_heap ?s)(3 \<mapsto> with_event 10 info c ?t)\<rparr>) = Ret (0, v)"
    by (simp add: block_threads_def get_multithreaded_def get_num_threads_def v_def) (simp add: sample_proc_defs)
  have s: "\<not> (pipe_write_failure ?s \<and> 10 = SIGPIPE)" "10 \<notin> {SIGBUS, SIGSEGV, SIGTRAP, THREAD_SUSPEND_SIGNAL}"
    by (simp_all add: sample_proc_simps SIGBUS_def SIGSEGV_def SIGTRAP_def THREAD_SUSPEND_SIGNAL_def)
  have v: "sys_always_ok v" "thr_heap v 3 = Some (with_event 10 info c ?t)" "\<not> single_step (with_event 10 info c ?t)"
    using sample_proc_simps(1) by (simp_all add: v_def with_event_def new_thread_def sys_always_ok_def)
  from stop_and_continue_run [OF wire_env_ok(3,2) sample_proc_current three sample_proc_simps(7,3-5) s block v, of 0 "{}"] obtain n where
    run: "\<And>reqs p u ps g rest.
      serves wire_env NULL (event_written wire_env n UDI_EVENT_UNKNOWN None (v\<lparr>thr_heap := (thr_heap v)(3 \<mapsto> event_taken (with_event 10 info c ?t))\<rparr>)) reqs p u \<and>
      continue_pending wire_env u ps g rest \<and> may_release u 3 ps \<and> \<not> single_thread_executing u \<Longrightarrow>
      \<exists>s'. signal_entry_impl wire_env 0 {} sched 10 info c ?s = Ret (c, s')" by blast
  define u where "u = event_written wire_env n UDI_EVENT_UNKNOWN None (v\<lparr>thr_heap := (thr_heap v)(3 \<mapsto> event_taken (with_event 10 info c ?t))\<rparr>)"
  have u: "thr_heap u 3 = Some (event_taken (with_event 10 info c ?t))" "thread_list u [3]" "continue_bp u = NULL" "proc_request_handle u = 3"
    "sys_oracle u = (\<lambda>_. SysOk 8)" "in_data u 3 = [1, 0xa1, 0x63, 0x73, 0x69, 0x67, 10]" "\<not> single_thread_executing u" "get_user_thread_id u = 16"
    by (simp_all add: u_def event_written_def v_def sample_proc_defs event_taken_def with_event_def new_thread_def thread_list_def
        single_thread_executing_def get_multithread_capable_def get_user_thread_id_def)
  have obj: "thread_obj u 3 = event_taken (with_event 10 info c ?t)" by (simp add: thread_obj_def u)
  have cur: "get_current_thread u = Ret 3"
    unfolding get_current_thread_find find_thread_list [OF u(2)] by (simp add: id_at_def u event_taken_def with_event_def new_thread_def)
  have c1: "continue_pending wire_env u [3] 10 []"
    by (rule continue_pending_sample [OF u(2,3) _ u(4-6)])
      (simp add: obj event_taken_def with_event_def new_thread_def fd_in_range_def FD_SETSIZE_def)
  have c2: "may_release u 3 [3]"
    by (simp add: may_release_def cur obj event_taken_def with_event_def new_thread_def)
  from run [of "[]" NULL u "[3]"] show ?thesis using c1 c2 u(7) serves_none [of wire_env NULL u] by (simp add: u_def)
qed

text \<open>
  C24. Register changes are lost. Whatever requests the debugger has served while the handler runs, writes to registers included, the context that the
  handler returns to the program differs from the one at entry at most in the program counter, which is stepped back over a breakpoint or
  set to the end of an aborted memory access. The requests work on the copy of the context in the thread
  structure, and nothing copies it back.
\<close>

theorem register_changes_lost:
  assumes "signal_entry_impl E abort_label junk sched signum info c s = Ret (c', s')" and "i \<noteq> X86_64_RIP_OFFSET"
  shows "gregs c' i = gregs c i \<and> uc_sigmask c' = uc_sigmask c \<and>
    get_pc c' \<in> {get_pc c, get_pc c - 1, abort_label}"
  using signal_entry_context [OF assms(1)] assms(2)
  by (auto simp: rewind_pc_def set_pc_def get_pc_def WORDSIZE_def)

theorem register_changes_lost_witness:
  "\<exists>c' s'. signal_entry_impl wire_env 0 {} (\<lambda>_ _. Stuck) 10 \<lparr>si_code = 0, si_addr = 0\<rparr> \<lparr>gregs = (\<lambda>_. 7), uc_sigmask = {}\<rparr> sample_proc_state = Ret (c', s') \<and>
     gregs c' 0 = 7"
proof -
  let ?c = "\<lparr>gregs = (\<lambda>_. 7), uc_sigmask = {}\<rparr>"
  obtain s' where run: "signal_entry_impl wire_env 0 {} (\<lambda>_ _. Stuck) 10 \<lparr>si_code = 0, si_addr = 0\<rparr> ?c sample_proc_state = Ret (?c, s')"
    using sample_stop_run by blast
  from register_changes_lost [OF run, of 0] have "gregs ?c 0 = 7" by (simp add: X86_64_RIP_OFFSET_def)
  with run show ?thesis by blast
qed

text \<open>
  C22. Blocking the other threads. When several threads exist and the barrier is free, the thread that enters takes the barrier and becomes the only control thread of the
  list, sends the suspend signal once to every other thread that is not already suspended, in the order of the list and to nobody else, and waits for exactly as many sentinels as it
  has sent signals. It then goes on as the control thread if it still is one.
\<close>

theorem block_gathers_others:
  assumes "thread_list s ps" and "get_current_thread s = Ret thr" and "thr \<in> set ps" and "1 < length ps" and "get_multithread_capable s"
    and "barrier_var s = 0" and "sys_always_ok s"
  shows "\<exists>s'. block_threads sched s =
      run_bind (collect_sentinels sched (length (filter (\<lambda>q. q \<noteq> thr \<and> ts (thread_obj s q) \<noteq> UDI_TS_SUSPENDED) ps)) s')
        (\<lambda>u. run_bind (thread_at thr u) (\<lambda>t. Ret (if control_thread t then 0 else 1, u))) \<and>
    thread_kills s' = thread_kills s @ map (\<lambda>q. (thr_id (thread_obj s q), THREAD_SUSPEND_SIGNAL))
      (filter (\<lambda>q. q \<noteq> thr \<and> ts (thread_obj s q) \<noteq> UDI_TS_SUSPENDED) ps) \<and>
    barrier_var s' = 1 \<and> {q \<in> set ps. control_thread (thread_obj s' q)} = {thr} \<and> dom (thr_heap s') = dom (thr_heap s)"
proof -
  have chain: "obj_chain next_thread (thr_heap s) (threads s) ps" using assms(1) by (simp add: thread_list_def)
  obtain t where t: "thr_heap s thr = Some t" using obj_chain_live [OF chain assms(3)] by auto
  obtain k where run: "block_threads sched s = run_bind (collect_sentinels sched (length (signalled s thr ps)) (gathering thr ps k s))
      (\<lambda>u. run_bind (thread_at thr u) (\<lambda>t. Ret (if control_thread t then 0 else 1, u)))"
    using block_threads_first [OF assms] by blast
  let ?s' = "gathering thr ps k s"
  have "control_thread (thread_obj ?s' thr)" using t by (simp add: thread_obj_def uncontrolled_def gathering_def)
  moreover have "\<not> control_thread (thread_obj ?s' q)" if "q \<in> set ps" "q \<noteq> thr" for q
    using that obj_chain_live [OF chain that(1)] by (auto simp: thread_obj_def uncontrolled_def gathering_def)
  ultimately have ctl: "{q \<in> set ps. control_thread (thread_obj ?s' q)} = {thr}" using assms(3) by blast
  have "dom (thr_heap ?s') = dom (thr_heap s)" using t by (auto simp: uncontrolled_def gathering_def dom_def split: if_splits)
  moreover have "thread_kills ?s' = thread_kills s @ suspend_signals s (signalled s thr ps)" "barrier_var ?s' = 1" by (simp_all add: gathering_def)
  ultimately show ?thesis
    using run ctl unfolding suspend_signals_def signalled_def by blast
qed

theorem block_gathers_others_witness:
  "\<exists>s'. block_threads (\<lambda>_ u. Ret u) (sample_two_threads 0) = Ret (0, s') \<and> thread_kills s' = [(17, THREAD_SUSPEND_SIGNAL)] \<and>
     barrier_var s' = 1 \<and> \<not> control_thread (thread_obj s' 2)"
proof -
  have count: "filter (\<lambda>q. q \<noteq> 3 \<and> ts (thread_obj (sample_two_threads 0) q) \<noteq> UDI_TS_SUSPENDED) [3, 2] = [2]"
    by (simp add: sample_two_simps new_thread_def)
  have side: "(3 :: ptr) \<in> set [3, 2]" "1 < length [3 :: ptr, 2]" by simp_all
  obtain s' where run: "block_threads (\<lambda>_ u. Ret u) (sample_two_threads 0) =
      run_bind (collect_sentinels (\<lambda>_ u. Ret u) (length [2 :: ptr]) s') (\<lambda>u. run_bind (thread_at 3 u) (\<lambda>t. Ret (if control_thread t then 0 else 1, u)))"
    and kills: "thread_kills s' = thread_kills (sample_two_threads 0) @ map (\<lambda>q. (thr_id (thread_obj (sample_two_threads 0) q), THREAD_SUSPEND_SIGNAL)) [2]"
    and s': "barrier_var s' = 1" "{q \<in> set [3, 2]. control_thread (thread_obj s' q)} = {3}" "dom (thr_heap s') = dom (thr_heap (sample_two_threads 0))"
    using block_gathers_others [OF sample_two_simps(1,2) [of 0] side sample_two_simps(3-5) [of 0], of "\<lambda>_ u. Ret u"]
    unfolding count by (elim exE conjE) (rule that; assumption)
  have "3 \<in> dom (thr_heap s')" unfolding s'(3) by (simp add: sample_two_threads_def)
  then have at: "thread_at 3 s' = Ret (thread_obj s' 3)" by (auto simp: thread_at_def thread_obj_def)
  have "(3 \<in> {q \<in> set [3, 2]. control_thread (thread_obj s' q)}) = (3 \<in> {3 :: ptr})" "(2 \<in> {q \<in> set [3, 2]. control_thread (thread_obj s' q)}) = (2 \<in> {3 :: ptr})"
    by (simp_all only: s'(2))
  then have "control_thread (thread_obj s' 3)" "\<not> control_thread (thread_obj s' 2)" by simp_all
  moreover have "thread_kills s' = [(17, THREAD_SUSPEND_SIGNAL)]"
    using kills by (simp add: sample_two_simps new_thread_def) (simp add: sample_two_threads_def sample_proc_defs)
  ultimately show ?thesis using run at s'(1) by (intro exI [of _ s']) simp
qed

text \<open>
  C23. Releasing the other threads, in a process that can have several. When another thread has an event pending, the first such thread of the list becomes the control thread in place
  of the releasing one, its control pipe and no other receives a sentinel, the barrier stays as it is, and the releasing thread waits on its own pipe. When no
  other thread has one, the barrier is free and each other running thread, and nobody else, has received one sentinel; then the function returns if the releasing thread is not suspended, and otherwise waits on its own pipe.
\<close>

theorem release_wakes_others:
  assumes "thread_list s ps" and "get_current_thread s = Ret thr" and "thr \<in> set ps" and "get_multithread_capable s" and "sys_always_ok s"
    and "\<forall>q \<in> set ps. 0 \<le> control_write (thread_obj s q)"
  shows "\<exists>s'. case find (\<lambda>q. q \<noteq> thr \<and> pending_event (thread_obj s q)) ps of
      None \<Rightarrow> release_threads sched s =
          (if ts (thread_obj s thr) = UDI_TS_SUSPENDED then run_bind (sched (At_control thr) s') (\<lambda>u. Ret (0, u)) else Ret (0, s')) \<and>
        barrier_var s' = (if barrier_var s = 1 then 0 else barrier_var s) \<and> thr_heap s' = thr_heap s \<and>
        out_data s' = sentinels_to s (filter (\<lambda>q. q \<noteq> thr \<and> ts (thread_obj s q) = UDI_TS_RUNNING) ps) (out_data s)
    | Some q \<Rightarrow> release_threads sched s = run_bind (sched (At_control thr) s') (\<lambda>u. Ret (0, u)) \<and> barrier_var s' = barrier_var s \<and>
        control_thread (thread_obj s' q) \<and> \<not> control_thread (thread_obj s' thr) \<and> out_data s' = sentinels_to s [q] (out_data s)"
proof (cases "find (\<lambda>q. q \<noteq> thr \<and> pending_event (thread_obj s q)) ps")
  case None
  from release_threads_free [OF assms None, of sched] obtain k where "release_threads sched s =
      run_bind (if ts (thread_obj s thr) = UDI_TS_SUSPENDED then sched (At_control thr) (freed thr ps k s) else Ret (freed thr ps k s)) (\<lambda>u. Ret (0, u))" ..
  then show ?thesis using None by (intro exI [of _ "freed thr ps k s"]) (simp add: freed_def)
next
  case (Some q)
  have chain: "obj_chain next_thread (thr_heap s) (threads s) ps" using assms(1) by (simp add: thread_list_def)
  note live = obj_chain_live [OF chain]
  obtain t where t: "thr \<noteq> NULL" "thr_heap s thr = Some t" using live [OF assms(3)] by auto
  have loop: "pending_loop (thr_heap s) thr (threads s) = Some q"
    using pending_loop_chain [OF chain, of thr] Some by (simp add: thread_obj_def)
  from Some have q: "q \<in> set ps" "q \<noteq> thr" by (auto simp: find_Some_iff)
  obtain tq where tq: "q \<noteq> NULL" "thr_heap s q = Some tq" using live [OF q(1)] by auto
  let ?fd = "nat (control_write tq)"
  let ?h = "(thr_heap s)(thr \<mapsto> t\<lparr>control_thread := False\<rparr>, q \<mapsto> tq\<lparr>control_thread := True\<rparr>)"
  let ?s' = "s\<lparr>thr_heap := ?h, sys_count := Suc (sys_count s), out_data := (out_data s)(?fd := out_data s ?fd @ [sentinel])\<rparr>"
  have "0 \<le> control_write tq" using assms(6) q(1) tq(2) by (auto simp: thread_obj_def)
  then have w: "write_sentinel (control_write tq) (s\<lparr>thr_heap := ?h\<rparr>) = Ret ?s'"
    using assms(5) by (simp add: write_sentinel_def put_sentinel_def sys_call_def sys_always_ok_def)
  have "release_threads sched s = run_bind (sched (At_control thr) ?s') (\<lambda>u. Ret (0, u))"
    using assms(2,4) t tq q(2) loop w
    by (simp add: release_threads_def get_thread_list_def update_thread_def thread_at_def derefI)
  then show ?thesis using Some q(2) tq by (intro exI [of _ ?s']) (simp add: thread_obj_def Let_def)
qed

theorem release_wakes_others_witness:
  "(\<exists>s'. release_threads (\<lambda>_ _. Stuck) (sample_two_threads 0) = Ret (0, s') \<and> out_data s' 9 = [sentinel]) \<and>
   (\<exists>s'. release_threads (\<lambda>_ u. Ret u) (sample_two_threads 11) = Ret (0, s') \<and> control_thread (thread_obj s' 2))"
proof -
  have side: "(3 :: ptr) \<in> set [3, 2]" "\<forall>q \<in> set [3, 2]. 0 \<le> control_write (thread_obj (sample_two_threads g) q)"
    "ts (thread_obj (sample_two_threads g) 3) \<noteq> UDI_TS_SUSPENDED" for g
    by (simp_all add: sample_two_simps new_thread_def)
  have find: "find (\<lambda>q. q \<noteq> 3 \<and> pending_event (thread_obj (sample_two_threads 0) q)) [3, 2] = None"
    "find (\<lambda>q. q \<noteq> 3 \<and> pending_event (thread_obj (sample_two_threads 11) q)) [3, 2] = Some 2"
    by (simp_all add: sample_two_simps pending_event_def new_thread_def THREAD_SUSPEND_SIGNAL_def)
  have live: "filter (\<lambda>q. q \<noteq> 3 \<and> ts (thread_obj (sample_two_threads 0) q) = UDI_TS_RUNNING) [3, 2] = [2]"
    by (simp add: sample_two_simps new_thread_def)
  obtain s1 where "release_threads (\<lambda>_ _. Stuck) (sample_two_threads 0) = Ret (0, s1)" "out_data s1 = sentinels_to (sample_two_threads 0) [2] (\<lambda>_. [])"
    using release_wakes_others [OF sample_two_simps(1,2) [of 0] side(1) sample_two_simps(3,5) [of 0] side(2), of "\<lambda>_ _. Stuck"]
    unfolding find live sample_two_simps(6) option.case if_not_P [OF side(3)] by blast
  moreover obtain s2 where "release_threads (\<lambda>_ u. Ret u) (sample_two_threads 11) = run_bind (Ret s2) (\<lambda>u. Ret (0, u))" "control_thread (thread_obj s2 2)"
    using release_wakes_others [OF sample_two_simps(1,2) [of 11] side(1) sample_two_simps(3,5) [of 11] side(2), of "\<lambda>_ u. Ret u"]
    unfolding find option.case by blast
  ultimately show ?thesis by (simp add: sample_two_simps new_thread_def)
qed

end
