(* ===== verification/Process_Init.thy ===== *)
theory Process_Init
  imports Signal_Entry
begin

text \<open>
  The initialisation of the library in the process (\<^verbatim>\<open>udirt-posix.c\<close> from \<^verbatim>\<open>enable_debug_logging\<close> to \<^verbatim>\<open>initialize_thread_sync\<close>, and
  \<^verbatim>\<open>init_udirt\<close>; \<^verbatim>\<open>init_thread_support\<close> of \<^verbatim>\<open>udirt-posix-pthreads.c\<close>): the files of the process, the pipe of the barrier, the signal handlers, the breakpoint
  at \<^verbatim>\<open>exit\<close>, the handshake and the first requests. A failure aborts the process, so that the messages set before it are left out.
\<close>

section \<open>Definitions\<close>

text \<open>
  What the library finds in its environment: the texts of the dynamic loader, the environment variable for the root
  directory, the process identifier, the content of uninitialised signal sets, whether mutexes are linked in, and
  whether the library is loaded by its tests.
\<close>

record host =
  dl_error :: "string \<Rightarrow> string"
  root_env :: "string option"
  getpid :: int
  junk_set :: "nat set"
  has_mutexes :: bool
  testing_udirt :: bool

definition DEFAULT_UDI_ROOT_DIR :: string where
  "DEFAULT_UDI_ROOT_DIR = ''/tmp/udi''"

definition PID_STR_LEN :: nat where
  "PID_STR_LEN = 10"

subsection \<open>Files of the process\<close>

definition create_fifo ::
    "env \<Rightarrow> string \<Rightarrow> int \<Rightarrow> nat \<Rightarrow> string \<Rightarrow> (string \<Rightarrow> 'z proc_state_scheme \<Rightarrow> 'z proc_state_scheme) \<Rightarrow> 'z proc_state_scheme \<Rightarrow>
       (nat \<times> 'z proc_state_scheme) run" where
  "create_fifo E root pid basedir_length name set_name s =
     (case sys_call s of (r, s) \<Rightarrow>
        if sys_failed r then Ret (sys_errno r, s)
        else run_bind (formatted E (basedir_length + length name + 1) ''%s/%d/%s'' [ArgStr root, ArgInt pid, ArgStr name])
          (\<lambda>path. Ret (sys_make path (set_name path s))))"

text \<open>The allocation of the default root directory is not checked: the copy into it then follows the null pointer.\<close>

definition get_root_dir :: "host \<Rightarrow> 'z proc_state_scheme \<Rightarrow> 'z proc_state_scheme run" where
  "get_root_dir H s =
     (case root_env H of
        Some dir \<Rightarrow> Ret (s\<lparr>udi_root_dir := dir\<rparr>)
      | None \<Rightarrow> (case sys_call s of (r, s) \<Rightarrow> if sys_failed r then Stuck else Ret (s\<lparr>udi_root_dir := DEFAULT_UDI_ROOT_DIR\<rparr>)))"

definition create_udi_filesystem :: "env \<Rightarrow> host \<Rightarrow> 'z proc_state_scheme \<Rightarrow> (nat \<times> 'z proc_state_scheme) run" where
  "create_udi_filesystem E H s =
     run_bind (get_root_dir H s) (\<lambda>s.
       let root = udi_root_dir s;
           basedir_length = length root + PID_STR_LEN + 1 + 1 in
       case sys_call s of (r, s) \<Rightarrow>
         if sys_failed r then Ret (sys_errno r, s)
         else run_bind (formatted E basedir_length ''%s/%d'' [ArgStr root, ArgInt (getpid H)]) (\<lambda>basedir.
           case sys_make basedir (s\<lparr>basedir_name := basedir\<rparr>) of (errnum, s) \<Rightarrow>
           if errnum \<noteq> 0 then Ret (errnum, s)
           else run_bind (create_fifo E root (getpid H) basedir_length REQUEST_FILE_NAME (\<lambda>path s. s\<lparr>requestfile_name := path\<rparr>) s) (\<lambda>(errnum, s).
             if errnum \<noteq> 0 then Ret (errnum, s)
             else run_bind (create_fifo E root (getpid H) basedir_length RESPONSE_FILE_NAME (\<lambda>path s. s\<lparr>responsefile_name := path\<rparr>) s) (\<lambda>(errnum, s).
               if errnum \<noteq> 0 then Ret (errnum, s)
               else create_fifo E root (getpid H) basedir_length EVENTS_FILE_NAME (\<lambda>path s. s\<lparr>eventsfile_name := path\<rparr>) s))))"

subsection \<open>Threads and signals\<close>

text \<open>The recursive mutex of the log: three calls, a failure of which ends the process.\<close>

definition init_thread_support :: "host \<Rightarrow> 'z sys_state_scheme \<Rightarrow> 'z sys_state_scheme run" where
  "init_thread_support H s =
     (if \<not> has_mutexes H then Ret s
      else (case sys_call s of (r1, s) \<Rightarrow> if sys_failed r1 then Abort
      else (case sys_call s of (r2, s) \<Rightarrow> if sys_failed r2 then Abort
      else (case sys_call s of (r3, s) \<Rightarrow> if sys_failed r3 then Abort else Ret s))))"

definition initialize_thread_sync :: "'z proc_state_scheme \<Rightarrow> int \<times> 'z proc_state_scheme" where
  "initialize_thread_sync s =
     (let s = s\<lparr>barrier_var := 0\<rparr> in
      if get_multithread_capable s
      then (case sys_pipe s of
          (None, s) \<Rightarrow> (- 1, s)
        | (Some (r, w), s) \<Rightarrow> (0, s\<lparr>barrier_read := r, barrier_write := w\<rparr>))
      else (0, s\<lparr>barrier_read := - 1, barrier_write := - 1\<rparr>))"

subsection \<open>The entry point\<close>

text \<open>The steps before the debugger is contacted, and those with it.\<close>

definition init_prepare :: "env \<Rightarrow> host \<Rightarrow> 'z proc_state_scheme \<Rightarrow> (int \<times> 'z proc_state_scheme) run" where
  "init_prepare E H s =
     (case locate_wrapper_functions (dl_error H) s of (errnum, s) \<Rightarrow>
        if errnum \<noteq> 0 then Ret (RESULT_ERROR, s)
        else (case locate_thread_wrapper_functions (dl_error H) s of (errnum, s) \<Rightarrow>
          if errnum \<noteq> 0 then Ret (RESULT_ERROR, s)
          else (case initialize_thread_sync s of (sync_result, s) \<Rightarrow>
            if sync_result \<noteq> 0 then Ret (RESULT_ERROR, s)
            else (case setup_signal_handlers s of (signal_result, s) \<Rightarrow>
              if signal_result \<noteq> 0 then Ret (RESULT_ERROR, s)
              else run_bind (install_event_breakpoints E s) (\<lambda>(errnum, s).
                if errnum \<noteq> 0 then Ret (RESULT_ERROR, s)
                else run_bind (create_udi_filesystem E H s) (\<lambda>(errnum, s).
                  Ret (if errnum \<noteq> 0 then RESULT_ERROR else RESULT_SUCCESS, s)))))))"

definition init_connect :: "env \<Rightarrow> 'z proc_state_scheme \<Rightarrow> (int \<times> 'z proc_state_scheme) run" where
  "init_connect E s =
     run_bind (handshake_with_debugger E s) (\<lambda>(result, s).
       if result \<noteq> RESULT_SUCCESS then Ret (result, s)
       else run_bind (wait_and_execute_command E NULL s) (\<lambda>((result, request_thr), s). Ret (result, s)))"

text \<open>
  The result of setting the signal mask is compared with -1. The function for processes with threads returns a positive error number, so that its failure
  is not seen; the set of the original mask is then not initialised.
\<close>

definition init_udirt :: "env \<Rightarrow> host \<Rightarrow> 'z proc_state_scheme \<Rightarrow> 'z proc_state_scheme run" where
  "init_udirt E H s =
     (let s = s\<lparr>errmsg := None\<rparr> in
      if testing_udirt H then Ret s
      else run_bind (init_thread_support H s) (\<lambda>s.
        let mask = sig_mask s in
        case setsigmask full_set s of (blocked, s) \<Rightarrow>
          let original_set = (if blocked then mask else junk_set H) in
          run_bind
            (if \<not> blocked \<and> \<not> has_pthread_sigmask s then Ret (RESULT_ERROR, s)
             else run_bind (init_prepare E H s) (\<lambda>(result, s).
               if result \<noteq> RESULT_SUCCESS then Ret (result, s) else init_connect E s))
            (\<lambda>(result, s). if result \<noteq> RESULT_SUCCESS then Abort else Ret (snd (setsigmask original_set s)))))"

section \<open>The files of the process\<close>

lemma log_digits_length: "i < 10 \<Longrightarrow> length (log_digits i v buf) \<le> length buf + (10 - i)"
proof (induction i v buf rule: log_digits.induct)
  case (1 i v buf)
  show ?case
  proof (cases "Suc i < 10 \<and> v sdiv 10 > 0")
    case True
    then have "length (log_digits (Suc i) (v sdiv 10) (buf @ [digit_char (v smod 10)])) \<le> length (buf @ [digit_char (v smod 10)]) + (10 - Suc i)"
      by (intro "1.IH") simp_all
    moreover have "log_digits i v buf = log_digits (Suc i) (v sdiv 10) (buf @ [digit_char (v smod 10)])"
      using True by (subst log_digits.simps) (simp add: Let_def)
    ultimately show ?thesis using "1.prems" by simp
  next
    case False
    then have "log_digits i v buf = buf @ [digit_char (v smod 10)]" by (subst log_digits.simps) (auto simp: Let_def)
    then show ?thesis using "1.prems" by simp
  qed
qed

lemma log_integer_append: "udi_log_integer write_log out n = out @ udi_log_integer write_log [] n"
  by (simp add: udi_log_integer_def Let_def fold_write_log) (simp add: write_log_def)

text \<open>The decimal text of a process identifier fits the room that is allocated for it.\<close>

definition pid_text :: "int \<Rightarrow> string" where
  "pid_text pid = udi_log_integer write_log [] pid"

lemma pid_text_props:
  assumes "0 \<le> pid" and "pid < 2 ^ 31"
  shows "length (pid_text pid) \<le> 10" "NUL \<notin> set (pid_text pid)" "read_dec (pid_text pid) = pid"
proof -
  have "udi_log_integer write_log [] pid = rev (log_digits 0 pid [])"
    using assms by (simp add: udi_log_integer_def Let_def fold_write_log)
  then show "length (pid_text pid) \<le> 10" using log_digits_length [of 0 pid "[]"] by (simp add: pid_text_def)
  have lower: "- (2 ^ 31) < pid" using assms(1) by simp
  obtain ds where "udi_log_integer write_log [] pid = (if pid < 0 then ''-'' else []) @ rev ds" "set ds \<subseteq> digit_char ` {0..9}"
    using log_integer_text [OF lower assms(2)] .
  then have "set (pid_text pid) \<subseteq> digit_char ` {0..9}" using assms(1) by (simp add: pid_text_def)
  then show "NUL \<notin> set (pid_text pid)" using digit_char_not_special by blast
  show "read_dec (pid_text pid) = pid" using read_dec_log_integer [OF lower assms(2)] by (simp add: pid_text_def)
qed

lemma format_dir: "format_text E ''%s/%d'' [ArgStr a, ArgInt n] = Some (c_str a @ ''/'' @ pid_text n)"
  by (simp add: format_text_def log_placeholder.simps udi_log_string_def write_log_def pid_text_def log_integer_append [of "_ @ _"])

lemma format_file: "format_text E ''%s/%d/%s'' [ArgStr a, ArgInt n, ArgStr b] = Some (c_str a @ ''/'' @ pid_text n @ ''/'' @ c_str b)"
  by (simp add: format_text_def log_placeholder.simps udi_log_string_def write_log_def pid_text_def log_integer_append [of "_ @ _"])

lemma create_fifo_ok:
  assumes "sys_always_ok s" and "NUL \<notin> set root" and "NUL \<notin> set name" and "0 \<le> pid" and "pid < 2 ^ 31"
    and "\<And>path u. sys_oracle (set_name path u) = sys_oracle u"
  shows "create_fifo E root pid (length root + PID_STR_LEN + 1 + 1) name set_name s =
    Ret (sys_make (root @ ''/'' @ pid_text pid @ ''/'' @ name)
      (set_name (root @ ''/'' @ pid_text pid @ ''/'' @ name) (s\<lparr>sys_count := Suc (sys_count s)\<rparr>)))"
proof -
  have "formatted E (length root + PID_STR_LEN + 1 + 1 + length name + 1) ''%s/%d/%s'' [ArgStr root, ArgInt pid, ArgStr name] =
      Ret (root @ ''/'' @ pid_text pid @ ''/'' @ name)"
    using assms(2,3) pid_text_props [OF assms(4,5)]
    by (intro formatted_text) (auto simp: format_file c_str_id PID_STR_LEN_def)
  then show ?thesis using assms(1) by (simp add: create_fifo_def sys_call_def sys_always_ok_def)
qed

definition root_of :: "host \<Rightarrow> string" where
  "root_of H = (case root_env H of None \<Rightarrow> DEFAULT_UDI_ROOT_DIR | Some dir \<Rightarrow> dir)"

lemma get_root_dir_ok:
  assumes "sys_always_ok s"
  shows "\<exists>c. get_root_dir H s = Ret (s\<lparr>sys_count := c, udi_root_dir := root_of H\<rparr>)"
proof (cases "root_env H")
  case None
  then show ?thesis using assms by (auto simp: get_root_dir_def root_of_def sys_call_def sys_always_ok_def)
next
  case (Some dir)
  then show ?thesis by (intro exI [of _ "sys_count s"]) (simp add: get_root_dir_def root_of_def)
qed

lemma file_names_no_NUL: "NUL \<notin> set EVENTS_FILE_NAME"
  by (simp add: EVENTS_FILE_NAME_def)

lemma create_udi_filesystem_run:
  assumes "sys_always_ok s" and "NUL \<notin> set (root_of H)" and "0 \<le> getpid H" and "getpid H < 2 ^ 31"
  defines "base \<equiv> root_of H @ ''/'' @ pid_text (getpid H)"
  shows "\<exists>c. create_udi_filesystem E H s = Ret (0, s\<lparr>sys_count := c, udi_root_dir := root_of H, basedir_name := base,
    requestfile_name := base @ ''/'' @ REQUEST_FILE_NAME, responsefile_name := base @ ''/'' @ RESPONSE_FILE_NAME,
    eventsfile_name := base @ ''/'' @ EVENTS_FILE_NAME,
    udi_files := udi_files s \<union> {base, base @ ''/'' @ REQUEST_FILE_NAME, base @ ''/'' @ RESPONSE_FILE_NAME, base @ ''/'' @ EVENTS_FILE_NAME}\<rparr>)"
proof -
  obtain c where root: "get_root_dir H s = Ret (s\<lparr>sys_count := c, udi_root_dir := root_of H\<rparr>)"
    using get_root_dir_ok [OF assms(1)] by blast
  have dir: "formatted E (length (root_of H) + PID_STR_LEN + 1 + 1) ''%s/%d'' [ArgStr (root_of H), ArgInt (getpid H)] = Ret base"
    using assms(2) pid_text_props [OF assms(3,4)] unfolding base_def
    by (intro formatted_text) (auto simp: format_dir c_str_id PID_STR_LEN_def)
  let ?L = "length (root_of H) + PID_STR_LEN + 1 + 1"
  let ?f = "\<lambda>name. base @ ''/'' @ name"
  let ?q = "?f REQUEST_FILE_NAME" and ?p = "?f RESPONSE_FILE_NAME" and ?e = "?f EVENTS_FILE_NAME"
  define u1 where "u1 = s\<lparr>sys_count := Suc (Suc c), udi_root_dir := root_of H, basedir_name := base, udi_files := insert base (udi_files s)\<rparr>"
  define u2 where "u2 = u1\<lparr>sys_count := Suc (Suc (sys_count u1)), requestfile_name := ?q, udi_files := insert ?q (udi_files u1)\<rparr>"
  define u3 where "u3 = u2\<lparr>sys_count := Suc (Suc (sys_count u2)), responsefile_name := ?p, udi_files := insert ?p (udi_files u2)\<rparr>"
  define u4 where "u4 = u3\<lparr>sys_count := Suc (Suc (sys_count u3)), eventsfile_name := ?e, udi_files := insert ?e (udi_files u3)\<rparr>"
  have ok: "sys_always_ok u1" "sys_always_ok u2" "sys_always_ok u3"
    using assms(1) by (simp_all add: u1_def u2_def u3_def sys_always_ok_def)
  have f1: "create_fifo E (root_of H) (getpid H) ?L REQUEST_FILE_NAME (\<lambda>path s. s\<lparr>requestfile_name := path\<rparr>) u1 = Ret (0, u2)"
    using ok(1) create_fifo_ok [OF ok(1) assms(2) file_name_no_NUL(1) assms(3,4)]
    by (simp add: sys_files_ok sys_always_ok_def u2_def base_def)
  have f2: "create_fifo E (root_of H) (getpid H) ?L RESPONSE_FILE_NAME (\<lambda>path s. s\<lparr>responsefile_name := path\<rparr>) u2 = Ret (0, u3)"
    using ok(2) create_fifo_ok [OF ok(2) assms(2) file_name_no_NUL(2) assms(3,4)]
    by (simp add: sys_files_ok sys_always_ok_def u3_def base_def)
  have f3: "create_fifo E (root_of H) (getpid H) ?L EVENTS_FILE_NAME (\<lambda>path s. s\<lparr>eventsfile_name := path\<rparr>) u3 = Ret (0, u4)"
    using ok(3) create_fifo_ok [OF ok(3) assms(2) file_names_no_NUL assms(3,4)]
    by (simp add: sys_files_ok sys_always_ok_def u4_def base_def)
  define u0 where "u0 = s\<lparr>sys_count := c, udi_root_dir := root_of H\<rparr>"
  have u0: "udi_root_dir u0 = root_of H" "sys_call u0 = (sys_oracle s c, u0\<lparr>sys_count := Suc c\<rparr>)" "\<not> sys_failed (sys_oracle s c)"
    using assms(1) by (simp_all add: u0_def sys_call_def sys_always_ok_def)
  have "sys_make base (u0\<lparr>sys_count := Suc c, basedir_name := base\<rparr>) = (0, u1)"
    using assms(1) by (simp add: sys_files_ok sys_always_ok_def u0_def u1_def)
  then have "create_udi_filesystem E H s = Ret (0, u4)"
    unfolding create_udi_filesystem_def root u0_def [symmetric] Let_def run_bind.simps u0(1,2) using u0(3) dir f1 f2 f3 by simp
  moreover have "\<exists>c. u4 = s\<lparr>sys_count := c, udi_root_dir := root_of H, basedir_name := base, requestfile_name := ?q, responsefile_name := ?p,
      eventsfile_name := ?e, udi_files := udi_files s \<union> {base, ?q, ?p, ?e}\<rparr>"
    by (cases s) (auto simp: u4_def u3_def u2_def u1_def insert_commute)
  ultimately show ?thesis by auto
qed

section \<open>The preparation\<close>

text \<open>What the table of breakpoints and the reachability of memory depend on.\<close>

lemma bp_view_cong:
  assumes "sys_oracle s' = sys_oracle s" and "mem s' = mem s" and "pages s' = pages s" and "aborting_mem_access s' = aborting_mem_access s"
    and "bp_heap s' = bp_heap s" and "breakpoints s' = breakpoints s"
  shows "bp_table s' = bp_table s" "bp_lookup s' = bp_lookup s" "byte_reachable E a s' = byte_reachable E a s"
    "fresh_alloc h s' = fresh_alloc h s" "sys_always_ok s' = sys_always_ok s" "plain_mem s' = plain_mem s"
proof -
  show l: "bp_lookup s' = bp_lookup s" by (rule ext) (simp add: bp_lookup_def assms)
  show "bp_table s' = bp_table s" "byte_reachable E a s' = byte_reachable E a s"
    "fresh_alloc h s' = fresh_alloc h s" "sys_always_ok s' = sys_always_ok s"
    using assms by (simp_all add: bp_table_def byte_reachable_def fresh_alloc_def sys_always_ok_def)
  show "plain_mem s' = plain_mem s" by (rule ext) (simp only: plain_mem_def assms l)
qed

lemma evt_frame:
  assumes "bp_state.more s' = bp_state.more s"
  shows "evt_state.more s' = evt_state.more s" "udi_files s' = udi_files s" "exit_bp s' = exit_bp s"
  using assms by (cases s; cases s'; simp)+

text \<open>Setting the variable changes nothing that the table needs.\<close>

lemma exit_bp_view:
  "bp_table (s\<lparr>exit_bp := p\<rparr>) = bp_table s" "bp_lookup (s\<lparr>exit_bp := p\<rparr>) = bp_lookup s"
  "byte_reachable E a (s\<lparr>exit_bp := p\<rparr>) = byte_reachable E a s" "plain_mem (s\<lparr>exit_bp := p\<rparr>) = plain_mem s"
  by (rule bp_view_cong; simp)+

lemma install_event_breakpoints_ok:
  assumes t: "bp_table s" and none: "bp_lookup s (env_exit_addr E) = None" and fresh: "fresh_alloc (bp_heap s) s"
    and reach: "byte_reachable E (env_exit_addr E) s"
  shows "\<exists>s'. install_event_breakpoints E s = Ret (0, s') \<and> sys_always_ok s' \<and> bp_lookup s' = (bp_lookup s)(env_exit_addr E \<mapsto> exit_bp s') \<and>
    mem s' = (mem s)(env_exit_addr E := BREAKPOINT_INSN) \<and> evt_state.more s' = evt_state.more s \<and> udi_files s' = udi_files s"
proof -
  let ?a = "env_exit_addr E"
  obtain p u where create: "create_breakpoint ?a s = Ret (p, u)" and u: "bp_table u"
      "bp_lookup u = (if p = NULL then bp_lookup s else (bp_lookup s)(?a \<mapsto> p))"
      "\<exists>h bs. u = s\<lparr>sys_count := Suc (sys_count s), bp_heap := h, breakpoints := bs\<rparr>"
      "bp_lookup s ?a = None \<longrightarrow> p \<noteq> NULL \<longrightarrow> bp_heap u p = Some (new_breakpoint ?a) \<and> bp_removable u ?a"
    by (rule create_breakpoint_table [OF t, of ?a]) simp
  have p: "p \<noteq> NULL" using create_breakpoint_fresh [OF fresh create t none] .
  let ?v = "u\<lparr>exit_bp := p\<rparr>"
  have u': "byte_reachable E ?a u" "mem u = mem s" "evt_state.more u = evt_state.more s" "udi_files u = udi_files s"
    using u(3) reach by (auto simp: byte_reachable_def sys_always_ok_def)
  have v: "bp_table ?v" "bp_lookup ?v ?a = Some p" "byte_reachable E ?a ?v" "bp_heap ?v p = Some (new_breakpoint ?a)"
    using u p u'(1) none by (simp_all add: exit_bp_view)
  obtain w where install: "install_breakpoint E p ?v = Ret (0, w)" and w: "byte_reachable E ?a w"
    using install_breakpoint_ok [OF v(1-3)] by blast
  note i = install_plain [OF v(1,2) install]
  have "install_event_breakpoints E s = Ret (0, w)" using create p install by (simp add: install_event_breakpoints_def)
  moreover have "sys_always_ok w" using w by (simp add: byte_reachable_def)
  moreover have "bp_state.more w = bp_state.more ?v" using i(1) by (simp add: bp_frame_def)
  note f = evt_frame [OF this]
  have "exit_bp w = p" "evt_state.more w = evt_state.more s" "udi_files w = udi_files s" using f u' by simp_all
  moreover have "mem w = (mem s)(?a := BREAKPOINT_INSN)"
    using i(4) [OF refl v(4)] u'(2) by (simp add: new_breakpoint_def)
  moreover have "bp_lookup w = bp_lookup u" using bp_frame_table(2) [OF i(1) v(1)] by (simp add: exit_bp_view)
  ultimately show ?thesis using p u(2) by auto
qed

lemma locate_symbols_ok:
  assumes "sys_always_ok s"
  shows "\<exists>c. locate_symbols dlerr names s = (0, s\<lparr>sys_count := c, located := located s \<union> set names\<rparr>)"
  using assms
proof (induction names arbitrary: s)
  case Nil
  then show ?case by (intro exI [of _ "sys_count s"]) simp
next
  case (Cons n ns)
  let ?s = "s\<lparr>sys_count := Suc (sys_count s), located := insert n (located s)\<rparr>"
  have ok: "sys_always_ok ?s" using Cons.prems by (simp add: sys_always_ok_def)
  have "locate_symbols dlerr (n # ns) s = locate_symbols dlerr ns ?s"
    using Cons.prems by (simp add: sys_call_def sys_always_ok_def)
  then show ?case using Cons.IH [OF ok] by auto
qed

lemma initialize_thread_sync_ok:
  assumes "sys_always_ok s"
  shows "\<exists>c r w. initialize_thread_sync s = (0, s\<lparr>barrier_var := 0, sys_count := c, barrier_read := r, barrier_write := w\<rparr>)"
proof (cases "get_multithread_capable s")
  case True
  then show ?thesis
    using assms by (auto simp: initialize_thread_sync_def sys_pipe_def sys_call_def sys_always_ok_def get_multithread_capable_def)
next
  case False
  then show ?thesis
    by (intro exI [of _ "sys_count s"] exI [of _ "- 1"]) (simp add: initialize_thread_sync_def get_multithread_capable_def)
qed

lemma app_view_cong: "dispositions s' = dispositions s \<Longrightarrow> app_actions s' = app_actions s \<Longrightarrow> app_view s' = app_view s"
  by (rule ext) (simp only: app_view_def)

text \<open>The first four steps: the functions are located, the barrier is made, the handlers are in place.\<close>

lemma prepare_start:
  fixes s :: "'z proc_state_scheme"
  assumes ok: "sys_always_ok s" and pipe: "\<not> pipe_write_failure s"
  shows "\<exists>s1 s2 s3 s4. locate_wrapper_functions (dl_error H) s = (0, s1) \<and> locate_thread_wrapper_functions (dl_error H) s1 = (0, s2) \<and>
    initialize_thread_sync s2 = (0, s3) \<and> setup_signal_handlers s3 = (0, s4) \<and>
    interposed (dispositions s) (sig_mask s) s4 \<and> app_view s4 = dispositions s \<and>
    sys_oracle s4 = sys_oracle s \<and> mem s4 = mem s \<and> pages s4 = pages s \<and> aborting_mem_access s4 = aborting_mem_access s \<and>
    bp_heap s4 = bp_heap s \<and> breakpoints s4 = breakpoints s \<and> udi_files s4 = udi_files s \<and> barrier_var s4 = 0 \<and>
    located s4 = located s \<union> {''sigaction'', ''fork'', ''execve'', ''signal'', ''pthread_create'', ''pthread_exit''}"
proof -
  obtain c1 where "locate_wrapper_functions (dl_error H) s =
      (0, s\<lparr>sys_count := c1, located := located s \<union> set [''sigaction'', ''fork'', ''execve'', ''signal'']\<rparr>)"
    unfolding locate_wrapper_functions_def using locate_symbols_ok [OF ok] by blast
  then obtain s1 where l1: "locate_wrapper_functions (dl_error H) s = (0, s1)"
    and s1: "s1 = s\<lparr>sys_count := c1, located := located s \<union> {''sigaction'', ''fork'', ''execve'', ''signal''}\<rparr>" by simp
  have ok1: "sys_always_ok s1" using ok by (simp add: s1 sys_always_ok_def)
  obtain c2 where "locate_thread_wrapper_functions (dl_error H) s1 =
      (0, s1\<lparr>sys_count := c2, located := located s1 \<union> set [''pthread_create'', ''pthread_exit'']\<rparr>)"
    unfolding locate_thread_wrapper_functions_def using locate_symbols_ok [OF ok1] by blast
  then obtain s2 where l2: "locate_thread_wrapper_functions (dl_error H) s1 = (0, s2)"
    and s2: "s2 = s1\<lparr>sys_count := c2, located := located s1 \<union> {''pthread_create'', ''pthread_exit''}\<rparr>" by simp
  have ok2: "sys_always_ok s2" using ok by (simp add: s1 s2 sys_always_ok_def)
  obtain c3 r w where sync: "initialize_thread_sync s2 = (0, s2\<lparr>barrier_var := 0, sys_count := c3, barrier_read := r, barrier_write := w\<rparr>)"
    using initialize_thread_sync_ok [OF ok2] by blast
  define s3 where "s3 = s2\<lparr>barrier_var := 0, sys_count := c3, barrier_read := r, barrier_write := w\<rparr>"
  have s3: "sys_always_ok s3" "\<not> pipe_write_failure s3" "dispositions s3 = dispositions s" "sig_mask s3 = sig_mask s"
    using ok pipe by (simp_all add: s1 s2 s3_def sys_always_ok_def)
  obtain s4 where inst: "setup_signal_handlers s3 = (0, s4)" "interposed (dispositions s) (sig_mask s) s4" "app_view s4 = dispositions s"
    and s4: "\<exists>c a d as. s4 = s3\<lparr>default_lib_action := a, sys_count := c, dispositions := d, app_actions := as\<rparr>"
    using setup_interposes [OF s3(1,2)] unfolding s3(3,4) by blast
  have "sys_oracle s4 = sys_oracle s" "mem s4 = mem s" "pages s4 = pages s" "aborting_mem_access s4 = aborting_mem_access s"
    "bp_heap s4 = bp_heap s" "breakpoints s4 = breakpoints s" "udi_files s4 = udi_files s" "barrier_var s4 = 0"
    "located s4 = located s \<union> {''sigaction'', ''fork'', ''execve'', ''signal'', ''pthread_create'', ''pthread_exit''}"
    using s4 by (auto simp: s3_def s1 s2)
  then show ?thesis using l1 l2 sync [folded s3_def] inst by blast
qed

lemma prepare_run:
  fixes s :: "'z proc_state_scheme"
  assumes ok: "sys_always_ok s" and pipe: "\<not> pipe_write_failure s" and t: "bp_table s" and none: "bp_lookup s (env_exit_addr E) = None"
    and fresh: "fresh_alloc (bp_heap s) s" and reach: "byte_reachable E (env_exit_addr E) s"
    and root: "NUL \<notin> set (root_of H)" and pid: "0 \<le> getpid H" "getpid H < 2 ^ 31"
  defines "base \<equiv> root_of H @ ''/'' @ pid_text (getpid H)"
  shows "\<exists>s'. init_prepare E H s = Ret (RESULT_SUCCESS, s') \<and>
    dispositions s' = (\<lambda>n. if n \<in> set signals then lib_action else dispositions s n) \<and> app_view s' = dispositions s \<and>
    bp_lookup s' = (bp_lookup s)(env_exit_addr E \<mapsto> exit_bp s') \<and> mem s' = (mem s)(env_exit_addr E := BREAKPOINT_INSN) \<and>
    {''sigaction'', ''fork'', ''execve'', ''signal'', ''pthread_create'', ''pthread_exit''} \<subseteq> located s' \<and> barrier_var s' = 0 \<and>
    basedir_name s' = base \<and> requestfile_name s' = base @ ''/request'' \<and> responsefile_name s' = base @ ''/response'' \<and>
    eventsfile_name s' = base @ ''/events'' \<and> udi_files s' = udi_files s \<union> {base, base @ ''/request'', base @ ''/response'', base @ ''/events''}"
proof -
  obtain s1 s2 s3 s4 where l1: "locate_wrapper_functions (dl_error H) s = (0, s1)" and l2: "locate_thread_wrapper_functions (dl_error H) s1 = (0, s2)"
    and sync: "initialize_thread_sync s2 = (0, s3)" and inst: "setup_signal_handlers s3 = (0, s4)" "interposed (dispositions s) (sig_mask s) s4" "app_view s4 = dispositions s"
    and view: "sys_oracle s4 = sys_oracle s" "mem s4 = mem s" "pages s4 = pages s" "aborting_mem_access s4 = aborting_mem_access s"
      "bp_heap s4 = bp_heap s" "breakpoints s4 = breakpoints s"
    and keep: "udi_files s4 = udi_files s" "barrier_var s4 = 0"
      "located s4 = located s \<union> {''sigaction'', ''fork'', ''execve'', ''signal'', ''pthread_create'', ''pthread_exit''}"
    using prepare_start [OF ok pipe, of H] by blast
  note bp = bp_view_cong [OF view]
  obtain s5 where bps: "install_event_breakpoints E s4 = Ret (0, s5)" and s5: "sys_always_ok s5"
      "bp_lookup s5 = (bp_lookup s)(env_exit_addr E \<mapsto> exit_bp s5)" "mem s5 = (mem s)(env_exit_addr E := BREAKPOINT_INSN)"
      "evt_state.more s5 = evt_state.more s4" "udi_files s5 = udi_files s"
    using install_event_breakpoints_ok [of s4 E] t none fresh reach by (auto simp: bp view keep)
  have more: "dispositions s5 = dispositions s4" "app_actions s5 = app_actions s4" "located s5 = located s4" "barrier_var s5 = barrier_var s4"
    using s5(4) by (cases s5; cases s4; simp)+
  obtain c6 where fs: "create_udi_filesystem E H s5 = Ret (0, s5\<lparr>sys_count := c6, udi_root_dir := root_of H, basedir_name := base,
      requestfile_name := base @ ''/'' @ REQUEST_FILE_NAME, responsefile_name := base @ ''/'' @ RESPONSE_FILE_NAME,
      eventsfile_name := base @ ''/'' @ EVENTS_FILE_NAME,
      udi_files := udi_files s5 \<union> {base, base @ ''/'' @ REQUEST_FILE_NAME, base @ ''/'' @ RESPONSE_FILE_NAME, base @ ''/'' @ EVENTS_FILE_NAME}\<rparr>)"
      (is "_ = Ret (0, ?s6)")
    unfolding base_def using create_udi_filesystem_run [OF s5(1) root pid, of E] by blast
  have "init_prepare E H s = Ret (RESULT_SUCCESS, ?s6)"
    unfolding init_prepare_def using l1 l2 sync inst(1) bps fs by simp
  moreover have "app_view ?s6 = app_view s4" using more by (intro app_view_cong) simp_all
  moreover have "bp_lookup ?s6 = bp_lookup s5" by (rule bp_view_cong) simp_all
  moreover have "dispositions s4 = (\<lambda>n. if n \<in> set signals then lib_action else dispositions s n)"
    using inst(2) by (simp add: interposed_def)
  ultimately show ?thesis
    using inst(3) s5 more keep by (intro exI [of _ ?s6]) (simp add: REQUEST_FILE_NAME_def RESPONSE_FILE_NAME_def EVENTS_FILE_NAME_def)
qed

section \<open>Properties\<close>

text \<open>
  C20. What is in place before the debugger is contacted. When the system reports no error, the function \<^verbatim>\<open>exit\<close> has no
  breakpoint and is readable, the preparation succeeds: every signal of the table is handled by the library, while the application still sees the
  actions it had; the breakpoint at \<^verbatim>\<open>exit\<close> is registered and in memory; the wrapped functions are located; no thread holds the barrier; and the directory of the process, named by the
  root directory and the decimal process identifier, exists with its three pipes, under the names that the
  handshakes will open.
\<close>

theorem initialisation_prepares:
  assumes "sys_always_ok s" and "\<not> pipe_write_failure s" and "bp_table s" and "bp_lookup s (env_exit_addr E) = None"
    and "fresh_alloc (bp_heap s) s" and "byte_reachable E (env_exit_addr E) s"
    and "NUL \<notin> set (root_of H)" and "0 \<le> getpid H" and "getpid H < 2 ^ 31"
  shows "\<exists>s' base. init_prepare E H s = Ret (RESULT_SUCCESS, s') \<and>
    dispositions s' = (\<lambda>n. if n \<in> set signals then lib_action else dispositions s n) \<and> app_view s' = dispositions s \<and>
    bp_lookup s' = (bp_lookup s)(env_exit_addr E \<mapsto> exit_bp s') \<and> mem s' = (mem s)(env_exit_addr E := BREAKPOINT_INSN) \<and>
    {''sigaction'', ''fork'', ''execve'', ''signal'', ''pthread_create'', ''pthread_exit''} \<subseteq> located s' \<and> barrier_var s' = 0 \<and>
    base = root_of H @ ''/'' @ pid_text (getpid H) \<and> read_dec (pid_text (getpid H)) = getpid H \<and>
    basedir_name s' = base \<and> requestfile_name s' = base @ ''/request'' \<and> responsefile_name s' = base @ ''/response'' \<and>
    eventsfile_name s' = base @ ''/events'' \<and> udi_files s' = udi_files s \<union> {base, base @ ''/request'', base @ ''/response'', base @ ''/events''}"
  using prepare_run [OF assms] pid_text_props(3) [OF assms(8,9)] by blast

text \<open>A process without breakpoints in which the function \<^verbatim>\<open>exit\<close> is mapped.\<close>

definition sample_fresh_process :: proc_state where
  "sample_fresh_process = sample_proc_state\<lparr>bp_heap := Map.empty, breakpoints := (\<lambda>_. NULL),
     pages := [0x7f0000001000 \<mapsto> Page True False True], udi_files := {}\<rparr>"

definition sample_host :: host where
  "sample_host = \<lparr>dl_error = (\<lambda>_. ''undefined symbol''), root_env = None, getpid = 4242, junk_set = {}, has_mutexes = True, testing_udirt = False\<rparr>"

theorem initialisation_prepares_witness:
  "\<exists>s'. init_prepare wire_env sample_host sample_fresh_process = Ret (RESULT_SUCCESS, s') \<and> mem s' 0x7f0000001000 = 0xcc \<and>
     basedir_name s' = ''/tmp/udi/4242''"
proof -
  let ?s = sample_fresh_process
  have ok: "sys_always_ok ?s" "\<not> pipe_write_failure ?s"
    using sample_proc_simps(1,6) by (simp_all add: sample_fresh_process_def sys_always_ok_def)
  have "bp_bucket (bp_heap ?s) k (breakpoints ?s k) []" for k by (simp add: sample_fresh_process_def bp_bucket_def)
  then have t: "bp_table ?s" by (auto simp: bp_table_def sample_fresh_process_def)
  have exit: "env_exit_addr wire_env = 0x7f0000001000" using sample_env_ok by (simp add: wire_env_def)
  have none: "bp_lookup ?s (env_exit_addr wire_env) = None"
    by (simp add: bp_lookup_def sample_fresh_process_def find_loop.simps)
  have fresh: "fresh_alloc (bp_heap ?s) ?s" by (simp add: fresh_alloc_def sample_fresh_process_def sample_proc_defs)
  have reach: "byte_reachable wire_env (env_exit_addr wire_env) ?s"
    using ok(1) wire_env_ok(5) by (simp add: byte_reachable_def exit page_align_def) (simp add: sample_fresh_process_def sample_proc_defs)
  have dig: "digit_char 2 = CHR ''2''" "digit_char 4 = CHR ''4''" by (simp_all add: digit_char_def char_of_def bit_iff_odd)
  have root: "root_of sample_host = ''/tmp/udi''" "getpid sample_host = 4242"
    by (simp_all add: root_of_def sample_host_def DEFAULT_UDI_ROOT_DIR_def)
  have ptext: "pid_text 4242 = ''4242''"
    by (simp add: pid_text_def udi_log_integer_def log_digits.simps signed_divide_int_def signed_modulo_int_def dig write_log_def)
  have side: "NUL \<notin> set (root_of sample_host)" "0 \<le> getpid sample_host" "getpid sample_host < 2 ^ 31"
    by (simp_all add: root)
  from initialisation_prepares [OF ok t none fresh reach side] obtain s' where
    "init_prepare wire_env sample_host ?s = Ret (RESULT_SUCCESS, s')" "mem s' = (mem ?s)(env_exit_addr wire_env := BREAKPOINT_INSN)"
    "basedir_name s' = root_of sample_host @ ''/'' @ pid_text (getpid sample_host)" by blast
  then show ?thesis by (intro exI [of _ s']) (simp add: exit root ptext BREAKPOINT_INSN_def)
qed

end
