(* ===== verification/Wrappers.thy ===== *)
theory Wrappers
  imports Process_Init
begin

text \<open>
  The interposed functions that create and end processes and threads (\<^verbatim>\<open>fork\<close> and \<^verbatim>\<open>execve\<close> of \<^verbatim>\<open>udirt-posix-sys.c\<close>,
  \<^verbatim>\<open>pthread_create\<close> and \<^verbatim>\<open>pthread_exit\<close> of \<^verbatim>\<open>udirt-posix-pthreads.c\<close>), as one thread executes them. The other threads act where
  it waits for a sentinel, as in \<open>Signal_Entry\<close>. Functions of the C library answer as the system does.
\<close>

section \<open>Definitions\<close>

subsection \<open>Processes\<close>

text \<open>The loop that waits until this thread owns the control of the process.\<close>

partial_function (option) own_control_loop ::
    "'z proc_state_scheme others_run \<Rightarrow> 'z proc_state_scheme \<Rightarrow> (bool \<times> 'z proc_state_scheme) run option" where
  "own_control_loop sched s =
     (case block_threads sched s of
        Abort \<Rightarrow> Some Abort
      | Stuck \<Rightarrow> None
      | Ret (result, s) \<Rightarrow>
          if result = - 1 then Some (Ret (False, s))
          else if result > 0 then own_control_loop sched s else Some (Ret (True, s)))"

text \<open>
  The child does nothing more. The parent, and the caller of a call that failed, report the fork and serve requests. An error returns -1 and
  leaves the other threads blocked.
\<close>

definition fork_wrapper :: "env \<Rightarrow> 'z proc_state_scheme others_run \<Rightarrow> 'z proc_state_scheme \<Rightarrow> (int \<times> 'z proc_state_scheme) run" where
  "fork_wrapper E sched s =
     (case sys_call s of (r, s) \<Rightarrow>
        let child = (if sys_failed r then - 1 else int (sys_value r)) in
        if child = 0 then Ret (0, s)
        else run_bind (of_option (own_control_loop sched s)) (\<lambda>m.
          run_bind m (\<lambda>(owned, s).
          if \<not> owned then Ret (- 1, s)
          else run_bind (handle_fork_event E (get_user_thread_id s) (word_of_int child) (s\<lparr>errmsg := None\<rparr>)) (\<lambda>(result, s).
            if result \<noteq> RESULT_SUCCESS then Ret (- 1, s)
            else run_bind (wait_and_execute_command E NULL s) (\<lambda>((result, thr), s).
              if result = RESULT_ERROR then Ret (- 1, s)
              else run_bind (release_threads sched s) (\<lambda>(release_result, s).
                Ret (if release_result \<noteq> 0 then - 1 else child, s)))))))"

definition execve_wrapper :: "'z sys_state_scheme \<Rightarrow> int \<times> 'z sys_state_scheme" where
  "execve_wrapper s = (case sys_call s of (r, s) \<Rightarrow> (if sys_failed r then - 1 else int (sys_value r), s))"

subsection \<open>Threads\<close>

text \<open>The read of the control pipe is repeated when it is interrupted.\<close>

partial_function (option) trigger_loop :: "'z sys_state_scheme \<Rightarrow> (int \<times> 'z sys_state_scheme) option" where
  "trigger_loop s =
     (case sys_call s of (r, s) \<Rightarrow>
        if \<not> sys_failed r then Some (RESULT_SUCCESS, s)
        else if sys_errno r = EINTR then trigger_loop s else Some (RESULT_ERROR, s))"

definition handle_thread_create ::
    "env \<Rightarrow> 'z proc_state_scheme others_run \<Rightarrow> u64 \<Rightarrow> 'z proc_state_scheme \<Rightarrow> (int \<times> 'z proc_state_scheme) run" where
  "handle_thread_create E sched creator_thr s =
     (let s = s\<lparr>errmsg := None\<rparr>;
          tid = get_user_thread_id s in
      run_bind (create_thread tid s) (\<lambda>(thr, s).
        if thr = NULL then Ret (RESULT_ERROR, s)
        else run_bind (thread_create_callback E thr s) (\<lambda>(create_result, s).
          if create_result \<noteq> 0 then Ret (RESULT_ERROR, s)
          else run_bind (handle_thread_create_event E creator_thr tid s) (\<lambda>(result, s).
            if result \<noteq> RESULT_SUCCESS then Ret (result, s)
            else run_bind (thread_create_handshake E thr s) (\<lambda>(result, s).
              if result \<noteq> RESULT_SUCCESS then Ret (result, s)
              else (case put_sentinel (barrier_write s) s of (ok, s) \<Rightarrow>
                if \<not> ok then Ret (RESULT_ERROR, s)
                else run_bind (of_option (trigger_loop s)) (\<lambda>(result, s).
                  if result \<noteq> RESULT_SUCCESS then Ret (result, s)
                  else run_bind (sched (At_control thr) s) (\<lambda>s. Ret (RESULT_SUCCESS, s)))))))))"

definition handle_thread_death :: "env \<Rightarrow> 'z proc_state_scheme \<Rightarrow> (int \<times> 'z proc_state_scheme) run" where
  "handle_thread_death E s =
     (let s = s\<lparr>errmsg := None\<rparr>;
          tid = get_user_thread_id s in
      run_bind (find_thread tid s) (\<lambda>thr.
        if thr = NULL then Ret (RESULT_ERROR, s)
        else run_bind (thread_death_callback E thr s) (\<lambda>(death_result, s).
          if death_result \<noteq> 0 then Ret (RESULT_ERROR, s) else handle_thread_death_event E tid s)))"

text \<open>As in the initialisation, a failure to set the signal mask is seen only where it is reported as -1.\<close>

definition report_thread_death ::
    "env \<Rightarrow> nat set \<Rightarrow> 'z proc_state_scheme others_run \<Rightarrow> 'z proc_state_scheme \<Rightarrow> 'z proc_state_scheme run" where
  "report_thread_death E junk sched s =
     (let mask = sig_mask s in
      case setsigmask full_set s of (blocked, s) \<Rightarrow>
        let original_set = (if blocked then mask else junk) in
        if \<not> blocked \<and> \<not> has_pthread_sigmask s then Abort
        else run_bind (get_current_thread s) (\<lambda>thr.
          run_bind (update_thread thr (\<lambda>t. t\<lparr>stack_event_pending := True\<rparr>) s) (\<lambda>s.
          run_bind (block_threads sched s) (\<lambda>(block_result, s).
            if block_result \<noteq> 0 then Abort
            else run_bind (update_thread thr (\<lambda>t. t\<lparr>stack_event_pending := False\<rparr>) s) (\<lambda>s.
              run_bind (handle_thread_death E s) (\<lambda>(death_result, s).
                if death_result \<noteq> RESULT_SUCCESS then Abort
                else run_bind (wait_and_execute_command E NULL (s\<lparr>errmsg := None\<rparr>)) (\<lambda>((request_result, request_thr), s).
                  if request_result = RESULT_ERROR then Abort
                  else run_bind (release_threads sched s) (\<lambda>(release_result, s).
                    Ret (snd (setsigmask original_set s))))))))))"

text \<open>The thread ends after the report; the function of the C library does not return.\<close>

definition pthread_exit_wrapper ::
    "env \<Rightarrow> nat set \<Rightarrow> 'z proc_state_scheme others_run \<Rightarrow> 'z proc_state_scheme \<Rightarrow> 'z proc_state_scheme run" where
  "pthread_exit_wrapper E junk sched s = report_thread_death E junk sched s"

text \<open>The start routine of the application is an argument.\<close>

definition wrapped_start_routine ::
    "env \<Rightarrow> nat set \<Rightarrow> 'z proc_state_scheme others_run \<Rightarrow> ('z proc_state_scheme \<Rightarrow> ('r \<times> 'z proc_state_scheme) run) \<Rightarrow> u64 \<Rightarrow>
       'z proc_state_scheme \<Rightarrow> ('r \<times> 'z proc_state_scheme) run" where
  "wrapped_start_routine E junk sched start_routine creator_tid s =
     run_bind (handle_thread_create E sched creator_tid s) (\<lambda>(create_result, s).
       if create_result \<noteq> RESULT_SUCCESS then Abort
       else run_bind (start_routine s) (\<lambda>(ret_value, s).
         run_bind (report_thread_death E junk sched s) (\<lambda>s. Ret (ret_value, s))))"

definition handshake_with_thread :: "env \<Rightarrow> 'z proc_state_scheme others_run \<Rightarrow> 'z proc_state_scheme \<Rightarrow> (int \<times> 'z proc_state_scheme) run" where
  "handshake_with_thread E sched s =
     (case sys_call (s\<lparr>errmsg := None\<rparr>) of (r, s) \<Rightarrow>
        if sys_failed r then Ret (RESULT_ERROR, s)
        else run_bind (sched At_barrier s) (\<lambda>s.
          run_bind (wait_and_execute_command E NULL s) (\<lambda>((result, request_thr), s).
            if result = RESULT_ERROR then Abort
            else run_bind (release_threads sched s) (\<lambda>(release_result, s). Ret (result, s)))))"

text \<open>
  The context of the new thread is allocated without a check. The pipe made here is closed when the thread is not
  created, and otherwise not used.
\<close>

definition pthread_create_wrapper :: "env \<Rightarrow> 'z proc_state_scheme others_run \<Rightarrow> 'z proc_state_scheme \<Rightarrow> (int \<times> 'z proc_state_scheme) run" where
  "pthread_create_wrapper E sched s =
     run_bind (block_threads sched s) (\<lambda>(block_result, s).
       if block_result < 0 then Abort
       else (case sys_call s of (r, s) \<Rightarrow>
         if sys_failed r then Stuck
         else (case init_control_pipe s of
             (None, s) \<Rightarrow> Ret (int ENOMEM, s)
           | (Some (pr, pw), s) \<Rightarrow>
               (case sys_call s of (r, s) \<Rightarrow>
                  if \<not> sys_failed r
                  then run_bind (handshake_with_thread E sched s) (\<lambda>(handshake_result, s).
                    Ret (if handshake_result \<noteq> RESULT_SUCCESS then int ENOMEM else 0, s))
                  else Ret (int (sys_errno r),
                    if get_multithread_capable s then snd (sys_close pw (snd (sys_close pr s))) else s)))))"

section \<open>Properties\<close>

text \<open>
  C21. The parent of a fork, in a process with any number of threads. When the system makes a child and the thread gets the control of the process, the other threads being blocked, the fork is reported on the events pipe with the
  identifier of the child. The requests that the debugger sends are served in order, one answer for each, as many as come before the first continue request for the process; when the forking thread runs and no other has an event pending, that one
  is granted and its signal sent to the process, the barrier is free again, each other running thread gets one sentinel, and the call returns the identifier of the child. Not covered are
  a child of which the thread loses control meanwhile, and a forking thread that the debugger suspends, which waits in the release.
\<close>

theorem fork_reports_child:
  fixes s :: "'z proc_state_scheme"
  assumes "serializer_ok E" and "builders_ok E" and "sys_oracle s (sys_count s) = SysOk child" and "child \<noteq> 0"
    and "block_threads sched (s\<lparr>sys_count := Suc (sys_count s)\<rparr>) = Ret (0, v)" and "sys_always_ok v"
  shows "\<exists>n. \<forall>reqs p u thr ps g rest.
    serves E NULL (event_written E n UDI_EVENT_PROCESS_FORK (Some (cbor_map_of 1 [(''pid'', CUint32 (of_nat child))])) (v\<lparr>errmsg := None\<rparr>)) reqs p u \<and>
    continue_pending E u ps g rest \<and> may_release u thr ps \<and> some_running u ps \<longrightarrow>
    (\<exists>s' datas. fork_wrapper E sched s = Ret (int child, s') \<and> length datas = Suc (length reqs) \<and>
      out_data s' = woken u thr ps (answer_all E (zip (requests_to_continue u ps reqs) datas)
        ((out_data v)(events_handle v := out_data v (events_handle v) @
          event_bytes E UDI_EVENT_PROCESS_FORK (get_user_thread_id v) (Some (cbor_map_of 1 [(''pid'', CUint32 (of_nat child))]))))) \<and>
      in_data s' = (in_data u)(proc_request_handle u := rest) \<and>
      kills s' = (if exiting u then kills u else kills u @ [g]) \<and> pass_signal s' = (if exiting u then pass_signal u else g) \<and>
      barrier_var s' = (if get_multithread_capable u \<and> barrier_var u = 1 then 0 else barrier_var u) \<and>
      thr_heap s' = thr_heap u \<and> mem s' = mem u)"
proof -
  let ?m = "cbor_map_of 1 [(''pid'', CUint32 (of_nat child))]" and ?v = "v\<lparr>errmsg := None\<rparr>"
  have own: "own_control_loop sched (s\<lparr>sys_count := Suc (sys_count s)\<rparr>) = Some (Ret (True, v))"
    using assms(5) by (subst own_control_loop.simps) simp
  have v: "sys_always_ok ?v" "get_user_thread_id ?v = get_user_thread_id v" "events_handle ?v = events_handle v"
    using assms(6) by (simp_all add: sys_always_ok_def get_user_thread_id_def get_multithread_capable_def)
  obtain n where w: "write_event E (events_handle v) UDI_EVENT_PROCESS_FORK (get_user_thread_id v) (Some ?m) ?v =
      Ret (RESULT_SUCCESS, event_written E n UDI_EVENT_PROCESS_FORK (Some ?m) ?v)"
    using write_event_ok [OF v(1) assms(1), of "events_handle v" UDI_EVENT_PROCESS_FORK "get_user_thread_id v" "Some ?m"]
    by (auto simp: event_written_def v(2))
  have ev: "handle_fork_event E (get_user_thread_id v) (word_of_int (int child)) ?v =
      Ret (RESULT_SUCCESS, event_written E n UDI_EVENT_PROCESS_FORK (Some ?m) ?v)"
  proof -
    have "cbor_build_map E 1 [(''pid'', CUint32 (word_of_int (int child)))] = Ret ?m" using assms(2) by (simp add: cbor_build_map_ok)
    then show ?thesis using w by (simp only: handle_fork_event_def run_bind.simps v(3))
  qed
  let ?e = "event_written E n UDI_EVENT_PROCESS_FORK (Some ?m) ?v"
  let ?d = "(out_data v)(events_handle v := out_data v (events_handle v) @ event_bytes E UDI_EVENT_PROCESS_FORK (get_user_thread_id v) (Some ?m))"
  have e: "sys_always_ok ?e" "out_data ?e = ?d" using v by (simp_all add: event_written_def)
  show ?thesis
  proof (intro exI [of _ n] allI impI; (elim conjE)?)
    fix reqs p u thr ps g rest
    assume a: "serves E NULL ?e reqs p u" "continue_pending E u ps g rest" "may_release u thr ps" "some_running u ps"
    from continue_after_requests [OF a(1) e(1) assms(1,2) a(2)] a(4) obtain x datas where
      wait: "wait_and_execute_command E NULL ?e = Ret ((RESULT_SUCCESS, NULL), x)" and
      x: "length datas = Suc (length reqs)" "out_data x = answer_all E (zip (requests_to_continue u ps reqs) datas) (out_data ?e)"
        "in_data x = (in_data u)(proc_request_handle u := rest)" "kills x = (if exiting u then kills u else kills u @ [g])"
        "pass_signal x = (if exiting u then pass_signal u else g)" and rest: "req_rest x = req_rest u" by auto
    note same = req_rest_threads [OF rest] may_release_rest [OF rest] req_rest_barrier [OF rest] req_restD(1,11) [OF rest]
    have "sys_always_ok u" "thread_list u ps"
      using serves_oracle [OF a(1) e(1) assms(1)] e(1) a(2) by (simp_all add: sys_always_ok_def continue_pending_def)
    then obtain m where rel: "release_threads sched x = Ret (0, released thr ps m x)"
      using release_threads_running [of x ps thr sched] same a(3,4) by auto
    have run: "fork_wrapper E sched s = Ret (int child, released thr ps m x)"
      using assms(3,4) own ev wait rel by (simp add: fork_wrapper_def sys_call_def sys_value_def result_defs)
    show "\<exists>s' datas. fork_wrapper E sched s = Ret (int child, s') \<and> length datas = Suc (length reqs) \<and>
      out_data s' = woken u thr ps (answer_all E (zip (requests_to_continue u ps reqs) datas) ?d) \<and>
      in_data s' = (in_data u)(proc_request_handle u := rest) \<and>
      kills s' = (if exiting u then kills u else kills u @ [g]) \<and> pass_signal s' = (if exiting u then pass_signal u else g) \<and>
      barrier_var s' = (if get_multithread_capable u \<and> barrier_var u = 1 then 0 else barrier_var u) \<and>
      thr_heap s' = thr_heap u \<and> mem s' = mem u"
      by (rule exI [of _ "released thr ps m x"], rule exI [of _ datas])
        (simp only: run released_simps released_out [OF rest] x e(2) same simp_thms)
  qed
qed

theorem fork_reports_child_witness:
  "\<exists>s'. fork_wrapper wire_env (\<lambda>_ u. Ret u) (sample_two_threads 0) = Ret (8, s') \<and> kills s' = [10] \<and> barrier_var s' = 0 \<and>
     out_data s' 5 = event_bytes wire_env UDI_EVENT_PROCESS_FORK 16 (Some (cbor_map_of 1 [(''pid'', CUint32 8)])) \<and> out_data s' 9 = [sentinel]"
proof -
  let ?m = "cbor_map_of 1 [(''pid'', CUint32 (of_nat 8))]"
  let ?s = "sample_two_threads 0" and ?s1 = "(sample_two_threads 0)\<lparr>sys_count := Suc (sys_count (sample_two_threads 0))\<rparr>"
  let ?t = "(new_thread 16 (5, 6))\<lparr>request_handle := 7, response_handle := 8, next_thread := 2\<rparr>"
  let ?t2 = "(new_thread 17 (8, 9))\<lparr>request_handle := 10, response_handle := 11\<rparr>"
  have s: "sys_oracle ?s (sys_count ?s) = SysOk 8" "(8 :: nat) \<noteq> 0" by (simp_all add: sample_two_threads_def sample_proc_defs)
  have s1: "thread_list ?s1 [3, 2]" "get_current_thread ?s1 = Ret 3" "get_multithread_capable ?s1" "barrier_var ?s1 = 0" "sys_always_ok ?s1"
    using sample_two_simps [of 0] by (simp_all add: thread_list_def get_multithread_capable_def)
  obtain k where block: "block_threads (\<lambda>_ u. Ret u) ?s1 = Ret (0, gathering 3 [3, 2] k ?s1)"
    using block_threads_served [OF s1(1,2) _ _ s1(3-5)] by auto
  define v where "v = gathering 3 [3, 2] k ?s1"
  have v: "sys_always_ok v" using s1(5) by (simp add: v_def gathering_def sys_always_ok_def)
  from fork_reports_child [OF wire_env_ok(3,2) s block [folded v_def] v] obtain n where
    run: "\<And>reqs p u thr ps g rest.
      serves wire_env NULL (event_written wire_env n UDI_EVENT_PROCESS_FORK (Some ?m) (v\<lparr>errmsg := None\<rparr>)) reqs p u \<and>
      continue_pending wire_env u ps g rest \<and> may_release u thr ps \<and> some_running u ps \<Longrightarrow>
      \<exists>s' datas. fork_wrapper wire_env (\<lambda>_ u. Ret u) ?s = Ret (int 8, s') \<and> length datas = Suc (length reqs) \<and>
        out_data s' = woken u thr ps (answer_all wire_env (zip (requests_to_continue u ps reqs) datas)
          ((out_data v)(events_handle v := out_data v (events_handle v) @ event_bytes wire_env UDI_EVENT_PROCESS_FORK (get_user_thread_id v) (Some ?m)))) \<and>
        kills s' = (if exiting u then kills u else kills u @ [g]) \<and>
        barrier_var s' = (if get_multithread_capable u \<and> barrier_var u = 1 then 0 else barrier_var u)"
    by (elim exE) (rule that, fast)
  define u where "u = event_written wire_env n UDI_EVENT_PROCESS_FORK (Some ?m) (v\<lparr>errmsg := None\<rparr>)"
  have u: "thr_heap u 3 = Some (?t\<lparr>control_thread := True\<rparr>)" "thr_heap u 2 = Some ?t2" "thread_list u [3, 2]" "continue_bp u = NULL" "proc_request_handle u = 3"
    "proc_response_handle u = 4" "sys_oracle u = (\<lambda>_. SysOk 8)" "in_data u 3 = [1, 0xa1, 0x63, 0x73, 0x69, 0x67, 10]"
    "kills u = []" "\<not> exiting u" "get_multithread_capable u" "barrier_var u = 1" "get_user_thread_id u = 16"
    by (simp_all add: u_def event_written_def v_def gathering_def sample_two_threads_def sample_proc_defs uncontrolled_def
        new_thread_def thread_list_def get_multithread_capable_def get_user_thread_id_def)
  have vo: "out_data v = (\<lambda>_. [])" "events_handle v = 5" "get_user_thread_id v = 16"
    by (simp_all add: v_def gathering_def sample_two_threads_def sample_proc_defs get_multithread_capable_def get_user_thread_id_def)
  have obj: "thread_obj u 3 = ?t\<lparr>control_thread := True\<rparr>" "thread_obj u 2 = ?t2" by (simp_all add: thread_obj_def u)
  have cur: "get_current_thread u = Ret 3"
    unfolding get_current_thread_find find_thread_list [OF u(3)] by (simp add: id_at_def u new_thread_def)
  have c1: "continue_pending wire_env u [3, 2] 10 []"
    by (rule continue_pending_sample [OF u(3,4) _ u(5,7,8)]) (simp add: obj new_thread_def fd_in_range_def FD_SETSIZE_def)
  have r: "some_running u [3, 2]" by (simp add: some_running_def obj new_thread_def)
  have c2: "may_release u 3 [3, 2]" by (simp add: may_release_def cur obj new_thread_def pending_event_def)
  have wk: "woken u 3 [3, 2] d = d(9 := d 9 @ [sentinel])" for d by (simp add: woken_def u obj new_thread_def Let_def)
  have "serves wire_env NULL (event_written wire_env n UDI_EVENT_PROCESS_FORK (Some ?m) (v\<lparr>errmsg := None\<rparr>)) [] NULL u"
    unfolding u_def by (rule serves_none)
  from run [OF conjI [OF this conjI [OF c1 conjI [OF c2 r]]]]
  obtain s' datas where "fork_wrapper wire_env (\<lambda>_ u. Ret u) ?s = Ret (int 8, s')" "length datas = Suc 0" "kills s' = [10]" "barrier_var s' = 0"
    and out: "out_data s' = woken u 3 [3, 2] (answer_all wire_env (zip (requests_to_continue u [3, 2] []) datas)
      ((\<lambda>_. [])(5 := event_bytes wire_env UDI_EVENT_PROCESS_FORK 16 (Some ?m))))"
    by (auto simp: u vo)
  moreover from \<open>length datas = Suc 0\<close> obtain d where "datas = [d]" by (cases datas) auto
  then have "out_data s' 5 = event_bytes wire_env UDI_EVENT_PROCESS_FORK 16 (Some ?m)" "out_data s' 9 = [sentinel]"
    using out by (simp_all add: wk answer_all_def requests_to_continue_def u)
  ultimately show ?thesis by simp
qed

end
