(* ===== verification/Well_Formed.thy ===== *)
theory Well_Formed
  imports Wrappers
begin

text \<open>
  The invariant of the two linked structures of the library, the table of breakpoints and the list of threads, from the single operations
  over every request handler and the loop that serves requests to the whole signal handler. It does not depend on what the
  system answers: every allocation, transfer and memory access may fail.
\<close>

section \<open>The invariant\<close>

definition well_formed :: "'z thr_state_scheme \<Rightarrow> bool" where
  "well_formed s \<longleftrightarrow> bp_table s \<and> (\<exists>ps. obj_chain next_thread (thr_heap s) (threads s) ps \<and> distinct ps)"

lemma well_formed_cong:
  "bp_heap s' = bp_heap s \<Longrightarrow> breakpoints s' = breakpoints s \<Longrightarrow> thr_heap s' = thr_heap s \<Longrightarrow> threads s' = threads s \<Longrightarrow>
     well_formed s' = well_formed s"
  by (simp add: well_formed_def bp_table_def)

lemma well_formed_upd [simp]:
  "well_formed (s\<lparr>sys_count := c\<rparr>) = well_formed s" "well_formed (s\<lparr>errmsg := m\<rparr>) = well_formed s"
  "well_formed (s\<lparr>closed_fds := f\<rparr>) = well_formed s" "well_formed (s\<lparr>udi_files := u\<rparr>) = well_formed s"
  "well_formed (s\<lparr>sig_mask := k\<rparr>) = well_formed s" "well_formed (s\<lparr>num_threads := n\<rparr>) = well_formed s"
  "well_formed (s\<lparr>out_data := d\<rparr>) = well_formed s" "well_formed (s\<lparr>pipe_write_failure := b\<rparr>) = well_formed s"
  "well_formed (s\<lparr>pages := g\<rparr>) = well_formed s" "well_formed (s\<lparr>aborting_mem_access := b\<rparr>) = well_formed s"
  "well_formed (s\<lparr>failed_si_code := e\<rparr>) = well_formed s" "well_formed (udi_set_errmsg E fmt args s) = well_formed s"
  by (simp_all add: well_formed_def bp_table_def udi_set_errmsg_def)

lemma well_formed_upd_req [simp]:
  "well_formed (t\<lparr>continue_bp := p\<rparr>) = well_formed t" "well_formed (t\<lparr>last_bp_address := a\<rparr>) = well_formed t"
  "well_formed (t\<lparr>exiting := b\<rparr>) = well_formed t" "well_formed (t\<lparr>pass_signal := v\<rparr>) = well_formed t"
  "well_formed (t\<lparr>kills := k\<rparr>) = well_formed t"
  for t :: "'z req_state_scheme"
  by (simp_all add: well_formed_def bp_table_def)

lemma thr_more:
  assumes "io_state.more s' = io_state.more s"
  shows "thr_heap s' = thr_heap s" and "threads s' = threads s"
  using assms by (cases s; cases s'; simp)+

lemma well_formed_io:
  assumes "io_rest s' = io_rest s" and "well_formed s"
  shows "well_formed s'"
  using assms(2) well_formed_cong [OF io_rest_eq(4,5) [OF assms(1)] thr_more [OF io_rest_eq(8) [OF assms(1)]]] by simp

lemma well_formed_mem:
  assumes "mem_state.more s' = mem_state.more s"
  shows "well_formed s \<Longrightarrow> well_formed s'"
proof -
  have "bp_heap s' = bp_heap s" "breakpoints s' = breakpoints s" "thr_heap s' = thr_heap s" "threads s' = threads s"
    using assms by (cases s; cases s'; simp)+
  then show "well_formed s \<Longrightarrow> well_formed s'" using well_formed_cong by blast
qed

lemma well_formed_thr:
  assumes "bp_state.more s' = bp_state.more s" and "bp_table s'" and "well_formed s"
  shows "well_formed s'"
proof -
  have "thr_heap s' = thr_heap s" "threads s' = threads s" using assms(1) by (cases s; cases s'; simp)+
  then show ?thesis using assms by (simp add: well_formed_def)
qed

section \<open>Operations\<close>

subsection \<open>Memory and breakpoints\<close>

named_theorems wf_rules \<open>rules for operations that keep the structures well-formed\<close>

lemma read_memory_wf:
  "well_formed s \<Longrightarrow> (\<And>r out s'. well_formed s' \<Longrightarrow> Q (r, out, s')) \<Longrightarrow> yields (read_memory E a n s) Q"
  by (rule yields_I) (auto dest!: memory.read_client dest: well_formed_mem)

lemma write_memory_wf [wf_rules]:
  "well_formed s \<Longrightarrow> length bs \<le> 2 ^ 64 \<Longrightarrow> keeps well_formed (write_memory E a bs s)"
  unfolding keeps_def by (rule yields_I) (auto dest!: memory.write_client dest: well_formed_mem)

lemma frame_wf: "bp_frame p s s' \<Longrightarrow> well_formed s \<Longrightarrow> well_formed s'"
  using bp_frame_table(1) [of p s s'] by (intro well_formed_thr [of s' s]) (simp_all add: bp_frame_def well_formed_def)

lemma well_formed_saved: "well_formed s \<Longrightarrow> bp_heap s p = Some b \<Longrightarrow> length (saved_bytes b) = 8"
  by (auto simp: well_formed_def bp_table_def)

lemma install_breakpoint_wf [wf_rules]:
  assumes "well_formed s"
  shows "keeps well_formed (install_breakpoint E bp s)"
proof -
  have "well_formed s'" if run: "install_breakpoint E bp s = Ret (r, s')" for r s'
  proof -
    obtain b where b: "bp \<noteq> NULL" "bp_heap s bp = Some b"
      using run by (auto simp: install_breakpoint_def run_bind_eq_Ret)
    show ?thesis
    proof (cases "in_memory b")
      case True
      then show ?thesis using run b assms by (simp add: install_breakpoint_def derefI)
    next
      case False
      then show ?thesis
        using install_breakpoint_step(1) [OF b well_formed_saved [OF assms b(2)] False run] assms frame_wf by blast
    qed
  qed
  then show ?thesis by (auto simp: keeps_def intro!: yields_I)
qed

lemma remove_breakpoint_wf:
  assumes "well_formed s" and run: "remove_breakpoint E bp s = Ret (r, s')"
  shows "well_formed s'"
proof -
  obtain b where b: "bp \<noteq> NULL" "bp_heap s bp = Some b"
    using run by (auto simp: remove_breakpoint_def run_bind_eq_Ret)
  show ?thesis
    using remove_breakpoint_step(1) [OF b well_formed_saved [OF assms(1) b(2)] run] assms(1) frame_wf by blast
qed

lemma remove_breakpoint_keeps [wf_rules]: "well_formed s \<Longrightarrow> keeps well_formed (remove_breakpoint E bp s)"
  by (auto simp: keeps_def intro!: yields_I dest: remove_breakpoint_wf)

lemma remove_for_continue_wf [wf_rules]:
  assumes "well_formed s"
  shows "keeps well_formed (remove_breakpoint_for_continue E bp s)"
proof -
  have "well_formed s'" if run: "remove_breakpoint_for_continue E bp s = Ret (r, s')" for r s'
  proof -
    obtain b where b: "bp \<noteq> NULL" "bp_heap s bp = Some b"
      using run by (auto simp: remove_breakpoint_for_continue_def run_bind_eq_Ret)
    show ?thesis
      using remove_for_continue_step [OF b well_formed_saved [OF assms b(2)] run] assms frame_wf by blast
  qed
  then show ?thesis by (auto simp: keeps_def intro!: yields_I)
qed

lemma create_breakpoint_wf [wf_rules]:
  assumes "well_formed s"
  shows "keeps well_formed (create_breakpoint a s)"
proof -
  have "bp_table s" using assms by (simp add: well_formed_def)
  then obtain p s' where run: "create_breakpoint a s = Ret (p, s')" "bp_table s'"
    and s': "\<exists>h bs. s' = s\<lparr>sys_count := Suc (sys_count s), bp_heap := h, breakpoints := bs\<rparr>"
    by (rule create_breakpoint_table)
  have "bp_state.more s' = bp_state.more s" using s' by auto
  then show ?thesis using run assms by (simp add: well_formed_thr)
qed

lemma delete_loop_result:
  assumes "bp_chain h p qs" and "delete_loop h a p prev = Some (t, v)" and "t \<noteq> NULL"
  shows "\<exists>ys zs. qs = ys @ t # zs \<and> bp_addr h t = a \<and> v = (if ys = [] then prev else last ys)"
  using assms
proof (induction qs arbitrary: p prev)
  case Nil
  then show ?case by (subst (asm) delete_loop.simps) auto
next
  case (Cons q qs)
  then obtain b where b: "p = q" "q \<noteq> NULL" "h q = Some b" "bp_chain h (next_breakpoint b) qs"
    by (auto split: option.splits)
  show ?case
  proof (cases "address b = a")
    case True
    then have "t = q" "v = prev" using Cons.prems(2) b by (subst (asm) delete_loop.simps; simp)+
    then show ?thesis using True b by (intro exI [of _ "[]"] exI [of _ qs]) simp
  next
    case False
    then have "delete_loop h a (next_breakpoint b) q = Some (t, v)" using Cons.prems(2) b by (subst (asm) delete_loop.simps) simp
    from Cons.IH [OF b(4) this Cons.prems(3)] obtain ys zs where
      "qs = ys @ t # zs" "bp_addr h t = a" "v = (if ys = [] then q else last ys)" by blast
    then show ?thesis by (intro exI [of _ "q # ys"] exI [of _ zs]) simp
  qed
qed

text \<open>
  The entry that goes away is the one that the table has for the address, also when the breakpoint given is not in the table any more.
\<close>

lemma delete_entry_wf:
  assumes wf: "well_formed s" and "bp_heap s bp = Some b" and "t \<noteq> NULL"
    and loop: "delete_loop (bp_heap s) (address b) (breakpoints s k) (breakpoints s k) = Some (t, v)"
    and k: "k = breakpoint_hash (address b)"
  shows "v = t \<Longrightarrow> well_formed (s\<lparr>breakpoints := (breakpoints s)(k := NULL), bp_heap := (bp_heap s)(t := None)\<rparr>)"
    and "v \<noteq> t \<Longrightarrow> bp_heap s t = Some tb \<Longrightarrow> bp_heap s v = Some vb \<Longrightarrow>
      well_formed (s\<lparr>bp_heap := (bp_heap s)(v \<mapsto> vb\<lparr>next_breakpoint := next_breakpoint tb\<rparr>, t := None)\<rparr>)"
proof -
  have table: "bp_table s" using wf by (simp add: well_formed_def)
  then obtain qs where qs: "bp_bucket (bp_heap s) k (breakpoints s k) qs" unfolding k by (rule bp_tableE [of s "address b"])
  then have chain: "bp_chain (bp_heap s) (breakpoints s k) qs" "distinct qs"
    using distinct_bp_ptrs by (auto simp: bp_bucket_def)
  obtain ys zs where split: "qs = ys @ t # zs" "bp_addr (bp_heap s) t = address b" "v = (if ys = [] then breakpoints s k else last ys)"
    using delete_loop_result [OF chain(1) loop assms(3)] by blast
  obtain tb' where tb': "bp_heap s t = Some tb'" using bp_chain_live [OF chain(1), of t] split(1) by auto
  then have addr: "address tb' = address b" using split(2) by simp
  show "well_formed (s\<lparr>breakpoints := (breakpoints s)(k := NULL), bp_heap := (bp_heap s)(t := None)\<rparr>)" if "v = t"
  proof -
    have "bp_table (s\<lparr>bp_heap := (bp_heap s)(t := None), breakpoints := (breakpoints s)(k := NULL)\<rparr>)"
      using bp_table_drop_bucket(1) [OF table tb', of k] addr k by simp
    then show ?thesis using wf by (simp add: well_formed_def bp_table_def)
  qed
  show "well_formed (s\<lparr>bp_heap := (bp_heap s)(v \<mapsto> vb\<lparr>next_breakpoint := next_breakpoint tb\<rparr>, t := None)\<rparr>)"
    if "v \<noteq> t" "bp_heap s t = Some tb" "bp_heap s v = Some vb"
  proof -
    have ys: "ys \<noteq> []" using that(1) split(1,3) chain(1) by auto
    then have v: "v = last ys" using split(3) by simp
    have "bp_table (s\<lparr>bp_heap := (bp_heap s)(v \<mapsto> vb\<lparr>next_breakpoint := next_breakpoint tb\<rparr>, t := None)\<rparr>)"
      using bp_table_unlink(1) [OF table qs [unfolded split(1)] ys that(2) _ refl, of vb] that(3) v by simp
    then show ?thesis using wf by (simp add: well_formed_def)
  qed
qed

lemma delete_breakpoint_wf [wf_rules]:
  assumes "well_formed s"
  shows "keeps well_formed (delete_breakpoint E bp s)"
proof -
  have "well_formed s'" if run: "delete_breakpoint E bp s = Ret (r, s')" for r s'
  proof -
    obtain r1 s1 where removed: "remove_breakpoint E bp s = Ret (r1, s1)"
      using run by (auto simp: delete_breakpoint_def run_bind_eq_Ret)
    have wf: "well_formed s1" using remove_breakpoint_wf [OF assms removed] .
    show ?thesis
      using run wf by (auto simp: delete_breakpoint_def removed run_bind_eq_Ret Let_def split: if_splits
          intro: delete_entry_wf [OF wf])
  qed
  then show ?thesis by (auto simp: keeps_def intro!: yields_I)
qed

subsection \<open>Threads\<close>

lemma update_thread_wf [wf_rules]:
  assumes "well_formed s" and "\<And>t. next_thread (f t) = next_thread t"
  shows "yields (update_thread thr f s) well_formed"
proof -
  have "well_formed (s\<lparr>thr_heap := (thr_heap s)(thr \<mapsto> f t)\<rparr>)" if t: "thr_heap s thr = Some t" for t
  proof -
    obtain ps where ps: "obj_chain next_thread (thr_heap s) (threads s) ps" "distinct ps" using assms(1) by (auto simp: well_formed_def)
    have "obj_chain next_thread ((thr_heap s)(thr \<mapsto> f t)) (threads s) ps"
      using ps(1) by (rule obj_chain_cong) (use t assms(2) in auto)
    then show ?thesis using ps assms(1) by (auto simp: well_formed_def bp_table_def)
  qed
  then show ?thesis by (auto simp: update_thread_def intro!: yields_deref)
qed

lemma destroy_thread_wf:
  assumes wf: "well_formed s" and run: "destroy_thread thr s = Ret s'"
  shows "well_formed s'"
proof -
  obtain ps where ps: "obj_chain next_thread (thr_heap s) (threads s) ps" "distinct ps" using wf by (auto simp: well_formed_def)
  show ?thesis
  proof (cases "thr \<in> set ps")
    case False
    then obtain l where "destroy_loop (thr_heap s) thr (threads s) (threads s) = Some (NULL, l)"
      using destroy_loop_absent [OF ps(1)] by blast
    then show ?thesis using run wf by (simp add: destroy_thread_def)
  next
    case True
    then obtain ys zs where split: "ps = ys @ thr # zs" by (auto simp: in_set_conv_decomp)
    from destroy_thread_chain [OF ps [unfolded split]] run have "bp_heap s' = bp_heap s" "breakpoints s' = breakpoints s"
      and "if ys = [] then threads s' = NULL else obj_chain next_thread (thr_heap s') (threads s') (ys @ zs)"
      by (auto split: if_splits)
    moreover then have "\<exists>qs. obj_chain next_thread (thr_heap s') (threads s') qs \<and> distinct qs"
      using ps(2) split by (cases "ys = []") (auto intro: exI [of _ "ys @ zs"])
    ultimately show ?thesis using wf by (simp add: well_formed_def bp_table_def)
  qed
qed

interpretation structures: kept "well_formed :: 'z thr_state_scheme \<Rightarrow> bool"
proof unfold_locales
  show "yields (destroy_thread thr s) R" if "well_formed s" "\<And>s'. well_formed s' \<Longrightarrow> R s'" for thr R and s :: "'z thr_state_scheme"
    using that destroy_thread_wf by (blast intro: yields_I)
qed (simp_all add: read_memory_wf)

section \<open>Handlers\<close>

text \<open>How the property passes through the steps of a handler.\<close>

lemma keeps_bind [wf_rules]:
  assumes "keeps I m" and "\<And>r s. I s \<Longrightarrow> keeps I (f r s)"
  shows "keeps I (run_bind m (\<lambda>(r, s). f r s))"
  using assms by (auto simp: keeps_def yields_def)

lemma keeps_pair [wf_rules]: "(\<And>a b. x = (a, b) \<Longrightarrow> keeps I (f a b s)) \<Longrightarrow> keeps I ((case x of (a, b) \<Rightarrow> f a b) s)"
  by (cases x) simp

lemma keeps_if [wf_rules]: "(b \<Longrightarrow> keeps I m) \<Longrightarrow> (\<not> b \<Longrightarrow> keeps I m') \<Longrightarrow> keeps I (if b then m else m')"
  by simp

lemma keeps_state: "yields m I \<Longrightarrow> (\<And>s. I s \<Longrightarrow> keeps I (f s)) \<Longrightarrow> keeps I (run_bind m f)"
  by (auto simp: keeps_def yields_def)

lemma keeps_value: "(\<And>x. m = Ret x \<Longrightarrow> keeps I (f x)) \<Longrightarrow> keeps I (run_bind m f)"
  by (auto simp: keeps_def yields_def run_bind_eq_Ret)

lemma keeps_ends [wf_rules]: "keeps I Abort" "keeps I Stuck" "I s \<Longrightarrow> keeps I (Ret (r, s))"
  by (simp_all add: keeps_def)

lemmas [wf_rules] =
  keeps_value [where m = "of_option x" for x] keeps_value [where m = "deref h p" for h p]
  keeps_value [where m = "find_breakpoint a s" for a s] keeps_value [where m = "thread_at thr s" for thr s]
  keeps_value [where m = "cbor_build_map E n kvs" for E n kvs] keeps_value [where m = "get_thread_id thr s" for thr s]
  keeps_value [where m = "get_thread_context thr s" for thr s] keeps_value [where m = "is_thread_context_valid thr s" for thr s]
  keeps_value [where m = "is_single_step thr s" for thr s] keeps_value [where m = "get_single_step_breakpoint thr s" for thr s]
  keeps_value [where m = "thread_state_item E t" for E t] keeps_value [where m = "get_current_thread s" for s]
  keeps_value [where m = "get_thread_state thr s" for thr s] keeps_value [where m = "find_thread tid s" for tid s]

lemma keeps_update [wf_rules]:
  "well_formed s \<Longrightarrow> (\<And>t. next_thread (g t) = next_thread t) \<Longrightarrow> (\<And>s. well_formed s \<Longrightarrow> keeps well_formed (f s)) \<Longrightarrow>
     keeps well_formed (run_bind (update_thread thr g s) f)"
  using update_thread_wf [of s g thr] by (auto simp: keeps_def yields_def)

lemma keeps_read_memory [wf_rules]:
  "well_formed s \<Longrightarrow> (\<And>r out s'. well_formed s' \<Longrightarrow> keeps well_formed (f r out s')) \<Longrightarrow>
     keeps well_formed (run_bind (read_memory E a n s) (\<lambda>(r, out, s'). f r out s'))"
  by (auto simp: keeps_def intro!: read_memory_wf)

lemma keeps_sys_call [wf_rules]:
  "well_formed s \<Longrightarrow> (\<And>r s'. well_formed s' \<Longrightarrow> keeps well_formed (f r s')) \<Longrightarrow> keeps well_formed (case sys_call s of (r, s') \<Rightarrow> f r s')"
  by (simp add: sys_call_def)

lemma successor_wf [wf_rules]: "well_formed s \<Longrightarrow> keeps well_formed (get_ctf_successor E pc c s)"
  unfolding keeps_def by (rule structures.successor) simp_all

lemma keeps_run: "(\<And>r s'. m = Ret (r, s') \<Longrightarrow> I s') \<Longrightarrow> keeps I m"
  by (auto simp: keeps_def intro!: yields_I)

lemma write_cbor_item_wf [wf_rules]: "well_formed s \<Longrightarrow> keeps well_formed (write_cbor_item E fd item name s)"
  by (rule keeps_run) (auto dest!: write_cbor_item_step simp: out_step_def intro: well_formed_io)

lemma write_response_wf [wf_rules]: "well_formed s \<Longrightarrow> keeps well_formed (write_response E fd rt code data s)"
  by (rule keeps_run) (auto dest!: write_response_prefix simp: out_step_def intro: well_formed_io)

lemma read_request_data_wf [wf_rules]:
  "quiet_config config \<Longrightarrow> well_formed s \<Longrightarrow> keeps well_formed (read_request_data E fd config d s)"
  by (rule keeps_run) (auto dest!: read_request_data_frame simp: consumed_def intro: well_formed_io)

lemma read_request_type_wf [wf_rules]: "well_formed s \<Longrightarrow> keeps well_formed (read_request_type E fd type s)"
  by (rule keeps_run) (auto dest!: read_request_type_frame simp: consumed_def intro: well_formed_io)

lemma register_wf [wf_rules]:
  assumes "well_formed s"
  shows "(\<And>r v s'. well_formed s' \<Longrightarrow> keeps well_formed (f r v s')) \<Longrightarrow>
      keeps well_formed (case get_register E reg c s of ((r, v), s') \<Rightarrow> f r v s')"
    and "(\<And>r d s'. well_formed s' \<Longrightarrow> keeps well_formed (g r d s')) \<Longrightarrow>
      keeps well_formed (case set_register E reg w c s of ((r, d), s') \<Rightarrow> g r d s')"
proof -
  have "well_formed (snd (validate_register E reg s))"
    using assms by (simp add: validate_register_def validate_register_for_def Let_def)
  then show "(\<And>r v s'. well_formed s' \<Longrightarrow> keeps well_formed (f r v s')) \<Longrightarrow>
      keeps well_formed (case get_register E reg c s of ((r, v), s') \<Rightarrow> f r v s')"
    and "(\<And>r d s'. well_formed s' \<Longrightarrow> keeps well_formed (g r d s')) \<Longrightarrow>
      keeps well_formed (case set_register E reg w c s of ((r, d), s') \<Rightarrow> g r d s')"
    by (auto simp: get_register_def set_register_def Let_def split: prod.split)
qed

lemmas setter_defs = set_thread_context_def set_thread_state_def set_single_step_def set_single_step_breakpoint_def

lemma breakpoint_handlers_wf:
  assumes "well_formed s"
  shows "keeps well_formed (breakpoint_create_handler E req_fd fd s)" and "keeps well_formed (breakpoint_install_handler E req_fd fd s)"
    and "keeps well_formed (breakpoint_remove_handler E req_fd fd s)" and "keeps well_formed (breakpoint_delete_handler E req_fd fd s)"
  unfolding breakpoint_create_handler_def breakpoint_install_handler_def breakpoint_remove_handler_def breakpoint_delete_handler_def
    read_breakpoint_def read_breakpoint_addr_def write_response_no_data_def
  by (intro wf_rules breakpoint_quiet assms; simp)+

lemma memory_handlers_wf:
  assumes "well_formed s"
  shows "keeps well_formed (read_handler E req_fd fd s)" and "keeps well_formed (write_handler E req_fd fd s)"
  unfolding read_handler_def write_handler_def write_response_no_data_def Let_def
  by (intro wf_rules quiet_configs request_bytes_length assms; simp)+

lemma state_handler_wf: "well_formed s \<Longrightarrow> keeps well_formed (state_handler E req_fd fd s)"
  unfolding state_handler_def Let_def by (intro keeps_value write_response_wf)

lemma thread_handlers_wf:
  assumes "well_formed s"
  shows "keeps well_formed (read_register_handler E req_fd fd thr s)" and "keeps well_formed (write_register_handler E req_fd fd thr s)"
    and "keeps well_formed (thr_state_handler E req_fd fd thr s)" and "keeps well_formed (next_instr_handler E req_fd fd thr s)"
    and "keeps well_formed (thr_suspend_handler E req_fd fd thr s)" and "keeps well_formed (thr_resume_handler E req_fd fd thr s)"
    and "keeps well_formed (single_step_handler E req_fd fd thr s)"
  unfolding read_register_handler_def write_register_handler_def thr_state_handler_def next_instr_handler_def thr_suspend_handler_def
    thr_resume_handler_def single_step_handler_def setter_defs write_response_no_data_def
  by (intro wf_rules quiet_configs assms; simp)+

lemma post_continue_hook_wf [simp]: "well_formed (post_continue_hook v s) = well_formed s"
  by (simp add: post_continue_hook_def sys_call_def)

lemma continue_handler_wf:
  assumes "well_formed s"
  shows "keeps well_formed (continue_handler E req_fd fd s)"
proof -
  have install: "yields (if continue_bp t \<noteq> NULL
      then run_bind (install_breakpoint E (continue_bp t) t) (\<lambda>(install_result, s). Ret s) else Ret t) well_formed"
    if "well_formed t" for t :: "'a req_state_scheme"
    using that by (auto intro!: keeps_D [OF install_breakpoint_wf])
  have reap: "keeps well_formed (if get_multithread_capable t
      then run_bind (of_option (reap_loop E (get_thread_list t) t)) (\<lambda>r. r) else Ret (0, t))"
    if "well_formed t" for t :: "'a req_state_scheme"
    using that structures.reaping [OF _ that] by (auto simp: keeps_def intro!: yields_of_option)
  show ?thesis
    unfolding continue_handler_def write_response_no_data_def
    by (intro wf_rules keeps_state [OF install] reap continue_quiet assms; simp)
qed

section \<open>Serving requests\<close>

lemma finish_request_wf [wf_rules]: "well_formed s \<Longrightarrow> keeps well_formed (finish_request E fd type r s)"
  unfolding finish_request_def write_error_response_def by (intro wf_rules; simp)

lemma process_handlers_wf: "h \<in> set request_handlers \<Longrightarrow> well_formed s \<Longrightarrow> keeps well_formed (h E req_fd fd s)"
  by (auto simp: request_handlers_def invalid_handler_def continue_handler_wf memory_handlers_wf state_handler_wf breakpoint_handlers_wf)

lemma thr_handlers_wf: "h \<in> set thr_request_handlers \<Longrightarrow> well_formed s \<Longrightarrow> keeps well_formed (h E req_fd fd thr s)"
  by (auto simp: thr_request_handlers_def thr_invalid_handler_def thread_handlers_wf)

lemma process_request_wf [wf_rules]: "well_formed s \<Longrightarrow> keeps well_formed (handle_process_request E req_fd fd type s)"
  unfolding handle_process_request_def by (intro wf_rules process_handlers_wf nth_mem; assumption)

lemma thread_request_wf [wf_rules]: "well_formed s \<Longrightarrow> keeps well_formed (handle_thread_request E req_fd fd thr type s)"
  unfolding handle_thread_request_def by (intro wf_rules thr_handlers_wf nth_mem; assumption)

lemma execute_request_wf: "well_formed s \<Longrightarrow> keeps well_formed (execute_request E thr s)"
  unfolding execute_request_def Let_def by (intro wf_rules; assumption)

lemma block_for_request_wf: "block_for_request thr s = Ret (x, s') \<Longrightarrow> well_formed s \<Longrightarrow> well_formed s'"
  by (auto dest: block_for_request_count)

lemma served_wf: "served E thr s reqs res s' \<Longrightarrow> well_formed s \<Longrightarrow> well_formed s'"
proof (induction rule: served.induct)
  case (served_wait_failed thr s r thr' s1)
  then show ?case using block_for_request_wf by fastforce
next
  case (served_last thr s thr' s1 r t s2)
  then show ?case using block_for_request_wf execute_request_wf [of s1 E thr'] by (fastforce simp: keeps_def yields_def)
next
  case (served_more thr s thr' s1 r t s2 reqs res s')
  then show ?case using block_for_request_wf execute_request_wf [of s1 E thr'] by (fastforce simp: keeps_def yields_def)
qed

lemma wait_and_execute_wf [wf_rules]: "well_formed s \<Longrightarrow> keeps well_formed (wait_and_execute_command E thr s)"
  by (rule keeps_run) (auto simp: wait_and_execute_served intro: served_wf)

section \<open>Events\<close>

lemma write_event_wf [wf_rules]: "well_formed s \<Longrightarrow> keeps well_formed (write_event E fd event_type tid data s)"
  by (cases data) (simp_all add: write_event_def, (intro wf_rules; simp)+)

lemma set_in_memory_wf: "well_formed s \<Longrightarrow> yields (set_in_memory p v s) well_formed"
  by (auto simp: set_in_memory_def intro!: yields_deref frame_wf [OF set_in_memory_step(2)])

lemmas event_defs = handle_unknown_event_def handle_error_event_def handle_exit_event_def handle_fork_event_def
  handle_thread_create_event_def handle_thread_death_event_def write_event_no_data_def

lemma reinstall_original_wf [wf_rules]:
  assumes "well_formed s"
  shows "keeps well_formed (reinstall_original E r s)"
proof -
  have marked: "yields (set_in_memory p v (s\<lparr>last_bp_address := 0\<rparr>)) well_formed" for p v using assms by (simp add: set_in_memory_wf)
  show ?thesis
    unfolding reinstall_original_def Let_def
    by (intro wf_rules keeps_state [OF marked] assms; simp add: assms)
qed

lemma continue_breakpoint_hit_wf [wf_rules]: "well_formed s \<Longrightarrow> keeps well_formed (continue_breakpoint_hit E thr bp s)"
  unfolding continue_breakpoint_hit_def Let_def event_defs by (intro wf_rules; simp)

lemma single_step_hit_wf [wf_rules]: "well_formed s \<Longrightarrow> keeps well_formed (single_step_hit E thr bp s)"
  unfolding single_step_hit_def event_defs setter_defs by (intro wf_rules; simp)

lemma exit_breakpoint_wf [wf_rules]: "well_formed s \<Longrightarrow> keeps well_formed (handle_event_breakpoint E bp c s)"
  unfolding handle_event_breakpoint_def handle_exit_breakpoint_def get_exit_argument_def WORDSIZE_def event_defs Let_def
  by (simp; intro conjI impI wf_rules; simp)

lemma user_breakpoint_hit_wf [wf_rules]: "well_formed s \<Longrightarrow> keeps well_formed (user_breakpoint_hit E thr bp c w s)"
  unfolding user_breakpoint_hit_def Let_def by (intro wf_rules; simp)

lemma decode_trap_wf [wf_rules]:
  assumes "well_formed s"
  shows "keeps well_formed (decode_trap E thr c w s)"
proof -
  have step: "yields (run_bind (get_thread_context thr t) (\<lambda>tc. set_thread_context thr (rewind_pc tc) t)) well_formed"
    if "well_formed t" for t :: "'a evt_state_scheme"
    unfolding set_thread_context_def yields_simps by (rule yields_any, rule update_thread_wf [OF that]) simp
  have rewound: "yields (if thr \<noteq> NULL then run_bind (get_thread_context thr t) (\<lambda>tc. set_thread_context thr (rewind_pc tc) t) else Ret t) well_formed"
    if "well_formed t" for t :: "'a evt_state_scheme"
    using step [OF that] that by (simp only: split: if_split) simp
  show ?thesis
    unfolding decode_trap_def decode_breakpoint_def Let_def
    by (intro wf_rules keeps_state [OF rewound] keeps_value assms; assumption)
qed

lemma arm_single_step_wf [wf_rules]:
  assumes "well_formed s"
  shows "keeps well_formed (arm_single_step E thr c r s)"
proof -
  have owned: "well_formed (t\<lparr>bp_heap := (bp_heap t)(p \<mapsto> b\<lparr>bp_thread := thr\<rparr>)\<rparr>)"
    if "well_formed t" "bp_heap t p = Some b" for t :: "'a evt_state_scheme" and p b
  proof -
    let ?h = "(bp_heap t)(p \<mapsto> b\<lparr>bp_thread := thr\<rparr>)"
    have "bp_addr ?h = bp_addr (bp_heap t)" using that(2) by (auto simp: bp_addr_def fun_eq_iff)
    moreover have "bp_chain ?h q qs" if "bp_chain (bp_heap t) q qs" for q qs
      using that by (rule bp_chain_cong) (use \<open>bp_heap t p = Some b\<close> in auto)
    ultimately show ?thesis using that unfolding well_formed_def bp_table_def bp_bucket_def by (fastforce split: if_splits)
  qed
  show ?thesis
    unfolding arm_single_step_def setter_defs Let_def
    by (intro wf_rules keeps_value assms owned; simp)
qed

lemma memory_event_wf: "decode_memory_access_event E code s = (x, s') \<Longrightarrow> well_formed s \<Longrightarrow> well_formed s'"
  by (auto simp: decode_memory_access_event_def abort_mem_access_def mprotect_all_def sys_call_def Let_def split: if_splits option.splits prod.splits)

section \<open>Blocking and releasing\<close>

lemma well_formed_kills [simp]: "well_formed (s\<lparr>thread_kills := k\<rparr>) = well_formed s" for s :: "'z proc_state_scheme"
  by (simp add: well_formed_def bp_table_def)

lemma suspend_loop_wf:
  fixes s :: "'z proc_state_scheme"
  assumes "suspend_loop thr iter n s = Some m" and "well_formed s"
  shows "keeps well_formed m"
proof -
  define P where "P = (\<lambda>(thr :: ptr) (iter :: ptr) (n :: nat) (s :: 'z proc_state_scheme) (m :: (nat \<times> 'z proc_state_scheme) run).
    well_formed s \<longrightarrow> keeps well_formed m)"
  have marked: "well_formed (s\<lparr>thr_heap := (thr_heap s)(p \<mapsto> t\<lparr>control_thread := False\<rparr>)\<rparr>)"
    if "well_formed s" "p \<noteq> NULL" "thr_heap s p = Some t" for s :: "'z proc_state_scheme" and p t
    using yields_D [OF update_thread_wf [OF that(1), where f = "\<lambda>t. t\<lparr>control_thread := False\<rparr>" and thr = p]] that
    by (simp add: update_thread_def derefI)
  have "P thr iter n s m"
  proof (rule suspend_loop.raw_induct [where P = P, OF _ assms(1)])
    fix loop :: "ptr \<Rightarrow> ptr \<Rightarrow> nat \<Rightarrow> 'z proc_state_scheme \<Rightarrow> (nat \<times> 'z proc_state_scheme) run option" and thr iter n s m
    assume IH: "\<And>thr iter n s m. loop thr iter n s = Some m \<Longrightarrow> P thr iter n s m"
      and run: "(if iter = NULL then Some (Ret (n, s))
      else (case thr_heap s iter of
        None \<Rightarrow> None
      | Some t \<Rightarrow>
          if iter = thr then loop thr (next_thread t) n s
          else
            let s = s\<lparr>thr_heap := (thr_heap s)(iter \<mapsto> t\<lparr>control_thread := False\<rparr>)\<rparr> in
            if ts t = UDI_TS_SUSPENDED then loop thr (next_thread t) n s
            else (case sys_pthread_kill (thr_id t) THREAD_SUSPEND_SIGNAL s of (ok, s) \<Rightarrow>
              if \<not> ok then Some Abort else loop thr (next_thread t) (Suc n) s))) = Some m"
    show "P thr iter n s m"
      using run IH marked unfolding P_def
      by (fastforce simp: sys_pthread_kill_def sys_call_def Let_def keeps_def split: if_splits option.splits prod.splits)
  qed
  then show ?thesis using assms(2) by (simp add: P_def)
qed

lemma write_sentinel_wf: "well_formed s \<Longrightarrow> yields (write_sentinel fd s) well_formed"
  by (simp add: write_sentinel_def put_sentinel_def sys_call_def)

lemma release_loop_wf:
  fixes s :: "'z thr_state_scheme"
  assumes "release_loop thr iter s = Some m" and "well_formed s"
  shows "yields m well_formed"
proof -
  define P where "P = (\<lambda>(thr :: ptr) (iter :: ptr) (s :: 'z thr_state_scheme) (m :: 'z thr_state_scheme run). well_formed s \<longrightarrow> yields m well_formed)"
  have sent: "well_formed u" if "write_sentinel fd s = Ret u" "well_formed s" for fd and s u :: "'z thr_state_scheme"
    using yields_D [OF write_sentinel_wf [OF that(2)] that(1)] .
  have "P thr iter s m"
  proof (rule release_loop.raw_induct [where P = P, OF _ assms(1)])
    fix loop :: "ptr \<Rightarrow> ptr \<Rightarrow> 'z thr_state_scheme \<Rightarrow> 'z thr_state_scheme run option" and thr iter s m
    assume IH: "\<And>thr iter s m. loop thr iter s = Some m \<Longrightarrow> P thr iter s m"
      and run: "(if iter = NULL then Some (Ret s)
      else (case thr_heap s iter of
        None \<Rightarrow> None
      | Some t \<Rightarrow>
          if iter \<noteq> thr \<and> ts t = UDI_TS_RUNNING
          then (case write_sentinel (control_write t) s of
              Ret s \<Rightarrow> loop thr (next_thread t) s
            | Abort \<Rightarrow> Some Abort
            | Stuck \<Rightarrow> None)
          else loop thr (next_thread t) s)) = Some m"
    show "P thr iter s m"
      using run IH sent unfolding P_def by (auto split: if_splits option.splits run.splits)
  qed
  then show ?thesis using assms(2) by (simp add: P_def)
qed

text \<open>What is asked of the other threads: where this thread waits they keep the structures well-formed.\<close>

definition others_keep :: "'z proc_state_scheme others_run \<Rightarrow> bool" where
  "others_keep sched \<longleftrightarrow> (\<forall>w s. well_formed s \<longrightarrow> yields (sched w s) well_formed)"

lemma well_formed_upd_proc [simp]:
  "well_formed (t\<lparr>barrier_var := n\<rparr>) = well_formed t" "well_formed (t\<lparr>app_calls := a\<rparr>) = well_formed t"
  for t :: "'z proc_state_scheme"
  by (simp_all add: well_formed_def bp_table_def)

text \<open>The steps that give back only the state.\<close>

lemma step_bind: "yields m well_formed \<Longrightarrow> (\<And>s. well_formed s \<Longrightarrow> yields (f s) I) \<Longrightarrow> yields (run_bind m f) I"
  unfolding yields_simps by (rule yields_weaken)

lemma step_others: "others_keep sched \<Longrightarrow> well_formed s \<Longrightarrow> yields (sched w s) well_formed"
  by (simp add: others_keep_def)

lemma collect_sentinels_wf: "others_keep sched \<Longrightarrow> well_formed s \<Longrightarrow> yields (collect_sentinels sched n s) well_formed"
proof (induction n arbitrary: s)
  case (Suc n)
  then show ?case unfolding collect_sentinels.simps by (intro step_bind step_others [OF Suc.prems(1)]) simp_all
qed simp

lemma suspend_others_wf:
  assumes "others_keep sched" and "well_formed s"
  shows "yields (run_bind (of_option (suspend_loop thr (get_thread_list s) 0 s)) (\<lambda>m.
    run_bind m (\<lambda>(num_suspended, s). collect_sentinels sched num_suspended s))) well_formed"
proof -
  have "yields (run_bind m (\<lambda>(n, s). collect_sentinels sched n s)) well_formed"
    if "suspend_loop thr (get_thread_list s) 0 s = Some m" for m
    unfolding yields_simps by (rule keeps_D [OF suspend_loop_wf [OF that assms(2)]]) (simp add: collect_sentinels_wf [OF assms(1)])
  then show ?thesis unfolding yields_simps(4) [of "of_option m" for m] by (rule yields_of_option)
qed

lemma block_threads_wf [wf_rules]:
  assumes "others_keep sched" and "well_formed s"
  shows "keeps well_formed (block_threads sched s)"
proof -
  have gathered: "yields
      (if barrier_var s = 0
       then run_bind (update_thread thr (\<lambda>t. t\<lparr>control_thread := True\<rparr>) (s\<lparr>barrier_var := 1\<rparr>)) (\<lambda>s.
         run_bind (of_option (suspend_loop thr (get_thread_list s) 0 s)) (\<lambda>m.
         run_bind m (\<lambda>(num_suspended, s). collect_sentinels sched num_suspended s)))
       else run_bind (write_sentinel (barrier_write s) s) (\<lambda>s.
         run_bind (update_thread thr (\<lambda>t. t\<lparr>suspend_pending := st_signal (event_state t) \<noteq> THREAD_SUSPEND_SIGNAL\<rparr>) s) (\<lambda>s.
         sched (At_control thr) s))) well_formed" for thr
  proof (cases "barrier_var s = 0")
    case True
    show ?thesis
      unfolding if_P [OF True] by (rule step_bind [OF update_thread_wf suspend_others_wf [OF assms(1)]]) (simp_all add: assms)
  next
    case False
    show ?thesis
      unfolding if_not_P [OF False]
      by (intro step_bind update_thread_wf write_sentinel_wf step_others [OF assms(1)]) (simp_all add: assms)
  qed
  show ?thesis
    unfolding block_threads_def by (intro wf_rules keeps_state [OF gathered]; simp add: assms)
qed

lemma release_all_wf [wf_rules]:
  fixes f :: "'z thr_state_scheme \<Rightarrow> ('a \<times> 'z thr_state_scheme) run"
  assumes "well_formed s" and "\<And>s. well_formed s \<Longrightarrow> keeps well_formed (f s)"
  shows "keeps well_formed (run_bind (of_option (release_loop thr iter s)) (\<lambda>m. run_bind m f))"
  by (rule keeps_value, rule keeps_state) (auto intro: release_loop_wf [OF _ assms(1)] assms(2))

lemma sched_wf:
  fixes f :: "'z proc_state_scheme \<Rightarrow> ('a \<times> 'z proc_state_scheme) run"
  assumes "others_keep sched" and "well_formed s" and "\<And>s. well_formed s \<Longrightarrow> keeps well_formed (f s)"
  shows "keeps well_formed (run_bind (sched w s) f)"
  using keeps_state [OF step_others [OF assms(1,2)]] assms(3) by blast

lemma keeps_maybe_update [wf_rules]:
  fixes f :: "'z thr_state_scheme \<Rightarrow> ('a \<times> 'z thr_state_scheme) run"
  assumes "well_formed s" and "\<And>t. next_thread (g t) = next_thread t" and "\<And>s. well_formed s \<Longrightarrow> keeps well_formed (f s)"
  shows "keeps well_formed (run_bind (if b then update_thread thr g s else Ret s) f)"
  using keeps_update [of s g f thr] assms by simp

lemma keeps_write_sentinel [wf_rules]:
  fixes f :: "'z thr_state_scheme \<Rightarrow> ('a \<times> 'z thr_state_scheme) run"
  assumes "well_formed s" and "\<And>s. well_formed s \<Longrightarrow> keeps well_formed (f s)"
  shows "keeps well_formed (run_bind (write_sentinel fd s) f)"
  using keeps_state [OF write_sentinel_wf [OF assms(1)]] assms(2) by blast

lemma keeps_maybe_sched:
  fixes f :: "'z proc_state_scheme \<Rightarrow> ('a \<times> 'z proc_state_scheme) run"
  assumes "others_keep sched" and "well_formed s" and "\<And>s. well_formed s \<Longrightarrow> keeps well_formed (f s)"
  shows "keeps well_formed (run_bind (if b then sched w s else Ret s) f)"
  using sched_wf [of sched s f w] assms by simp

lemma release_threads_wf [wf_rules]:
  assumes "others_keep sched" and "well_formed s"
  shows "keeps well_formed (release_threads sched s)"
  unfolding release_threads_def Let_def
  by (intro wf_rules keeps_maybe_sched [OF assms(1)]
      keeps_value [where m = "if b then run_bind (get_thread_state thr s) g else Ret False" for b thr s g]; simp add: assms)

section \<open>The signal handler\<close>

lemma keeps_memory_event [wf_rules]:
  "well_formed s \<Longrightarrow> (\<And>r w a s'. well_formed s' \<Longrightarrow> keeps well_formed (f r w a s')) \<Longrightarrow>
     keeps well_formed (case decode_memory_access_event E code s of ((r, w, a), s') \<Rightarrow> f r w a s')"
  by (cases "decode_memory_access_event E code s") (auto dest: memory_event_wf)

lemma decode_event_wf [wf_rules]: "well_formed s \<Longrightarrow> keeps well_formed (decode_event E label thr signum info c s)"
  unfolding decode_event_def event_defs by (intro wf_rules; assumption)

lemmas saving_defs = save_event_def save_context_def invalidate_context_def clear_signal_def

lemma serve_event_wf [wf_rules]:
  assumes "others_keep sched" and "well_formed s"
  shows "keeps well_formed (serve_event E label sched thr signum info c s)"
proof -
  have reported: "yields (if r \<noteq> RESULT_SUCCESS
        then run_bind (handle_error_event E (get_user_thread_id t) t) (\<lambda>(error_result, s). if error_result \<noteq> RESULT_SUCCESS then Abort else Ret s)
        else Ret t) well_formed" if "well_formed t" for r t
  proof -
    have "keeps well_formed (handle_error_event E (get_user_thread_id t) t)"
      unfolding event_defs by (intro wf_rules that)
    then show ?thesis using that by (auto intro!: keeps_D)
  qed
  have released: "yields (if r = RESULT_ERROR then Abort
        else if r = RESULT_SUCCESS \<and> \<not> single_thread_executing t then run_bind (release_threads sched t) (\<lambda>(r, s). Ret s)
        else Ret t) well_formed" if "well_formed t" for r t
    using that by (auto intro!: keeps_D [OF release_threads_wf [OF assms(1)]])
  show ?thesis
    unfolding serve_event_def saving_defs
    by (intro wf_rules keeps_state [OF reported] keeps_state [OF released] assms; assumption?; simp?)
qed

lemma app_signal_handler_wf: "well_formed s \<Longrightarrow> yields (app_signal_handler junk signum s) well_formed"
  by (auto simp: app_signal_handler_def Let_def setsigmask_def sys_call_def well_formed_def bp_table_def
      split: option.splits prod.splits if_splits sig_handler.splits)

lemma signal_entry_wf:
  assumes "others_keep sched" and "well_formed s"
  shows "keeps well_formed (signal_entry_impl E label junk sched signum info c s)"
proof -
  have passed: "yields (app_signal_handler junk signum t) well_formed" if "well_formed t" for t :: "'a proc_state_scheme"
    by (rule app_signal_handler_wf [OF that])
  have start: "well_formed (s\<lparr>errmsg := None\<rparr>)" "well_formed (s\<lparr>errmsg := None, pipe_write_failure := False\<rparr>)" using assms(2) by simp_all
  show ?thesis
    unfolding signal_entry_impl_def Let_def saving_defs
    by (intro wf_rules keeps_state [OF passed] start
        keeps_value [where m = "if b then Ret True else run_bind (thread_at thr s) g" for b thr s g]; simp add: assms)
qed

section \<open>The wrappers\<close>

lemma create_thread_table:
  assumes "create_thread tid s = Ret (p, s')"
  shows "bp_table s' = bp_table s"
  using assms alloc_ptr_state [of "thr_heap s" s]
  by (auto simp: create_thread_def create_thread_struct_def link_thread_def init_control_pipe_def sys_pipe_def sys_call_def bp_table_def Let_def
      run_bind_eq_Ret split: prod.splits option.splits if_splits)

lemma create_thread_wf [wf_rules]:
  assumes wf: "well_formed s"
  shows "keeps well_formed (create_thread tid s)"
proof (rule keeps_run)
  fix p s'
  assume run: "create_thread tid s = Ret (p, s')"
  obtain ps where ps: "obj_chain next_thread (thr_heap s) (threads s) ps" "distinct ps" using wf by (auto simp: well_formed_def)
  from create_thread_chain [OF ps, of tid] run have
    "if p = NULL then obj_chain next_thread (thr_heap s') (threads s') ps
     else p \<notin> set ps \<and> obj_chain next_thread (thr_heap s') (threads s') (ps @ [p])"
    by (auto split: if_splits)
  then have "\<exists>qs. obj_chain next_thread (thr_heap s') (threads s') qs \<and> distinct qs"
    using ps(2) by (cases "p = NULL") (auto intro: exI [of _ ps] exI [of _ "ps @ [p]"])
  then show "well_formed s'" using create_thread_table [OF run] wf by (simp add: well_formed_def)
qed

lemma keeps_sys_open [wf_rules]:
  "well_formed s \<Longrightarrow> (\<And>r s'. well_formed s' \<Longrightarrow> keeps well_formed (f r s')) \<Longrightarrow> keeps well_formed (case sys_open path s of (r, s') \<Rightarrow> f r s')"
  by (simp add: sys_open_def sys_call_def split: if_splits)

lemma keeps_sum [wf_rules]: "(\<And>a. keeps I (f a s)) \<Longrightarrow> (\<And>b. keeps I (g b s)) \<Longrightarrow> keeps I (case r of Inl a \<Rightarrow> f a s | Inr b \<Rightarrow> g b s)"
  by (cases r) simp_all

lemma with_file_wf: "keeps I m \<Longrightarrow> (\<And>p s. I s \<Longrightarrow> keeps I (f p s)) \<Longrightarrow> keeps I (with_file m f)"
  by (auto simp: keeps_def with_file_def yields_def run_bind_eq_Ret split: option.splits prod.splits)

lemma thread_create_callback_wf [wf_rules]: "well_formed s \<Longrightarrow> keeps well_formed (thread_create_callback E thr s)"
  unfolding thread_create_callback_def by (intro structures.files; simp)

lemma init_handshake_wf:
  fixes callback :: "'z thr_state_scheme \<Rightarrow> ((int \<times> nat) \<times> 'z thr_state_scheme) run"
  assumes "well_formed s" and "\<And>s. well_formed s \<Longrightarrow> keeps well_formed (callback s)"
  shows "keeps well_formed (perform_init_handshake E fd callback tid s)"
  unfolding perform_init_handshake_def init_handler_def write_error_response_def
  by (intro wf_rules assms; simp)

lemma thread_create_handshake_wf [wf_rules]:
  assumes "well_formed s"
  shows "keeps well_formed (thread_create_handshake E thr s)"
proof -
  have answering: "keeps well_formed (thread_create_response_fd_callback E thr path t)" if "well_formed t" for path and t :: "'a thr_state_scheme"
    unfolding thread_create_response_fd_callback_def by (intro wf_rules that; simp split: sum.split)
  show ?thesis
    unfolding thread_create_handshake_def
    by (intro with_file_wf structures.thread_dir structures.thread_file wf_rules init_handshake_wf answering assms; simp split: sum.split)
qed

lemma keeps_sys_close [wf_rules]:
  "well_formed s \<Longrightarrow> (\<And>e s'. well_formed s' \<Longrightarrow> keeps well_formed (f e s')) \<Longrightarrow> keeps well_formed (case sys_close fd s of (e, s') \<Rightarrow> f e s')"
  by (simp add: sys_close_def sys_call_def)

lemma thread_death_callback_wf [wf_rules]: "well_formed s \<Longrightarrow> keeps well_formed (thread_death_callback E thr s)"
  unfolding thread_death_callback_def by (intro wf_rules; simp)

lemma trigger_loop_count:
  fixes s :: "'z sys_state_scheme"
  assumes returns: "trigger_loop s = Some (r, s')"
  shows "\<exists>c. s' = s\<lparr>sys_count := c\<rparr>"
proof -
  define P where "P = (\<lambda>(s :: 'z sys_state_scheme) (x :: int \<times> 'z sys_state_scheme). \<exists>c. snd x = s\<lparr>sys_count := c\<rparr>)"
  have "P s (r, s')"
  proof (rule trigger_loop.raw_induct [where P = P, OF _ returns])
    fix loop :: "'z sys_state_scheme \<Rightarrow> (int \<times> 'z sys_state_scheme) option" and s x
    assume IH: "\<And>s x. loop s = Some x \<Longrightarrow> P s x"
      and run: "(case sys_call s of (r, s) \<Rightarrow>
        if \<not> sys_failed r then Some (RESULT_SUCCESS, s)
        else if sys_errno r = EINTR then loop s else Some (RESULT_ERROR, s)) = Some x"
    show "P s x" using run IH unfolding P_def by (fastforce simp: sys_call_def split: if_splits)
  qed
  then show ?thesis by (simp add: P_def)
qed

lemma keeps_trigger_loop [wf_rules]:
  assumes "well_formed s" and "\<And>r s. well_formed s \<Longrightarrow> keeps well_formed (f r s)"
  shows "keeps well_formed (run_bind (of_option (trigger_loop s)) (\<lambda>(r, s). f r s))"
  by (rule keeps_value) (use assms in \<open>auto dest!: trigger_loop_count\<close>)

lemma handle_thread_create_wf [wf_rules]:
  assumes "others_keep sched" and "well_formed s"
  shows "keeps well_formed (handle_thread_create E sched creator s)"
proof -
  have sent: "keeps well_formed (case put_sentinel fd t of (ok, s) \<Rightarrow> f ok s)"
    if "well_formed t" "\<And>ok s. well_formed s \<Longrightarrow> keeps well_formed (f ok s)" for fd t f
    using that by (simp add: put_sentinel_def sys_call_def)
  show ?thesis
    unfolding handle_thread_create_def event_defs Let_def
    by (intro wf_rules sent sched_wf [OF assms(1)]; simp add: assms)
qed

lemma handle_thread_death_wf [wf_rules]: "well_formed s \<Longrightarrow> keeps well_formed (handle_thread_death E s)"
  unfolding handle_thread_death_def event_defs Let_def by (intro wf_rules; simp)

lemma setsigmask_wf [simp]: "well_formed (snd (setsigmask m s)) = well_formed s"
  by (simp add: setsigmask_def sys_call_def)

named_theorems step_rules \<open>the rules for steps that return only the state\<close>

lemma step_keeps [step_rules]: "keeps I m \<Longrightarrow> (\<And>r s. I s \<Longrightarrow> yields (f r s) I) \<Longrightarrow> yields (run_bind m (\<lambda>(r, s). f r s)) I"
  by (auto simp: keeps_def yields_def)

lemma step_cases [step_rules]:
  "(\<And>a b. x = (a, b) \<Longrightarrow> yields (g a b s) I) \<Longrightarrow> yields ((case x of (a, b) \<Rightarrow> g a b) s) I"
  "(b \<Longrightarrow> yields m I) \<Longrightarrow> (\<not> b \<Longrightarrow> yields m' I) \<Longrightarrow> yields (if b then m else m') I"
  "yields Abort I" "I s \<Longrightarrow> yields (Ret s) I"
  by (auto split: prod.split)

lemma step_current [step_rules]: "(\<And>thr. yields (f thr) I) \<Longrightarrow> yields (run_bind (get_current_thread s) f) I"
  by (auto intro: yields_any)

lemma report_thread_death_wf:
  assumes "others_keep sched" and "well_formed s"
  shows "yields (report_thread_death E junk sched s) well_formed"
proof -
  have start: "yields (case setsigmask full_set s of (ok, t) \<Rightarrow> f ok t) well_formed" if "\<And>ok t. well_formed t \<Longrightarrow> yields (f ok t) well_formed" for f
    using that setsigmask_wf [of full_set s] assms(2) by (cases "setsigmask full_set s") simp
  show ?thesis
    unfolding report_thread_death_def Let_def
    by (rule start, intro step_rules step_bind update_thread_wf wf_rules assms; simp)
qed

lemma wrapped_start_routine_wf:
  assumes "others_keep sched" and "well_formed s" and "\<And>s. well_formed s \<Longrightarrow> keeps well_formed (start_routine s)"
  shows "keeps well_formed (wrapped_start_routine E junk sched start_routine creator s)"
proof -
  have died: "yields (report_thread_death E junk sched t) well_formed" if "well_formed t" for t
    by (rule report_thread_death_wf [OF assms(1) that])
  show ?thesis
    unfolding wrapped_start_routine_def by (intro wf_rules keeps_state [OF died] assms; simp)
qed

lemma handshake_with_thread_wf [wf_rules]:
  assumes "others_keep sched" and "well_formed s"
  shows "keeps well_formed (handshake_with_thread E sched s)"
  unfolding handshake_with_thread_def by (intro wf_rules sched_wf [OF assms(1)]; simp add: assms)

lemma keeps_control_pipe:
  assumes "well_formed s" and "\<And>s. well_formed s \<Longrightarrow> keeps well_formed (f s)" and "\<And>pr pw s. well_formed s \<Longrightarrow> keeps well_formed (g pr pw s)"
  shows "keeps well_formed (case init_control_pipe s of (None, s) \<Rightarrow> f s | (Some (pr, pw), s) \<Rightarrow> g pr pw s)"
  using assms by (auto simp: init_control_pipe_def sys_pipe_def sys_call_def split: prod.split)

lemma closing_pipe_wf [simp]: "well_formed (snd (sys_close fd s)) = well_formed s"
  by (simp add: sys_close_def sys_call_def)

lemma pthread_create_wf:
  assumes "others_keep sched" and "well_formed s"
  shows "keeps well_formed (pthread_create_wrapper E sched s)"
  unfolding pthread_create_wrapper_def by (intro wf_rules keeps_control_pipe assms; simp)

lemma own_control_loop_wf:
  fixes s :: "'z proc_state_scheme"
  assumes returns: "own_control_loop sched s = Some m" and keep: "others_keep sched" and "well_formed s"
  shows "keeps well_formed m"
proof -
  define P where "P = (\<lambda>(sched :: 'z proc_state_scheme others_run) (s :: 'z proc_state_scheme) (m :: (bool \<times> 'z proc_state_scheme) run).
    others_keep sched \<longrightarrow> well_formed s \<longrightarrow> keeps well_formed m)"
  have "P sched s m"
  proof (rule own_control_loop.raw_induct [where P = P, OF _ returns])
    fix loop :: "'z proc_state_scheme others_run \<Rightarrow> 'z proc_state_scheme \<Rightarrow> (bool \<times> 'z proc_state_scheme) run option" and sched s m
    assume IH: "\<And>sched s m. loop sched s = Some m \<Longrightarrow> P sched s m"
      and run: "(case block_threads sched s of
        Abort \<Rightarrow> Some Abort
      | Stuck \<Rightarrow> None
      | Ret (result, s) \<Rightarrow>
          if result = - 1 then Some (Ret (False, s))
          else if result > 0 then loop sched s else Some (Ret (True, s))) = Some m"
    have "well_formed t" if "others_keep sched" "well_formed s" "block_threads sched s = Ret (r, t)" for r t
      using yields_D [OF block_threads_wf [OF that(1,2), unfolded keeps_def] that(3)] by simp
    then show "P sched s m"
      using run IH unfolding P_def by (auto simp: keeps_def split: run.splits prod.splits if_splits)
  qed
  then show ?thesis using assms by (simp add: P_def)
qed

lemma fork_wf:
  assumes "others_keep sched" and "well_formed s"
  shows "keeps well_formed (fork_wrapper E sched s)"
proof -
  have owned: "keeps well_formed (run_bind (of_option (own_control_loop sched t)) (\<lambda>m. run_bind m (\<lambda>(owned, s). f owned s)))"
    if "well_formed t" "\<And>owned s. well_formed s \<Longrightarrow> keeps well_formed (f owned s)"
    for t and f :: "bool \<Rightarrow> 'a proc_state_scheme \<Rightarrow> (int \<times> 'a proc_state_scheme) run"
    by (rule keeps_value, rule keeps_bind) (use own_control_loop_wf [OF _ assms(1) that(1)] that(2) in auto)
  show ?thesis
    unfolding fork_wrapper_def Let_def event_defs by (intro keeps_sys_call keeps_if owned wf_rules; simp add: assms)
qed

subsection \<open>Initialisation\<close>

lemma well_formed_upd_sig [simp]:
  "well_formed (t\<lparr>dispositions := d\<rparr>) = well_formed t" "well_formed (t\<lparr>app_actions := a\<rparr>) = well_formed t"
  "well_formed (t\<lparr>default_lib_action := l\<rparr>) = well_formed t" "well_formed (t\<lparr>located := n\<rparr>) = well_formed t"
  for t :: "'z sig_state_scheme"
  by (simp_all add: well_formed_def bp_table_def)

lemma well_formed_upd_evt [simp]:
  "well_formed (t\<lparr>exit_bp := p\<rparr>) = well_formed t" "well_formed (t\<lparr>proc_request_handle := n\<rparr>) = well_formed t"
  "well_formed (t\<lparr>proc_response_handle := n\<rparr>) = well_formed t" "well_formed (t\<lparr>events_handle := n\<rparr>) = well_formed t"
  "well_formed (t\<lparr>init_thr := p\<rparr>) = well_formed t" "well_formed (t\<lparr>udi_enabled := b\<rparr>) = well_formed t"
  "well_formed (t\<lparr>requestfile_name := f\<rparr>) = well_formed t" "well_formed (t\<lparr>responsefile_name := f\<rparr>) = well_formed t"
  "well_formed (t\<lparr>eventsfile_name := f\<rparr>) = well_formed t"
  for t :: "'z evt_state_scheme"
  by (simp_all add: well_formed_def bp_table_def)

lemma locate_wf [simp]: "well_formed (snd (locate_symbols dl ns s)) = well_formed s"
  by (induction ns arbitrary: s) (simp_all add: sys_call_def)

lemma install_loop_wf [simp]: "well_formed (snd (install_loop ks s)) = well_formed s"
  by (induction ks arbitrary: s) (simp_all add: real_sigaction_def sys_call_def split_beta)

lemma install_event_breakpoints_wf [wf_rules]: "well_formed s \<Longrightarrow> keeps well_formed (install_event_breakpoints E s)"
  unfolding install_event_breakpoints_def Let_def by (intro wf_rules; simp)

lemma well_formed_upd_paths [simp]:
  "well_formed (t\<lparr>basedir_name := f\<rparr>) = well_formed t" "well_formed (u\<lparr>udi_root_dir := f\<rparr>) = well_formed u"
  "well_formed (u\<lparr>barrier_read := i\<rparr>) = well_formed u" "well_formed (u\<lparr>barrier_write := i\<rparr>) = well_formed u"
  "well_formed (snd (sys_make path t)) = well_formed t"
  for t :: "'z thr_state_scheme" and u :: "'z proc_state_scheme"
  by (simp_all add: well_formed_def bp_table_def sys_make_def sys_call_def)

lemma create_fifo_wf [wf_rules]:
  assumes "well_formed s" and "\<And>f s. well_formed (set_name f s) = well_formed s"
  shows "keeps well_formed (create_fifo E root pid n name set_name s)"
  unfolding create_fifo_def
  by (intro wf_rules assms(1) keeps_value [where m = "formatted E n f args" for n f args] keeps_run) (auto simp: assms prod_eq_iff)

lemma keeps_formatted [wf_rules]: "(\<And>p. keeps I (f p)) \<Longrightarrow> keeps I (run_bind (formatted E n fmt args) f)"
  by (rule keeps_value)

lemma keeps_make [wf_rules]:
  "well_formed s \<Longrightarrow> (\<And>e s'. well_formed s' \<Longrightarrow> keeps well_formed (f e s')) \<Longrightarrow> keeps well_formed (case sys_make path s of (e, s') \<Rightarrow> f e s')"
  by (simp add: sys_make_def sys_call_def)

lemma create_udi_filesystem_wf [wf_rules]:
  assumes "well_formed s"
  shows "keeps well_formed (create_udi_filesystem E H s)"
proof -
  have root: "yields (get_root_dir H s) well_formed"
    using assms by (simp add: get_root_dir_def sys_call_def split: option.split)
  show ?thesis
    unfolding create_udi_filesystem_def Let_def by (rule keeps_state [OF root], intro wf_rules; simp)
qed

lemma keeps_prepare:
  assumes "well_formed s" and "\<And>e s'. well_formed s' \<Longrightarrow> keeps well_formed (f e s')"
  shows "keeps well_formed (case locate_wrapper_functions dl s of (e, s') \<Rightarrow> f e s')"
    and "keeps well_formed (case locate_thread_wrapper_functions dl s of (e, s') \<Rightarrow> f e s')"
  unfolding locate_wrapper_functions_def locate_thread_wrapper_functions_def split_beta
  by (rule assms(2), simp only: locate_wf assms(1))+

lemma keeps_setup:
  assumes "well_formed s" and "\<And>e s'. well_formed s' \<Longrightarrow> keeps well_formed (f e s')"
  shows "keeps well_formed (case setup_signal_handlers s of (e, s') \<Rightarrow> f e s')"
  using assms(1) by (auto simp: setup_signal_handlers_def Let_def split_beta intro!: assms(2))

lemma keeps_sync:
  assumes "well_formed s" and "\<And>e s'. well_formed s' \<Longrightarrow> keeps well_formed (f e s')"
  shows "keeps well_formed (case initialize_thread_sync s of (e, s') \<Rightarrow> f e s')"
  using assms(1) by (auto simp: initialize_thread_sync_def sys_pipe_def sys_call_def Let_def intro!: assms(2))

lemma init_prepare_wf [wf_rules]: "well_formed s \<Longrightarrow> keeps well_formed (init_prepare E H s)"
  unfolding init_prepare_def by (intro keeps_prepare keeps_setup keeps_sync wf_rules; assumption)

lemma handshake_with_debugger_wf [wf_rules]:
  assumes "well_formed s"
  shows "keeps well_formed (handshake_with_debugger E s)"
proof -
  have answering: "keeps well_formed (process_response_fd_callback E t)" if "well_formed t" for t :: "'a evt_state_scheme"
    unfolding process_response_fd_callback_def create_initial_thread_def Let_def by (intro wf_rules that; simp)
  show ?thesis
    unfolding handshake_with_debugger_def Let_def by (intro wf_rules init_handshake_wf answering assms; simp)
qed

lemma init_udirt_wf:
  assumes "well_formed s"
  shows "yields (init_udirt E H s) well_formed"
proof -
  have supported: "yields (init_thread_support H (s\<lparr>errmsg := None\<rparr>)) well_formed"
    using assms by (simp add: init_thread_support_def sys_call_def)
  have masked: "yields (case setsigmask full_set t of (ok, u) \<Rightarrow> f ok u) well_formed"
    if "well_formed t" "\<And>ok u. well_formed u \<Longrightarrow> yields (f ok u) well_formed" for f and t :: "'a proc_state_scheme"
    using that setsigmask_wf [of full_set t] by (cases "setsigmask full_set t") simp
  show ?thesis
    unfolding init_udirt_def init_connect_def Let_def
    by (rule step_cases(2), simp add: assms, rule step_bind [OF supported], rule masked, assumption)
      (intro step_rules wf_rules; simp)
qed

section \<open>Properties\<close>

lemma well_formed_progress:
  assumes "well_formed s"
  shows "\<exists>p. find_breakpoint a s = Ret p" and "\<exists>p. find_thread tid s = Ret p"
proof -
  show "\<exists>p. find_breakpoint a s = Ret p" using bp_tableE [of s a] assms unfolding well_formed_def by blast
  obtain ps where "obj_chain next_thread (thr_heap s) (threads s) ps" using assms by (auto simp: well_formed_def)
  from find_thread_loop_chain [OF this, of tid] show "\<exists>p. find_thread tid s = Ret p" by (simp add: find_thread_def)
qed

text \<open>
  C10. The structures stay sound. The table of breakpoints (chains of live objects, each address once and in its bucket) and
  the list of threads (a chain of live structures without repetition) are well-formed after the initialisation, after every signal, and after every
  interposed call that creates or ends a thread or forks, whatever the debugger requests meanwhile, whatever the system answers, and
  however these functions return, if the other threads keep the structures well-formed where this thread waits and the start routine
  of the application does. In a well-formed state the searches for a breakpoint and for a thread return.
\<close>

theorem entries_keep_structures:
  fixes s :: "'z proc_state_scheme"
  assumes "others_keep sched" and "well_formed s" and "\<And>s. well_formed s \<Longrightarrow> keeps well_formed (start_routine s)"
  shows "keeps well_formed (signal_entry_impl E abort_label junk sched signum info c s) \<and>
    yields (init_udirt E H s) well_formed \<and>
    keeps well_formed (fork_wrapper E sched s) \<and>
    keeps well_formed (pthread_create_wrapper E sched s) \<and>
    keeps well_formed (wrapped_start_routine E junk sched start_routine creator_tid s) \<and>
    yields (pthread_exit_wrapper E junk sched s) well_formed \<and>
    (\<forall>a. \<exists>p. find_breakpoint a s = Ret p) \<and> (\<forall>tid. \<exists>p. find_thread tid s = Ret p)"
  using signal_entry_wf [OF assms(1,2)] init_udirt_wf [OF assms(2)] fork_wf [OF assms(1,2)] pthread_create_wf [OF assms(1,2)]
    wrapped_start_routine_wf [OF assms] report_thread_death_wf [OF assms(1,2)] well_formed_progress [OF assms(2)]
  by (simp add: pthread_exit_wrapper_def)

lemma sample_proc_well_formed: "well_formed sample_proc_state"
proof -
  have "bp_heap sample_proc_state = bp_heap sample_evt_state" "breakpoints sample_proc_state = breakpoints sample_evt_state"
    by (simp_all add: sample_proc_defs)
  then have "bp_table sample_proc_state" using sample_evt_table by (simp add: bp_table_def)
  moreover have "thread_list sample_proc_state [3]" by (rule sample_proc_simps(2))
  ultimately show ?thesis unfolding well_formed_def thread_list_def by blast
qed

theorem entries_keep_structures_witness:
  "\<exists>c s' p q. signal_entry_impl wire_env 0 {} (\<lambda>_. Ret) 10 \<lparr>si_code = 0, si_addr = 0\<rparr> \<lparr>gregs = (\<lambda>_. 7), uc_sigmask = {}\<rparr> sample_proc_state =
       Ret (c, s') \<and> well_formed s' \<and> find_breakpoint 0x400110 sample_proc_state = Ret p \<and> find_thread 16 sample_proc_state = Ret q"
proof -
  let ?c = "\<lparr>gregs = (\<lambda>_. 7), uc_sigmask = {}\<rparr>"
  let ?run = "signal_entry_impl wire_env 0 {} (\<lambda>_. Ret) 10 \<lparr>si_code = 0, si_addr = 0\<rparr> ?c sample_proc_state"
  obtain s' where run: "?run = Ret (?c, s')"
    using sample_stop_run by blast
  have keep: "others_keep (\<lambda>_. Ret :: proc_state \<Rightarrow> proc_state run)" by (simp add: others_keep_def)
  have start: "keeps well_formed (Ret (0 :: nat, s))" if "well_formed s" for s :: proc_state using that by simp
  note kept = entries_keep_structures [where start_routine = "\<lambda>s. Ret (0 :: nat, s)" and E = wire_env and abort_label = 0 and junk = "{}"
      and signum = 10 and info = "\<lparr>si_code = 0, si_addr = 0\<rparr>" and c = ?c, OF keep sample_proc_well_formed start]
  have "well_formed s'" using kept run by (simp add: keeps_def)
  moreover obtain p where "find_breakpoint 0x400110 sample_proc_state = Ret p" using kept by blast
  moreover obtain q where "find_thread 16 sample_proc_state = Ret q" using kept by blast
  ultimately show ?thesis using run by blast
qed

end
