(* ===== verification/Darwin_X86.thy ===== *)
theory Darwin_X86
  imports Linux_X86
begin

text \<open>
  The register context of Darwin on 64-bit x86 (\<^verbatim>\<open>udirt-darwin-x86-64.c\<close>), the platform file that takes the
  place of \<^verbatim>\<open>udirt-linux-x86.c\<close> in a build for Darwin, and the printing of errors there
  (\<^verbatim>\<open>udirt-posix-darwin.c\<close>). The registers are not part of the context but in a structure it points to,
  so that saving a context has to copy that structure. The names of the
  functions carry the suffix \<open>_darwin\<close>. The lemmas relate them to the functions for Linux.
\<close>

section \<open>Definitions\<close>

text \<open>
  The members of \<^verbatim>\<open>__ss\<close> that the file uses, the structure \<^verbatim>\<open>__darwin_mcontext64\<close>, and the context with the
  pointer to it. A pointer to a member is the pointer to the structure with the name of the member.
\<close>

datatype (plugins only: code size) ss_field =
    ss_rax | ss_rbx | ss_rcx | ss_rdx | ss_rdi | ss_rsi | ss_rbp | ss_rsp
  | ss_r8 | ss_r9 | ss_r10 | ss_r11 | ss_r12 | ss_r13 | ss_r14 | ss_r15
  | ss_rip | ss_rflags | ss_cs | ss_fs | ss_gs

record mcontext64 =
  ss :: "ss_field \<Rightarrow> u64"

record ucontext_darwin =
  uc_mcontext :: ptr
  uc_sigmask_darwin :: "nat set"

record signal_state_darwin =
  dst_context :: ucontext_darwin
  context_data :: ptr

text \<open>The live structures.\<close>

record darwin_state = msg_state +
  mcontexts :: "ptr \<rightharpoonup> mcontext64"

type_synonym ss_address = "ptr \<times> ss_field"

definition read_ss :: "ss_address \<Rightarrow> 'z darwin_state_scheme \<Rightarrow> u64 run" where
  "read_ss a s = run_bind (deref (mcontexts s) (fst a)) (\<lambda>m. Ret (ss m (snd a)))"

definition write_ss :: "ss_address \<Rightarrow> u64 \<Rightarrow> 'z darwin_state_scheme \<Rightarrow> 'z darwin_state_scheme run" where
  "write_ss a v s =
     run_bind (deref (mcontexts s) (fst a)) (\<lambda>m.
       Ret (s\<lparr>mcontexts := (mcontexts s)(fst a \<mapsto> m\<lparr>ss := (ss m)(snd a := v)\<rparr>)\<rparr>))"

subsection \<open>The context of a thread and its dump\<close>

text \<open>The new structure is not initialised; \<open>content\<close> is what it holds. The result and the pointer stored.\<close>

definition allocate_context_data_darwin ::
    "mcontext64 \<Rightarrow> 'z darwin_state_scheme \<Rightarrow> (int \<times> ptr) \<times> 'z darwin_state_scheme" where
  "allocate_context_data_darwin content s =
     (case alloc_ptr (mcontexts s) s of (data, s) \<Rightarrow>
        if data = NULL then ((int ENOMEM, NULL), s)
        else ((0, data), s\<lparr>mcontexts := (mcontexts s)(data \<mapsto> content)\<rparr>))"

definition copy_context_darwin ::
    "ucontext_darwin \<Rightarrow> signal_state_darwin \<Rightarrow> 'z darwin_state_scheme \<Rightarrow> (signal_state_darwin \<times> 'z darwin_state_scheme) run" where
  "copy_context_darwin src dst s =
     (let dst = dst\<lparr>dst_context := src\<rparr>;
          data = context_data dst
      in run_bind (deref (mcontexts s) (uc_mcontext (dst_context dst))) (\<lambda>m.
         run_bind (deref (mcontexts s) data) (\<lambda>_.
           let s = s\<lparr>mcontexts := (mcontexts s)(data \<mapsto> m)\<rparr>
           in Ret (dst\<lparr>dst_context := (dst_context dst)\<lparr>uc_mcontext := data\<rparr>\<rparr>, s))))"

definition log_context_darwin ::
    "env \<Rightarrow> bool \<Rightarrow> string \<Rightarrow> (nat \<Rightarrow> int) \<Rightarrow> ucontext_darwin \<Rightarrow> 'z darwin_state_scheme \<Rightarrow> string \<Rightarrow> string option run" where
  "log_context_darwin E udi_debug_on file line c s out =
     (if udi_debug_on then
        run_bind (deref (mcontexts s) (uc_mcontext c)) (\<lambda>m.
          Ret (udi_logs E udi_debug_on
           [(file, line 0, ''rax: 0x%x rbx: 0x%x rcx: 0x%x rdx: 0x%x'',
             [ArgU64 (ss m ss_rax), ArgU64 (ss m ss_rbx), ArgU64 (ss m ss_rcx), ArgU64 (ss m ss_rdx)]),
            (file, line 1, ''rsi: 0x%x rdi: 0x%x rbp: 0x%x rsp: 0x%x'',
             [ArgU64 (ss m ss_rsi), ArgU64 (ss m ss_rdi), ArgU64 (ss m ss_rbp), ArgU64 (ss m ss_rsp)]),
            (file, line 2, ''r8:  0x%x r9:  0x%x r10: 0x%x r11: 0x%x'',
             [ArgU64 (ss m ss_r8), ArgU64 (ss m ss_r9), ArgU64 (ss m ss_r10), ArgU64 (ss m ss_r11)]),
            (file, line 3, ''r12: 0x%x r13: 0x%x r14: 0x%x r15: 0x%x'',
             [ArgU64 (ss m ss_r12), ArgU64 (ss m ss_r13), ArgU64 (ss m ss_r14), ArgU64 (ss m ss_r15)]),
            (file, line 4, ''rip: 0x%x rsp: 0x%x rflags: 0x%x'',
             [ArgU64 (ss m ss_rip), ArgU64 (ss m ss_rsp), ArgU64 (ss m ss_rflags)]),
            (file, line 5, ''cs: 0x%x fs: 0x%x gs: 0x%x'',
             [ArgU64 (ss m ss_cs), ArgU64 (ss m ss_fs), ArgU64 (ss m ss_gs)])] out))
      else Ret (Some out))"

subsection \<open>The program counter, the flags and the exit status\<close>

definition rewind_pc_darwin :: "ucontext_darwin \<Rightarrow> 'z darwin_state_scheme \<Rightarrow> 'z darwin_state_scheme run" where
  "rewind_pc_darwin c s =
     run_bind (read_ss (uc_mcontext c, ss_rip) s) (\<lambda>v. write_ss (uc_mcontext c, ss_rip) (v - 1) s)"

definition set_pc_darwin :: "ucontext_darwin \<Rightarrow> u64 \<Rightarrow> 'z darwin_state_scheme \<Rightarrow> 'z darwin_state_scheme run" where
  "set_pc_darwin c pc s = write_ss (uc_mcontext c, ss_rip) pc s"

definition get_pc_darwin :: "ucontext_darwin \<Rightarrow> 'z darwin_state_scheme \<Rightarrow> u64 run" where
  "get_pc_darwin c s = read_ss (uc_mcontext c, ss_rip) s"

definition get_flags_darwin :: "ucontext_darwin \<Rightarrow> 'z darwin_state_scheme \<Rightarrow> u64 run" where
  "get_flags_darwin c s = read_ss (uc_mcontext c, ss_rflags) s"

definition get_trap_address_darwin :: "ucontext_darwin \<Rightarrow> 'z darwin_state_scheme \<Rightarrow> u64 run" where
  "get_trap_address_darwin c s = run_bind (read_ss (uc_mcontext c, ss_rip) s) (\<lambda>v. Ret (v - 1))"

definition get_exit_argument_darwin :: "ucontext_darwin \<Rightarrow> 'z darwin_state_scheme \<Rightarrow> (int \<times> u32) run" where
  "get_exit_argument_darwin c s =
     run_bind (read_ss (uc_mcontext c, ss_rdi) s) (\<lambda>v. Ret (RESULT_SUCCESS, ucast v))"

subsection \<open>Registers of the disassembler\<close>

definition accessible_registers :: "ud_type_t list" where
  "accessible_registers =
     [UD_R_AL, UD_R_AH, UD_R_AX, UD_R_EAX, UD_R_RAX, UD_R_CL, UD_R_CH, UD_R_CX, UD_R_ECX, UD_R_RCX,
      UD_R_DL, UD_R_DH, UD_R_EDX, UD_R_RDX, UD_R_BL, UD_R_BH, UD_R_EBX, UD_R_RBX, UD_R_RIP, UD_R_SPL,
      UD_R_SP, UD_R_ESP, UD_R_RSP, UD_R_BPL, UD_R_BP, UD_R_EBP, UD_R_RBP, UD_R_SIL, UD_R_SI, UD_R_ESI,
      UD_R_RSI, UD_R_DIL, UD_R_DI, UD_R_EDI, UD_R_RDI, UD_R_R8B, UD_R_R8W, UD_R_R8D, UD_R_R8,
      UD_R_R9B, UD_R_R9W, UD_R_R9D, UD_R_R9, UD_R_R10B, UD_R_R10W, UD_R_R10D, UD_R_R10, UD_R_R11B,
      UD_R_R11W, UD_R_R11D, UD_R_R11, UD_R_R12B, UD_R_R12W, UD_R_R12D, UD_R_R12, UD_R_R13B, UD_R_R13W,
      UD_R_R13D, UD_R_R13, UD_R_R14B, UD_R_R14W, UD_R_R14D, UD_R_R14, UD_R_R15B, UD_R_R15W, UD_R_R15D,
      UD_R_R15]"

definition is_accessible_register_darwin :: "ud_type_t \<Rightarrow> int" where
  "is_accessible_register_darwin reg = (if reg \<in> set accessible_registers then 0 else - 1)"

text \<open>The member that the switch of \<^verbatim>\<open>get_register_ud_type\<close> reads.\<close>

primrec ud_type_member :: "ud_type_t \<Rightarrow> ss_field option" where
  "ud_type_member UD_NONE = None"
| "ud_type_member UD_R_AL = Some ss_rax"
| "ud_type_member UD_R_AH = Some ss_rax"
| "ud_type_member UD_R_AX = Some ss_rax"
| "ud_type_member UD_R_EAX = Some ss_rax"
| "ud_type_member UD_R_RAX = Some ss_rax"
| "ud_type_member UD_R_CL = Some ss_rcx"
| "ud_type_member UD_R_CH = Some ss_rcx"
| "ud_type_member UD_R_CX = Some ss_rcx"
| "ud_type_member UD_R_ECX = Some ss_rcx"
| "ud_type_member UD_R_RCX = Some ss_rcx"
| "ud_type_member UD_R_DL = Some ss_rdx"
| "ud_type_member UD_R_DH = Some ss_rdx"
| "ud_type_member UD_R_DX = None"
| "ud_type_member UD_R_EDX = Some ss_rdx"
| "ud_type_member UD_R_RDX = Some ss_rdx"
| "ud_type_member UD_R_BL = Some ss_rbx"
| "ud_type_member UD_R_BH = Some ss_rbx"
| "ud_type_member UD_R_BX = None"
| "ud_type_member UD_R_EBX = Some ss_rbx"
| "ud_type_member UD_R_RBX = Some ss_rbx"
| "ud_type_member UD_R_RIP = Some ss_rip"
| "ud_type_member UD_R_SPL = Some ss_rsp"
| "ud_type_member UD_R_SP = Some ss_rsp"
| "ud_type_member UD_R_ESP = Some ss_rsp"
| "ud_type_member UD_R_RSP = Some ss_rsp"
| "ud_type_member UD_R_BPL = Some ss_rbp"
| "ud_type_member UD_R_BP = Some ss_rbp"
| "ud_type_member UD_R_EBP = Some ss_rbp"
| "ud_type_member UD_R_RBP = Some ss_rbp"
| "ud_type_member UD_R_SIL = Some ss_rsi"
| "ud_type_member UD_R_SI = Some ss_rsi"
| "ud_type_member UD_R_ESI = Some ss_rsi"
| "ud_type_member UD_R_RSI = Some ss_rsi"
| "ud_type_member UD_R_DIL = Some ss_rdi"
| "ud_type_member UD_R_DI = Some ss_rdi"
| "ud_type_member UD_R_EDI = Some ss_rdi"
| "ud_type_member UD_R_RDI = Some ss_rdi"
| "ud_type_member UD_R_R8B = Some ss_r8"
| "ud_type_member UD_R_R8W = Some ss_r8"
| "ud_type_member UD_R_R8D = Some ss_r8"
| "ud_type_member UD_R_R8 = Some ss_r8"
| "ud_type_member UD_R_R9B = Some ss_r9"
| "ud_type_member UD_R_R9W = Some ss_r9"
| "ud_type_member UD_R_R9D = Some ss_r9"
| "ud_type_member UD_R_R9 = Some ss_r9"
| "ud_type_member UD_R_R10B = Some ss_r10"
| "ud_type_member UD_R_R10W = Some ss_r10"
| "ud_type_member UD_R_R10D = Some ss_r10"
| "ud_type_member UD_R_R10 = Some ss_r10"
| "ud_type_member UD_R_R11B = Some ss_r11"
| "ud_type_member UD_R_R11W = Some ss_r11"
| "ud_type_member UD_R_R11D = Some ss_r11"
| "ud_type_member UD_R_R11 = Some ss_r11"
| "ud_type_member UD_R_R12B = Some ss_r12"
| "ud_type_member UD_R_R12W = Some ss_r12"
| "ud_type_member UD_R_R12D = Some ss_r12"
| "ud_type_member UD_R_R12 = Some ss_r12"
| "ud_type_member UD_R_R13B = Some ss_r13"
| "ud_type_member UD_R_R13W = Some ss_r13"
| "ud_type_member UD_R_R13D = Some ss_r13"
| "ud_type_member UD_R_R13 = Some ss_r13"
| "ud_type_member UD_R_R14B = Some ss_r14"
| "ud_type_member UD_R_R14W = Some ss_r14"
| "ud_type_member UD_R_R14D = Some ss_r14"
| "ud_type_member UD_R_R14 = Some ss_r14"
| "ud_type_member UD_R_R15B = Some ss_r15"
| "ud_type_member UD_R_R15W = Some ss_r15"
| "ud_type_member UD_R_R15D = Some ss_r15"
| "ud_type_member UD_R_R15 = Some ss_r15"
| "ud_type_member UD_R_other = None"

definition get_register_ud_type_darwin :: "ud_type_t \<Rightarrow> ucontext_darwin \<Rightarrow> 'z darwin_state_scheme \<Rightarrow> u64 run" where
  "get_register_ud_type_darwin reg c s =
     (case ud_type_member reg of None \<Rightarrow> Abort | Some f \<Rightarrow> read_ss (uc_mcontext c, f) s)"

subsection \<open>Registers of the protocol\<close>

text \<open>The member whose address the switch of \<^verbatim>\<open>get_register_address\<close> takes.\<close>

primrec register_member :: "udi_register_e \<Rightarrow> ss_field option" where
  "register_member UDI_X86_MIN = None"
| "register_member UDI_X86_GS = None"
| "register_member UDI_X86_FS = None"
| "register_member UDI_X86_ES = None"
| "register_member UDI_X86_DS = None"
| "register_member UDI_X86_EDI = None"
| "register_member UDI_X86_ESI = None"
| "register_member UDI_X86_EBP = None"
| "register_member UDI_X86_ESP = None"
| "register_member UDI_X86_EBX = None"
| "register_member UDI_X86_EDX = None"
| "register_member UDI_X86_ECX = None"
| "register_member UDI_X86_EAX = None"
| "register_member UDI_X86_CS = None"
| "register_member UDI_X86_SS = None"
| "register_member UDI_X86_EIP = None"
| "register_member UDI_X86_FLAGS = None"
| "register_member UDI_X86_ST0 = None"
| "register_member UDI_X86_ST1 = None"
| "register_member UDI_X86_ST2 = None"
| "register_member UDI_X86_ST3 = None"
| "register_member UDI_X86_ST4 = None"
| "register_member UDI_X86_ST5 = None"
| "register_member UDI_X86_ST6 = None"
| "register_member UDI_X86_ST7 = None"
| "register_member UDI_X86_MAX = None"
| "register_member UDI_X86_64_MIN = None"
| "register_member UDI_X86_64_R8 = Some ss_r8"
| "register_member UDI_X86_64_R9 = Some ss_r9"
| "register_member UDI_X86_64_R10 = Some ss_r10"
| "register_member UDI_X86_64_R11 = Some ss_r11"
| "register_member UDI_X86_64_R12 = Some ss_r12"
| "register_member UDI_X86_64_R13 = Some ss_r13"
| "register_member UDI_X86_64_R14 = Some ss_r14"
| "register_member UDI_X86_64_R15 = Some ss_r15"
| "register_member UDI_X86_64_RDI = Some ss_rdi"
| "register_member UDI_X86_64_RSI = Some ss_rsi"
| "register_member UDI_X86_64_RBP = Some ss_rbp"
| "register_member UDI_X86_64_RBX = Some ss_rbx"
| "register_member UDI_X86_64_RDX = Some ss_rdx"
| "register_member UDI_X86_64_RAX = Some ss_rax"
| "register_member UDI_X86_64_RCX = Some ss_rcx"
| "register_member UDI_X86_64_RSP = Some ss_rsp"
| "register_member UDI_X86_64_RIP = Some ss_rip"
| "register_member UDI_X86_64_CSGSFS = None"
| "register_member UDI_X86_64_FLAGS = Some ss_rflags"
| "register_member UDI_X86_64_ST0 = None"
| "register_member UDI_X86_64_ST1 = None"
| "register_member UDI_X86_64_ST2 = None"
| "register_member UDI_X86_64_ST3 = None"
| "register_member UDI_X86_64_ST4 = None"
| "register_member UDI_X86_64_ST5 = None"
| "register_member UDI_X86_64_ST6 = None"
| "register_member UDI_X86_64_ST7 = None"
| "register_member UDI_X86_64_XMM0 = None"
| "register_member UDI_X86_64_XMM1 = None"
| "register_member UDI_X86_64_XMM2 = None"
| "register_member UDI_X86_64_XMM3 = None"
| "register_member UDI_X86_64_XMM4 = None"
| "register_member UDI_X86_64_XMM5 = None"
| "register_member UDI_X86_64_XMM6 = None"
| "register_member UDI_X86_64_XMM7 = None"
| "register_member UDI_X86_64_XMM8 = None"
| "register_member UDI_X86_64_XMM9 = None"
| "register_member UDI_X86_64_XMM10 = None"
| "register_member UDI_X86_64_XMM11 = None"
| "register_member UDI_X86_64_XMM12 = None"
| "register_member UDI_X86_64_XMM13 = None"
| "register_member UDI_X86_64_XMM14 = None"
| "register_member UDI_X86_64_XMM15 = None"
| "register_member UDI_X86_64_MAX = None"

definition get_register_address :: "nat \<Rightarrow> ucontext_darwin \<Rightarrow> int \<times> ss_address option" where
  "get_register_address reg c =
     (case Option.bind (enum_nth register_values reg) register_member of
        None \<Rightarrow> (- 1, None)
      | Some f \<Rightarrow> (0, Some (uc_mcontext c, f)))"

definition get_register_darwin ::
    "env \<Rightarrow> nat \<Rightarrow> ucontext_darwin \<Rightarrow> 'z darwin_state_scheme \<Rightarrow> ((int \<times> u64 option) \<times> 'z darwin_state_scheme) run" where
  "get_register_darwin E reg c s =
     (case validate_register E reg s of (result, s) \<Rightarrow>
        if result \<noteq> 0 then Ret ((- 1, None), s)
        else (case get_register_address reg c of (result, addr) \<Rightarrow>
          if result \<noteq> 0
          then Ret ((- 1, None), udi_set_errmsg E ''invalid register %s'' [ArgStr (register_str reg)] s)
          else run_bind (of_option addr) (\<lambda>a.
            run_bind (read_ss a s) (\<lambda>v. Ret ((0, Some v), s)))))"

definition set_register_darwin ::
    "env \<Rightarrow> nat \<Rightarrow> u64 \<Rightarrow> ucontext_darwin \<Rightarrow> 'z darwin_state_scheme \<Rightarrow> (int \<times> 'z darwin_state_scheme) run" where
  "set_register_darwin E reg v c s =
     (case validate_register E reg s of (result, s) \<Rightarrow>
        if result \<noteq> 0 then Ret (- 1, s)
        else (case get_register_address reg c of (result, addr) \<Rightarrow>
          if result \<noteq> 0
          then Ret (- 1, udi_set_errmsg E ''invalid register %s'' [ArgStr (register_str reg)] s)
          else run_bind (of_option addr) (\<lambda>a.
            run_bind (write_ss a v s) (\<lambda>s. Ret (0, s)))))"

subsection \<open>Printing an error\<close>

text \<open>
  \<^verbatim>\<open>strerror_r\<close> of Darwin stores the text in the buffer of 64 bytes, cut before its last byte; the
  variant of Linux returns the text itself.
\<close>

definition udi_log_error_darwin :: "env \<Rightarrow> 'c format_cb \<Rightarrow> 'c \<Rightarrow> int \<Rightarrow> 'c" where
  "udi_log_error_darwin E cb ctx error = udi_log_string cb ctx (take 63 (env_strerror E (nat error)))"

section \<open>The two platforms\<close>

text \<open>Where Linux keeps a member of the structure; it has the segment registers packed in one word.\<close>

primrec linux_position :: "ss_field \<Rightarrow> int option" where
  "linux_position ss_rax = Some X86_64_RAX_OFFSET"
| "linux_position ss_rbx = Some X86_64_RBX_OFFSET"
| "linux_position ss_rcx = Some X86_64_RCX_OFFSET"
| "linux_position ss_rdx = Some X86_64_RDX_OFFSET"
| "linux_position ss_rdi = Some X86_64_RDI_OFFSET"
| "linux_position ss_rsi = Some X86_64_RSI_OFFSET"
| "linux_position ss_rbp = Some X86_64_RBP_OFFSET"
| "linux_position ss_rsp = Some X86_64_RSP_OFFSET"
| "linux_position ss_r8 = Some X86_64_R8_OFFSET"
| "linux_position ss_r9 = Some X86_64_R9_OFFSET"
| "linux_position ss_r10 = Some X86_64_R10_OFFSET"
| "linux_position ss_r11 = Some X86_64_R11_OFFSET"
| "linux_position ss_r12 = Some X86_64_R12_OFFSET"
| "linux_position ss_r13 = Some X86_64_R13_OFFSET"
| "linux_position ss_r14 = Some X86_64_R14_OFFSET"
| "linux_position ss_r15 = Some X86_64_R15_OFFSET"
| "linux_position ss_rip = Some X86_64_RIP_OFFSET"
| "linux_position ss_rflags = Some X86_64_FLAGS_OFFSET"
| "linux_position ss_cs = None"
| "linux_position ss_fs = None"
| "linux_position ss_gs = None"

definition same_registers :: "mcontext64 \<Rightarrow> ucontext \<Rightarrow> bool" where
  "same_registers m l \<longleftrightarrow> (\<forall>f i. linux_position f = Some i \<longrightarrow> gregs l i = ss m f)"

text \<open>A context of Darwin in a state and a context of Linux with the same registers.\<close>

definition same_context :: "ucontext_darwin \<Rightarrow> 'z darwin_state_scheme \<Rightarrow> ucontext \<Rightarrow> bool" where
  "same_context c s l \<longleftrightarrow>
     uc_mcontext c \<noteq> NULL \<and> (\<exists>m. mcontexts s (uc_mcontext c) = Some m \<and> same_registers m l)"

section \<open>Lemmas\<close>

subsection \<open>Members\<close>

lemma linux_position_inj:
  "linux_position f = Some i \<Longrightarrow> linux_position g = Some i \<Longrightarrow> f = g"
  by (cases f; cases g; simp add: offset_defs)

lemma linux_position_pos: "linux_position f = Some i \<Longrightarrow> 0 \<le> i"
  by (cases f) (auto simp: offset_defs)

lemma ud_type_member_position:
  "map_option linux_position (ud_type_member reg) =
     (if get_reg_context_offset reg = - 1 then None else Some (Some (get_reg_context_offset reg)))"
  by (cases reg) (simp_all add: get_reg_context_offset_def WORDSIZE_def offset_defs)

lemma accessible_registers_members: "reg \<in> set accessible_registers \<longleftrightarrow> ud_type_member reg \<noteq> None"
  by (cases reg) (simp_all add: accessible_registers_def)

definition darwin_register :: "nat \<Rightarrow> bool" where
  "darwin_register reg \<longleftrightarrow> general_register reg \<and> reg \<noteq> 44"

lemma register_member_position:
  assumes "darwin_register reg"
  obtains f where "get_register_address reg c = (0, Some (uc_mcontext c, f))"
    "linux_position f = Some (get_udi_reg_context_offset reg)"
proof -
  have "reg \<in> set [27..<46]" "reg \<noteq> 44"
    unfolding set_upt using assms by (simp_all add: darwin_register_def general_register_def)
  then have "\<exists>f. get_register_address reg c = (0, Some (uc_mcontext c, f)) \<and>
      linux_position f = Some (get_udi_reg_context_offset reg)"
    by (simp add: upt_rec [of _ "46"] get_register_address_def get_udi_reg_context_offset_def enum_nth_def
        register_values_def offset_defs) (elim disjE; simp add: offset_defs)
  then show thesis using that by blast
qed

lemma no_register_member:
  assumes "26 < reg" "reg < 70" "\<not> darwin_register reg"
  shows "get_register_address reg c = (- 1, None)"
proof -
  have "reg = 44 \<or> reg \<in> set [46..<70]"
    unfolding set_upt using assms by (auto simp: darwin_register_def general_register_def)
  then show ?thesis
    by (simp add: upt_rec [of _ "70"] get_register_address_def enum_nth_def register_values_def)
      (elim disjE; simp)
qed

subsection \<open>Related contexts\<close>

lemma read_ss_same:
  assumes "same_context c s l" "linux_position f = Some i"
  shows "read_ss (uc_mcontext c, f) s = Ret (gregs l i)"
  using assms by (auto simp: same_context_def same_registers_def read_ss_def run_simps)

lemma write_ss_same:
  assumes "same_context c s l" "linux_position f = Some i"
  shows "\<exists>s'. write_ss (uc_mcontext c, f) v s = Ret s' \<and> same_context c s' (l\<lparr>gregs := (gregs l)(i := v)\<rparr>)"
proof -
  obtain m where m: "uc_mcontext c \<noteq> NULL" "mcontexts s (uc_mcontext c) = Some m" "same_registers m l"
    using assms(1) by (auto simp: same_context_def)
  moreover have "same_registers (m\<lparr>ss := (ss m)(f := v)\<rparr>) (l\<lparr>gregs := (gregs l)(i := v)\<rparr>)"
    using m(3) assms(2) by (auto simp: same_registers_def dest: linux_position_inj)
  ultimately show ?thesis by (simp add: write_ss_def same_context_def run_simps)
qed

text \<open>Access by register number.\<close>

lemma darwin_register_valid: "darwin_register r \<Longrightarrow> validate_register E r s = (0, s)"
  by (auto simp: validate_register_64 darwin_register_def general_register_def)

lemma get_register_same:
  assumes "same_context c s l" "darwin_register r"
  shows "get_register_darwin E r c s = Ret (fst (get_register E r l s), s)"
proof -
  obtain f where "get_register_address r c = (0, Some (uc_mcontext c, f))"
    and f: "linux_position f = Some (get_udi_reg_context_offset r)"
    using register_member_position [OF assms(2)] by blast
  moreover have "general_register r" using assms(2) by (simp add: darwin_register_def)
  ultimately show ?thesis
    by (simp add: get_register_darwin_def darwin_register_valid [OF assms(2)] read_ss_same [OF assms(1) f]
        get_register_general)
qed

lemma set_register_same:
  assumes "same_context c s l" "darwin_register r"
  shows "\<exists>s'. set_register_darwin E r v c s = Ret (0, s') \<and> same_context c s' (snd (fst (set_register E r v l s)))"
proof -
  obtain f where a: "get_register_address r c = (0, Some (uc_mcontext c, f))"
    and f: "linux_position f = Some (get_udi_reg_context_offset r)"
    using register_member_position [OF assms(2)] by blast
  have "general_register r" using assms(2) by (simp add: darwin_register_def)
  then show ?thesis using write_ss_same [OF assms(1) f, of v] a
    by (auto simp: set_register_darwin_def darwin_register_valid [OF assms(2)] set_register_general)
qed

lemma register_refused:
  assumes "\<not> darwin_register r"
  obtains s' where "get_register_darwin E r c s = Ret ((- 1, None), s')" "set_register_darwin E r v c s = Ret (- 1, s')"
    "mcontexts s' = mcontexts s"
  using no_register_member [OF _ _ assms]
  by (cases "26 < r \<and> r < 70")
    (auto simp: get_register_darwin_def set_register_darwin_def validate_register_64 udi_set_errmsg_def)

subsection \<open>Copies\<close>

text \<open>
  A copy has the registers of its source, and a later write to it is not seen through the source:
  the thread's saved context can be changed while the one on the stack of the handler stays as it is.
\<close>

lemma copy_context_darwin_separate:
  assumes "same_context src s l"
    and data: "context_data dst \<noteq> NULL" "mcontexts s (context_data dst) \<noteq> None" "context_data dst \<noteq> uc_mcontext src"
  obtains dst' s' where "copy_context_darwin src dst s = Ret (dst', s')"
    "same_context (dst_context dst') s' l" "same_context src s' l" "context_data dst' = context_data dst"
    "\<And>f v. \<exists>s2. write_ss (uc_mcontext (dst_context dst'), f) v s' = Ret s2 \<and> same_context src s2 l"
proof -
  obtain m d where "uc_mcontext src \<noteq> NULL" "mcontexts s (uc_mcontext src) = Some m" "same_registers m l"
    and "mcontexts s (context_data dst) = Some d"
    using assms(1) data(2) by (auto simp: same_context_def)
  then show thesis using data
    by (intro that [of "dst\<lparr>dst_context := src\<lparr>uc_mcontext := context_data dst\<rparr>\<rparr>"
          "s\<lparr>mcontexts := (mcontexts s)(context_data dst \<mapsto> m)\<rparr>"])
      (simp_all add: copy_context_darwin_def same_context_def write_ss_def run_simps Let_def)
qed

text \<open>The data that is allocated for a thread is separate from every context in use.\<close>

lemma allocate_context_data_darwin_fresh:
  assumes "allocate_context_data_darwin content s = ((0, data), s')" "same_context c s l"
  shows "data \<noteq> NULL" "mcontexts s' data = Some content" "data \<noteq> uc_mcontext c" "same_context c s' l"
proof -
  obtain p s1 where a: "alloc_ptr (mcontexts s) s = (p, s1)" by fastforce
  then have "s1 = s\<lparr>sys_count := Suc (sys_count s)\<rparr>" using alloc_ptr_state [of "mcontexts s" s] by simp
  moreover have "p \<noteq> NULL" "p = data" "s' = s1\<lparr>mcontexts := (mcontexts s1)(p \<mapsto> content)\<rparr>"
    using assms(1) a by (auto simp: allocate_context_data_darwin_def ENOMEM_def split: if_splits)
  moreover have "mcontexts s p = None" using alloc_ptr_fresh [OF a] calculation by simp
  ultimately show "data \<noteq> NULL" "mcontexts s' data = Some content" "data \<noteq> uc_mcontext c" "same_context c s' l"
    using assms(2) by (auto simp: same_context_def)
qed

subsection \<open>The dump\<close>

text \<open>
  With the log on, the dump of Darwin is always defined, and the one of Linux never is: it passes 32-bit values for
  the segment registers where the conversion reads 64 bits.
\<close>

lemma log_context_darwin_defined:
  assumes "same_context c s l"
  shows "\<exists>text. log_context_darwin E on file line c s out = Ret (Some text)"
  using assms
  by (auto simp: log_context_darwin_def same_context_def run_simps udi_log_def udi_log_formatted_def Let_def
      log_placeholder.simps)

lemma log_context_undefined: "log_context E True file line l out = None"
  by (auto simp: log_context_def WORDSIZE_def udi_log_def udi_log_formatted_def Let_def log_placeholder.simps
      bind_eq_None_conv split: option.splits)

subsection \<open>The program counter\<close>

lemma rip_same:
  assumes "same_context c s l"
  shows "read_ss (uc_mcontext c, ss_rip) s = Ret (get_pc l)"
    and "\<exists>s'. write_ss (uc_mcontext c, ss_rip) v s = Ret s' \<and> same_context c s' (set_pc l v)"
  using read_ss_same [OF assms, of ss_rip] write_ss_same [OF assms, of ss_rip]
  by (simp_all add: get_pc_def set_pc_def WORDSIZE_def)

lemma rewind_pc_set_pc: "rewind_pc l = set_pc l (get_pc l - 1)" "get_trap_address l = get_pc l - 1"
  by (simp_all add: rewind_pc_def set_pc_def get_pc_def get_trap_address_def WORDSIZE_def)

lemma get_pc_set_pc: "get_pc (set_pc l v) = v"
  by (simp add: get_pc_def set_pc_def WORDSIZE_def)

lemmas pc_darwin_defs = get_pc_darwin_def set_pc_darwin_def rewind_pc_darwin_def get_trap_address_darwin_def

interpretation darwin_context: stopped_context
    "\<lambda>s :: 'z darwin_state_scheme. \<exists>l. same_context c s l" "get_pc_darwin c" "set_pc_darwin c"
    "rewind_pc_darwin c" "get_trap_address_darwin c" for c
proof unfold_locales
  fix s :: "'z darwin_state_scheme" and v :: u64
  assume live: "\<exists>l. same_context c s l"
  then show "\<exists>v. get_pc_darwin c s = Ret v" using rip_same(1) by (auto simp: get_pc_darwin_def)
  show "\<exists>s'. set_pc_darwin c v s = Ret s' \<and> (\<exists>l. same_context c s' l) \<and> get_pc_darwin c s' = Ret v"
    using live rip_same by (fastforce simp: pc_darwin_defs get_pc_set_pc)
  assume pc: "get_pc_darwin c s = Ret v"
  then show "get_trap_address_darwin c s = Ret (v - 1)" by (simp add: pc_darwin_defs)
  show "\<exists>s'. rewind_pc_darwin c s = Ret s' \<and> (\<exists>l. same_context c s' l) \<and> get_pc_darwin c s' = Ret (v - 1)"
    using live pc rip_same by (fastforce simp: pc_darwin_defs get_pc_set_pc)
qed

text \<open>A trap behind the instruction at an address is reported at it, and the thread is rewound to it.\<close>

lemma darwin_trap_behind:
  fixes s :: "'z darwin_state_scheme"
  assumes "same_context c s l"
  shows "\<exists>s' s''. set_pc_darwin c (a + 1) s = Ret s' \<and> get_trap_address_darwin c s' = Ret a \<and>
    rewind_pc_darwin c s' = Ret s'' \<and> get_pc_darwin c s'' = Ret a"
  using assms by (intro darwin_context.trap_behind) blast

text \<open>The remaining readers of a context.\<close>

lemma readers_same:
  assumes "same_context c s l"
  shows "get_flags_darwin c s = Ret (get_flags l)"
    and "get_exit_argument_darwin c s = Ret (RESULT_SUCCESS, ucast (gregs l X86_64_RDI_OFFSET))"
    and "get_register_ud_type_darwin reg c s = get_register_ud_type reg l"
proof -
  show "get_register_ud_type_darwin reg c s = get_register_ud_type reg l"
    using ud_type_member_position [of reg] read_ss_same [OF assms]
    by (auto simp: get_register_ud_type_darwin_def get_register_ud_type_def Let_def split: option.splits if_splits)
qed (use read_ss_same [OF assms, of ss_rflags] read_ss_same [OF assms, of ss_rdi] in
  \<open>simp_all add: get_flags_darwin_def get_exit_argument_darwin_def get_flags_def WORDSIZE_def\<close>)

section \<open>Properties\<close>

text \<open>
  C40. Where the ports to Darwin and to Linux agree and where they differ. From contexts with the same registers the functions of the port to Darwin return
  the same program counter, flags, trap address, exit status and registers of an instruction, and changes of the program
  counter or of a register lead to contexts with the same registers again, for the registers that Darwin has. They differ in three points. The test for
  accessible registers of Darwin is inverted: it is 0 exactly for the accessible registers and -1 for the others, where Linux and the declaration in \<^verbatim>\<open>udirt-x86.h\<close> have
  a result other than 0 for the accessible ones. A register number that Darwin does not have is refused by reads and writes, and nothing is changed; among these are the segment
  word, which Linux has, and the floating-point registers, to which a write on Linux claims success, although it changes nothing either.
\<close>

theorem darwin_port_agrees:
  fixes t :: "'z mem_state_scheme"
  assumes same: "same_context c s l"
  shows "get_pc_darwin c s = Ret (get_pc l) \<and>
    get_trap_address_darwin c s = Ret (get_trap_address l) \<and>
    (\<exists>s'. rewind_pc_darwin c s = Ret s' \<and> same_context c s' (rewind_pc l)) \<and>
    (\<exists>s'. set_pc_darwin c v s = Ret s' \<and> same_context c s' (set_pc l v)) \<and>
    get_flags_darwin c s = Ret (get_flags l) \<and>
    run_bind (get_exit_argument_darwin c s) (\<lambda>(r, x). Ret (r, x, t)) = get_exit_argument E l status t \<and>
    get_register_ud_type_darwin reg c s = get_register_ud_type reg l \<and>
    is_accessible_register_darwin reg = (if is_accessible_register reg then 0 else - 1) \<and>
    (darwin_register r \<longrightarrow>
       get_register_darwin E r c s = Ret (fst (get_register E r l s), s) \<and>
       (\<exists>s'. set_register_darwin E r v c s = Ret (0, s') \<and> same_context c s' (snd (fst (set_register E r v l s))))) \<and>
    (\<not> darwin_register r \<longrightarrow>
       (\<exists>s'. get_register_darwin E r c s = Ret ((- 1, None), s') \<and> set_register_darwin E r v c s = Ret (- 1, s') \<and>
          mcontexts s' = mcontexts s)) \<and>
    (fp_register_number r \<longrightarrow> \<not> darwin_register r \<and> set_register E r v l s = ((0, l), s))"
proof (intro conjI impI)
  show "run_bind (get_exit_argument_darwin c s) (\<lambda>(r, x). Ret (r, x, t)) = get_exit_argument E l status t"
    by (simp add: readers_same(2) [OF same] get_exit_argument_def WORDSIZE_def)
  show "is_accessible_register_darwin reg = (if is_accessible_register reg then 0 else - 1)"
    using ud_type_member_position [of reg]
    by (auto simp: is_accessible_register_darwin_def is_accessible_register_def accessible_registers_members split: if_splits)
  show "\<exists>s'. get_register_darwin E r c s = Ret ((- 1, None), s') \<and> set_register_darwin E r v c s = Ret (- 1, s') \<and>
      mcontexts s' = mcontexts s" if "\<not> darwin_register r"
    using register_refused [OF that] by blast
  show "\<not> darwin_register r" "set_register E r v l s = ((0, l), s)" if "fp_register_number r"
    using set_register_fp [OF that] that by (simp_all add: darwin_register_def general_register_def fp_register_number_def)
qed (use rip_same [OF same] readers_same [OF same] get_register_same [OF same] set_register_same [OF same] in
  \<open>simp_all add: pc_darwin_defs rewind_pc_set_pc\<close>)

text \<open>A context whose registers hold their positions on Linux.\<close>

definition sample_darwin_state :: darwin_state where
  "sample_darwin_state = \<lparr>sys_oracle = (\<lambda>_. SysOk 0), sys_count = 0, errmsg = None,
     mcontexts = [1 \<mapsto> \<lparr>ss = (\<lambda>f. case linux_position f of Some i \<Rightarrow> word_of_int i | None \<Rightarrow> 0)\<rparr>]\<rparr>"

definition sample_darwin_context :: ucontext_darwin where
  "sample_darwin_context = \<lparr>uc_mcontext = 1, uc_sigmask_darwin = {}\<rparr>"

lemma sample_same_context:
  "same_context sample_darwin_context sample_darwin_state \<lparr>gregs = word_of_int, uc_sigmask = {}\<rparr>"
  by (auto simp: same_context_def same_registers_def sample_darwin_context_def sample_darwin_state_def)

theorem darwin_port_agrees_witness:
  "get_pc_darwin sample_darwin_context sample_darwin_state = Ret 16 \<and>
   get_register_darwin sample_env 29 sample_darwin_context sample_darwin_state = Ret ((0, Some 2), sample_darwin_state) \<and>
   is_accessible_register_darwin UD_R_RAX = 0 \<and>
   (\<exists>s'. set_register_darwin sample_env 44 7 sample_darwin_context sample_darwin_state = Ret (- 1, s'))"
  using darwin_port_agrees [OF sample_same_context, where t = sample_mem_state and E = sample_env and status = 0 and v = 7 and reg = UD_R_RAX and r = 29]
    darwin_port_agrees [OF sample_same_context, where t = sample_mem_state and E = sample_env and status = 0 and reg = UD_R_RAX and r = 44 and v = 7]
  by (auto simp: get_pc_def WORDSIZE_def offset_defs darwin_register_def general_register_def get_register_general
      general_register_offset is_accessible_register_def get_reg_context_offset_def)

end
