(* ===== verification/Windows_Pipes.thy ===== *)
theory Windows_Pipes
  imports Threads
begin

text \<open>
  The pipes of the port to Windows (\<^verbatim>\<open>udirt-win.c\<close>): transfers with overlapped operations, and the creation of
  a named pipe with the event that signals its connection. The rest of that port is unfinished. The transfers interpret the
  contract of a byte stream that the message layer relies on; the lemmas on the creation account
  for the handles. The names of functions that the POSIX files have too carry the suffix \<open>_win\<close>.
\<close>

section \<open>Definitions\<close>

definition ERROR_IO_PENDING :: nat where
  "ERROR_IO_PENDING = 997"

definition ERROR_PIPE_CONNECTED :: nat where
  "ERROR_PIPE_CONNECTED = 535"

subsection \<open>Transfers\<close>

text \<open>
  A call of \<^verbatim>\<open>ReadFile\<close> or \<^verbatim>\<open>WriteFile\<close>, and the wait for the result when the operation is pending: an
  error, or the bytes transferred.
\<close>

definition overlapped :: "('s \<Rightarrow> (nat + 'a) \<times> 's) \<Rightarrow> 's \<Rightarrow> (nat + 'a) \<times> 's" where
  "overlapped transfer s =
     (case transfer s of
        (Inr x, s) \<Rightarrow> (Inr x, s)
      | (Inl err, s) \<Rightarrow> if err \<noteq> ERROR_IO_PENDING then (Inl err, s) else transfer s)"

lemma overlapped_read_step:
  assumes "overlapped (sys_read fd n) s = (r, s')"
  shows "case r of Inr chunk \<Rightarrow> in_step fd s chunk s' \<and> length chunk \<le> n | Inl e \<Rightarrow> in_step fd s [] s' \<and> e \<noteq> 0"
proof -
  obtain a s1 where a: "sys_read fd n s = (a, s1)" by fastforce
  show ?thesis
    using assms a sys_read_step [OF a] in_step_trans [of fd s "[]" s1] sys_read_step [of fd n s1 r s']
    by (auto simp: overlapped_def split: sum.splits if_splits)
qed

lemma overlapped_write_step:
  assumes "overlapped (sys_write fd bs) s = (r, s')" and "bs \<noteq> []"
  shows "case r of Inr n \<Rightarrow> out_step fd s (take n bs) s' \<and> 0 < n \<and> n \<le> length bs | Inl e \<Rightarrow> out_step fd s [] s' \<and> e \<noteq> 0"
proof -
  obtain a s1 where a: "sys_write fd bs s = (a, s1)" by fastforce
  show ?thesis
    using assms a sys_write_step [OF a assms(2)] out_step_trans [of fd s "[]" s1] sys_write_step [of fd bs s1 r s']
    by (auto simp: overlapped_def split: sum.splits if_splits)
qed

text \<open>
  The loops end: a read that transfers nothing is the end of the stream, and a write of a
  nonempty buffer that succeeds transfers something.
\<close>

function read_from_win :: "nat \<Rightarrow> nat \<Rightarrow> u8 list \<Rightarrow> 'z io_state_scheme \<Rightarrow> (int \<times> u8 list) \<times> 'z io_state_scheme" where
  "read_from_win fd len dst s =
     (if length dst < len then
        (case overlapped (sys_read fd (len - length dst)) s of
           (Inl err, s') \<Rightarrow> ((int err, dst), s')
         | (Inr chunk, s') \<Rightarrow>
             if chunk = [] then ((- 1, dst), s') else read_from_win fd len (dst @ chunk) s')
      else ((0, dst), s))"
  by pat_completeness auto
termination
  by (relation "measure (\<lambda>(fd, len, dst, s). len - length dst)") (auto simp: diff_less_mono2)

function write_to_win :: "nat \<Rightarrow> u8 list \<Rightarrow> 'z io_state_scheme \<Rightarrow> nat \<times> 'z io_state_scheme" where
  "write_to_win fd src s =
     (if src \<noteq> [] then
        (case overlapped (sys_write fd src) s of
           (Inl err, s') \<Rightarrow> (err, s')
         | (Inr n, s') \<Rightarrow> write_to_win fd (drop n src) s')
      else (0, s))"
  by pat_completeness auto
termination
  by (relation "measure (\<lambda>(fd, src, s). length src)") (auto dest!: overlapped_write_step [OF sym])

declare read_from_win.simps [simp del] write_to_win.simps [simp del]

subsection \<open>Pipes\<close>

text \<open>
  The objects behind open handles, and the structure of a pipe. The value -1 is \<^verbatim>\<open>INVALID_HANDLE_VALUE\<close>.
\<close>

datatype win_object = Event | Pipe string bool

record udi_pipe_ctx =
  hEvent :: int
  pipe_handle :: int
  pipe_pending :: bool

record win_state = msg_state +
  objects :: "int \<rightharpoonup> win_object"

definition PIPE_NAME_BASE :: string where
  "PIPE_NAME_BASE = ''udi''"

definition INVALID_HANDLE_VALUE :: int where
  "INVALID_HANDLE_VALUE = - 1"

text \<open>A handle is new and positive; every other answer is an error.\<close>

definition new_handle :: "win_object \<Rightarrow> 'z win_state_scheme \<Rightarrow> (nat + int) \<times> 'z win_state_scheme" where
  "new_handle obj s =
     (case sys_call s of (r, s) \<Rightarrow>
        case r of
          SysErr e \<Rightarrow> (Inl (sys_errno r), s)
        | SysOk h \<Rightarrow> if h = 0 \<or> objects s (int h) \<noteq> None then (Inl 1, s)
                   else (Inr (int h), s\<lparr>objects := (objects s)(int h \<mapsto> obj)\<rparr>))"

definition CloseHandle :: "int \<Rightarrow> 'z win_state_scheme \<Rightarrow> 'z win_state_scheme" where
  "CloseHandle h s = s\<lparr>objects := (objects s)(h := None)\<rparr>"

text \<open>
  The body of the \<^verbatim>\<open>do\<close> block: the structure, and the result with the value of \<open>pipe\<close>. That
  variable is not initialised and holds \<open>junk\<close> when the event cannot be made.
\<close>

definition make_pipe ::
    "env \<Rightarrow> string \<Rightarrow> string \<Rightarrow> bool \<Rightarrow> int \<Rightarrow> udi_pipe_ctx \<Rightarrow> 'z win_state_scheme \<Rightarrow> (int \<times> int \<times> udi_pipe_ctx) \<times> 'z win_state_scheme" where
  "make_pipe E name suffix input junk out s =
     (case (if input then new_handle Event s else (Inr INVALID_HANDLE_VALUE, s)) of
        (Inl err, s) \<Rightarrow>
          ((RESULT_ERROR, junk, out),
           udi_set_errmsg E ''error creating %s pipe: %e'' [ArgStr suffix, ArgInt (int err)] s)
      | (Inr event, s) \<Rightarrow>
          let out = out\<lparr>hEvent := event\<rparr> in
          (case new_handle (Pipe name input) s of
             (Inl err, s) \<Rightarrow>
               ((RESULT_ERROR, INVALID_HANDLE_VALUE, out),
                udi_set_errmsg E ''error creating %s pipe: %e'' [ArgStr suffix, ArgInt (int err)] s)
           | (Inr pipe, s) \<Rightarrow>
               if input then
                 (case sys_call s of (r, s) \<Rightarrow>
                    if \<not> sys_failed r \<or> sys_errno r = ERROR_PIPE_CONNECTED
                    then ((RESULT_SUCCESS, pipe, out\<lparr>pipe_pending := False\<rparr>), s)
                    else if sys_errno r = ERROR_IO_PENDING
                    then ((RESULT_SUCCESS, pipe, out\<lparr>pipe_pending := True\<rparr>), s)
                    else ((RESULT_ERROR, pipe, out),
                          udi_set_errmsg E ''failed to connect %s pipe: %e'' [ArgStr suffix, ArgInt (int (sys_errno r))] s))
               else ((RESULT_SUCCESS, pipe, out), s)))"

definition create_udi_pipe ::
    "env \<Rightarrow> int \<Rightarrow> int \<Rightarrow> string \<Rightarrow> bool \<Rightarrow> 'z win_state_scheme \<Rightarrow> ((int \<times> udi_pipe_ctx) \<times> 'z win_state_scheme) run" where
  "create_udi_pipe E pid junk suffix input s =
     run_bind (formatted E 128 (CHR 0x5C # CHR 0x5C # CHR ''.'' # CHR 0x5C # ''pipe'' @ CHR 0x5C # ''%s-%d-%s'')
       [ArgStr PIPE_NAME_BASE, ArgInt pid, ArgStr suffix]) (\<lambda>pipe_name.
     let out = \<lparr>hEvent = INVALID_HANDLE_VALUE, pipe_handle = INVALID_HANDLE_VALUE, pipe_pending = False\<rparr> in
     case make_pipe E pipe_name suffix input junk out s of ((result, pipe, out), s) \<Rightarrow>
       if result = RESULT_SUCCESS then Ret ((result, out\<lparr>pipe_handle := pipe\<rparr>), s)
       else
         let out = out\<lparr>pipe_handle := INVALID_HANDLE_VALUE\<rparr>;
             (out, s) = (if hEvent out \<noteq> INVALID_HANDLE_VALUE
                         then (out\<lparr>hEvent := INVALID_HANDLE_VALUE\<rparr>, CloseHandle (hEvent out) s) else (out, s));
             s = (if pipe \<noteq> INVALID_HANDLE_VALUE then CloseHandle pipe s else s)
         in Ret ((result, out), s))"

definition connect_pipe ::
    "env \<Rightarrow> string \<Rightarrow> udi_pipe_ctx \<Rightarrow> 'z win_state_scheme \<Rightarrow> int \<times> 'z win_state_scheme" where
  "connect_pipe E suffix pipe_ctx s =
     (if pipe_pending pipe_ctx then
        (case sys_call s of (r, s) \<Rightarrow>
           if sys_failed r
           then (RESULT_ERROR, udi_set_errmsg E ''failed to wait for %s pipe to connect: %e''
                   [ArgStr suffix, ArgInt (int (sys_errno r))] s)
           else (RESULT_SUCCESS, s))
      else (RESULT_SUCCESS, s))"

section \<open>Transfers\<close>

lemma read_from_win_contract:
  assumes "length dst \<le> n" "read_from_win fd n dst s = ((r, out), s')"
  shows "\<exists>new. out = dst @ new \<and> in_step fd s new s' \<and> (r = 0 \<longrightarrow> length out = n)"
  using assms
proof (induction fd n dst s rule: read_from_win.induct)
  case (1 fd n dst s)
  obtain a s1 where a: "overlapped (sys_read fd (n - length dst)) s = (a, s1)" by fastforce
  note step = overlapped_read_step [OF a]
  show ?case
  proof (cases "length dst < n \<and> (\<exists>chunk. a = Inr chunk \<and> chunk \<noteq> [])")
    case True
    then obtain chunk where chunk: "a = Inr chunk" "chunk \<noteq> []" "length dst < n" by blast
    then have "read_from_win fd n (dst @ chunk) s1 = ((r, out), s')" "length (dst @ chunk) \<le> n"
      using "1.prems" a step by (auto simp: read_from_win.simps [of fd n dst])
    with "1.IH" chunk a obtain new where "out = (dst @ chunk) @ new" "in_step fd s1 new s'" "r = 0 \<longrightarrow> length out = n"
      by metis
    then show ?thesis using step chunk(1) in_step_trans [of fd s chunk s1] by auto
  next
    case False
    then show ?thesis using "1.prems" a step
      by (auto simp: read_from_win.simps [of fd n dst] split: if_splits sum.splits)
  qed
qed

lemma write_to_win_contract:
  "write_to_win fd bs s = (r, s') \<Longrightarrow> \<exists>k\<le>length bs. out_step fd s (take k bs) s' \<and> (r = 0 \<longrightarrow> k = length bs)"
proof (induction fd bs s rule: write_to_win.induct)
  case (1 fd bs s)
  obtain a s1 where a: "overlapped (sys_write fd bs) s = (a, s1)" by fastforce
  show ?case
  proof (cases "bs \<noteq> [] \<and> (\<exists>n. a = Inr n)")
    case True
    then obtain n where n: "a = Inr n" "bs \<noteq> []" by blast
    then have "write_to_win fd (drop n bs) s1 = (r, s')" and n': "n \<le> length bs" "out_step fd s (take n bs) s1"
      using "1.prems" a overlapped_write_step [OF a] by (simp_all add: write_to_win.simps [of fd bs])
    with "1.IH" n a obtain k where k: "k \<le> length bs - n" "out_step fd s1 (take k (drop n bs)) s'"
      "r = 0 \<longrightarrow> k = length bs - n" by (metis length_drop)
    then have "out_step fd s (take (n + k) bs) s'"
      using out_step_trans [OF n'(2)] by (simp add: take_add)
    then show ?thesis using k n' by (intro exI [of _ "n + k"]) auto
  next
    case False
    then show ?thesis using "1.prems" a overlapped_write_step [OF a]
      by (auto simp: write_to_win.simps [of fd bs] split: if_splits sum.splits)
  qed
qed

text \<open>The transfers of Windows keep the contract of a byte stream, as those of POSIX do, and always return.\<close>

interpretation win_stream: byte_stream
    "\<lambda>fd n s. Some (read_from_win fd n [] s)" "\<lambda>fd bs s. Some (write_to_win fd bs s)" in_data out_data
proof unfold_locales
  fix fd n r bs and s s' :: "'a io_state_scheme"
  assume "Some (read_from_win fd n [] s) = Some ((r, bs), s')"
  then have "in_step fd s bs s'" using read_from_win_contract [of "[]" n fd s r bs s'] by auto
  then show "in_data s fd = bs @ in_data s' fd" "out_data s' = out_data s" by (simp_all add: in_step_def)
next
  fix fd n bs and s s' :: "'a io_state_scheme"
  assume "Some (read_from_win fd n [] s) = Some ((0, bs), s')"
  then show "length bs = n" using read_from_win_contract [of "[]" n fd s 0 bs s'] by auto
next
  fix fd bs e and s s' :: "'a io_state_scheme"
  assume w: "Some (write_to_win fd bs s) = Some (e, s')"
  then obtain k where "out_step fd s (take k bs) s'"
    using write_to_win_contract [of fd bs s e s'] by auto
  then show "\<exists>k. out_data s' fd = out_data s fd @ take k bs" "in_data s' = in_data s"
    by (auto simp: out_step_def)
next
  fix fd bs and s s' :: "'a io_state_scheme"
  assume "Some (write_to_win fd bs s) = Some (0, s')"
  then show "out_data s' fd = out_data s fd @ bs"
    using write_to_win_contract [of fd bs s 0 s'] by (auto simp: out_step_def)
qed

text \<open>Two receives in a row deliver what one receive of both sizes would.\<close>

lemma read_from_win_twice:
  assumes "read_from_win fd n [] s = ((0, bs), s1)" and "read_from_win fd m [] s1 = ((0, cs), s2)"
  shows "bs @ cs = take (n + m) (in_data s fd)"
  using assms by (intro win_stream.recv_recv(1)) simp_all

section \<open>Handles\<close>

lemma udi_set_errmsg_objects [simp]: "objects (udi_set_errmsg E fmt args s) = objects s"
  by (simp add: udi_set_errmsg_def)

lemma new_handle_cases:
  assumes "new_handle obj s = (r, s')"
  obtains (failed) e where "r = Inl e" "objects s' = objects s"
  | (made) h where "r = Inr h" "0 < h" "objects s h = None" "objects s' = (objects s)(h \<mapsto> obj)"
  using assms by (auto simp: new_handle_def sys_call_def split: sysret.splits if_splits)

text \<open>
  A pipe that is made has its own handle, and an event exactly when it is an input. A pipe that
  cannot be made leaves no handle behind; but when its event cannot be made the code closes whatever handle
  the uninitialised variable names.
\<close>

definition pipe_made :: "bool \<Rightarrow> (int \<rightharpoonup> win_object) \<Rightarrow> udi_pipe_ctx \<Rightarrow> (int \<rightharpoonup> win_object) \<Rightarrow> bool" where
  "pipe_made input h out h' \<longleftrightarrow>
     h (pipe_handle out) = None \<and>
     (\<exists>name. h' = (if input then h(hEvent out \<mapsto> Event) else h)(pipe_handle out \<mapsto> Pipe name input)) \<and>
     (if input then h (hEvent out) = None \<and> hEvent out \<noteq> pipe_handle out else hEvent out = INVALID_HANDLE_VALUE)"

lemma make_pipe_cases:
  assumes "make_pipe E name suffix input junk out s = ((result, pipe, out'), s')"
  obtains (no_event) "input" "result = RESULT_ERROR" "pipe = junk" "out' = out" "objects s' = objects s"
  | (no_pipe) event h where "result = RESULT_ERROR" "pipe = INVALID_HANDLE_VALUE" "hEvent out' = event"
      "if input then 0 < event \<and> objects s event = None \<and> h = (objects s)(event \<mapsto> Event)
       else event = INVALID_HANDLE_VALUE \<and> h = objects s" "objects s' = h"
  | (pipe) event h where "result = RESULT_ERROR \<and> input \<or> result = RESULT_SUCCESS" "hEvent out' = event"
      "if input then 0 < event \<and> objects s event = None \<and> h = (objects s)(event \<mapsto> Event)
       else event = INVALID_HANDLE_VALUE \<and> h = objects s"
      "0 < pipe" "h pipe = None" "objects s' = h(pipe \<mapsto> Pipe name input)"
proof -
  obtain a s1 where a: "(if input then new_handle Event s else (Inr INVALID_HANDLE_VALUE, s)) = (a, s1)" by fastforce
  show thesis
  proof (cases a)
    case (Inl e)
    then have "input" "new_handle Event s = (Inl e, s1)" using a by (auto split: if_splits)
    then show thesis using assms by (auto simp: make_pipe_def elim!: new_handle_cases intro: no_event)
  next
    case (Inr event)
    then have e: "if input then 0 < event \<and> objects s event = None \<and> objects s1 = (objects s)(event \<mapsto> Event)
       else event = INVALID_HANDLE_VALUE \<and> objects s1 = objects s"
      using a by (auto split: if_splits elim!: new_handle_cases)
    obtain b s2 where b: "new_handle (Pipe name input) s1 = (b, s2)" by fastforce
    then show thesis
    proof (cases rule: new_handle_cases)
      case (failed err)
      then show thesis using assms a b Inr e by (intro no_pipe) (auto simp: make_pipe_def Let_def)
    next
      case (made h)
      then show thesis using assms a b Inr e
        by (intro pipe) (auto simp: make_pipe_def Let_def sys_call_def split: if_splits)
    qed
  qed
qed

lemma create_udi_pipe_handles:
  assumes "create_udi_pipe E pid junk suffix input s = Ret ((result, out), s')"
  shows "result = RESULT_SUCCESS \<and> pipe_made input (objects s) out (objects s') \<or>
    result = RESULT_ERROR \<and> pipe_handle out = INVALID_HANDLE_VALUE \<and> hEvent out = INVALID_HANDLE_VALUE \<and>
      (objects s' = objects s \<or> input \<and> objects s' = (objects s)(junk := None))"
proof -
  define out0 where "out0 = \<lparr>hEvent = INVALID_HANDLE_VALUE, pipe_handle = INVALID_HANDLE_VALUE, pipe_pending = False\<rparr>"
  obtain name where body: "(case make_pipe E name suffix input junk out0 s of ((result, pipe, out), s) \<Rightarrow>
       if result = RESULT_SUCCESS then Ret ((result, out\<lparr>pipe_handle := pipe\<rparr>), s)
       else
         let out = out\<lparr>pipe_handle := INVALID_HANDLE_VALUE\<rparr>;
             (out, s) = (if hEvent out \<noteq> INVALID_HANDLE_VALUE
                         then (out\<lparr>hEvent := INVALID_HANDLE_VALUE\<rparr>, CloseHandle (hEvent out) s) else (out, s));
             s = (if pipe \<noteq> INVALID_HANDLE_VALUE then CloseHandle pipe s else s)
         in Ret ((result, out), s)) = Ret ((result, out), s')"
    using assms by (auto simp: create_udi_pipe_def out0_def Let_def run_bind_eq_Ret)
  obtain result0 pipe out' s1 where m: "make_pipe E name suffix input junk out0 s = ((result0, pipe, out'), s1)"
    by (metis prod.collapse)
  then show ?thesis
  proof (cases rule: make_pipe_cases)
    case no_event
    then show ?thesis using body m
      by (auto simp: result_defs Let_def out0_def CloseHandle_def split: if_splits)
  next
    case (no_pipe event h)
    then show ?thesis using body m
      by (auto simp: result_defs Let_def INVALID_HANDLE_VALUE_def CloseHandle_def fun_upd_idem split: if_splits)
  next
    case (pipe event h)
    then show ?thesis using body m
      by (auto simp: result_defs Let_def INVALID_HANDLE_VALUE_def CloseHandle_def pipe_made_def fun_upd_idem
          fun_upd_twist split: if_splits)
  qed
qed

text \<open>The wait for a connection keeps the handles, and a pipe that is not pending needs no wait.\<close>

lemma connect_pipe_handles:
  assumes "connect_pipe E suffix c s = (result, s')"
  shows "objects s' = objects s" and "\<not> pipe_pending c \<Longrightarrow> result = RESULT_SUCCESS \<and> s' = s"
  using assms by (auto simp: connect_pipe_def sys_call_def split: if_splits)

end
