(* ===== verification/Spec2Isabelle.thy ===== *)
theory Spec2Isabelle
  imports Well_Formed Darwin_X86 Windows_Pipes
begin

text \<open>
  Verification of libudirt, the runtime library of the UDI debugger interface
  (\<^verbatim>\<open>src/libudirt/src\<close>). The library is loaded into the debuggee. It talks with the debugger over named pipes in
  messages of the CBOR encoding, handles the signals of the process, and executes the requests of the debugger inside the process:
  it reads and writes memory and registers, manages breakpoints, steps over them, and stops and releases threads. The
  model follows the build for Linux on 64-bit x86.

  \<^bold>\<open>Parts and theories.\<close> Each theory models the code named with it, in the order of the calls.

  \<^item> \<open>Udirt_Prelude\<close>: result codes; the outcome of a C function (\<open>Ret\<close>, \<open>Abort\<close> for a call of \<^verbatim>\<open>udi_abort\<close>, \<open>Stuck\<close>
    when the C program has no defined continuation: a null or dangling pointer, an index out of range, a loop that never ends);
    the operating system as an oracle that answers the \<open>n\<close>-th call, so that a theorem for all states is one for all its behaviours.
  \<^item> \<open>Environment\<close>: the code outside the repository that the library calls, the CBOR library and the disassembler, as a record of functions
    that the definitions take as an argument, with the documented behaviour that is relied on as predicates.
  \<^item> \<open>Formatting\<close>: formatted output (\<^verbatim>\<open>udirt.c\<close> from \<^verbatim>\<open>udi_log_string\<close> to \<^verbatim>\<open>udi_formatted_str\<close>, \<^verbatim>\<open>udi_set_errmsg\<close>).
  \<^item> \<open>Protocol\<close>: the enumerations and payloads of \<^verbatim>\<open>udi.h\<close>, their printed names and the validation of registers (\<^verbatim>\<open>udirt.c\<close>).
  \<^item> \<open>Memory_Access\<close>: the copy from and to the debuggee under the fault handler (\<^verbatim>\<open>udirt.c\<close> \<^verbatim>\<open>abortable_memcpy\<close> to
    \<^verbatim>\<open>write_memory\<close>; \<^verbatim>\<open>udirt-posix.c\<close> the hooks and \<^verbatim>\<open>decode_memory_access_event\<close>), with page protection and the signal mask.
  \<^item> \<open>Breakpoint\<close>: the hash table of breakpoints as linked objects of a heap, and the trap instructions in memory (\<^verbatim>\<open>udirt.c\<close>,
    \<^verbatim>\<open>udirt-x86.c\<close>). The locale \<open>address_table\<close> is the contract of a finite map; the table interprets it.
  \<^item> \<open>Linux_X86\<close>: register positions, program counter, flags, access by register number, dump of a context (\<^verbatim>\<open>udirt-linux-x86.c\<close>).
    The locales \<open>register_file\<close> and \<open>stopped_context\<close> are the contracts that the requests and the decoding of traps rely on.
  \<^item> \<open>Darwin_X86\<close>: the same functions for Darwin (\<^verbatim>\<open>udirt-darwin-x86-64.c\<close>), where the registers are behind a pointer and a context is
    copied with the structure it points to; it interprets \<open>stopped_context\<close> too.
  \<^item> \<open>X86\<close>: conditions, targets and successor of an instruction (\<^verbatim>\<open>udirt-x86.c\<close>).
  \<^item> \<open>Cbor_Read\<close>: transfers with retries, the reader of items and of request data with its callbacks, responses
    (\<^verbatim>\<open>udirt-posix.c\<close> \<^verbatim>\<open>read_from\<close>, \<^verbatim>\<open>write_to\<close>; \<^verbatim>\<open>udirt-msg.c\<close> up to \<^verbatim>\<open>write_response_no_data\<close>).
  \<^item> \<open>Threads\<close>: the list of thread structures, their accessors and files (\<^verbatim>\<open>udirt-posix-pthreads.c\<close>, \<^verbatim>\<open>udirt-posix.c\<close>).
  \<^item> \<open>Requests\<close>: configuration and handler of every request, the tables of handlers, dispatch, the initial handshake (\<^verbatim>\<open>udirt-msg.c\<close>).
    \<open>Dispatch\<close> has the locale \<open>request_handler\<close>, the contract that a handler answers exactly when it succeeds, interpreted for every
    handler of both tables; \<open>Request_Effects\<close> follows single requests from the wire to their effect.
  \<^item> \<open>Events\<close>: event messages, the decoding of a trap, the step over a breakpoint, single steps, the handshakes that open the
    streams (\<^verbatim>\<open>udirt-msg.c\<close> from \<^verbatim>\<open>write_event\<close>, \<^verbatim>\<open>udirt-posix-sys.c\<close>, \<^verbatim>\<open>udirt-posix.c\<close>).
  \<^item> \<open>Wait_Loop\<close>: \<^verbatim>\<open>block_for_request\<close> and \<^verbatim>\<open>wait_and_execute_command\<close> (\<^verbatim>\<open>udirt-posix.c\<close>).
  \<^item> \<open>Thread_Barrier\<close>: \<^verbatim>\<open>block_other_threads\<close> and \<^verbatim>\<open>release_other_threads\<close> (\<^verbatim>\<open>udirt-posix.c\<close>) with the signal handler around them,
    as an interleaving of the threads at the granularity of shared accesses.
  \<^item> \<open>Signals\<close>: the table of the actions of the application, the interposed \<^verbatim>\<open>sigaction\<close> and \<^verbatim>\<open>signal\<close>, installation and removal of the
    handlers of the library, the passing on of signals, and \<^verbatim>\<open>udi_abort_file_line\<close> (\<^verbatim>\<open>udirt-posix-sys.c\<close>, \<^verbatim>\<open>udirt-posix.c\<close>). The locale \<open>signal_actions\<close> is
    the contract of a \<^verbatim>\<open>sigaction\<close>; the system call and the wrapper interpret it.
  \<^item> \<open>Signal_Entry\<close>: \<^verbatim>\<open>signal_entry_impl\<close> as one thread executes it, with the two functions that block and release the others
    over the linked list of threads; what the others do where it waits is an argument (\<^verbatim>\<open>udirt-posix.c\<close>).
  \<^item> \<open>Process_Init\<close>: the files of the process and \<^verbatim>\<open>init_udirt\<close> (\<^verbatim>\<open>udirt-posix.c\<close>).
  \<^item> \<open>Wrappers\<close>: the interposed \<^verbatim>\<open>fork\<close>, \<^verbatim>\<open>execve\<close>, \<^verbatim>\<open>pthread_create\<close> and \<^verbatim>\<open>pthread_exit\<close> with the handshake between a thread and its creator
    (\<^verbatim>\<open>udirt-posix-sys.c\<close>, \<^verbatim>\<open>udirt-posix-pthreads.c\<close>).
  \<^item> \<open>Well_Formed\<close>: the table of breakpoints and the list of threads are well formed after the initialisation and stay so in every
    entry of the library: each signal, each interposed function, each request. The locale \<open>kept\<close> of \<open>Dispatch\<close> is the contract of an
    invariant of the request layer; it is interpreted for this one and for the bytes sent.
  \<^item> \<open>Windows_Pipes\<close>: the transfers and the named pipes of the port to Windows (\<^verbatim>\<open>udirt-win.c\<close>), which interpret the locale \<open>byte_stream\<close> of
    \<open>Cbor_Read\<close> as the transfers of POSIX do.

  \<^bold>\<open>State.\<close> The static variables of the C files are fields of records that extend each other: \<open>sys_state\<close> (the oracle),
  \<open>msg_state\<close> (the message of an error), \<open>mem_state\<close>, \<open>bp_state\<close>, \<open>io_state\<close>, \<open>thr_state\<close>, \<open>req_state\<close>, \<open>evt_state\<close>, \<open>sig_state\<close>, \<open>proc_state\<close>. An operation takes the smallest of them with any
  extension, so that it applies to the states of all later components. Pointers are numbers into typed heaps (partial maps); descriptors index
  the bytes still to be read and the bytes written. Machine integers are words of their width.

  \<^bold>\<open>Loops.\<close> A loop over a linked structure or over answers of the system is a \<open>partial_function (option)\<close>: not returning is the value
  \<open>None\<close>, which \<open>of_option\<close> turns into \<open>Stuck\<close>. That such a loop returns is proved, from the shape of the structure or from the system
  not failing; no fuel is used.

  \<^bold>\<open>What is shown.\<close> Breakpoints: installation changes one byte and keeps the memory the debuggee would have without breakpoints, the table is a
  finite map, creation, installation and deletion cancel, and a hit breakpoint is reported, stepped over and put back.
  Memory: a write stores all bytes through protected pages and restores the mask as long as the range that the fault handler opens covers it, and never returns otherwise; a fault is reported.
  Successors are those of the processor, specified by register positions, sign extension and conditions of their own, up to far transfers, targets in memory and the
  conditions that the code computes wrongly. Messages: reading takes exactly the bytes asked for, every request that ends has one response, which says how
  it ended, and the wait loop answers in order up to an error or a continue request. Requests on the wire have their effect on table, memory, registers and signals, and the handshake opens the streams, makes the first thread and answers the init request. Threads: the list refines a sequence,
  the files of a thread are made at its creation and removed after its death, and, unless a suspended thread releases the others, while one thread handles an event all others are stopped and no event is lost. Signals: the application sees the actions that it would see without the library. A signal that
  the library does not decode, and a fork, are reported, requests are served up to the continue request, and the thread goes on and wakes the others; blocking signals exactly the threads that have to stop, and releasing either hands the control on or wakes exactly the running ones. The initialisation has everything in place before the debugger is contacted,
  and no entry breaks the linked structures. The register context of Darwin agrees with the one of Linux but for an inverted test and the registers it lacks. Several
  theorems state where the code does not do what it means to; each says so in its text.

  \<^bold>\<open>Not modelled.\<close> In a memory access, what the handler does around the decoding of the fault (\<open>Memory_Access\<close>); the handler as a whole is in \<open>Signal_Entry\<close>. A call of \<^verbatim>\<open>sigaction\<close> that passes one object as the new and
  the old action. Events on the number of the suspend signal that do not come from the library. The lock of the log, and the messages to the log in the components above formatting (the log is off there). The vendored allocator \<^verbatim>\<open>dlmalloc.c\<close>: an allocation is an answer of the system, any
  fresh pointer or null. The rest of the port to Windows: its functions on threads, registers and breakpoints are stubs, and its handshakes name variables that
  are not declared. The debugger side of the protocol in Rust, with the header of its C interface (\<^verbatim>\<open>libudi.h\<close>, declarations only), which runs in another process. The drivers of the tests.
\<close>

end
